(* ===== verification/Prelude.thy ===== *)
theory Prelude
  imports Main "HOL-Library.Sublist"
begin

text \<open>
  Shared vocabulary of the development: the error values that stand for the Python
  exceptions of the sources, the error monad that sequences fallible steps, and the
  predicate that a fuelled loop was not stopped early.  Python integers are \<open>int\<close> throughout,
  so nothing wraps unless the source masks.
\<close>

section \<open>Errors as values\<close>

text \<open>
  Every exception class the modelled code raises.  The message texts are not modelled.
  \<open>OutOfFuel\<close> is no exception of the sources: it marks a fuelled loop that was stopped early,
  and each component proves that its own entry points never return it.
\<close>

datatype py_error =
    AssertionError | ValueError | IndexError | KeyError | TypeError | StopIteration
  | DecompFailure | AttributeError | PyException | InstrProcessingFailure | ReplayError | ScoreError
  | OSError | OverflowError | OutOfFuel

type_synonym 'a res = "py_error + 'a"

definition ebind :: "'a res \<Rightarrow> ('a \<Rightarrow> 'b res) \<Rightarrow> 'b res" where
  "ebind m f = (case m of Inl e \<Rightarrow> Inl e | Inr x \<Rightarrow> f x)"

definition py_assert :: "bool \<Rightarrow> unit res" where
  "py_assert b = (if b then Inr () else Inl AssertionError)"

fun emap :: "('a \<Rightarrow> 'b res) \<Rightarrow> 'a list \<Rightarrow> 'b list res" where
  "emap f [] = Inr []"
| "emap f (x # xs) = ebind (f x) (\<lambda>y. ebind (emap f xs) (\<lambda>ys. Inr (y # ys)))"

definition is_err :: "'a res \<Rightarrow> bool" where
  "is_err r = (case r of Inl _ \<Rightarrow> True | Inr _ \<Rightarrow> False)"

named_theorems res_simps "rewriting of the error monad"

lemma ebind_Inl [simp, res_simps]: "ebind (Inl e) f = Inl e"
  by (simp add: ebind_def)

lemma ebind_Inr [simp, res_simps]: "ebind (Inr x) f = f x"
  by (simp add: ebind_def)

lemma ebind_assoc: "ebind (ebind m f) g = ebind m (\<lambda>x. ebind (f x) g)"
  by (simp add: ebind_def split: sum.split)

lemma ebind_eq_Inr_iff [res_simps]:
  "ebind m f = Inr y \<longleftrightarrow> (\<exists>x. m = Inr x \<and> f x = Inr y)"
  by (simp add: ebind_def split: sum.split)

lemma ebind_eq_Inl_iff:
  "ebind m f = Inl e \<longleftrightarrow> m = Inl e \<or> (\<exists>x. m = Inr x \<and> f x = Inl e)"
  by (auto simp: ebind_def split: sum.splits)

lemma ebind_InrE [elim!]:
  assumes "ebind m f = Inr y"
  obtains x where "m = Inr x" and "f x = Inr y"
  using assms by (auto simp: ebind_eq_Inr_iff)

lemma ebind_cong [fundef_cong]:
  assumes "m = m'" and "\<And>x. m' = Inr x \<Longrightarrow> f x = g x"
  shows "ebind m f = ebind m' g"
  using assms by (cases m') (simp_all add: ebind_def)

lemma py_assert_Inr [simp, res_simps]: "py_assert b = Inr u \<longleftrightarrow> b"
  by (simp add: py_assert_def)

lemma py_assert_True [simp]: "py_assert True = Inr ()"
  by (simp add: py_assert_def)

lemma py_assert_False [simp]: "py_assert False = Inl AssertionError"
  by (simp add: py_assert_def)

lemma py_assert_Inl [simp, res_simps]: "py_assert b = Inl e \<longleftrightarrow> \<not> b \<and> e = AssertionError"
  by (auto simp: py_assert_def)

lemma is_err_simps [simp]: "is_err (Inl e)" "\<not> is_err (Inr x)"
  by (simp_all add: is_err_def)

text \<open>
  \<open>no_fuel r\<close> says that a computation was not stopped by its fuel.  The rule for
  \<^const>\<open>ebind\<close> lets a totality proof follow the shape of the program.
\<close>

definition no_fuel :: "'a res \<Rightarrow> bool" where
  "no_fuel r \<longleftrightarrow> r \<noteq> Inl OutOfFuel"

named_theorems no_fuel_intros "facts that a step does not run out of fuel"

lemma no_fuel_Inr [simp, no_fuel_intros]: "no_fuel (Inr x)"
  by (simp add: no_fuel_def)

lemma no_fuel_Inl [simp]: "no_fuel (Inl e) \<longleftrightarrow> e \<noteq> OutOfFuel"
  by (simp add: no_fuel_def)

lemma no_fuel_assert [simp, no_fuel_intros]: "no_fuel (py_assert b)"
  by (simp add: no_fuel_def)

lemma no_fuel_ebind [no_fuel_intros]:
  assumes "no_fuel m" and "\<And>x. m = Inr x \<Longrightarrow> no_fuel (f x)"
  shows "no_fuel (ebind m f)"
  using assms by (cases m) (simp_all add: no_fuel_def)

lemma no_fuel_emap [no_fuel_intros]:
  assumes "\<And>x. x \<in> set xs \<Longrightarrow> no_fuel (f x)"
  shows "no_fuel (emap f xs)"
  using assms by (induction xs) (auto intro!: no_fuel_ebind)

lemma emap_Inr: "(\<And>x. x \<in> set xs \<Longrightarrow> f x = Inr (g x)) \<Longrightarrow> emap f xs = Inr (map g xs)"
  by (induction xs) auto

lemma length_emap: "emap f xs = Inr ys \<Longrightarrow> length ys = length xs"
  by (induction xs arbitrary: ys) auto

lemma no_fuel_if [no_fuel_intros]:
  assumes "b \<Longrightarrow> no_fuel x" and "\<not> b \<Longrightarrow> no_fuel y"
  shows "no_fuel (if b then x else y)"
  using assms by simp

text \<open>A loop over a list that may raise.\<close>

fun efold :: "('a \<Rightarrow> 's \<Rightarrow> 's res) \<Rightarrow> 'a list \<Rightarrow> 's \<Rightarrow> 's res" where
  "efold f [] s = Inr s"
| "efold f (x # xs) s = ebind (f x s) (efold f xs)"

lemma efold_inv:
  "(\<And>x s. x \<in> set xs \<Longrightarrow> I s \<Longrightarrow> \<exists>s'. f x s = Inr s' \<and> I s') \<Longrightarrow> I s \<Longrightarrow> \<exists>s'. efold f xs s = Inr s' \<and> I s'"
proof (induction xs arbitrary: s)
  case (Cons x xs)
  from Cons.prems obtain s1 where "f x s = Inr s1" "I s1" by (meson list.set_intros(1))
  with Cons show ?case by simp
qed simp

lemma efold_Inr_inv:
  "efold f xs s = Inr s' \<Longrightarrow> I s \<Longrightarrow> (\<And>x s s'. x \<in> set xs \<Longrightarrow> I s \<Longrightarrow> f x s = Inr s' \<Longrightarrow> I s') \<Longrightarrow> I s'"
proof (induction xs arbitrary: s)
  case (Cons x xs)
  from Cons.prems(1) obtain s1 where s1: "f x s = Inr s1" "efold f xs s1 = Inr s'" by auto
  have "I s1" using Cons.prems(3) [OF _ Cons.prems(2) s1(1)] by simp
  show ?case by (rule Cons.IH [OF s1(2) \<open>I s1\<close>], rule Cons.prems(3)) simp_all
qed simp

lemma no_fuel_efold:
  assumes "\<And>x s. x \<in> set xs \<Longrightarrow> I s \<Longrightarrow> no_fuel (f x s)" and "\<And>x s s'. x \<in> set xs \<Longrightarrow> I s \<Longrightarrow> f x s = Inr s' \<Longrightarrow> I s'"
  shows "I s \<Longrightarrow> no_fuel (efold f xs s)"
  using assms
proof (induction xs arbitrary: s)
  case (Cons x xs)
  show ?case unfolding efold.simps
  proof (rule no_fuel_ebind)
    show "no_fuel (f x s)" using Cons.prems(2) [OF _ Cons.prems(1)] by simp
    fix s1 assume "f x s = Inr s1"
    then have "I s1" using Cons.prems(3) [of x s s1] Cons.prems(1) by simp
    then show "no_fuel (efold f xs s1)" by (rule Cons.IH) (rule Cons.prems(2), simp_all, rule Cons.prems(3), simp_all)
  qed
qed simp

lemma efold_prefix:
  assumes "efold f zs s = Inr s'" and "I [] s"
    and "\<And>ps q rest s s'. zs = ps @ q # rest \<Longrightarrow> I ps s \<Longrightarrow> f q s = Inr s' \<Longrightarrow> I (ps @ [q]) s'"
  shows "I zs s'"
proof -
  have "zs = ps @ qs \<Longrightarrow> efold f qs s = Inr s' \<Longrightarrow> I ps s \<Longrightarrow> I zs s'" for ps qs s
  proof (induction qs arbitrary: ps s)
    case (Cons q qs)
    then obtain s1 where "f q s = Inr s1" "efold f qs s1 = Inr s'" by auto
    then show ?case using Cons.IH [of "ps @ [q]" s1] Cons.prems assms(3) by simp
  qed simp
  then show ?thesis using assms(1,2) by (metis append_Nil)
qed

text \<open>
  Every result of a computation satisfies \<open>P\<close>; the rules follow the shape of the program.
\<close>

definition all_res :: "('a \<Rightarrow> bool) \<Rightarrow> 'a res \<Rightarrow> bool" where
  "all_res P r \<longleftrightarrow> (\<forall>x. r = Inr x \<longrightarrow> P x)"

lemma all_resD: "all_res P m \<Longrightarrow> m = Inr x \<Longrightarrow> P x"
  by (simp add: all_res_def)

lemma all_res_simps [simp]: "all_res P (Inl e)" "all_res P (Inr x) = P x"
  by (simp_all add: all_res_def)

lemma all_res_Inr: "P x \<Longrightarrow> all_res P (Inr x)"
  by simp

lemma all_res_if: "all_res P x \<Longrightarrow> all_res P y \<Longrightarrow> all_res P (if b then x else y)"
  by simp

lemma all_res_ebind: "(\<And>x. all_res P (f x)) \<Longrightarrow> all_res P (ebind m f)"
  by (auto simp: all_res_def)

lemma all_res_ebind_via: "all_res Q m \<Longrightarrow> (\<And>x. Q x \<Longrightarrow> all_res P (f x)) \<Longrightarrow> all_res P (ebind m f)"
  by (auto simp: all_res_def)

lemma all_res_ebind_fail [simp]: "all_res P (ebind m (\<lambda>_. Inl e))"
  by (rule all_res_ebind) simp

lemma all_res_mono: "all_res Q m \<Longrightarrow> (\<And>x. Q x \<Longrightarrow> P x) \<Longrightarrow> all_res P m"
  by (simp add: all_res_def)

lemma all_res_option: "all_res P x \<Longrightarrow> (\<And>v. all_res P (f v)) \<Longrightarrow> all_res P (case r of None \<Rightarrow> x | Some v \<Rightarrow> f v)"
  by (cases r) auto

lemma all_res_efold: "I s \<Longrightarrow> (\<And>x s. x \<in> set xs \<Longrightarrow> I s \<Longrightarrow> all_res I (f x s)) \<Longrightarrow> all_res I (efold f xs s)"
  by (induction xs arbitrary: s) (auto intro!: all_res_ebind_via)

end
