(* ===== verification/Py_Text.thy ===== *)
theory Py_Text
  imports Prelude
begin

text \<open>
  The parts of Python's \<open>str\<close> and \<open>int\<close> that the modelled modules use: character classes,
  \<open>lower\<close>, \<open>strip\<close>, \<open>startswith\<close>, \<open>partition\<close>, \<open>join\<close>, \<open>hex\<close> and the two readings of
  \<open>int(text, base)\<close>.  The main facts are that reading a printed number gives the number back.
\<close>

section \<open>Characters\<close>

definition ccode :: "char \<Rightarrow> nat" where
  "ccode c = of_char c"

definition py_isspace :: "char \<Rightarrow> bool" where
  "py_isspace c \<longleftrightarrow> (9 \<le> ccode c \<and> ccode c \<le> 13) \<or> (28 \<le> ccode c \<and> ccode c \<le> 32)"

definition ascii_upper :: "char \<Rightarrow> bool" where
  "ascii_upper c \<longleftrightarrow> 65 \<le> ccode c \<and> ccode c \<le> 90"

definition ascii_lower :: "char \<Rightarrow> bool" where
  "ascii_lower c \<longleftrightarrow> 97 \<le> ccode c \<and> ccode c \<le> 122"

definition ascii_letter :: "char \<Rightarrow> bool" where
  "ascii_letter c \<longleftrightarrow> ascii_upper c \<or> ascii_lower c"

definition ascii_digit :: "char \<Rightarrow> bool" where
  "ascii_digit c \<longleftrightarrow> 48 \<le> ccode c \<and> ccode c \<le> 57"

definition lower_char :: "char \<Rightarrow> char" where
  "lower_char c = (if ascii_upper c then char_of (ccode c + 32) else c)"

definition upper_char :: "char \<Rightarrow> char" where
  "upper_char c = (if ascii_lower c then char_of (ccode c - 32) else c)"

named_theorems char_defs "definitions of the character classes"

lemmas [char_defs] = ccode_def py_isspace_def ascii_upper_def ascii_lower_def ascii_letter_def
  ascii_digit_def

lemma ccode_char_of [simp]: "n < 256 \<Longrightarrow> ccode (char_of n) = n"
  by (simp add: ccode_def)

lemma ccode_less [simp]: "ccode c < 256"
  unfolding ccode_def using range_nat_of_char by (metis atLeastLessThan_iff rangeI)

lemma ccode_inject: "ccode c = ccode d \<longleftrightarrow> c = d"
  unfolding ccode_def by simp

lemma ascii_upper_lower_char [simp]: "\<not> ascii_upper (lower_char c)"
  by (auto simp: lower_char_def ascii_upper_def)

lemma lower_char_idem [simp]: "lower_char (lower_char c) = lower_char c"
  by (metis ascii_upper_lower_char lower_char_def)

lemma lower_char_id: "\<not> ascii_upper c \<Longrightarrow> lower_char c = c"
  by (simp add: lower_char_def)

section \<open>Strings\<close>

definition py_lower :: "string \<Rightarrow> string" where
  "py_lower s = map lower_char s"

definition py_upper :: "string \<Rightarrow> string" where
  "py_upper s = map upper_char s"

text \<open>\<open>str.isupper\<close>: some cased character, and no lower-case one.\<close>

definition py_isupper :: "string \<Rightarrow> bool" where
  "py_isupper s \<longleftrightarrow> list_ex ascii_upper s \<and> \<not> list_ex ascii_lower s"

definition py_lstrip :: "string \<Rightarrow> string" where
  "py_lstrip s = dropWhile py_isspace s"

definition py_rstrip :: "string \<Rightarrow> string" where
  "py_rstrip s = rev (dropWhile py_isspace (rev s))"

definition py_strip :: "string \<Rightarrow> string" where
  "py_strip s = py_rstrip (py_lstrip s)"

definition py_startswith :: "string \<Rightarrow> string \<Rightarrow> bool" where
  "py_startswith s p \<longleftrightarrow> take (length p) s = p"

definition py_endswith :: "string \<Rightarrow> string \<Rightarrow> bool" where
  "py_endswith s p \<longleftrightarrow> length p \<le> length s \<and> drop (length s - length p) s = p"

text \<open>\<open>s.partition(c)\<close> for a one-character separator, without the separator itself.\<close>

definition py_partition :: "string \<Rightarrow> char \<Rightarrow> string \<times> string" where
  "py_partition s c = (takeWhile (\<lambda>x. x \<noteq> c) s, tl (dropWhile (\<lambda>x. x \<noteq> c) s))"

fun py_join :: "string \<Rightarrow> string list \<Rightarrow> string" where
  "py_join sep [] = []"
| "py_join sep [x] = x"
| "py_join sep (x # y # xs) = x @ sep @ py_join sep (y # xs)"

lemma py_lower_idem [simp]: "py_lower (py_lower s) = py_lower s"
  by (simp add: py_lower_def)

lemma py_lower_id: "\<not> list_ex ascii_upper s \<Longrightarrow> py_lower s = s"
  by (induction s) (auto simp: py_lower_def lower_char_id)

lemma py_startswith_iff: "py_startswith s p \<longleftrightarrow> prefix p s"
  by (metis append_eq_conv_conj append_take_drop_id prefix_def py_startswith_def)

lemma py_endswith_iff: "py_endswith s p \<longleftrightarrow> suffix p s"
proof
  assume "py_endswith s p"
  then show "suffix p s"
    by (metis py_endswith_def suffix_drop)
next
  assume "suffix p s"
  then obtain t where "s = t @ p"
    by (auto simp: suffix_def)
  then show "py_endswith s p"
    by (simp add: py_endswith_def)
qed

lemma py_partition_app: "c \<notin> set m \<Longrightarrow> py_partition (m @ c # r) c = (m, r)"
  by (induction m) (auto simp: py_partition_def)

lemma py_partition_absent: "c \<notin> set m \<Longrightarrow> py_partition m c = (m, [])"
  by (induction m) (auto simp: py_partition_def)

lemma py_strip_id:
  assumes "s \<noteq> []" and "\<not> py_isspace (hd s)" and "\<not> py_isspace (last s)"
  shows "py_strip s = s"
proof -
  have "dropWhile py_isspace s = s" and "dropWhile py_isspace (rev s) = rev s"
    using assms by (simp_all add: dropWhile_eq_self_iff hd_rev)
  then show ?thesis
    by (simp add: py_strip_def py_lstrip_def py_rstrip_def)
qed

lemma py_strip_Nil [simp]: "py_strip [] = []"
  by (simp add: py_strip_def py_lstrip_def py_rstrip_def)

lemma length_dropWhile_le' [simp]: "length (dropWhile P xs) \<le> length xs"
  by (rule length_dropWhile_le)

section \<open>Numbers\<close>

definition digit_val :: "char \<Rightarrow> nat option" where
  "digit_val c =
     (if ascii_digit c then Some (ccode c - 48)
      else if 97 \<le> ccode c \<and> ccode c \<le> 122 then Some (ccode c - 87)
      else if 65 \<le> ccode c \<and> ccode c \<le> 90 then Some (ccode c - 55)
      else None)"

definition digit_char :: "nat \<Rightarrow> char" where
  "digit_char d = char_of (if d < 10 then 48 + d else 87 + d)"

text \<open>
  Digits with single underscores between them, as \<open>int\<close> reads them; \<open>ok\<close> says that the
  previous character was a digit.
\<close>

fun read_digits :: "nat \<Rightarrow> nat \<Rightarrow> bool \<Rightarrow> string \<Rightarrow> nat option" where
  "read_digits b acc ok [] = (if ok then Some acc else None)"
| "read_digits b acc ok (c # s) =
     (if c = CHR ''_'' then (if ok then read_digits b acc False s else None)
      else case digit_val c of
             None \<Rightarrow> None
           | Some d \<Rightarrow> if d < b then read_digits b (acc * b + d) True s else None)"

text \<open>
  \<open>int(s, 0)\<close>: the base is read off the prefix, one underscore may follow a prefix, and a
  decimal number may start with 0 only when it is zero.
\<close>

definition skip_us :: "string \<Rightarrow> string" where
  "skip_us s = (case s of c # r \<Rightarrow> if c = CHR ''_'' then r else s | [] \<Rightarrow> [])"

definition read_prefixed :: "string \<Rightarrow> nat option" where
  "read_prefixed s =
     (case s of
        z # p # r \<Rightarrow>
          if z = CHR ''0'' \<and> p \<in> set ''xX'' then read_digits 16 0 False (skip_us r)
          else if z = CHR ''0'' \<and> p \<in> set ''oO'' then read_digits 8 0 False (skip_us r)
          else if z = CHR ''0'' \<and> p \<in> set ''bB'' then read_digits 2 0 False (skip_us r)
          else (case read_digits 10 0 False s of
                  None \<Rightarrow> None
                | Some v \<Rightarrow> if z = CHR ''0'' \<and> v \<noteq> 0 then None else Some v)
      | _ \<Rightarrow> read_digits 10 0 False s)"

definition signed_read :: "(string \<Rightarrow> nat option) \<Rightarrow> string \<Rightarrow> int res" where
  "signed_read rd s =
     (let t = py_strip s;
          neg = (t \<noteq> [] \<and> hd t = CHR ''-'');
          u = (if t \<noteq> [] \<and> hd t \<in> set ''+-'' then tl t else t)
      in case rd u of
           None \<Rightarrow> Inl ValueError
         | Some v \<Rightarrow> Inr (if neg then - int v else int v))"

definition py_int0 :: "string \<Rightarrow> int res" where
  "py_int0 = signed_read read_prefixed"

definition py_int10 :: "string \<Rightarrow> int res" where
  "py_int10 = signed_read (read_digits 10 0 False)"

definition py_int16 :: "string \<Rightarrow> int res" where
  "py_int16 = signed_read (\<lambda>s. case s of
      z # p # r \<Rightarrow> if z = CHR ''0'' \<and> p \<in> set ''xX'' then read_digits 16 0 False (skip_us r)
                   else read_digits 16 0 False s
    | _ \<Rightarrow> read_digits 16 0 False s)"

text \<open>Printing: digits in a base, most significant first, and Python's \<open>hex\<close> and \<open>str\<close>.\<close>

fun print_digits :: "nat \<Rightarrow> nat \<Rightarrow> string" where
  "print_digits b n =
     (if b < 2 \<or> n < b then [digit_char n] else print_digits b (n div b) @ [digit_char (n mod b)])"

declare print_digits.simps [simp del]

definition py_hex :: "int \<Rightarrow> string" where
  "py_hex v = (if v < 0 then ''-'' else []) @ ''0x'' @ print_digits 16 (nat \<bar>v\<bar>)"

definition py_str_int :: "int \<Rightarrow> string" where
  "py_str_int v = (if v < 0 then ''-'' else []) @ print_digits 10 (nat \<bar>v\<bar>)"

definition py_str_nat :: "nat \<Rightarrow> string" where
  "py_str_nat n = print_digits 10 n"

lemma ccode_digit_char: "d < 36 \<Longrightarrow> ccode (digit_char d) = (if d < 10 then 48 + d else 87 + d)"
  by (simp add: digit_char_def)

lemma digit_val_digit_char [simp]: "d < 36 \<Longrightarrow> digit_val (digit_char d) = Some d"
  by (auto simp: digit_val_def ascii_digit_def ccode_digit_char)

lemma digit_char_not_us [simp]: "d < 36 \<Longrightarrow> digit_char d \<noteq> CHR ''_''"
proof
  assume "d < 36" and "digit_char d = CHR ''_''"
  then have "ccode (digit_char d) = 95" by (simp add: ccode_def)
  with \<open>d < 36\<close> show False by (simp add: ccode_digit_char split: if_splits)
qed

lemma print_digits_nonempty [simp]: "print_digits b n \<noteq> []"
  by (subst print_digits.simps) simp

lemma read_print_digits:
  assumes "2 \<le> b" and "b \<le> 36"
  shows "read_digits b acc ok (print_digits b n @ s) =
    read_digits b (acc * b ^ length (print_digits b n) + n) True s"
  using assms
proof (induction b n arbitrary: acc ok s rule: print_digits.induct)
  case (1 b n)
  show ?case
  proof (cases "n < b")
    case True
    with "1.prems" show ?thesis
      by (simp add: print_digits.simps [of b n])
  next
    case False
    from "1.prems" have "n mod b < b" by simp
    with "1.prems" have "n mod b < 36" by linarith
    have b: "\<not> (b < 2 \<or> n < b)" using False "1.prems" by simp
    have "read_digits b acc ok (print_digits b n @ s) =
      read_digits b acc ok (print_digits b (n div b) @ (digit_char (n mod b) # s))"
      using b by (simp add: print_digits.simps [of b n])
    also have "\<dots> = read_digits b (acc * b ^ length (print_digits b (n div b)) + n div b) True
      (digit_char (n mod b) # s)"
      using "1.IH" [OF b] "1.prems" by simp
    also have "\<dots> = read_digits b ((acc * b ^ length (print_digits b (n div b)) + n div b) * b + n mod b) True s"
      using \<open>n mod b < 36\<close> "1.prems" by simp
    also have "(acc * b ^ length (print_digits b (n div b)) + n div b) * b + n mod b =
      acc * b ^ length (print_digits b n) + n"
      using b by (simp add: print_digits.simps [of b n] algebra_simps)
    finally show ?thesis .
  qed
qed

lemma read_digits_print [simp]:
  "2 \<le> b \<Longrightarrow> b \<le> 36 \<Longrightarrow> read_digits b 0 ok (print_digits b n) = Some n"
  using read_print_digits [of b 0 ok n "[]"] by simp

lemma set_print_digits:
  assumes "2 \<le> b"
  shows "set (print_digits b n) \<subseteq> digit_char ` {d. d < b}"
  using assms
proof (induction b n rule: print_digits.induct)
  case (1 b n)
  then show ?case
    by (cases "n < b") (auto simp: print_digits.simps [of b n])
qed

end
