(* ===== verification/Asm_Instruction.thy ===== *)
theory Asm_Instruction
  imports Py_Text "HOL-Library.Word"
begin

text \<open>
  Model of \<open>m2c/m2c/asm_instruction.py\<close>: the argument data types, their textual form, the
  register formatter, constant folding and the recursive-descent argument parser.

  The parser of the source pops characters off one shared list and stores register names in
  the shared \<open>AsmState\<close>; here both are threaded as a pair.  One iteration of the source's
  \<open>while True\<close> loop is \<open>parse_arg_step\<close>, with the nested calls as a parameter; the loop and
  the recursion are closed by \<open>parse_arg_elems\<close> with a fuel that the length of the input
  always covers.
\<close>

unbundle bit_operations_syntax

section \<open>Data\<close>

datatype register = Register (register_name: string)

datatype writeback = PRE | POST

datatype argument =
    Reg register
  | RegisterList "register list"
  | AsmGlobalSymbol string
  | AsmSectionGlobalSymbol string string int
  | AsmAddressMode register argument "writeback option"
  | Macro string argument
  | AsmLiteral int
  | BinOp string argument argument

datatype jump_target = JumpTarget (target: string)

record asm_instruction =
  ai_mnemonic :: string
  ai_args :: "argument list"

text \<open>
  \<open>AsmState\<close> with its \<open>RegFormatter\<close> inlined: \<open>st_defines\<close> maps a name to \<open>None\<close> when it is
  explicitly undefined, \<open>used_names\<close> is the formatter's only field.
\<close>

record asm_state =
  st_defines :: "string \<rightharpoonup> int option"
  used_names :: "register \<rightharpoonup> string"
  is_thumb :: bool
  is_unified :: bool

text \<open>\<open>ArchAsmParsing\<close>: the abstract class an architecture implements, as a record.\<close>

record arch_parsing =
  all_regs :: "register list"
  aliased_regs :: "string \<rightharpoonup> register"
  supports_dollar_regs :: bool
  normalize_instruction :: "asm_instruction \<Rightarrow> asm_state \<Rightarrow> asm_instruction res"

definition naive_parsing_arch :: arch_parsing where
  "naive_parsing_arch = \<lparr>all_regs = [], aliased_regs = Map.empty, supports_dollar_regs = True,
     normalize_instruction = (\<lambda>instr st. Inr instr)\<rparr>"

definition empty_asm_state :: asm_state where
  "empty_asm_state = \<lparr>st_defines = Map.empty, used_names = Map.empty, is_thumb = False,
     is_unified = False\<rparr>"

definition ARM_BARREL_SHIFTER_OPS :: "string list" where
  "ARM_BARREL_SHIFTER_OPS = [''lsl'', ''lsr'', ''asr'', ''ror'', ''rrx'']"

definition OP_PRECEDENCE :: "string \<rightharpoonup> nat" where
  "OP_PRECEDENCE = map_of [(''*'', 0), (''+'', 1), (''-'', 1), (''<<'', 2), (''>>'', 2),
     (''&'', 3), (''^'', 4), (''|'', 5)]"

definition MAX_PRECEDENCE :: nat where
  "MAX_PRECEDENCE = 6"

section \<open>Registers, literals and their text\<close>

definition is_float_reg :: "register \<Rightarrow> bool" where
  "is_float_reg r = (let name = register_name r in
     name \<noteq> [] \<and> hd name = CHR ''f'' \<and> name \<noteq> ''fp'')"

definition arm_index :: "register \<Rightarrow> int res" where
  "arm_index r = (let name = register_name r in
     case map_of [(''sp'', 13), (''lr'', 14), (''pc'', 15)] name of
       Some i \<Rightarrow> Inr i
     | None \<Rightarrow> ebind (py_assert (py_startswith name ''r'')) (\<lambda>_. py_int10 (tl name)))"

definition fictive :: "string \<Rightarrow> string \<Rightarrow> register" where
  "fictive name sfx = Register (name @ ''_fictive_'' @ sfx)"

definition str_register :: "register \<Rightarrow> string" where
  "str_register r = CHR ''$'' # register_name r"

definition asm_section_global_symbol :: "string \<Rightarrow> int \<Rightarrow> argument" where
  "asm_section_global_symbol section_name addend =
     AsmSectionGlobalSymbol (''__'' @ section_name @ py_upper (drop 2 (py_hex addend)))
       section_name addend"

definition as_s16 :: "int \<Rightarrow> int" where
  "as_s16 v = ((v + 0x8000) AND 0xFFFF) - 0x8000"

text \<open>\<open>isinstance(a, AsmGlobalSymbol)\<close> also holds of the section symbols, a subclass.\<close>

definition as_symbol :: "argument \<Rightarrow> string option" where
  "as_symbol a = (case a of AsmGlobalSymbol n \<Rightarrow> Some n
     | AsmSectionGlobalSymbol n sec add \<Rightarrow> Some n | _ \<Rightarrow> None)"

text \<open>
  The \<open>__str__\<close> methods.  The writeback text of an address mode is a plain string in the
  source (the \<open>f\<close> prefix is missing), so it prints the braces literally.
\<close>

fun str_arg :: "argument \<Rightarrow> string" where
  "str_arg (Reg r) = str_register r"
| "str_arg (RegisterList rs) = ''{'' @ py_join '','' (map str_register rs) @ ''}''"
| "str_arg (AsmGlobalSymbol n) = n"
| "str_arg (AsmSectionGlobalSymbol n sec add) = n"
| "str_arg (AsmAddressMode b a wb) =
     (case wb of
        Some w \<Rightarrow>
          (let add_str = (if a \<noteq> AsmLiteral 0 then '', {self.addend}'' else [])
           in if w = PRE then ''['' @ str_register b @ add_str @ '']!''
              else ''['' @ str_register b @ '']'' @ add_str)
      | None \<Rightarrow>
          if a = AsmLiteral 0 then ''('' @ str_register b @ '')''
          else str_arg a @ ''('' @ str_register b @ '')'')"
| "str_arg (Macro n a) = ''%'' @ n @ ''('' @ str_arg a @ '')''"
| "str_arg (AsmLiteral v) = py_hex v"
| "str_arg (BinOp op l r) = str_arg l @ '' '' @ op @ '' '' @ str_arg r"

definition str_asm_instruction :: "asm_instruction \<Rightarrow> string" where
  "str_asm_instruction i =
     (if ai_args i = [] then ai_mnemonic i
      else ai_mnemonic i @ '' '' @ py_join '', '' (map str_arg (ai_args i)))"

fun traverse_arg :: "argument \<Rightarrow> argument list" where
  "traverse_arg (RegisterList rs) = RegisterList rs # map Reg rs"
| "traverse_arg (AsmAddressMode b a wb) = AsmAddressMode b a wb # Reg b # traverse_arg a"
| "traverse_arg (Macro n a) = Macro n a # traverse_arg a"
| "traverse_arg (BinOp op l r) = BinOp op l r # traverse_arg l @ traverse_arg r"
| "traverse_arg a = [a]"

section \<open>The register formatter\<close>

definition reg_parse :: "arch_parsing \<Rightarrow> string \<Rightarrow> register" where
  "reg_parse arch reg_name =
     (case aliased_regs arch reg_name of Some r \<Rightarrow> r | None \<Rightarrow> Register reg_name)"

definition parse_and_store ::
  "arch_parsing \<Rightarrow> string \<Rightarrow> asm_state \<Rightarrow> (register \<times> asm_state) res" where
  "parse_and_store arch reg_name0 st =
     (let reg_name = py_lower reg_name0;
          internal_reg = reg_parse arch reg_name
      in case used_names st internal_reg of
           None \<Rightarrow> Inr (internal_reg, st\<lparr>used_names := (used_names st)(internal_reg \<mapsto> reg_name)\<rparr>)
         | Some existing \<Rightarrow>
             if existing \<noteq> reg_name then Inl DecompFailure else Inr (internal_reg, st))"

definition reg_format :: "asm_state \<Rightarrow> register \<Rightarrow> string" where
  "reg_format st r = (case used_names st r of Some n \<Rightarrow> n | None \<Rightarrow> register_name r)"

definition replace_bare_reg ::
  "arch_parsing \<Rightarrow> argument \<Rightarrow> asm_state \<Rightarrow> (argument \<times> asm_state) res" where
  "replace_bare_reg arch arg st =
     (case as_symbol arg of
        Some n \<Rightarrow>
          (let reg_name = py_lower n
           in if Register reg_name \<in> set (all_regs arch) \<or> aliased_regs arch reg_name \<noteq> None
              then ebind (parse_and_store arch reg_name st) (\<lambda>(r, st'). Inr (Reg r, st'))
              else Inr (arg, st))
      | None \<Rightarrow> Inr (arg, st))"

definition get_jump_target :: "argument \<Rightarrow> jump_target res" where
  "get_jump_target label = (case as_symbol label of
     Some n \<Rightarrow> Inr (JumpTarget n) | None \<Rightarrow> Inl AssertionError)"

section \<open>Constant folding\<close>

text \<open>Python shifts raise \<open>ValueError\<close> on a negative count.\<close>

definition py_shl :: "int \<Rightarrow> int \<Rightarrow> int res" where
  "py_shl a n = (if n < 0 then Inl ValueError else Inr (push_bit (nat n) a))"

definition py_shr :: "int \<Rightarrow> int \<Rightarrow> int res" where
  "py_shr a n = (if n < 0 then Inl ValueError else Inr (drop_bit (nat n) a))"

text \<open>The operators the folder knows; any other operator is left alone.\<close>

definition fold_op :: "string \<Rightarrow> int \<Rightarrow> int \<Rightarrow> int option res" where
  "fold_op op a b =
     (if op = ''+'' then Inr (Some (a + b))
      else if op = ''-'' then Inr (Some (a - b))
      else if op = ''*'' then Inr (Some (a * b))
      else if op = ''>>'' then ebind (py_shr a b) (\<lambda>v. Inr (Some v))
      else if op = ''<<'' then ebind (py_shl a b) (\<lambda>v. Inr (Some v))
      else if op = ''&'' then Inr (Some (a AND b))
      else if op = ''|'' then Inr (Some (a OR b))
      else if op = ''^'' then Inr (Some (a XOR b))
      else Inr None)"

definition lookup_define :: "asm_state \<Rightarrow> string \<Rightarrow> int option" where
  "lookup_define st n = (case st_defines st n of Some (Some v) \<Rightarrow> Some v | _ \<Rightarrow> None)"

fun constant_fold :: "asm_state \<Rightarrow> argument \<Rightarrow> argument res" where
  "constant_fold st (AsmGlobalSymbol n) =
     Inr (case lookup_define st n of Some v \<Rightarrow> AsmLiteral v | None \<Rightarrow> AsmGlobalSymbol n)"
| "constant_fold st (AsmSectionGlobalSymbol n sec add) =
     Inr (case lookup_define st n of Some v \<Rightarrow> AsmLiteral v
          | None \<Rightarrow> AsmSectionGlobalSymbol n sec add)"
| "constant_fold st (BinOp op l r) =
     ebind (constant_fold st l) (\<lambda>lhs. ebind (constant_fold st r) (\<lambda>rhs.
       (case (lhs, rhs) of
          (AsmLiteral a, AsmLiteral b) \<Rightarrow>
            ebind (fold_op op a b) (\<lambda>v. case v of
              Some c \<Rightarrow> Inr (AsmLiteral c) | None \<Rightarrow> Inr (BinOp op lhs rhs))
        | _ \<Rightarrow> Inr (BinOp op lhs rhs))))"
| "constant_fold st a = Inr a"

section \<open>Lexical helpers\<close>

definition valid_word :: "char \<Rightarrow> bool" where
  "valid_word c \<longleftrightarrow> ascii_letter c \<or> ascii_digit c \<or> c \<in> set ''_$.''"

definition valid_number :: "char \<Rightarrow> bool" where
  "valid_number c \<longleftrightarrow> c \<in> set ''-xX'' \<or> ascii_digit c \<or> c \<in> set ''abcdefABCDEF''"

definition parse_word :: "string \<Rightarrow> string \<times> string" where
  "parse_word elems = (takeWhile valid_word elems, dropWhile valid_word elems)"

fun parse_quoted :: "char \<Rightarrow> string \<Rightarrow> string \<times> string" where
  "parse_quoted q [] = ([], [])"
| "parse_quoted q (c # elems) =
     (if c = q then ([], c # elems)
      else if c = CHR 0x5C
        then (case elems of
                [] \<Rightarrow> ([], [])
              | d # elems' \<Rightarrow> (let (w, r) = parse_quoted q elems' in (d # w, r)))
        else (let (w, r) = parse_quoted q elems in (c # w, r)))"

definition parse_number :: "string \<Rightarrow> int res" where
  "parse_number s =
     (case s of
        [] \<Rightarrow> Inl IndexError
      | c # r \<Rightarrow>
          ebind (py_assert (c = CHR ''0'' \<longrightarrow> r = [] \<or> hd r \<in> set ''xX'')) (\<lambda>_. py_int0 s))"

definition consume_ws :: "string \<Rightarrow> string" where
  "consume_ws elems = dropWhile py_isspace elems"

definition expect :: "string \<Rightarrow> string \<Rightarrow> (char \<times> string) res" where
  "expect n elems =
     (case elems of
        [] \<Rightarrow> Inl AssertionError
      | g # r \<Rightarrow> if g \<in> set n then Inr (g, r) else Inl AssertionError)"

section \<open>The argument parser\<close>

type_synonym ploc = "string \<times> asm_state"

text \<open>
  A nested call of the parser: \<open>top_level\<close>, \<open>do_constant_fold\<close>, \<open>do_replace_bare_reg\<close>,
  \<open>precedence_cap\<close>, then the remaining characters and the state.
\<close>

type_synonym arg_parser = "bool \<Rightarrow> bool \<Rightarrow> bool \<Rightarrow> nat \<Rightarrow> ploc \<Rightarrow> (argument \<times> ploc) res"

text \<open>
  How an iteration of the loop ends: \<open>break\<close>, go on with a new \<open>value\<close>, or go on with
  \<open>value\<close> as it was (after an ARM \<open>#\<close>).
\<close>

datatype loop_exit = Brk | Cont argument | Same

text \<open>The separator of an ARM register list, read before every element but the first.\<close>

definition reg_list_sep :: "register list \<Rightarrow> string \<Rightarrow> (bool \<times> string) res" where
  "reg_list_sep li elems =
     (if li = [] then Inr (False, elems)
      else ebind (expect '',}'' elems) (\<lambda>(c, e).
        if c = CHR ''}'' then Inr (True, e) else Inr (False, consume_ws e)))"

lemma consume_ws_length: "length (consume_ws e) \<le> length e"
  by (simp add: consume_ws_def)

lemma parse_word_length: "length (snd (parse_word e)) \<le> length e"
  by (simp add: parse_word_def)

lemma expect_Inr_iff: "expect n e = Inr (c, e') \<longleftrightarrow> e = c # e' \<and> c \<in> set n"
  by (auto simp: expect_def split: list.splits)

lemma reg_list_sep_length:
  assumes "reg_list_sep li e = Inr (b, e')"
  shows "2 * length e' < 2 * length e + (if li = [] then 1 else 0)"
proof (cases "li = []")
  case True
  with assms show ?thesis by (simp add: reg_list_sep_def)
next
  case False
  with assms obtain c r where "e = c # r" and "e' = r \<or> e' = consume_ws r"
    by (auto simp: reg_list_sep_def expect_Inr_iff split: if_splits)
  then have "length e' \<le> length r" using consume_ws_length by auto
  with False \<open>e = c # r\<close> show ?thesis by simp
qed

text \<open>What is left after the first word of an element and the white space behind it.\<close>

lemma after_word_length:
  assumes "consume_ws (snd (parse_word e)) = c # r"
  shows "length r < length e"
proof -
  have "length (c # r) \<le> length (snd (parse_word e))"
    using assms consume_ws_length by metis
  also have "\<dots> \<le> length e" by (rule parse_word_length)
  finally show ?thesis by simp
qed

lemma second_word_length: "length (snd (parse_word (consume_ws e))) \<le> length e"
  using parse_word_length [of "consume_ws e"] consume_ws_length [of e] by linarith

function parse_reg_list ::
  "arch_parsing \<Rightarrow> register list \<Rightarrow> string \<Rightarrow> asm_state \<Rightarrow> (register list \<times> ploc) res" where
  "parse_reg_list arch li elems st =
     ebind (reg_list_sep li (consume_ws elems)) (\<lambda>(closed, e2).
       if closed then Inr (li, e2, st)
       else ebind (parse_and_store arch (fst (parse_word e2)) st) (\<lambda>(reg1, st1).
         (case consume_ws (snd (parse_word e2)) of
            [] \<Rightarrow> Inl IndexError
          | c # e5 \<Rightarrow>
              if c \<noteq> CHR ''-'' then parse_reg_list arch (li @ [reg1]) (c # e5) st1
              else ebind (parse_and_store arch (fst (parse_word (consume_ws e5))) st1)
                (\<lambda>(reg2, st2). ebind (arm_index reg1) (\<lambda>i1. ebind (arm_index reg2) (\<lambda>i2.
                   parse_reg_list arch
                     (li @ map (\<lambda>i. reg_parse arch (''r'' @ py_str_int i)) [i1..i2])
                     (snd (parse_word (consume_ws e5))) st2))))))"
  by pat_completeness auto
termination
proof (relation "measure (\<lambda>(arch, li, elems, st). 2 * length elems + (if li = [] then 1 else 0))",
    goal_cases)
  case 1
  then show ?case by simp
next
  case (2 arch li elems st sep closed e2 pr reg1 st1 c e5)
  have sep: "reg_list_sep li (consume_ws elems) = Inr (closed, e2)" using 2(1,2) by simp
  note reg_list_sep_length [OF sep] consume_ws_length [of elems] after_word_length [OF 2(6)]
  then have "2 * length (c # e5) < 2 * length elems + (if li = [] then 1 else 0)"
    by (cases "li = []") simp_all
  then show ?case by simp
next
  case (3 arch li elems st sep closed e2 pr reg1 st1 c e5 pr2 reg2 st2 i1 i2)
  have sep: "reg_list_sep li (consume_ws elems) = Inr (closed, e2)" using 3(1,2) by simp
  note reg_list_sep_length [OF sep] consume_ws_length [of elems] after_word_length [OF 3(6)]
    second_word_length [of e5]
  then have "2 * length (snd (parse_word (consume_ws e5))) + 1
      < 2 * length elems + (if li = [] then 1 else 0)"
    by (cases "li = []") simp_all
  then show ?case by (auto split: if_splits)
qed

declare parse_reg_list.simps [simp del]

definition sort_by_arm_index :: "register list \<Rightarrow> register list res" where
  "sort_by_arm_index li =
     (if length li > 1
      then ebind (emap arm_index li) (\<lambda>ks. Inr (map snd (sort_key fst (zip ks li))))
      else Inr li)"

definition parse_braces :: "arch_parsing \<Rightarrow> ploc \<Rightarrow> (loop_exit \<times> ploc) res" where
  "parse_braces arch = (\<lambda>(elems, st).
     ebind (parse_reg_list arch [] (tl elems) st) (\<lambda>(li, e1, st1).
       let e2 = consume_ws e1;
           e3 = (if e2 \<noteq> [] \<and> hd e2 = CHR ''^'' then tl e2 else e2)
       in ebind (sort_by_arm_index li) (\<lambda>li'. Inr (Cont (RegisterList li'), e3, st1))))"

definition parse_dollar :: "arch_parsing \<Rightarrow> ploc \<Rightarrow> (loop_exit \<times> ploc) res" where
  "parse_dollar arch = (\<lambda>(elems, st).
     let (word, e1) = parse_word elems; reg = tl word
     in if CHR ''$'' \<in> set reg then Inr (Cont (AsmGlobalSymbol word), e1, st)
        else ebind (parse_and_store arch reg st) (\<lambda>(r, st1). Inr (Cont (Reg r), e1, st1)))"

definition parse_dot :: "ploc \<Rightarrow> (loop_exit \<times> ploc) res" where
  "parse_dot = (\<lambda>(elems, st).
     let (word, e1) = parse_word (tl elems)
     in if word \<in> {''data'', ''sdata'', ''rodata'', ''rdata'', ''bss'', ''sbss'', ''text''}
        then Inr (Cont (asm_section_global_symbol word 0), e1, st)
        else Inr (Cont (AsmGlobalSymbol (CHR ''.'' # word)), e1, st))"

definition parse_percent :: "arg_parser \<Rightarrow> ploc \<Rightarrow> (loop_exit \<times> ploc) res" where
  "parse_percent rec = (\<lambda>(elems, st).
     let (macro_name, e1) = parse_word (tl elems)
     in ebind (py_assert (macro_name \<noteq> [])) (\<lambda>_.
        ebind (expect ''('' e1) (\<lambda>(_, e2).
        ebind (rec False True False MAX_PRECEDENCE (e2, st)) (\<lambda>(m, e3, st1).
        ebind (expect '')'' e3) (\<lambda>(_, e4). Inr (Cont (Macro macro_name m), e4, st1))))))"

definition parse_digits :: "ploc \<Rightarrow> (loop_exit \<times> ploc) res" where
  "parse_digits = (\<lambda>(elems, st).
     let (word, e1) = parse_word elems
     in ebind (parse_number word) (\<lambda>v. Inr (Cont (AsmLiteral v), e1, st)))"

definition parse_minus :: "arch_parsing \<Rightarrow> ploc \<Rightarrow> (loop_exit \<times> ploc) res" where
  "parse_minus arch = (\<lambda>(elems, st).
     let (word, e1) = parse_word (consume_ws (tl elems))
     in ebind (py_assert (word \<noteq> [])) (\<lambda>_.
        if valid_number (hd word)
        then ebind (parse_number word) (\<lambda>v. Inr (Cont (AsmLiteral (- v)), e1, st))
        else ebind (replace_bare_reg arch (AsmGlobalSymbol word) st) (\<lambda>(val, st1).
          Inr (Cont (BinOp ''-'' (AsmLiteral 0) val), e1, st1))))"

definition parse_paren ::
  "arg_parser \<Rightarrow> bool \<Rightarrow> argument option \<Rightarrow> ploc \<Rightarrow> (loop_exit \<times> ploc) res" where
  "parse_paren rec top_level value = (\<lambda>(elems, st).
     if value \<noteq> None \<and> \<not> top_level then Inr (Brk, elems, st)
     else ebind (rec False False True MAX_PRECEDENCE (tl elems, st)) (\<lambda>(rhs0, e1, st1).
       ebind (expect '')'' e1) (\<lambda>(_, e2).
       (case rhs0 of
          BinOp op l r \<Rightarrow>
            ebind (py_assert (value = None)) (\<lambda>_.
            ebind (constant_fold st1 rhs0) (\<lambda>v. Inr (Cont v, e2, st1)))
        | _ \<Rightarrow>
            (let rhs = (if rhs0 = AsmLiteral 0 then Reg (Register ''zero'') else rhs0)
             in case as_symbol rhs of
                  Some _ \<Rightarrow>
                    ebind (py_assert (value = None)) (\<lambda>_.
                    ebind (constant_fold st1 rhs) (\<lambda>v. Inr (Cont v, e2, st1)))
                | None \<Rightarrow>
                    ebind (py_assert top_level) (\<lambda>_.
                    (case rhs of
                       Reg b \<Rightarrow>
                         ebind (constant_fold st1
                            (case value of Some v \<Rightarrow> v | None \<Rightarrow> AsmLiteral 0))
                          (\<lambda>v. Inr (Cont (AsmAddressMode b v None), e2, st1))
                     | _ \<Rightarrow> Inl AssertionError)))))))"

text \<open>The optional addend of an ARM address mode, with its barrel shift.\<close>

definition parse_bracket_shift ::
  "arg_parser \<Rightarrow> argument \<Rightarrow> ploc \<Rightarrow> (argument option \<times> ploc) res" where
  "parse_bracket_shift rec addend = (\<lambda>(e4, st2).
     let (word, e5) = parse_word (consume_ws e4); op = py_lower word
     in ebind (py_assert (op \<in> set ARM_BARREL_SHIFTER_OPS)) (\<lambda>_.
        ebind (if op = ''rrx'' then Inr (AsmLiteral 1, e5, st2)
               else rec False True True MAX_PRECEDENCE (e5, st2)) (\<lambda>(shift, e6, st3).
        ebind (constant_fold st3 shift) (\<lambda>sh.
        ebind (expect '']'' e6) (\<lambda>(_, e7). Inr (Some (BinOp op addend sh), e7, st3))))))"

definition parse_bracket_addend ::
  "arg_parser \<Rightarrow> ploc \<Rightarrow> (argument option \<times> ploc) res" where
  "parse_bracket_addend rec = (\<lambda>(e1, st1).
     ebind (expect '',]'' e1) (\<lambda>(c, e2).
       if c \<noteq> CHR '','' then Inr (None, e2, st1)
       else ebind (rec False True True MAX_PRECEDENCE (e2, st1)) (\<lambda>(addend, e3, st2).
         ebind (expect '',]'' e3) (\<lambda>(d, e4).
           if d \<noteq> CHR '','' then Inr (Some addend, e4, st2)
           else parse_bracket_shift rec addend (e4, st2)))))"

definition parse_bracket :: "arg_parser \<Rightarrow> ploc \<Rightarrow> (loop_exit \<times> ploc) res" where
  "parse_bracket rec = (\<lambda>(elems, st).
     ebind (rec False True True MAX_PRECEDENCE (tl elems, st)) (\<lambda>(val, loc1).
     (case val of
        Reg b \<Rightarrow>
          ebind (parse_bracket_addend rec loc1) (\<lambda>(addend, e2, st2).
            let e3 = consume_ws e2;
                dflt = (case addend of Some a \<Rightarrow> a | None \<Rightarrow> AsmLiteral 0)
            in if e3 \<noteq> [] \<and> hd e3 = CHR ''!''
               then Inr (Cont (AsmAddressMode b dflt (Some PRE)), tl e3, st2)
               else if e3 \<noteq> [] \<and> hd e3 = CHR '',''
               then ebind (py_assert (addend = None)) (\<lambda>_.
                    ebind (rec False True True MAX_PRECEDENCE (tl e3, st2)) (\<lambda>(a, loc3).
                      Inr (Cont (AsmAddressMode b a (Some POST)), loc3)))
               else Inr (Cont (AsmAddressMode b dflt None), e3, st2))
      | _ \<Rightarrow> Inl AssertionError)))"

definition parse_bang ::
  "arch_parsing \<Rightarrow> argument option \<Rightarrow> ploc \<Rightarrow> (loop_exit \<times> ploc) res" where
  "parse_bang arch value = (\<lambda>(elems, st).
     (case value of
        None \<Rightarrow> Inl AssertionError
      | Some v \<Rightarrow>
          ebind (replace_bare_reg arch v st) (\<lambda>(v', st1).
          (case v' of
             Reg r \<Rightarrow> Inr (Cont (AsmAddressMode r (AsmLiteral 0) (Some PRE)), tl elems, st1)
           | _ \<Rightarrow> Inl AssertionError))))"

definition parse_quote :: "ploc \<Rightarrow> (loop_exit \<times> ploc) res" where
  "parse_quote = (\<lambda>(elems, st).
     let (word, e1) = parse_quoted (CHR 0x22) (tl elems)
     in ebind (expect [CHR 0x22] e1) (\<lambda>(_, e2). Inr (Cont (AsmGlobalSymbol word), e2, st)))"

definition parse_symbol :: "arg_parser \<Rightarrow> bool \<Rightarrow> ploc \<Rightarrow> (loop_exit \<times> ploc) res" where
  "parse_symbol rec top_level = (\<lambda>(elems, st).
     let (word, e1) = parse_word elems; op = py_lower word
     in if top_level \<and> op \<in> set ARM_BARREL_SHIFTER_OPS
        then (let e2 = consume_ws e1
              in if e2 \<noteq> [] \<and> hd e2 \<notin> set '',)@''
                 then ebind (rec False True True MAX_PRECEDENCE (e2, st)) (\<lambda>(shift, e3, st1).
                   ebind (py_assert (e3 = [])) (\<lambda>_.
                     Inr (Cont (BinOp op (AsmLiteral 0) shift), e3, st1)))
                 else if op = ''rrx''
                 then ebind (py_assert (e2 = [])) (\<lambda>_.
                     Inr (Cont (BinOp op (AsmLiteral 0) (AsmLiteral 1)), e2, st))
                 else Inr (Cont (AsmGlobalSymbol word), e2, st))
        else Inr (Cont (AsmGlobalSymbol word), e1, st))"

fun expect_all :: "string \<Rightarrow> string \<Rightarrow> string res" where
  "expect_all [] elems = Inr elems"
| "expect_all (c # cs) elems = ebind (expect [c] elems) (\<lambda>(_, e). expect_all cs e)"

text \<open>The operands an operator may follow, its name, and the value it builds.\<close>

definition is_operand :: "argument \<Rightarrow> bool" where
  "is_operand a = (case a of AsmLiteral _ \<Rightarrow> True | BinOp _ _ _ \<Rightarrow> True | _ \<Rightarrow> as_symbol a \<noteq> None)"

definition op_of_tok :: "char \<Rightarrow> string" where
  "op_of_tok tok = (if tok \<in> set ''<>'' then [tok, tok] else [tok])"

definition binop_value :: "string \<Rightarrow> argument \<Rightarrow> argument \<Rightarrow> argument" where
  "binop_value op lhs rhs =
     (case (lhs, rhs) of
        (AsmSectionGlobalSymbol n sec add, AsmLiteral v) \<Rightarrow>
          if op = ''+'' then asm_section_global_symbol sec (add + v) else BinOp op lhs rhs
      | _ \<Rightarrow> BinOp op lhs rhs)"

definition parse_operator ::
  "arg_parser \<Rightarrow> nat \<Rightarrow> argument option \<Rightarrow> ploc \<Rightarrow> (loop_exit \<times> ploc) res" where
  "parse_operator rec precedence_cap value = (\<lambda>(elems, st).
     let op = op_of_tok (hd elems)
     in (case value of
           None \<Rightarrow> Inl AssertionError
         | Some lhs \<Rightarrow>
             ebind (py_assert (is_operand lhs)) (\<lambda>_.
             (case OP_PRECEDENCE op of
                None \<Rightarrow> Inl KeyError
              | Some precedence \<Rightarrow>
                  if precedence \<ge> precedence_cap then Inr (Brk, elems, st)
                  else ebind (expect_all op elems) (\<lambda>e1.
                    if op = ''-'' \<and> e1 = [] then Inl IndexError
                    else if op = ''-'' \<and> hd e1 = CHR ''_''
                    then (let (reloc_name, e2) = parse_word e1
                          in if reloc_name \<notin> {''_SDA_BASE_'', ''_SDA2_BASE_''}
                             then Inl DecompFailure
                             else Inr (Cont (Macro ''sda21'' lhs), e2, st))
                    else ebind (rec False True False precedence (e1, st)) (\<lambda>(rhs, loc1).
                      Inr (Cont (binop_value op lhs rhs), loc1)))))))"

definition parse_at ::
  "bool \<Rightarrow> argument option \<Rightarrow> ploc \<Rightarrow> (loop_exit \<times> ploc) res" where
  "parse_at top_level value = (\<lambda>(elems, st).
     if \<not> top_level then Inr (Brk, elems, st)
     else let (reloc_name, e1) = parse_word (tl elems)
          in ebind (py_assert (reloc_name \<in> {''h'', ''ha'', ''l'', ''sda2'', ''sda21''})) (\<lambda>_.
             (case value of
                None \<Rightarrow> Inl AssertionError
              | Some v \<Rightarrow> Inr (Cont (Macro reloc_name v), e1, st))))"

text \<open>
  One iteration of the loop, on a non-empty rest that does not start with white space.  The
  tests are in the order of the source; \<open>no_value\<close> is its \<open>assert value is None\<close>.
\<close>

definition parse_arg_step ::
  "arch_parsing \<Rightarrow> arg_parser \<Rightarrow> bool \<Rightarrow> nat \<Rightarrow> argument option \<Rightarrow> ploc
     \<Rightarrow> (loop_exit \<times> ploc) res" where
  "parse_arg_step arch rec top_level precedence_cap value = (\<lambda>(elems, st).
     let tok = hd elems;
         no_value = (\<lambda>m. ebind (py_assert (value = None)) (\<lambda>_. m))
     in if tok = CHR '','' then Inr (Brk, elems, st)
        else if tok = CHR ''$'' \<and> supports_dollar_regs arch
          then no_value (parse_dollar arch (elems, st))
        else if tok = CHR ''#''
          then no_value (Inr (Same, tl elems, st))
        else if tok = CHR ''{'' then no_value (parse_braces arch (elems, st))
        else if tok = CHR ''.'' then no_value (parse_dot (elems, st))
        else if tok = CHR ''%'' then no_value (parse_percent rec (elems, st))
        else if tok \<in> set '')]'' then Inr (Brk, elems, st)
        else if ascii_digit tok then no_value (parse_digits (elems, st))
        else if tok = CHR ''-'' \<and> value = None then parse_minus arch (elems, st)
        else if tok = CHR ''('' then parse_paren rec top_level value (elems, st)
        else if tok = CHR ''['' then no_value (parse_bracket rec (elems, st))
        else if tok = CHR ''!'' then parse_bang arch value (elems, st)
        else if tok = CHR 0x22 then no_value (parse_quote (elems, st))
        else if valid_word tok then no_value (parse_symbol rec top_level (elems, st))
        else if tok \<in> set ''<>+-*&|^'' then parse_operator rec precedence_cap value (elems, st)
        else if tok = CHR ''@'' then parse_at top_level value (elems, st)
        else Inl AssertionError)"

text \<open>After the loop: the value must exist, is folded, and a bare register name is replaced.\<close>

definition finish_arg ::
  "arch_parsing \<Rightarrow> bool \<Rightarrow> bool \<Rightarrow> argument option \<times> ploc \<Rightarrow> (argument \<times> ploc) res" where
  "finish_arg arch do_constant_fold do_replace_bare_reg = (\<lambda>(value, elems, st).
     (case value of
        None \<Rightarrow> Inl AssertionError
      | Some v \<Rightarrow>
          ebind (if do_constant_fold then constant_fold st v else Inr v) (\<lambda>v1.
          ebind (if do_replace_bare_reg then replace_bare_reg arch v1 st else Inr (v1, st))
            (\<lambda>(v2, st1). Inr (v2, elems, st1)))))"

fun parse_arg_loop ::
  "nat \<Rightarrow> arch_parsing \<Rightarrow> bool \<Rightarrow> nat \<Rightarrow> argument option \<Rightarrow> ploc
     \<Rightarrow> (argument option \<times> ploc) res" where
  "parse_arg_loop 0 arch top_level precedence_cap value loc = Inl OutOfFuel"
| "parse_arg_loop (Suc fuel) arch top_level precedence_cap value loc =
     (let elems = consume_ws (fst loc); st = snd loc
      in if elems = [] then Inr (value, elems, st)
         else ebind (parse_arg_step arch
             (\<lambda>top' fold' bare' cap' loc'.
                ebind (parse_arg_loop fuel arch top' cap' None loc') (finish_arg arch fold' bare'))
             top_level precedence_cap value (elems, st))
           (\<lambda>(ex, loc1).
             (case ex of
                Brk \<Rightarrow> Inr (value, loc1)
              | Cont v \<Rightarrow> parse_arg_loop fuel arch top_level precedence_cap (Some v) loc1
              | Same \<Rightarrow> parse_arg_loop fuel arch top_level precedence_cap value loc1)))"

definition parse_arg_elems :: "nat \<Rightarrow> arch_parsing \<Rightarrow> arg_parser" where
  "parse_arg_elems fuel arch top_level do_constant_fold do_replace_bare_reg precedence_cap loc =
     ebind (parse_arg_loop fuel arch top_level precedence_cap None loc)
       (finish_arg arch do_constant_fold do_replace_bare_reg)"

text \<open>
  The comma-separated arguments of an instruction.  A shift such as \<open>lsl #2\<close> is folded into the
  argument before it.
\<close>

definition barrel_shift :: "argument \<Rightarrow> (string \<times> argument) option" where
  "barrel_shift a = (case a of
     BinOp op l r \<Rightarrow> if op \<in> set ARM_BARREL_SHIFTER_OPS then Some (op, r) else None | _ \<Rightarrow> None)"

fun parse_args_loop ::
  "nat \<Rightarrow> arch_parsing \<Rightarrow> argument list \<Rightarrow> ploc \<Rightarrow> (argument list \<times> asm_state) res" where
  "parse_args_loop 0 arch output loc = Inl OutOfFuel"
| "parse_args_loop (Suc fuel) arch output (elems, st) =
     (if elems = [] then Inr (output, st)
      else ebind (parse_arg_elems (Suc (length elems)) arch True True True MAX_PRECEDENCE (elems, st))
        (\<lambda>(ret, e1, st1).
          (case barrel_shift ret of
             Some (op, rhs) \<Rightarrow>
               ebind (py_assert (output \<noteq> [])) (\<lambda>_.
                 parse_args_loop fuel arch (butlast output @ [BinOp op (last output) rhs]) (e1, st1))
           | None \<Rightarrow>
               ebind (if e1 = [] then Inr [] else ebind (expect '','' e1) (\<lambda>(_, e). Inr e))
                 (\<lambda>e2. parse_args_loop fuel arch (output @ [ret]) (e2, st1)))))"

definition parse_args ::
  "arch_parsing \<Rightarrow> string \<Rightarrow> asm_state \<Rightarrow> (argument list \<times> asm_state) res" where
  "parse_args arch args st =
     (let elems = py_strip args in parse_args_loop (Suc (length elems)) arch [] (elems, st))"

definition parse_arg :: "arch_parsing \<Rightarrow> string \<Rightarrow> asm_state \<Rightarrow> (argument \<times> asm_state) res" where
  "parse_arg arch arg st =
     ebind (parse_arg_elems (Suc (length arg)) arch False True False MAX_PRECEDENCE (arg, st))
       (\<lambda>(value, chars, st1). if chars \<noteq> [] then Inl PyException else Inr (value, st1))"

definition parse_asm_instruction ::
  "arch_parsing \<Rightarrow> string \<Rightarrow> asm_state \<Rightarrow> (asm_instruction \<times> asm_state) res" where
  "parse_asm_instruction arch line0 st =
     (let line = py_strip line0; (mnemonic, args_str) = py_partition line (CHR '' '')
      in ebind (parse_args arch args_str st) (\<lambda>(args, st1).
         ebind (normalize_instruction arch \<lparr>ai_mnemonic = py_lower mnemonic, ai_args = args\<rparr> st1)
           (\<lambda>instr. Inr (instr, st1))))"

end
