(* ===== verification/Asm_Parser.thy ===== *)
theory Asm_Parser
  imports Asm_Instruction
begin

text \<open>
  Facts about the argument parser of \<open>m2c/m2c/asm_instruction.py\<close>: every iteration of its loop
  either stops or consumes input, so the fuel that the entry points pass is always enough; the
  shared state only ever gains register names.
\<close>

section \<open>The state only gains register names\<close>

definition st_ext :: "asm_state \<Rightarrow> asm_state \<Rightarrow> bool" where
  "st_ext st st' \<longleftrightarrow> used_names st \<subseteq>\<^sub>m used_names st' \<and> st' = st\<lparr>used_names := used_names st'\<rparr>"

lemma st_ext_refl [simp, intro!]: "st_ext st st"
  by (simp add: st_ext_def)

lemma st_ext_trans [trans]: "st_ext a b \<Longrightarrow> st_ext b c \<Longrightarrow> st_ext a c"
  unfolding st_ext_def by (metis asm_state.unfold_congs(2) map_le_trans asm_state.surjective asm_state.update_convs(2))

lemma parse_and_store_ext: "parse_and_store arch n st = Inr (r, st') \<Longrightarrow> st_ext st st'"
  by (auto simp: parse_and_store_def Let_def st_ext_def map_le_def split: option.splits if_splits)

lemma replace_bare_reg_ext: "replace_bare_reg arch a st = Inr (v, st') \<Longrightarrow> st_ext st st'"
  by (auto simp: replace_bare_reg_def Let_def split: option.splits if_splits dest: parse_and_store_ext)

lemma no_fuel_parse_and_store [no_fuel_intros]: "no_fuel (parse_and_store arch n st)"
  by (auto simp: parse_and_store_def Let_def split: option.splits)

lemma no_fuel_replace_bare_reg [no_fuel_intros]: "no_fuel (replace_bare_reg arch a st)"
  by (auto simp: replace_bare_reg_def Let_def split: option.splits
      intro!: no_fuel_ebind no_fuel_parse_and_store)

lemma no_fuel_fold_op [no_fuel_intros]: "no_fuel (fold_op op a b)"
  by (auto simp: fold_op_def py_shl_def py_shr_def)

lemma no_fuel_constant_fold [no_fuel_intros]: "no_fuel (constant_fold st a)"
  by (induction st a rule: constant_fold.induct)
    (auto intro!: no_fuel_ebind no_fuel_fold_op split: argument.split option.split)

lemma no_fuel_expect [no_fuel_intros]: "no_fuel (expect n e)"
  by (simp add: expect_def split: list.split)

lemma no_fuel_expect_all [no_fuel_intros]: "no_fuel (expect_all n e)"
  by (induction n e rule: expect_all.induct) (auto intro!: no_fuel_ebind no_fuel_expect)

lemma no_fuel_signed_read [no_fuel_intros]: "no_fuel (signed_read rd s)"
  by (simp add: signed_read_def Let_def split: option.split)

lemma no_fuel_py_int [no_fuel_intros]: "no_fuel (py_int0 s)" "no_fuel (py_int10 s)"
  by (simp_all add: py_int0_def py_int10_def no_fuel_signed_read)

lemma no_fuel_parse_number [no_fuel_intros]: "no_fuel (parse_number s)"
  by (auto simp: parse_number_def intro!: no_fuel_ebind no_fuel_py_int split: list.split)

lemma no_fuel_arm_index [no_fuel_intros]: "no_fuel (arm_index r)"
  by (auto simp: arm_index_def Let_def intro!: no_fuel_ebind no_fuel_py_int split: option.split)

lemma no_fuel_sort_by_arm_index [no_fuel_intros]: "no_fuel (sort_by_arm_index li)"
  by (auto simp: sort_by_arm_index_def intro!: no_fuel_ebind no_fuel_emap no_fuel_arm_index)

lemma no_fuel_reg_list_sep [no_fuel_intros]: "no_fuel (reg_list_sep li e)"
  by (auto simp: reg_list_sep_def intro!: no_fuel_ebind no_fuel_expect)

lemma no_fuel_parse_reg_list [no_fuel_intros]: "no_fuel (parse_reg_list arch li e st)"
proof (induction arch li e st rule: parse_reg_list.induct)
  case (1 arch li elems st)
  note IH1 = "1.IH"(1) [OF _ refl _ _ refl]
  note IH2 = "1.IH"(2) [OF _ refl _ _ refl _ _ _ refl, unfolded append.simps]
  show ?case
    apply (subst parse_reg_list.simps)
    apply (auto intro!: no_fuel_ebind no_fuel_reg_list_sep no_fuel_parse_and_store
        no_fuel_arm_index split: list.split)
    subgoal by (erule IH1; simp)
    subgoal by (erule IH2; simp)
    done
qed

section \<open>Progress of one iteration\<close>

fun progress :: "ploc \<Rightarrow> loop_exit \<times> ploc \<Rightarrow> bool" where
  "progress (e, st) (ex, e', st') \<longleftrightarrow>
     st_ext st st' \<and> (if ex = Brk then e' = e else length e' < length e)"

definition progresses :: "ploc \<Rightarrow> (loop_exit \<times> ploc) res \<Rightarrow> bool" where
  "progresses loc m \<longleftrightarrow> (\<forall>r. m = Inr r \<longrightarrow> progress loc r)"

lemma progressesI: "(\<And>r. m = Inr r \<Longrightarrow> progress loc r) \<Longrightarrow> progresses loc m"
  by (simp add: progresses_def)

lemma progresses_assert: "progresses loc x \<Longrightarrow> progresses loc (ebind (py_assert b) (\<lambda>_. x))"
  by (auto simp: progresses_def)

lemma progresses_Inl: "progresses loc (Inl e)"
  by (simp add: progresses_def)

lemma expect_length: "expect n e = Inr (c, e') \<Longrightarrow> length e' < length e"
  by (auto simp: expect_Inr_iff)

lemma parse_word_valid: "e \<noteq> [] \<Longrightarrow> valid_word (hd e) \<Longrightarrow> length (snd (parse_word e)) < length e"
  by (cases e) (simp_all add: parse_word_def le_imp_less_Suc length_dropWhile_le)

lemma parse_quoted_length: "length (snd (parse_quoted q e)) \<le> length e"
proof (induction e rule: length_induct)
  case (1 e)
  show ?case
  proof (cases e)
    case (Cons c r)
    have r: "length (snd (parse_quoted q r)) \<le> length r" using 1 Cons by simp
    have "length (snd (parse_quoted q r')) \<le> length r'" if "r = d # r'" for d r'
      using 1 Cons that by simp
    with r show ?thesis
      by (cases r) (simp_all add: Cons Let_def case_prod_beta le_SucI)
  qed simp
qed

lemma expect_all_length: "expect_all op e = Inr e' \<Longrightarrow> length e = length op + length e'"
  by (induction op e rule: expect_all.induct) (auto simp: expect_Inr_iff)

lemma parse_reg_list_progress:
  "parse_reg_list arch li e st = Inr (li', e', st') \<Longrightarrow> st_ext st st' \<and> length e' \<le> length e"
proof (induction arch li e st arbitrary: li' e' st' rule: parse_reg_list.induct)
  case (1 arch li elems st)
  from "1.prems" obtain closed e2 where sep: "reg_list_sep li (consume_ws elems) = Inr (closed, e2)"
    by (subst (asm) parse_reg_list.simps) auto
  have e2: "length e2 \<le> length elems"
    using reg_list_sep_length [OF sep] consume_ws_length [of elems] by (auto split: if_splits)
  show ?case
  proof (cases closed)
    case True
    with "1.prems" sep e2 show ?thesis
      by (subst (asm) parse_reg_list.simps) auto
  next
    case False
    with "1.prems" sep obtain reg1 st1 c e5
      where s1: "parse_and_store arch (fst (parse_word e2)) st = Inr (reg1, st1)"
        and w1: "consume_ws (snd (parse_word e2)) = c # e5"
      by (subst (asm) parse_reg_list.simps) (auto split: list.splits)
    note ext1 = parse_and_store_ext [OF s1] and e5 = after_word_length [OF w1]
    show ?thesis
    proof (cases "c = CHR ''-''")
      case dash: False
      with "1.prems" sep False s1 w1
      have "parse_reg_list arch (li @ [reg1]) (c # e5) st1 = Inr (li', e', st')"
        by (subst (asm) parse_reg_list.simps) auto
      from "1.IH"(1) [OF sep _ False s1 _ w1 dash this] ext1 e5 e2
      show ?thesis by (auto intro: st_ext_trans)
    next
      case dash: True
      with "1.prems" sep False s1 w1 obtain reg2 st2 i1 i2
        where s2: "parse_and_store arch (fst (parse_word (consume_ws e5))) st1 = Inr (reg2, st2)"
          and i1: "arm_index reg1 = Inr i1" and i2: "arm_index reg2 = Inr i2"
          and rest: "parse_reg_list arch
                (li @ map (\<lambda>i. reg_parse arch (''r'' @ py_str_int i)) [i1..i2])
                (snd (parse_word (consume_ws e5))) st2 = Inr (li', e', st')"
        by (subst (asm) parse_reg_list.simps) auto
      from "1.IH"(2) [OF sep _ False s1 _ w1 _ s2 _ i1 i2 rest] dash ext1 e5 e2
        parse_and_store_ext [OF s2] second_word_length [of e5]
      show ?thesis by (auto intro: st_ext_trans)
    qed
  qed
qed

lemma parse_braces_progress:
  assumes "e \<noteq> []" and "parse_braces arch (e, st) = Inr r"
  shows "progress (e, st) r"
proof -
  obtain li e1 st1 li' where rl: "parse_reg_list arch [] (tl e) st = Inr (li, e1, st1)"
    and r: "r = (Cont (RegisterList li'),
      (if consume_ws e1 \<noteq> [] \<and> hd (consume_ws e1) = CHR ''^'' then tl (consume_ws e1)
       else consume_ws e1), st1)"
    using assms by (auto simp: parse_braces_def Let_def)
  from parse_reg_list_progress [OF rl] assms consume_ws_length [of e1] show ?thesis
    by (cases e) (auto simp: r)
qed

lemma parse_dollar_progress:
  "e \<noteq> [] \<Longrightarrow> valid_word (hd e) \<Longrightarrow> parse_dollar arch (e, st) = Inr r \<Longrightarrow> progress (e, st) r"
  using parse_word_valid [of e]
  by (auto simp: parse_dollar_def Let_def split: prod.splits if_splits dest: parse_and_store_ext)

lemma tl_parse_word_length: "e \<noteq> [] \<Longrightarrow> length (snd (parse_word (tl e))) < length e"
  using parse_word_length [of "tl e"] by (cases e) auto

lemma parse_dot_progress: "e \<noteq> [] \<Longrightarrow> parse_dot (e, st) = Inr r \<Longrightarrow> progress (e, st) r"
  using tl_parse_word_length [of e] by (auto simp: parse_dot_def Let_def split: prod.splits if_splits)

lemma parse_digits_progress:
  "e \<noteq> [] \<Longrightarrow> valid_word (hd e) \<Longrightarrow> parse_digits (e, st) = Inr r \<Longrightarrow> progress (e, st) r"
  using parse_word_valid [of e] by (auto simp: parse_digits_def Let_def split: prod.splits)

lemma parse_minus_progress: "e \<noteq> [] \<Longrightarrow> parse_minus arch (e, st) = Inr r \<Longrightarrow> progress (e, st) r"
  using second_word_length [of "tl e"]
  by (cases e) (auto simp: parse_minus_def Let_def split: prod.splits if_splits dest: replace_bare_reg_ext)

lemma parse_bang_progress: "e \<noteq> [] \<Longrightarrow> parse_bang arch v (e, st) = Inr r \<Longrightarrow> progress (e, st) r"
  by (auto simp: parse_bang_def split: option.splits argument.splits) (rule replace_bare_reg_ext)

lemma parse_quote_progress: "e \<noteq> [] \<Longrightarrow> parse_quote (e, st) = Inr r \<Longrightarrow> progress (e, st) r"
  using parse_quoted_length [of "CHR 0x22" "tl e"]
  by (cases e) (auto simp: parse_quote_def expect_Inr_iff split: prod.splits)

lemma parse_at_progress: "e \<noteq> [] \<Longrightarrow> parse_at lvl v (e, st) = Inr r \<Longrightarrow> progress (e, st) r"
  using tl_parse_word_length [of e]
  by (auto simp: parse_at_def Let_def split: prod.splits if_splits option.splits)

lemma no_fuel_leaves:
  "no_fuel (parse_dollar arch loc)" "no_fuel (parse_braces arch loc)" "no_fuel (parse_dot loc)"
  "no_fuel (parse_digits loc)" "no_fuel (parse_minus arch loc)" "no_fuel (parse_bang arch v loc)"
  "no_fuel (parse_quote loc)" "no_fuel (parse_at lvl v loc)"
  by (cases loc; auto simp: parse_dollar_def parse_braces_def parse_dot_def parse_digits_def
      parse_minus_def parse_bang_def parse_quote_def parse_at_def Let_def
      split: prod.split option.split argument.split intro!: no_fuel_ebind no_fuel_intros)+

section \<open>The contract of the nested calls\<close>

text \<open>
  What an iteration relies on from the parser it calls back: the result leaves no more input
  than it was given, the state only gains names, and inputs shorter than \<open>n\<close> do not exhaust
  the callee's fuel.  The facts about the iteration are proved once from this contract.
\<close>

locale sub_parser =
  fixes rec :: arg_parser and n :: nat
  assumes rec_shrinks:
      "rec lvl fld bare cap (e, st) = Inr (v, e', st') \<Longrightarrow> st_ext st st' \<and> length e' \<le> length e"
    and rec_no_fuel: "length e < n \<Longrightarrow> no_fuel (rec lvl fld bare cap (e, st))"
begin

lemma rec_after_tl:
  assumes "e \<noteq> []" and "rec lvl fld bare cap (tl e, st) = Inr (v, e', st')"
  shows "st_ext st st' \<and> length e' < length e"
  using rec_shrinks [OF assms(2)] assms(1) by (cases e) auto

lemma parse_percent_progress:
  assumes "e \<noteq> []" and "parse_percent rec (e, st) = Inr r"
  shows "progress (e, st) r"
proof -
  obtain w e1 where w: "parse_word (tl e) = (w, e1)" by fastforce
  with assms obtain c d e2 m e3 st1 e4
    where x: "expect ''('' e1 = Inr (c, e2)" "expect '')'' e3 = Inr (d, e4)"
      and sub: "rec False True False MAX_PRECEDENCE (e2, st) = Inr (m, e3, st1)"
      and r: "r = (Cont (Macro w m), e4, st1)"
    by (auto simp: parse_percent_def)
  show ?thesis
    using x [THEN expect_length] rec_shrinks [OF sub] tl_parse_word_length [OF assms(1)] w
    by (simp add: r)
qed

lemma parse_paren_progress:
  assumes "e \<noteq> []" and "parse_paren rec lvl v (e, st) = Inr r"
  shows "progress (e, st) r"
proof (cases "v \<noteq> None \<and> \<not> lvl")
  case True
  with assms show ?thesis by (auto simp: parse_paren_def)
next
  case False
  with assms obtain rhs e1 st1 d e2
    where sub: "rec False False True MAX_PRECEDENCE (tl e, st) = Inr (rhs, e1, st1)"
      and x: "expect '')'' e1 = Inr (d, e2)" and r: "\<exists>v'. r = (Cont v', e2, st1)"
    by (auto simp: parse_paren_def Let_def split: argument.splits if_splits option.splits)
  show ?thesis
    using r rec_after_tl [OF assms(1) sub] expect_length [OF x] by auto
qed

lemma parse_bracket_shift_shrinks:
  assumes "parse_bracket_shift rec ad (e, st) = Inr (a, e', st')"
  shows "st_ext st st' \<and> length e' \<le> length e"
proof -
  obtain w e5 where w: "parse_word (consume_ws e) = (w, e5)" by fastforce
  with assms obtain sh e6 f
    where s2: "(if py_lower w = ''rrx'' then Inr (AsmLiteral 1, e5, st)
            else rec False True True MAX_PRECEDENCE (e5, st)) = Inr (sh, e6, st')"
      and x3: "expect '']'' e6 = Inr (f, e')"
    by (auto simp: parse_bracket_shift_def Let_def)
  have "st_ext st st' \<and> length e6 \<le> length e5"
    using s2 by (auto split: if_splits dest: rec_shrinks)
  with expect_length [OF x3] w second_word_length [of e] show ?thesis by auto
qed

lemma parse_bracket_addend_shrinks:
  assumes "parse_bracket_addend rec (e, st) = Inr (a, e', st')"
  shows "st_ext st st' \<and> length e' \<le> length e"
proof -
  obtain c e2 where x1: "expect '',]'' e = Inr (c, e2)"
    using assms by (auto simp: parse_bracket_addend_def)
  show ?thesis
  proof (cases "c = CHR '',''")
    case False
    with assms x1 expect_length [OF x1] show ?thesis
      by (auto simp: parse_bracket_addend_def)
  next
    case True
    with assms x1 obtain ad e3 st2 d e4
      where s1: "rec False True True MAX_PRECEDENCE (e2, st) = Inr (ad, e3, st2)"
        and x2: "expect '',]'' e3 = Inr (d, e4)"
        and r: "(if d \<noteq> CHR '','' then Inr (Some ad, e4, st2)
            else parse_bracket_shift rec ad (e4, st2)) = Inr (a, e', st')"
      by (auto simp: parse_bracket_addend_def)
    have "st_ext st2 st' \<and> length e' \<le> length e4"
      using r by (auto split: if_splits dest: parse_bracket_shift_shrinks)
    with rec_shrinks [OF s1] expect_length [OF x1] expect_length [OF x2] show ?thesis
      by (auto intro: st_ext_trans)
  qed
qed

lemma parse_bracket_progress:
  assumes "e \<noteq> []" and "parse_bracket rec (e, st) = Inr r"
  shows "progress (e, st) r"
proof -
  obtain b e1 st1 a e2 st2
    where s1: "rec False True True MAX_PRECEDENCE (tl e, st) = Inr (Reg b, e1, st1)"
      and ad: "parse_bracket_addend rec (e1, st1) = Inr (a, e2, st2)"
    using assms(2) by (auto simp: parse_bracket_def split: argument.splits)
  define e3 where "e3 = consume_ws e2"
  have e3: "length e3 < length e" and ext: "st_ext st st2"
    using rec_after_tl [OF assms(1) s1] parse_bracket_addend_shrinks [OF ad]
      consume_ws_length [of e2] by (auto simp: e3_def intro: st_ext_trans)
  from assms(2) s1 ad consider (stay) v where "r = (Cont v, tl e3, st2) \<or> r = (Cont v, e3, st2)"
    | (post) v e4 st4 where "rec False True True MAX_PRECEDENCE (tl e3, st2) = Inr (v, e4, st4)"
        "r = (Cont (AsmAddressMode b v (Some POST)), e4, st4)"
    by (auto simp: parse_bracket_def Let_def e3_def split: if_splits)
  then show ?thesis
  proof cases
    case stay
    with e3 ext show ?thesis by auto
  next
    case post
    with rec_shrinks [OF post(1)] e3 ext show ?thesis by (auto intro: st_ext_trans)
  qed
qed

lemma parse_symbol_progress:
  assumes "e \<noteq> []" and "valid_word (hd e)" and "parse_symbol rec lvl (e, st) = Inr r"
  shows "progress (e, st) r"
proof -
  obtain w e1 where w: "parse_word e = (w, e1)" by fastforce
  have e2: "length (consume_ws e1) < length e" "length e1 < length e"
    using parse_word_valid [OF assms(1,2)] w consume_ws_length [of e1] by auto
  from assms(3) w consider (plain) v where "r = (Cont v, e1, st) \<or> r = (Cont v, consume_ws e1, st)"
    | (shift) v e3 st1 v' where "rec False True True MAX_PRECEDENCE (consume_ws e1, st) = Inr (v, e3, st1)"
        "r = (Cont v', e3, st1)"
    by (auto simp: parse_symbol_def Let_def split: if_splits)
  then show ?thesis
  proof cases
    case plain
    with e2 show ?thesis by auto
  next
    case shift
    with rec_shrinks [OF shift(1)] e2 show ?thesis by auto
  qed
qed

lemma parse_operator_progress:
  assumes "e \<noteq> []" and "parse_operator rec cap v (e, st) = Inr r"
  shows "progress (e, st) r"
proof -
  define op where "op = op_of_tok (hd e)"
  have "op \<noteq> []" by (simp add: op_def op_of_tok_def)
  from assms(2) consider (stop) "r = (Brk, e, st)"
    | (sda) e1 v' where "expect_all op e = Inr e1" "r = (Cont v', snd (parse_word e1), st)"
    | (rhs) e1 p v' e2 st2 v'' where "expect_all op e = Inr e1"
        "rec False True False p (e1, st) = Inr (v', e2, st2)" "r = (Cont v'', e2, st2)"
    by (auto simp: parse_operator_def Let_def op_def [symmetric] simp del: expect_all.simps
        split: option.splits if_splits prod.splits)
  then show ?thesis
  proof cases
    case stop
    then show ?thesis by simp
  next
    case sda
    with expect_all_length [OF sda(1)] \<open>op \<noteq> []\<close> parse_word_length [of e1] show ?thesis
      by (cases op) auto
  next
    case rhs
    with expect_all_length [OF rhs(1)] \<open>op \<noteq> []\<close> rec_shrinks [OF rhs(2)] show ?thesis
      by (cases op) auto
  qed
qed

lemma parse_arg_step_progresses:
  assumes "e \<noteq> []"
  shows "progresses (e, st) (parse_arg_step arch rec lvl cap v (e, st))"
proof -
  have dig: "ascii_digit c \<Longrightarrow> valid_word c" for c
    by (simp add: valid_word_def)
  have dol: "valid_word (CHR ''$'')"
    by (simp add: valid_word_def)
  have stop: "progresses (e, st) (Inr (Brk, e, st))" "progresses (e, st) (Inr (Same, tl e, st))"
    using assms by (simp_all add: progresses_def)
  have subs: "progresses (e, st) (parse_percent rec (e, st))"
    "progresses (e, st) (parse_paren rec lvl v (e, st))"
    "progresses (e, st) (parse_bracket rec (e, st))"
    "progresses (e, st) (parse_operator rec cap v (e, st))"
    "valid_word (hd e) \<Longrightarrow> progresses (e, st) (parse_symbol rec lvl (e, st))"
    by (rule progressesI, erule parse_percent_progress [OF assms] parse_paren_progress [OF assms]
        parse_bracket_progress [OF assms] parse_operator_progress [OF assms]
        parse_symbol_progress [OF assms]; assumption?)+
  have leaves: "progresses (e, st) (parse_braces arch (e, st))" "progresses (e, st) (parse_dot (e, st))"
    "progresses (e, st) (parse_minus arch (e, st))" "progresses (e, st) (parse_bang arch v (e, st))"
    "progresses (e, st) (parse_quote (e, st))" "progresses (e, st) (parse_at lvl v (e, st))"
    "valid_word (hd e) \<Longrightarrow> progresses (e, st) (parse_dollar arch (e, st))"
    "valid_word (hd e) \<Longrightarrow> progresses (e, st) (parse_digits (e, st))"
    by (rule progressesI, erule parse_braces_progress [OF assms] parse_dot_progress [OF assms]
        parse_minus_progress [OF assms] parse_bang_progress [OF assms] parse_quote_progress [OF assms]
        parse_at_progress [OF assms] parse_dollar_progress [OF assms]
        parse_digits_progress [OF assms]; assumption?)+
  show ?thesis
    unfolding parse_arg_step_def Let_def prod.case
    by (simp add: progresses_assert progresses_Inl stop subs leaves dig dol)
qed

lemma no_fuel_rec_tl:
  assumes "e \<noteq> []" and "length e \<le> n"
  shows "no_fuel (rec lvl fld bare cap (tl e, st))"
  using assms by (cases e) (auto intro: rec_no_fuel)

lemma no_fuel_parse_percent:
  assumes "e \<noteq> []" and "length e \<le> n"
  shows "no_fuel (parse_percent rec (e, st))"
proof -
  obtain w e1 where w: "parse_word (tl e) = (w, e1)" by fastforce
  have "no_fuel (rec False True False MAX_PRECEDENCE (e2, st))" if "expect ''('' e1 = Inr (c, e2)" for c e2
    using that w expect_length [OF that] tl_parse_word_length [OF assms(1)] assms(2)
    by (intro rec_no_fuel) auto
  then show ?thesis
    by (auto simp: parse_percent_def w intro!: no_fuel_ebind no_fuel_expect)
qed

lemma no_fuel_parse_paren:
  assumes "e \<noteq> []" and "length e \<le> n"
  shows "no_fuel (parse_paren rec lvl v (e, st))"
  using no_fuel_rec_tl [OF assms]
  by (auto simp: parse_paren_def Let_def simp del: constant_fold.simps
      intro!: no_fuel_ebind no_fuel_expect no_fuel_constant_fold no_fuel_if
      split: argument.split option.split)

lemma no_fuel_parse_bracket_shift:
  assumes "length e < n"
  shows "no_fuel (parse_bracket_shift rec ad (e, st))"
proof -
  obtain w e5 where w: "parse_word (consume_ws e) = (w, e5)" by fastforce
  have "no_fuel (rec False True True MAX_PRECEDENCE (e5, st))"
    using second_word_length [of e] w assms by (intro rec_no_fuel) simp
  then show ?thesis
    by (auto simp: parse_bracket_shift_def w Let_def
        intro!: no_fuel_ebind no_fuel_expect no_fuel_constant_fold)
qed

lemma no_fuel_parse_bracket_addend:
  assumes "length e \<le> n"
  shows "no_fuel (parse_bracket_addend rec (e, st))"
proof -
  have sub: "no_fuel (rec lvl fld bare cap (e', st'))" if "expect '',]'' e = Inr (c, e')" for lvl fld bare cap c e' st'
    using expect_length [OF that] assms by (intro rec_no_fuel) simp
  have sub2: "no_fuel (parse_bracket_shift rec a (e4, st2))"
    if "expect '',]'' e = Inr (c, e2)" "rec False True True MAX_PRECEDENCE (e2, st) = Inr (a, e3, st2)"
      "expect '',]'' e3 = Inr (d, e4)" for c e2 a e3 st2 d e4
    using expect_length [OF that(1)] expect_length [OF that(3)] rec_shrinks [OF that(2)] assms
    by (intro no_fuel_parse_bracket_shift) simp
  show ?thesis
    unfolding parse_bracket_addend_def prod.case
    by (rule no_fuel_ebind [OF no_fuel_expect])
      (auto intro!: no_fuel_ebind no_fuel_expect; (erule sub | (rule sub2; assumption)))
qed

lemma no_fuel_parse_bracket:
  assumes "e \<noteq> []" and "length e \<le> n"
  shows "no_fuel (parse_bracket rec (e, st))"
proof -
  have tl3: "no_fuel (rec False True True MAX_PRECEDENCE (tl (consume_ws e2), st2))"
    and ad1: "no_fuel (parse_bracket_addend rec (e1, st1))"
    if s1: "rec False True True MAX_PRECEDENCE (tl e, st) = Inr (v, e1, st1)"
      and ad: "parse_bracket_addend rec (e1, st1) = Inr (a, e2, st2) \<or> e2 = e1"
    for v e1 st1 a e2 st2
  proof -
    have "length e1 < length e" using rec_after_tl [OF assms(1) s1] by simp
    moreover have "length e2 \<le> length e1"
      using ad parse_bracket_addend_shrinks by blast
    ultimately show "no_fuel (rec False True True MAX_PRECEDENCE (tl (consume_ws e2), st2))"
      and "no_fuel (parse_bracket_addend rec (e1, st1))"
      using consume_ws_length [of e2] assms(2)
      by (auto intro!: rec_no_fuel no_fuel_parse_bracket_addend)
  qed
  show ?thesis
    unfolding parse_bracket_def prod.case
    by (rule no_fuel_ebind [OF no_fuel_rec_tl [OF assms]])
      (auto simp: Let_def split: argument.split intro!: no_fuel_ebind no_fuel_if intro: tl3 ad1)
qed

lemma no_fuel_parse_symbol:
  assumes "e \<noteq> []" and "length e \<le> n" and "valid_word (hd e)"
  shows "no_fuel (parse_symbol rec lvl (e, st))"
proof -
  obtain w e1 where w: "parse_word e = (w, e1)" by fastforce
  have "no_fuel (rec False True True MAX_PRECEDENCE (consume_ws e1, st))"
    using parse_word_valid [OF assms(1,3)] w consume_ws_length [of e1] assms(2)
    by (intro rec_no_fuel) auto
  then show ?thesis
    by (auto simp: parse_symbol_def w Let_def intro!: no_fuel_ebind)
qed

lemma no_fuel_parse_operator:
  assumes "e \<noteq> []" and "length e \<le> n"
  shows "no_fuel (parse_operator rec cap v (e, st))"
proof -
  have "no_fuel (rec False True False p (e1, st))" if "expect_all (op_of_tok (hd e)) e = Inr e1" for p e1
    using expect_all_length [OF that] assms(2)
    by (intro rec_no_fuel) (simp add: op_of_tok_def split: if_splits)
  then show ?thesis
    by (auto simp: parse_operator_def Let_def simp del: expect_all.simps
        intro!: no_fuel_ebind no_fuel_expect_all split: option.split prod.splits)
qed

lemma no_fuel_parse_arg_step:
  assumes "e \<noteq> []" and "length e \<le> n"
  shows "no_fuel (parse_arg_step arch rec lvl cap v (e, st))"
  unfolding parse_arg_step_def Let_def prod.case
  by (intro no_fuel_if no_fuel_ebind no_fuel_assert no_fuel_Inr no_fuel_parse_percent
      no_fuel_parse_paren no_fuel_parse_bracket no_fuel_parse_symbol no_fuel_parse_operator
      no_fuel_leaves assms; simp)

end

section \<open>The loop meets its own contract\<close>

lemma finish_arg_shrinks:
  "finish_arg arch fld bare (v, e, st) = Inr (a, e', st') \<Longrightarrow> st_ext st st' \<and> e' = e \<and> v \<noteq> None"
  by (auto simp: finish_arg_def split: option.splits if_splits dest: replace_bare_reg_ext)

lemma no_fuel_finish_arg [no_fuel_intros]: "no_fuel (finish_arg arch fld bare r)"
  by (cases r)
    (auto simp: finish_arg_def intro!: no_fuel_ebind no_fuel_constant_fold no_fuel_replace_bare_reg
      split: option.split)

lemma parse_arg_loop_Suc:
  "parse_arg_loop (Suc fuel) arch lvl cap v (e, st) =
     (if consume_ws e = [] then Inr (v, [], st)
      else ebind (parse_arg_step arch (parse_arg_elems fuel arch) lvl cap v (consume_ws e, st))
        (\<lambda>(ex, loc). case ex of
            Brk \<Rightarrow> Inr (v, loc)
          | Cont v' \<Rightarrow> parse_arg_loop fuel arch lvl cap (Some v') loc
          | Same \<Rightarrow> parse_arg_loop fuel arch lvl cap v loc))"
proof -
  have "(\<lambda>top' fold' bare' cap' loc'. ebind (parse_arg_loop fuel arch top' cap' None loc')
      (finish_arg arch fold' bare')) = parse_arg_elems fuel arch"
    by (intro ext) (simp add: parse_arg_elems_def)
  then show ?thesis by (simp add: Let_def)
qed

declare parse_arg_loop.simps(2) [simp del] parse_args_loop.simps(2) [simp del]

lemma parse_arg_loop_cases:
  assumes "parse_arg_loop (Suc fuel) arch lvl cap v (e, st) = Inr r"
  obtains (fin) "consume_ws e = []" "r = (v, [], st)"
  | (brk) loc where "consume_ws e \<noteq> []" "r = (v, loc)"
      "parse_arg_step arch (parse_arg_elems fuel arch) lvl cap v (consume_ws e, st) = Inr (Brk, loc)"
  | (go) ex v' loc where "consume_ws e \<noteq> []" "ex \<noteq> Brk" "v' = v \<or> v' \<noteq> None"
      "parse_arg_step arch (parse_arg_elems fuel arch) lvl cap v (consume_ws e, st) = Inr (ex, loc)"
      "parse_arg_loop fuel arch lvl cap v' loc = Inr r"
proof (cases "consume_ws e = []")
  case True
  with assms fin show ?thesis by (simp add: parse_arg_loop_Suc)
next
  case False
  with assms obtain ex loc
    where step: "parse_arg_step arch (parse_arg_elems fuel arch) lvl cap v (consume_ws e, st) = Inr (ex, loc)"
      and rest: "(case ex of Brk \<Rightarrow> Inr (v, loc)
          | Cont v' \<Rightarrow> parse_arg_loop fuel arch lvl cap (Some v') loc
          | Same \<Rightarrow> parse_arg_loop fuel arch lvl cap v loc) = Inr r"
    by (auto simp: parse_arg_loop_Suc)
  show ?thesis
  proof (cases ex)
    case Brk
    with rest step show ?thesis by (intro brk [OF False]) auto
  next
    case (Cont v')
    with rest step show ?thesis by (intro go [OF False _ _ step]) auto
  next
    case Same
    with rest step show ?thesis by (intro go [OF False _ _ step]) auto
  qed
qed

definition shrinks :: "argument option \<Rightarrow> ploc \<Rightarrow> argument option \<times> ploc \<Rightarrow> bool" where
  "shrinks v loc r \<longleftrightarrow> st_ext (snd loc) (snd (snd r)) \<and> length (fst (snd r)) \<le> length (fst loc) \<and>
     (fst r = v \<or> length (fst (snd r)) < length (fst loc))"

lemma loop_contract:
  "(parse_arg_loop fuel arch lvl cap v (e, st) = Inr r \<longrightarrow> shrinks v (e, st) r) \<and>
   (length e < fuel \<longrightarrow> no_fuel (parse_arg_loop fuel arch lvl cap v (e, st)))"
proof (induction fuel arbitrary: lvl cap v e st r)
  case 0
  show ?case by simp
next
  case (Suc fuel)
  have sub: "sub_parser (parse_arg_elems fuel arch) fuel"
  proof
    fix lvl fld bare cap e st v e' st'
    assume "parse_arg_elems fuel arch lvl fld bare cap (e, st) = Inr (v, e', st')"
    then obtain r where "parse_arg_loop fuel arch lvl cap None (e, st) = Inr r"
      and "finish_arg arch fld bare r = Inr (v, e', st')"
      by (auto simp: parse_arg_elems_def)
    with Suc.IH [of lvl cap None e st r] show "st_ext st st' \<and> length e' \<le> length e"
      by (cases r) (auto simp: shrinks_def dest!: finish_arg_shrinks intro: st_ext_trans)
  next
    fix lvl fld bare cap st and e :: string
    assume "length e < fuel"
    with Suc.IH show "no_fuel (parse_arg_elems fuel arch lvl fld bare cap (e, st))"
      by (auto simp: parse_arg_elems_def intro!: no_fuel_ebind no_fuel_finish_arg)
  qed
  note ws = consume_ws_length [of e]
  have step: "progress (consume_ws e, st) x"
    if "consume_ws e \<noteq> []" "parse_arg_step arch (parse_arg_elems fuel arch) lvl cap v (consume_ws e, st) = Inr x" for x
    using sub_parser.parse_arg_step_progresses [OF sub that(1)] that(2) unfolding progresses_def by blast
  have "shrinks v (e, st) r" if "parse_arg_loop (Suc fuel) arch lvl cap v (e, st) = Inr r"
    using that
  proof (cases rule: parse_arg_loop_cases)
    case fin
    with ws show ?thesis by (simp add: shrinks_def)
  next
    case (brk loc)
    with step [OF brk(1,3)] ws show ?thesis by (cases loc) (simp add: shrinks_def)
  next
    case (go ex v' loc)
    obtain e1 st1 where loc: "loc = (e1, st1)" by fastforce
    with step [OF go(1,4)] go(2) have "st_ext st st1" "length e1 < length (consume_ws e)" by simp_all
    moreover have "shrinks v' (e1, st1) r" using Suc.IH go(5) by (simp add: loc)
    ultimately show ?thesis using ws by (auto simp: shrinks_def intro: st_ext_trans)
  qed
  moreover have "no_fuel (parse_arg_loop (Suc fuel) arch lvl cap v (e, st))" if "length e < Suc fuel"
  proof (cases "consume_ws e = []")
    case True
    then show ?thesis by (simp add: parse_arg_loop_Suc)
  next
    case False
    have "no_fuel (parse_arg_step arch (parse_arg_elems fuel arch) lvl cap v (consume_ws e, st))"
      using sub_parser.no_fuel_parse_arg_step [OF sub False] that ws by simp
    moreover have "no_fuel (parse_arg_loop fuel arch lvl cap v' (e1, st1))"
      if "parse_arg_step arch (parse_arg_elems fuel arch) lvl cap v (consume_ws e, st) = Inr (ex, e1, st1)"
        and "ex \<noteq> Brk" for ex v' e1 st1
      using step [OF False that(1)] that(2) Suc.IH \<open>length e < Suc fuel\<close> ws by auto
    ultimately show ?thesis
      using False
      by (auto simp: parse_arg_loop_Suc intro!: no_fuel_ebind split: loop_exit.split)
  qed
  ultimately show ?case by blast
qed

interpretation arg: sub_parser "parse_arg_elems fuel arch" fuel for fuel arch
proof
  fix lvl fld bare cap e st v e' st'
  assume "parse_arg_elems fuel arch lvl fld bare cap (e, st) = Inr (v, e', st')"
  then obtain r where "parse_arg_loop fuel arch lvl cap None (e, st) = Inr r"
    and "finish_arg arch fld bare r = Inr (v, e', st')"
    by (auto simp: parse_arg_elems_def)
  with loop_contract [of fuel arch lvl cap None e st r] show "st_ext st st' \<and> length e' \<le> length e"
    by (cases r) (auto simp: shrinks_def dest!: finish_arg_shrinks intro: st_ext_trans)
next
  fix lvl fld bare cap st and e :: string
  assume "length e < fuel"
  with loop_contract show "no_fuel (parse_arg_elems fuel arch lvl fld bare cap (e, st))"
    by (auto simp: parse_arg_elems_def intro!: no_fuel_ebind no_fuel_finish_arg)
qed

text \<open>A parsed argument always takes at least one character.\<close>

lemma parse_arg_elems_consumes:
  assumes "parse_arg_elems fuel arch lvl fld bare cap (e, st) = Inr (v, e', st')"
  shows "length e' < length e"
proof -
  obtain r where r: "parse_arg_loop fuel arch lvl cap None (e, st) = Inr r"
    and f: "finish_arg arch fld bare r = Inr (v, e', st')"
    using assms by (auto simp: parse_arg_elems_def)
  show ?thesis
    using loop_contract [of fuel arch lvl cap None e st r] r f
    by (cases r) (auto simp: shrinks_def dest!: finish_arg_shrinks)
qed

lemma no_fuel_parse_args_loop:
  "length e < fuel \<Longrightarrow> no_fuel (parse_args_loop fuel arch out (e, st))"
proof (induction fuel arbitrary: out e st)
  case (Suc fuel)
  have go: "no_fuel (parse_args_loop fuel arch out' (e', st'))" if "length e' < length e" for out' e' st'
    using that Suc by simp
  show ?case
    by (auto simp: parse_args_loop.simps(2) expect_Inr_iff split: option.split
        intro!: no_fuel_ebind no_fuel_expect arg.rec_no_fuel go dest!: parse_arg_elems_consumes)
qed simp

lemma no_fuel_parse_args: "no_fuel (parse_args arch s st)"
  by (simp add: parse_args_def Let_def no_fuel_parse_args_loop)

end
