(* ===== verification/Asm_Roundtrip.thy ===== *)
theory Asm_Roundtrip
  imports Asm_Parser
begin

text \<open>
  The argument parser of \<open>m2c/m2c/asm_instruction.py\<close> against its printer: every instruction
  built from registers, literals, symbols, relocation macros and plain address modes is read
  back from its own text.
\<close>

section \<open>Printable arguments\<close>

definition word_like :: "string \<Rightarrow> bool" where
  "word_like w \<longleftrightarrow> w \<noteq> [] \<and> list_all valid_word w"

text \<open>A register the architecture knows under its own, lower-case name.\<close>

definition good_reg :: "arch_parsing \<Rightarrow> register \<Rightarrow> bool" where
  "good_reg arch r \<longleftrightarrow> supports_dollar_regs arch \<and> list_all valid_word (register_name r) \<and>
     CHR ''$'' \<notin> set (register_name r) \<and> py_lower (register_name r) = register_name r \<and>
     aliased_regs arch (register_name r) = None"

text \<open>A symbol that is neither a number, a register, a defined constant nor a shift operator.\<close>

definition good_sym :: "arch_parsing \<Rightarrow> asm_state \<Rightarrow> string \<Rightarrow> bool" where
  "good_sym arch st n \<longleftrightarrow> word_like n \<and> (ascii_letter (hd n) \<or> hd n = CHR ''_'') \<and>
     Register (py_lower n) \<notin> set (all_regs arch) \<and> aliased_regs arch (py_lower n) = None \<and>
     lookup_define st n = None \<and> py_lower n \<notin> set ARM_BARREL_SHIFTER_OPS"

definition atom_arg :: "arch_parsing \<Rightarrow> asm_state \<Rightarrow> argument \<Rightarrow> bool" where
  "atom_arg arch st a = (case a of
     AsmLiteral v \<Rightarrow> True | AsmGlobalSymbol n \<Rightarrow> good_sym arch st n | _ \<Rightarrow> False)"

definition offset_arg :: "arch_parsing \<Rightarrow> asm_state \<Rightarrow> argument \<Rightarrow> bool" where
  "offset_arg arch st a \<longleftrightarrow> atom_arg arch st a \<or>
     (case a of Macro m b \<Rightarrow> word_like m \<and> atom_arg arch st b | _ \<Rightarrow> False)"

definition printable :: "arch_parsing \<Rightarrow> asm_state \<Rightarrow> argument \<Rightarrow> bool" where
  "printable arch st a \<longleftrightarrow> offset_arg arch st a \<or>
     (case a of
        Reg r \<Rightarrow> good_reg arch r
      | AsmAddressMode r b None \<Rightarrow> good_reg arch r \<and> offset_arg arch st b
      | _ \<Rightarrow> False)"

lemma offset_argE:
  assumes "offset_arg arch st a"
  obtains (atom) "atom_arg arch st a"
  | (macro) m b where "a = Macro m b" "word_like m" "atom_arg arch st b"
  using assms by (auto simp: offset_arg_def split: argument.splits)

lemma printableE:
  assumes "printable arch st a"
  obtains (offset) "offset_arg arch st a"
  | (reg) r where "a = Reg r" "good_reg arch r"
  | (addr) r b where "a = AsmAddressMode r b None" "good_reg arch r" "offset_arg arch st b"
  using assms by (auto simp: printable_def split: argument.splits option.splits)

text \<open>No register has been seen under another name.\<close>

definition canonical :: "asm_state \<Rightarrow> bool" where
  "canonical st \<longleftrightarrow> (\<forall>r n. used_names st r = Some n \<longrightarrow> n = register_name r)"

definition note_reg :: "register \<Rightarrow> asm_state \<Rightarrow> asm_state" where
  "note_reg r st = st\<lparr>used_names := (used_names st)(r \<mapsto> register_name r)\<rparr>"

section \<open>Words and numbers\<close>

lemma parse_word_app:
  assumes "list_all valid_word w" and "rest = [] \<or> \<not> valid_word (hd rest)"
  shows "parse_word (w @ rest) = (w, rest)"
proof -
  have "takeWhile valid_word rest = []" and "dropWhile valid_word rest = rest"
    using assms(2) by (cases rest; simp)+
  with assms(1) show ?thesis
    by (auto simp: parse_word_def list_all_iff)
qed

lemma digit_char_class:
  assumes "d < 16"
  shows "valid_word (digit_char d)" and "\<not> py_isspace (digit_char d)"
  using assms by (auto simp: valid_word_def ascii_letter_def ascii_lower_def ascii_digit_def
      py_isspace_def ccode_digit_char split: if_splits)

lemma print_hex_class:
  "list_all valid_word (print_digits 16 n)" "list_all (\<lambda>c. \<not> py_isspace c) (print_digits 16 n)"
  using set_print_digits [of 16 n] digit_char_class by (fastforce simp: list_all_iff)+

lemma valid_word_not_space: "valid_word c \<Longrightarrow> \<not> py_isspace c"
  by (auto simp: valid_word_def ascii_letter_def ascii_upper_def ascii_lower_def ascii_digit_def
      py_isspace_def ccode_def)

lemma parse_number_hex: "parse_number (''0x'' @ print_digits 16 n) = Inr (int n)"
proof -
  let ?s = "''0x'' @ print_digits 16 n"
  have nosp: "\<not> py_isspace c" if "c \<in> set ?s" for c
    using that print_hex_class(2) [of n] by (auto simp: list_all_iff py_isspace_def ccode_def)
  have strip: "py_strip ?s = ?s"
    by (rule py_strip_id) (use nosp in \<open>auto simp: last_append\<close>)
  have us: "skip_us (print_digits 16 n) = print_digits 16 n"
  proof (cases "print_digits 16 n")
    case (Cons c r)
    then have "c \<in> digit_char ` {d. d < 16}" using set_print_digits [of 16 n] by auto
    then have "c \<noteq> CHR ''_''" by auto
    with Cons show ?thesis by (simp add: skip_us_def)
  qed simp
  have "py_int0 ?s = Inr (int n)"
    using strip us by (simp add: py_int0_def signed_read_def Let_def read_prefixed_def)
  then show ?thesis by (simp add: parse_number_def)
qed

lemma parse_and_store_good:
  assumes "good_reg arch r" and "canonical st"
  shows "parse_and_store arch (register_name r) st = Inr (r, note_reg r st)"
proof -
  have r: "reg_parse arch (py_lower (register_name r)) = r"
    using assms(1) by (simp add: reg_parse_def good_reg_def)
  show ?thesis
  proof (cases "used_names st r")
    case None
    with r assms(1) show ?thesis
      by (simp add: parse_and_store_def note_reg_def good_reg_def Let_def)
  next
    case (Some n)
    with assms(2) have "n = register_name r" by (auto simp: canonical_def)
    moreover have "note_reg r st = st"
      using Some \<open>n = register_name r\<close> by (simp add: note_reg_def fun_upd_idem)
    ultimately show ?thesis
      using r Some assms(1) by (simp add: parse_and_store_def good_reg_def Let_def)
  qed
qed

lemma canonical_note_reg [simp]: "canonical st \<Longrightarrow> canonical (note_reg r st)"
  by (auto simp: canonical_def note_reg_def)

lemma note_reg_ext: "canonical st \<Longrightarrow> st_ext st (note_reg r st)"
  by (auto simp: st_ext_def note_reg_def canonical_def map_le_def)

lemma lookup_define_note_reg [simp]: "lookup_define (note_reg r st) n = lookup_define st n"
  by (simp add: lookup_define_def note_reg_def)

lemma atom_arg_note_reg [simp]: "atom_arg arch (note_reg r st) a = atom_arg arch st a"
  by (cases a) (simp_all add: atom_arg_def good_sym_def)

lemma offset_arg_note_reg [simp]: "offset_arg arch (note_reg r st) a = offset_arg arch st a"
  by (cases a) (simp_all add: offset_arg_def)

lemma printable_note_reg [simp]: "printable arch (note_reg r st) a = printable arch st a"
  by (cases a) (simp_all add: printable_def split: option.split)

section \<open>One token\<close>

text \<open>The characters that end an argument for the parser.\<close>

definition ends :: "string \<Rightarrow> bool" where
  "ends rest \<longleftrightarrow> rest = [] \<or> hd rest \<in> set '',)''"

lemma ends_not_word: "ends rest \<or> (rest \<noteq> [] \<and> hd rest = CHR ''('') \<Longrightarrow> rest = [] \<or> \<not> valid_word (hd rest)"
  by (auto simp: ends_def valid_word_def ascii_letter_def ascii_upper_def ascii_lower_def
      ascii_digit_def ccode_def)

lemma step_ends:
  assumes "c \<in> set '',)''"
  shows "parse_arg_step arch rec lvl cap v (c # r, st) = Inr (Brk, c # r, st)"
proof -
  from assms consider "c = CHR '',''" | "c = CHR '')''" by auto
  then show ?thesis by cases (simp_all add: parse_arg_step_def)
qed

lemma loop_ends:
  assumes "ends rest"
  shows "parse_arg_loop (Suc f) arch lvl cap v (rest, st) = Inr (v, rest, st)"
proof (cases rest)
  case Nil
  then show ?thesis by (simp add: parse_arg_loop_Suc consume_ws_def)
next
  case (Cons c r)
  with assms have c: "c \<in> set '',)''" by (simp add: ends_def)
  then have "\<not> py_isspace c" by (auto simp: py_isspace_def ccode_def)
  with Cons c show ?thesis
    by (simp only: parse_arg_loop_Suc consume_ws_def dropWhile.simps if_False step_ends ebind_Inr
        prod.case loop_exit.case list.distinct)
qed

lemma loop_step:
  assumes "e \<noteq> []" and "\<not> py_isspace (hd e)"
    and "parse_arg_step arch (parse_arg_elems f arch) lvl cap v (e, st) = Inr (Cont v', e', st')"
  shows "parse_arg_loop (Suc f) arch lvl cap v (e, st) = parse_arg_loop f arch lvl cap (Some v') (e', st')"
proof -
  have "consume_ws e = e" using assms(1,2) by (cases e) (simp_all add: consume_ws_def)
  with assms show ?thesis by (simp add: parse_arg_loop_Suc)
qed

lemma step_reg:
  assumes "good_reg arch r" and "canonical st" and "rest = [] \<or> \<not> valid_word (hd rest)"
  shows "parse_arg_step arch rec lvl cap None (str_register r @ rest, st) =
    Inr (Cont (Reg r), rest, note_reg r st)"
proof -
  have w: "parse_word (str_register r @ rest) = (str_register r, rest)"
    using assms(1,3) by (intro parse_word_app) (auto simp: str_register_def good_reg_def valid_word_def)
  show ?thesis
    using assms(1) parse_and_store_good [OF assms(1,2)] w
    by (simp add: parse_arg_step_def parse_dollar_def str_register_def good_reg_def)
qed

lemma step_lit:
  assumes "rest = [] \<or> \<not> valid_word (hd rest)"
  shows "parse_arg_step arch rec lvl cap None (py_hex v @ rest, st) = Inr (Cont (AsmLiteral v), rest, st)"
proof -
  let ?w = "''0x'' @ print_digits 16 (nat \<bar>v\<bar>)"
  have lw: "list_all valid_word ?w"
    using print_hex_class(1) by (simp add: valid_word_def ascii_digit_def ascii_letter_def ascii_lower_def ccode_def)
  note w = parse_word_app [OF lw assms]
  have num: "parse_number ?w = Inr \<bar>v\<bar>" by (simp only: parse_number_hex) simp
  show ?thesis
  proof (cases "v < 0")
    case True
    have "consume_ws (?w @ rest) = ?w @ rest" by (simp add: consume_ws_def py_isspace_def ccode_def)
    with True w num show ?thesis
      by (simp add: parse_arg_step_def parse_minus_def py_hex_def ascii_digit_def ccode_def
          valid_number_def)
  next
    case False
    with w num show ?thesis
      by (simp add: parse_arg_step_def parse_digits_def py_hex_def ascii_digit_def ccode_def)
  qed
qed

lemma sym_head_class:
  assumes "ascii_letter c \<or> c = CHR ''_''"
  shows "valid_word c" "\<not> ascii_digit c" "c \<notin> set '',$#{.%)]-([!@''" "c \<noteq> CHR 0x22" "\<not> py_isspace c"
  using assms by (auto simp: valid_word_def ascii_letter_def ascii_upper_def ascii_lower_def
      ascii_digit_def py_isspace_def ccode_def)

lemma step_sym:
  assumes "good_sym arch st n" and "rest = [] \<or> \<not> valid_word (hd rest)"
  shows "parse_arg_step arch rec lvl cap None (n @ rest, st) = Inr (Cont (AsmGlobalSymbol n), rest, st)"
proof -
  obtain c n' where n: "n = c # n'" using assms(1) by (cases n) (auto simp: good_sym_def word_like_def)
  have c: "ascii_letter c \<or> c = CHR ''_''" using assms(1) n by (simp add: good_sym_def)
  have w: "parse_word (n @ rest) = (n, rest)"
    using assms by (intro parse_word_app) (auto simp: good_sym_def word_like_def)
  have "parse_symbol rec lvl (n @ rest, st) = Inr (Cont (AsmGlobalSymbol n), rest, st)"
    using assms(1) by (simp add: parse_symbol_def w good_sym_def)
  with sym_head_class [OF c] show ?thesis by (simp add: parse_arg_step_def n)
qed

section \<open>One argument\<close>

lemma head_not_space:
  "\<not> py_isspace (hd (str_register r @ rest))" "str_register r @ rest \<noteq> []"
  "\<not> py_isspace (hd (py_hex v @ rest))" "py_hex v @ rest \<noteq> []"
  by (simp_all add: str_register_def py_hex_def py_isspace_def ccode_def)

lemma finish_reg [simp]: "finish_arg arch fld bare (Some (Reg r), e, st) = Inr (Reg r, e, st)"
  by (simp add: finish_arg_def replace_bare_reg_def as_symbol_def)

lemma fold_offset: "offset_arg arch st a \<Longrightarrow> constant_fold st a = Inr a"
  by (cases a) (auto simp: offset_arg_def atom_arg_def good_sym_def)

lemma bare_offset: "offset_arg arch st a \<Longrightarrow> replace_bare_reg arch a st = Inr (a, st)"
  by (cases a) (auto simp: offset_arg_def atom_arg_def good_sym_def replace_bare_reg_def as_symbol_def)

lemma finish_offset [simp]:
  "offset_arg arch st a \<Longrightarrow> finish_arg arch fld bare (Some a, e, st) = Inr (a, e, st)"
  by (simp add: finish_arg_def fold_offset bare_offset)

lemma finish_addr [simp]:
  "finish_arg arch fld bare (Some (AsmAddressMode r a w), e, st) = Inr (AsmAddressMode r a w, e, st)"
  by (simp add: finish_arg_def replace_bare_reg_def as_symbol_def)

lemma elems_reg:
  assumes "good_reg arch r" and "canonical st" and "ends rest"
  shows "parse_arg_elems (Suc (Suc f)) arch lvl fld bare cap (str_register r @ rest, st) =
    Inr (Reg r, rest, note_reg r st)"
  using loop_step [OF head_not_space(2,1) step_reg [OF assms(1,2) ends_not_word]] assms(3) loop_ends
  by (simp add: parse_arg_elems_def)

lemma step_atom:
  assumes "atom_arg arch st a" and "rest = [] \<or> \<not> valid_word (hd rest)"
  shows "parse_arg_step arch rec lvl cap None (str_arg a @ rest, st) = Inr (Cont a, rest, st)"
  using assms step_lit [OF assms(2)] step_sym [OF _ assms(2)]
  by (auto simp: atom_arg_def split: argument.splits)

lemma atom_head:
  assumes "atom_arg arch st a"
  shows "str_arg a @ rest \<noteq> []" and "\<not> py_isspace (hd (str_arg a @ rest))"
  using assms sym_head_class(5) head_not_space(3,4)
  by (auto simp: atom_arg_def good_sym_def word_like_def split: argument.splits)

lemma atom_is_offset: "atom_arg arch st a \<Longrightarrow> offset_arg arch st a"
  by (simp add: offset_arg_def)

lemma elems_atom:
  assumes "atom_arg arch st a" and "ends rest"
  shows "parse_arg_elems (Suc (Suc f)) arch lvl fld bare cap (str_arg a @ rest, st) = Inr (a, rest, st)"
  using loop_step [OF atom_head [OF assms(1)] step_atom [OF assms(1) ends_not_word]] assms
    loop_ends atom_is_offset by (simp add: parse_arg_elems_def)

lemma step_macro:
  assumes "word_like m" and "atom_arg arch st a"
  shows "parse_arg_step arch (parse_arg_elems (Suc (Suc f)) arch) lvl cap None
      (str_arg (Macro m a) @ rest, st) = Inr (Cont (Macro m a), rest, st)"
proof -
  let ?in = "str_arg a @ '')'' @ rest"
  have m: "m \<noteq> []" "list_all valid_word m" using assms(1) by (simp_all add: word_like_def)
  have "\<not> valid_word (CHR ''('')"
    by (simp add: valid_word_def ascii_letter_def ascii_upper_def ascii_lower_def ascii_digit_def ccode_def)
  then have w: "parse_word (m @ ''('' @ ?in) = (m, ''('' @ ?in)"
    using m(2) by (intro parse_word_app) auto
  have sub: "parse_arg_elems (Suc (Suc f)) arch False True False MAX_PRECEDENCE (?in, st) =
      Inr (a, '')'' @ rest, st)"
    by (rule elems_atom [OF assms(2)]) (simp add: ends_def)
  have "parse_percent (parse_arg_elems (Suc (Suc f)) arch) (str_arg (Macro m a) @ rest, st) =
      Inr (Cont (Macro m a), rest, st)"
    using m(1) w sub by (simp add: parse_percent_def expect_def)
  then show ?thesis by (simp add: parse_arg_step_def)
qed

lemma step_offset:
  assumes "offset_arg arch st a" and "rest = [] \<or> \<not> valid_word (hd rest)"
  shows "parse_arg_step arch (parse_arg_elems (Suc (Suc f)) arch) lvl cap None (str_arg a @ rest, st) =
    Inr (Cont a, rest, st)"
proof (cases "atom_arg arch st a")
  case True
  then show ?thesis by (rule step_atom [OF _ assms(2)])
next
  case False
  with assms(1) obtain m b where "a = Macro m b" "word_like m" "atom_arg arch st b"
    by (auto elim: offset_argE)
  then show ?thesis using step_macro by simp
qed

lemma offset_head:
  assumes "offset_arg arch st a"
  shows "str_arg a @ rest \<noteq> []" and "\<not> py_isspace (hd (str_arg a @ rest))"
  using assms atom_head [of arch st a rest]
  by (auto simp: offset_arg_def py_isspace_def ccode_def split: argument.splits)

lemma elems_offset:
  assumes "offset_arg arch st a" and "ends rest" and "length (str_arg a) \<le> f"
  shows "parse_arg_elems (Suc f) arch lvl fld bare cap (str_arg a @ rest, st) = Inr (a, rest, st)"
proof (cases "atom_arg arch st a")
  case True
  obtain f' where "f = Suc f'" using assms(3) atom_head(1) [OF True, of "[]"] by (cases f) auto
  with elems_atom [OF True assms(2)] show ?thesis by simp
next
  case False
  with assms(1) obtain m b where a: "a = Macro m b" "word_like m" "atom_arg arch st b"
    by (auto elim: offset_argE)
  then have "2 \<le> f" using assms(3) by simp
  then obtain f' where f: "f = Suc (Suc f')" using Suc_le_D numeral_2_eq_2 by (metis Suc_le_D Suc_le_mono)
  show ?thesis
    using loop_step [OF offset_head [OF assms(1)] step_offset [OF assms(1) ends_not_word]] assms(1,2)
      loop_ends f by (simp add: parse_arg_elems_def)
qed

text \<open>The parenthesised base of an address mode, after its offset or alone.\<close>

lemma step_base:
  assumes "good_reg arch r" and "canonical st" and "v = None \<or> (\<exists>a. v = Some a \<and> offset_arg arch st a)"
  shows "parse_arg_step arch (parse_arg_elems (Suc (Suc f)) arch) True cap v
      (''('' @ str_register r @ '')'' @ rest, st) =
    Inr (Cont (AsmAddressMode r (case v of Some a \<Rightarrow> a | None \<Rightarrow> AsmLiteral 0) None), rest, note_reg r st)"
proof -
  have sub: "parse_arg_elems (Suc (Suc f)) arch False False True MAX_PRECEDENCE
      (str_register r @ '')'' @ rest, st) = Inr (Reg r, '')'' @ rest, note_reg r st)"
    by (rule elems_reg [OF assms(1,2)]) (simp add: ends_def)
  have fold: "constant_fold (note_reg r st) (case v of Some a \<Rightarrow> a | None \<Rightarrow> AsmLiteral 0) =
      Inr (case v of Some a \<Rightarrow> a | None \<Rightarrow> AsmLiteral 0)"
    using assms(3) fold_offset [of arch "note_reg r st"] by (auto split: option.split)
  have "parse_paren (parse_arg_elems (Suc (Suc f)) arch) True v (''('' @ str_register r @ '')'' @ rest, st) =
      Inr (Cont (AsmAddressMode r (case v of Some a \<Rightarrow> a | None \<Rightarrow> AsmLiteral 0) None), rest, note_reg r st)"
    using sub fold by (simp add: parse_paren_def expect_def as_symbol_def)
  then show ?thesis by (simp add: parse_arg_step_def ascii_digit_def ccode_def)
qed

fun note_regs :: "argument \<Rightarrow> asm_state \<Rightarrow> asm_state" where
  "note_regs (Reg r) st = note_reg r st"
| "note_regs (AsmAddressMode r a w) st = note_reg r st"
| "note_regs _ st = st"

lemma elems_printable:
  assumes "printable arch st a" and "canonical st" and "ends rest" and "length (str_arg a) \<le> f"
  shows "parse_arg_elems (Suc f) arch True fld bare cap (str_arg a @ rest, st) =
    Inr (a, rest, note_regs a st)"
proof (cases "offset_arg arch st a")
  case True
  then have "note_regs a st = st" by (cases a) (auto simp: offset_arg_def atom_arg_def)
  with elems_offset [OF True assms(3,4)] show ?thesis by simp
next
  case False
  with assms(1) consider (reg) r where "a = Reg r" "good_reg arch r"
    | (addr) r b where "a = AsmAddressMode r b None" "good_reg arch r" "offset_arg arch st b"
    by (auto elim: printableE)
  then show ?thesis
  proof cases
    case reg
    obtain f' where "f = Suc f'" using assms(4) reg(1) by (cases f) (auto simp: str_register_def)
    with elems_reg [OF reg(2) assms(2,3)] reg show ?thesis by simp
  next
    case addr
    let ?base = "''('' @ str_register r @ '')'' @ rest"
    have base: "?base \<noteq> []" "\<not> py_isspace (hd ?base)" by (simp_all add: py_isspace_def ccode_def)
    have fin: "parse_arg_loop (Suc (Suc (Suc k))) arch True cap v (?base, st) =
        Inr (Some (AsmAddressMode r (case v of Some a \<Rightarrow> a | None \<Rightarrow> AsmLiteral 0) None), rest, note_reg r st)"
      if "v = None \<or> (\<exists>a. v = Some a \<and> offset_arg arch st a)" for v k
      using loop_step [OF base step_base [OF addr(2) assms(2) that]] loop_ends [OF assms(3)] by simp
    show ?thesis
    proof (cases "b = AsmLiteral 0")
      case True
      with assms(4) addr(1) have "2 \<le> f" by (simp add: str_register_def)
      then obtain k where "f = Suc (Suc k)" by (metis Suc_le_D numeral_2_eq_2 Suc_le_mono)
      with fin [of None k] True addr(1) show ?thesis by (simp add: parse_arg_elems_def)
    next
      case False
      have sh: "str_arg a @ rest = str_arg b @ ?base" using addr(1) False by simp
      have "3 \<le> f" using assms(4) addr(1) False offset_head(1) [OF addr(3), of "[]"]
        by (cases "str_arg b") (simp_all add: str_register_def)
      then obtain k where f: "f = Suc (Suc (Suc k))"
        by (metis Suc_le_D numeral_3_eq_3 Suc_le_mono)
      have nw: "?base = [] \<or> \<not> valid_word (hd ?base)" by (rule ends_not_word) simp
      show ?thesis
        using loop_step [OF offset_head [OF addr(3)] step_offset [OF addr(3) nw]] fin [of "Some b" k]
          addr False by (simp only: sh parse_arg_elems_def f) simp
    qed
  qed
qed

section \<open>Whole instructions\<close>

lemma elems_space:
  "parse_arg_elems (Suc f) arch lvl fld bare cap (CHR '' '' # e, st) =
   parse_arg_elems (Suc f) arch lvl fld bare cap (e, st)"
proof -
  have "consume_ws (CHR '' '' # e) = consume_ws e" by (simp add: consume_ws_def py_isspace_def ccode_def)
  then show ?thesis by (simp add: parse_arg_elems_def parse_arg_loop_Suc)
qed

lemma note_regs_facts:
  assumes "canonical st"
  shows "canonical (note_regs a st)" "st_ext st (note_regs a st)"
    "printable arch (note_regs a st) b = printable arch st b"
  using assms by (cases a; simp add: note_reg_ext)+

lemma printable_no_shift: "printable arch st a \<Longrightarrow> barrel_shift a = None"
  by (cases a) (auto simp: barrel_shift_def printable_def offset_arg_def atom_arg_def)

lemma args_loop_step:
  assumes "printable arch st a" and "canonical st" and "ends rest" and "rest = [] \<or> hd rest = CHR '',''"
    and "sp = [] \<or> sp = '' ''"
  shows "parse_args_loop (Suc fuel) arch out (sp @ str_arg a @ rest, st) =
    parse_args_loop fuel arch (out @ [a]) (tl rest, note_regs a st)"
proof -
  have ne: "sp @ str_arg a @ rest \<noteq> []"
    using assms(1) offset_head(1) [of arch st a "[]"]
    by (auto elim!: printableE simp: str_register_def split: if_splits)
  have el: "parse_arg_elems (Suc (length (sp @ str_arg a @ rest))) arch True True True MAX_PRECEDENCE
      (sp @ str_arg a @ rest, st) = Inr (a, rest, note_regs a st)"
    using assms(5) elems_space elems_printable [OF assms(1,2,3)] by (auto simp: elems_space)
  from ne el assms(4) printable_no_shift [OF assms(1)] show ?thesis
    by (cases rest) (auto simp: parse_args_loop.simps(2) expect_def)
qed

lemma args_loop_printable:
  assumes "\<forall>a \<in> set args. printable arch st a" and "canonical st" and "args \<noteq> []"
    and "length (py_join '', '' (map str_arg args)) \<le> fuel" and "sp = [] \<or> sp = '' ''"
  shows "parse_args_loop (Suc fuel) arch out (sp @ py_join '', '' (map str_arg args), st) =
      Inr (out @ args, fold note_regs args st)"
  using assms
proof (induction args arbitrary: out st fuel sp)
  case (Cons a as)
  note a = Cons.prems(1) [THEN bspec, of a, simplified]
  obtain fuel' where fuel: "fuel = Suc fuel'"
  proof (cases fuel)
    case 0
    with Cons.prems(4) have "str_arg a = []" by (cases as) simp_all
    with a offset_head(1) [of arch st a "[]"] have False
      by (auto elim!: printableE simp: str_register_def split: if_splits)
    then show ?thesis ..
  qed
  show ?case
  proof (cases as)
    case Nil
    with args_loop_step [OF a Cons.prems(2) _ _ Cons.prems(5), of "[]" fuel out] fuel show ?thesis
      by (simp add: ends_def parse_args_loop.simps(2))
  next
    case (Cons b bs)
    let ?rest = "'', '' @ py_join '', '' (map str_arg as)"
    have j: "py_join '', '' (map str_arg (a # as)) = str_arg a @ ?rest" using Cons by simp
    have "parse_args_loop (Suc fuel) arch out (sp @ str_arg a @ ?rest, st) =
        parse_args_loop fuel arch (out @ [a]) (tl ?rest, note_regs a st)"
      by (rule args_loop_step [OF a Cons.prems(2) _ _ Cons.prems(5)]) (simp_all add: ends_def)
    also have "tl ?rest = '' '' @ py_join '', '' (map str_arg as)" by simp
    also have "parse_args_loop fuel arch (out @ [a]) ('' '' @ py_join '', '' (map str_arg as), note_regs a st) =
        Inr ((out @ [a]) @ as, fold note_regs as (note_regs a st))"
      unfolding fuel
      by (rule Cons.IH) (use Cons Cons.prems j fuel note_regs_facts [OF Cons.prems(2)] in auto)
    finally show ?thesis using j by simp
  qed
qed simp

lemma printable_no_space:
  assumes "printable arch st a"
  shows "list_all (\<lambda>c. \<not> py_isspace c) (str_arg a)" and "str_arg a \<noteq> []"
proof -
  have hex: "list_all (\<lambda>c. \<not> py_isspace c) (py_hex v)" for v
    using print_hex_class(2) by (simp add: py_hex_def py_isspace_def ccode_def)
  have word: "list_all valid_word w \<Longrightarrow> list_all (\<lambda>c. \<not> py_isspace c) w" for w
    using valid_word_not_space by (auto simp: list_all_iff)
  have punct: "\<not> py_isspace (CHR ''$'')" "\<not> py_isspace (CHR ''('')" "\<not> py_isspace (CHR '')'')" "\<not> py_isspace (CHR ''%'')"
    by (simp_all add: py_isspace_def ccode_def)
  have atom: "atom_arg arch st b \<Longrightarrow> list_all (\<lambda>c. \<not> py_isspace c) (str_arg b)" for b
    using hex word by (auto simp: atom_arg_def good_sym_def word_like_def split: argument.splits)
  have off: "offset_arg arch st b \<Longrightarrow> list_all (\<lambda>c. \<not> py_isspace c) (str_arg b)" for b
    by (erule offset_argE) (simp_all add: atom word punct word_like_def)
  have reg: "good_reg arch r \<Longrightarrow> list_all (\<lambda>c. \<not> py_isspace c) (str_register r)" for r
    using word punct by (auto simp: good_reg_def str_register_def)
  show "list_all (\<lambda>c. \<not> py_isspace c) (str_arg a)"
    using assms by (rule printableE) (simp_all add: off reg punct)
  show "str_arg a \<noteq> []"
    using assms offset_head(1) [of arch st a "[]"]
    by (auto elim!: printableE simp: str_register_def split: if_splits)
qed

lemma join_ends:
  assumes "\<forall>a \<in> set args. printable arch st a" and "args \<noteq> []"
  shows "py_join '', '' (map str_arg args) \<noteq> [] \<and>
    \<not> py_isspace (hd (py_join '', '' (map str_arg args))) \<and>
    \<not> py_isspace (last (py_join '', '' (map str_arg args)))"
  using assms
proof (induction args)
  case (Cons a as)
  note pa = Cons.prems(1) [THEN bspec, of a, simplified]
  have "hd (str_arg a) \<in> set (str_arg a)" "last (str_arg a) \<in> set (str_arg a)"
    using printable_no_space(2) [OF pa] by simp_all
  with printable_no_space [OF pa] have "\<not> py_isspace (hd (str_arg a))" "\<not> py_isspace (last (str_arg a))"
    by (auto simp: list_all_iff)
  with printable_no_space(2) [OF pa] Cons show ?case
    by (cases as) (auto simp: last_append)
qed simp

lemma parse_args_printable:
  assumes "\<forall>a \<in> set args. printable arch st a" and "canonical st"
  shows "parse_args arch (py_join '', '' (map str_arg args)) st = Inr (args, fold note_regs args st)"
proof (cases "args = []")
  case True
  then show ?thesis by (simp add: parse_args_def parse_args_loop.simps(2))
next
  case False
  have "py_strip (py_join '', '' (map str_arg args)) = py_join '', '' (map str_arg args)"
    using join_ends [OF assms(1) False] by (intro py_strip_id) auto
  with args_loop_printable [OF assms False order_refl, of "[]" "[]"] show ?thesis
    by (simp add: parse_args_def Let_def)
qed

lemma note_regs_fold:
  "canonical st \<Longrightarrow> canonical (fold note_regs args st) \<and> st_ext st (fold note_regs args st)"
proof (induction args arbitrary: st)
  case (Cons a as)
  from Cons.IH note_regs_facts(1,2) [OF Cons.prems, of a] show ?case
    using st_ext_trans by simp
qed simp

lemma parse_asm_instruction_printable:
  assumes "ai_mnemonic i \<noteq> []" and "list_all (\<lambda>c. \<not> py_isspace c) (ai_mnemonic i)"
    and "py_lower (ai_mnemonic i) = ai_mnemonic i"
    and "\<forall>a \<in> set (ai_args i). printable arch st a" and "canonical st"
    and "\<And>st'. normalize_instruction arch i st' = Inr i"
  shows "parse_asm_instruction arch (str_asm_instruction i) st = Inr (i, fold note_regs (ai_args i) st)"
proof -
  let ?m = "ai_mnemonic i" and ?j = "py_join '', '' (map str_arg (ai_args i))"
  have sp: "py_isspace (CHR '' '')" by (simp add: py_isspace_def ccode_def)
  have m: "\<not> py_isspace (hd ?m)" "\<not> py_isspace (last ?m)" "CHR '' '' \<notin> set ?m"
    using assms(1,2) sp by (auto simp: list_all_iff)
  have strip: "py_strip (str_asm_instruction i) = str_asm_instruction i"
  proof (cases "ai_args i = []")
    case True
    with m assms(1) show ?thesis by (simp add: str_asm_instruction_def py_strip_id)
  next
    case False
    with m assms(1) join_ends [OF assms(4) False] show ?thesis
      by (intro py_strip_id) (simp_all add: str_asm_instruction_def last_append)
  qed
  have part: "py_partition (str_asm_instruction i) (CHR '' '') = (?m, ?j)"
    using m(3) py_partition_app py_partition_absent by (simp add: str_asm_instruction_def)
  obtain m as where i: "i = \<lparr>ai_mnemonic = m, ai_args = as\<rparr>" by (cases i)
  show ?thesis
    using assms(3,6) strip part parse_args_printable [OF assms(4,5)]
    by (simp add: parse_asm_instruction_def i)
qed

end
