(* ===== verification/Asm_Props.thy ===== *)
theory Asm_Props
  imports Asm_Roundtrip
begin

text \<open>
  Properties of \<open>m2c/m2c/asm_instruction.py\<close>: constant folding against an evaluation of
  arguments, the register formatter as an interface with its laws, and the properties of the
  parser and printer.
\<close>

section \<open>Evaluation of arguments and constant folding\<close>

text \<open>
  The arithmetic of arguments as an assembler defines it: a right shift rounds down, a left shift
  multiplies, the bitwise operators work bit by bit.
\<close>

inductive op_value :: "string \<Rightarrow> int \<Rightarrow> int \<Rightarrow> int \<Rightarrow> bool" where
  "op_value ''+'' a b (a + b)"
| "op_value ''-'' a b (a - b)"
| "op_value ''*'' a b (a * b)"
| "0 \<le> b \<Longrightarrow> q * 2 ^ nat b \<le> a \<Longrightarrow> a < (q + 1) * 2 ^ nat b \<Longrightarrow> op_value ''>>'' a b q"
| "0 \<le> b \<Longrightarrow> op_value ''<<'' a b (a * 2 ^ nat b)"
| "(\<And>i. bit c i \<longleftrightarrow> bit a i \<and> bit b i) \<Longrightarrow> op_value ''&'' a b c"
| "(\<And>i. bit c i \<longleftrightarrow> bit a i \<or> bit b i) \<Longrightarrow> op_value ''|'' a b c"
| "(\<And>i. bit c i \<longleftrightarrow> bit a i \<noteq> bit b i) \<Longrightarrow> op_value ''^'' a b c"

inductive_simps op_value_simps: "op_value p a b c"

text \<open>
  The value of an argument under a dictionary of defines, where a symbol may be known to have no
  value.  The name of a section symbol contains its addend, so it is looked up as it is.
\<close>

inductive arg_value :: "(string \<rightharpoonup> int option) \<Rightarrow> argument \<Rightarrow> int \<Rightarrow> bool" for defs where
  "arg_value defs (AsmLiteral v) v"
| "defs n = Some (Some v) \<Longrightarrow> arg_value defs (AsmGlobalSymbol n) v"
| "defs n = Some (Some v) \<Longrightarrow> arg_value defs (AsmSectionGlobalSymbol n sec add) v"
| "arg_value defs l a \<Longrightarrow> arg_value defs r b \<Longrightarrow> op_value op a b c \<Longrightarrow> arg_value defs (BinOp op l r) c"

inductive_simps arg_value_simps [simp]:
  "arg_value defs (AsmLiteral w) v" "arg_value defs (AsmGlobalSymbol n) v"
  "arg_value defs (AsmSectionGlobalSymbol n sec add) v" "arg_value defs (BinOp op l r) v"
  "arg_value defs (Reg x) v" "arg_value defs (RegisterList xs) v" "arg_value defs (Macro m x) v" "arg_value defs (AsmAddressMode x y z) v"

lemma shift_down_iff: "q * 2 ^ k \<le> a \<and> a < (q + 1) * 2 ^ k \<longleftrightarrow> drop_bit k a = q" for a q :: int
proof -
  have p: "(0 :: int) < 2 ^ k" by simp
  have "(a div 2 ^ k) * 2 ^ k \<le> a \<and> a < (a div 2 ^ k + 1) * 2 ^ k"
    using pos_mod_bound [OF p, of a] pos_mod_sign [OF p, of a] div_mult_mod_eq [of a "2 ^ k"]
    unfolding distrib_right mult_1 by linarith
  moreover have "a div 2 ^ k = q" if "q * 2 ^ k \<le> a" "a < (q + 1) * 2 ^ k"
    using that by (intro int_div_pos_eq [of _ _ _ "a - q * 2 ^ k"]) (simp_all add: algebra_simps)
  ultimately show ?thesis unfolding drop_bit_eq_div by blast
qed

lemma bitwise_iff:
  "(\<forall>i. bit c i \<longleftrightarrow> bit a i \<and> bit b i) \<longleftrightarrow> a AND b = c" "(\<forall>i. bit c i \<longleftrightarrow> bit a i \<or> bit b i) \<longleftrightarrow> a OR b = c"
  "(\<forall>i. bit c i \<longleftrightarrow> bit a i \<noteq> bit b i) \<longleftrightarrow> a XOR b = c" for a b c :: int
  by (auto simp: bit_eq_iff bit_and_iff bit_or_iff bit_xor_iff)

lemma fold_op_value: "fold_op op a b = Inr (Some c) \<longleftrightarrow> op_value op a b c"
proof -
  consider "op = ''+''" | "op = ''-''" | "op = ''*''" | "op = ''>>''" | "op = ''<<''" | "op = ''&''" | "op = ''|''" | "op = ''^''"
    | "op \<notin> set [''+'', ''-'', ''*'', ''>>'', ''<<'', ''&'', ''|'', ''^'']" by fastforce
  then show ?thesis
  proof cases
    case 4
    then show ?thesis using shift_down_iff [of c "nat b" a] by (simp add: op_value_simps fold_op_def py_shr_def)
  next
    case 8
    then show ?thesis using bitwise_iff(3) [of c a b] by (auto simp: op_value_simps fold_op_def)
  next
    case 5
    then show ?thesis by (auto simp: op_value_simps fold_op_def py_shl_def push_bit_eq_mult)
  qed (simp_all add: op_value_simps fold_op_def bitwise_iff eq_commute)
qed

lemma constant_fold_BinOp_literal:
  "constant_fold st (BinOp op l r) = Inr (AsmLiteral v) \<longleftrightarrow>
     (\<exists>a b. constant_fold st l = Inr (AsmLiteral a) \<and> constant_fold st r = Inr (AsmLiteral b) \<and> fold_op op a b = Inr (Some v))"
proof (cases "constant_fold st l"; cases "constant_fold st r")
  fix l' r'
  assume lr: "constant_fold st l = Inr l'" "constant_fold st r = Inr r'"
  show ?thesis
  proof (cases "\<exists>x y. l' = AsmLiteral x \<and> r' = AsmLiteral y")
    case True
    with lr show ?thesis by (auto split: option.splits)
  next
    case False
    then have "constant_fold st (BinOp op l r) = Inr (BinOp op l' r')" using lr by (auto split: argument.splits)
    with False lr show ?thesis by auto
  qed
qed auto

lemma constant_fold_literal_iff:
  "constant_fold st a = Inr (AsmLiteral v) \<longleftrightarrow> arg_value (st_defines st) a v"
proof (induction a arbitrary: v)
  case (BinOp op l r)
  show ?case unfolding constant_fold_BinOp_literal by (auto simp: BinOp.IH fold_op_value)
qed (auto simp: lookup_define_def split: option.splits)

lemma fold_op_err: "fold_op op a b = Inl e \<Longrightarrow> e = ValueError \<and> b < 0 \<and> (op = ''<<'' \<or> op = ''>>'')"
  by (auto simp: fold_op_def py_shl_def py_shr_def split: if_splits)

lemma constant_fold_err: "constant_fold st a = Inl e \<Longrightarrow> e = ValueError"
proof (induction a arbitrary: e)
  case (BinOp op l r)
  show ?case
  proof (cases "constant_fold st l"; cases "constant_fold st r")
    fix l' r'
    assume lr: "constant_fold st l = Inr l'" "constant_fold st r = Inr r'"
    show ?case
    proof (cases "\<exists>x y. l' = AsmLiteral x \<and> r' = AsmLiteral y")
      case True
      with lr BinOp.prems show ?thesis by (auto simp: ebind_eq_Inl_iff dest: fold_op_err split: option.splits)
    next
      case False
      with lr have "constant_fold st (BinOp op l r) = Inr (BinOp op l' r')" by (auto split: argument.splits)
      with BinOp.prems show ?thesis by simp
    qed
  qed (use BinOp in simp_all)
qed (auto split: option.splits)

section \<open>The register formatter\<close>

text \<open>Reads a sequence of register names, one after the other.\<close>

fun store_all :: "(string \<Rightarrow> 's \<Rightarrow> (register \<times> 's) res) \<Rightarrow> string list \<Rightarrow> 's \<Rightarrow> (register list \<times> 's) res" where
  "store_all store [] s = Inr ([], s)"
| "store_all store (n # ns) s =
     ebind (store n s) (\<lambda>(r, s1). ebind (store_all store ns s1) (\<lambda>(rs, s2). Inr (r # rs, s2)))"

text \<open>
  What the rest of the program relies on from \<open>RegFormatter\<close>: storing a name makes it the text
  of its register, and later stores never change the text of a known register.
\<close>

locale reg_formatter =
  fixes store :: "string \<Rightarrow> 's \<Rightarrow> (register \<times> 's) res"
    and fmt :: "'s \<Rightarrow> register \<Rightarrow> string"
    and known :: "'s \<Rightarrow> register \<Rightarrow> bool"
  assumes store_fmt: "store n s = Inr (r, s') \<Longrightarrow> known s' r \<and> fmt s' r = py_lower n"
    and store_keeps: "store n s = Inr (r, s') \<Longrightarrow> known s q \<Longrightarrow> known s' q \<and> fmt s' q = fmt s q"
begin

lemma store_all_keeps:
  "store_all store ns s = Inr (rs, s') \<Longrightarrow> known s q \<Longrightarrow> known s' q \<and> fmt s' q = fmt s q"
proof (induction ns arbitrary: s rs)
  case (Cons n ns)
  then obtain r s1 rs' where "store n s = Inr (r, s1)" "store_all store ns s1 = Inr (rs', s')" by auto
  with Cons.IH [of s1 rs'] store_keeps [of n s r s1 q] Cons.prems(2) show ?case by simp
qed simp

lemma store_all_fmt: "store_all store ns s = Inr (rs, s') \<Longrightarrow> map (fmt s') rs = map py_lower ns"
proof (induction ns arbitrary: s rs)
  case (Cons n ns)
  then obtain r s1 rs' where st: "store n s = Inr (r, s1)" "store_all store ns s1 = Inr (rs', s')"
    and rs: "rs = r # rs'" by auto
  from Cons.IH [OF st(2)] store_fmt [OF st(1)] store_all_keeps [OF st(2), of r] show ?case
    by (simp add: rs)
qed auto

end

definition known_reg :: "asm_state \<Rightarrow> register \<Rightarrow> bool" where
  "known_reg st r \<longleftrightarrow> used_names st r \<noteq> None"

interpretation rf: reg_formatter "parse_and_store arch" reg_format known_reg for arch
proof
  fix n s r s'
  assume "parse_and_store arch n s = Inr (r, s')"
  then show "known_reg s' r \<and> reg_format s' r = py_lower n"
    by (auto simp: parse_and_store_def Let_def known_reg_def reg_format_def split: option.splits if_splits)
next
  fix n s r s' q
  assume st: "parse_and_store arch n s = Inr (r, s')" and "known_reg s q"
  then show "known_reg s' q \<and> reg_format s' q = reg_format s q"
    by (auto simp: parse_and_store_def Let_def known_reg_def reg_format_def split: option.splits if_splits)
qed

section \<open>Literals\<close>

lemma and_0xFFFF: "(x :: int) AND 0xFFFF = x mod 0x10000"
  using take_bit_eq_mask [of 16 x] by (simp add: take_bit_eq_mod mask_eq_exp_minus_1)

lemma as_s16_eq: "as_s16 v = (v + 0x8000) mod 0x10000 - 0x8000"
  by (simp add: as_s16_def and_0xFFFF)

section \<open>The state only grows\<close>

lemma parse_args_loop_ext:
  "parse_args_loop fuel arch out (e, st) = Inr (as, st') \<Longrightarrow> st_ext st st'"
proof (induction fuel arbitrary: out e st)
  case (Suc fuel)
  then show ?case
    by (auto simp: parse_args_loop.simps(2) expect_Inr_iff split: option.splits if_splits
        dest!: arg.rec_shrinks Suc.IH elim: st_ext_trans)
qed simp

lemma parse_args_ext: "parse_args arch s st = Inr (as, st') \<Longrightarrow> st_ext st st'"
  by (auto simp: parse_args_def Let_def dest: parse_args_loop_ext)

section \<open>Properties\<close>

text \<open>
  C21: the argument parser always comes back, whatever the text: its loops end with a list of
  arguments or with one of the source's exceptions, and on success the defines are untouched
  and every register name seen before is kept.
\<close>

theorem parse_args_returns:
  "case parse_args arch s st of
     Inl e \<Rightarrow> e \<noteq> OutOfFuel
   | Inr (args, st') \<Rightarrow> st_ext st st'"
  using no_fuel_parse_args [of arch s st] parse_args_ext [of arch s st]
  by (auto simp: no_fuel_def split: sum.split)

text \<open>
  C10: an instruction made of registers, literals, symbols, relocation macros and address
  modes is read back from its own text, and the parser then knows exactly the registers it
  mentions under the names they were printed with.
\<close>

theorem instruction_roundtrip:
  assumes "ai_mnemonic i \<noteq> []" and "list_all (\<lambda>c. \<not> py_isspace c) (ai_mnemonic i)"
    and "py_lower (ai_mnemonic i) = ai_mnemonic i"
    and "\<forall>a \<in> set (ai_args i). printable arch st a" and "canonical st"
    and "\<And>st'. normalize_instruction arch i st' = Inr i"
  shows "parse_asm_instruction arch (str_asm_instruction i) st = Inr (i, fold note_regs (ai_args i) st)"
  using assms by (rule parse_asm_instruction_printable)

text \<open>The instruction \<open>lwz $r3, %lo(foo)($r4)\<close>.\<close>

definition sample_lwz :: asm_instruction where
  "sample_lwz = \<lparr>ai_mnemonic = ''lwz'', ai_args =
     [Reg (Register ''r3''), AsmAddressMode (Register ''r4'') (Macro ''lo'' (AsmGlobalSymbol ''foo'')) None]\<rparr>"

theorem instruction_roundtrip_witness:
  "parse_asm_instruction naive_parsing_arch (str_asm_instruction sample_lwz) empty_asm_state =
     Inr (sample_lwz, fold note_regs (ai_args sample_lwz) empty_asm_state)"
proof (rule instruction_roundtrip)
  show "canonical empty_asm_state" by (simp add: canonical_def empty_asm_state_def)
  show "normalize_instruction naive_parsing_arch sample_lwz st' = Inr sample_lwz" for st'
    by (simp add: naive_parsing_arch_def)
qed code_simp+

text \<open>
  C22: constant folding turns an argument into a literal exactly when the arithmetic of the
  assembler gives the argument a value under the defines, and the literal is that value.
\<close>

theorem constant_fold_evaluates:
  "constant_fold st a = Inr (AsmLiteral v) \<longleftrightarrow> arg_value (st_defines st) a v"
  by (rule constant_fold_literal_iff)

text \<open>
  After any sequence of register names has been read without an error, every register
  is printed with the very name it was read under: no register ever goes by two names.
\<close>

theorem formatter_one_name:
  "store_all (parse_and_store arch) ns st = Inr (rs, st') \<Longrightarrow> map (reg_format st') rs = map py_lower ns"
  by (rule rf.store_all_fmt)

theorem formatter_one_name_witness:
  "store_all (parse_and_store naive_parsing_arch) [''R3'', ''r4'', ''r3''] empty_asm_state =
     Inr ([Register ''r3'', Register ''r4'', Register ''r3''],
          empty_asm_state\<lparr>used_names := [Register ''r3'' \<mapsto> ''r3'', Register ''r4'' \<mapsto> ''r4'']\<rparr>) \<and>
   map (reg_format (empty_asm_state\<lparr>used_names := [Register ''r3'' \<mapsto> ''r3'', Register ''r4'' \<mapsto> ''r4'']\<rparr>))
     [Register ''r3'', Register ''r4'', Register ''r3''] = map py_lower [''R3'', ''r4'', ''r3'']"
  (is "?run = Inr (?rs, ?st) \<and> ?fmt")
proof -
  have lower: "py_lower ''R3'' = ''r3''" "py_lower ''r3'' = ''r3''" "py_lower ''r4'' = ''r4''"
    by code_simp+
  have run: "?run = Inr (?rs, ?st)"
    by (simp add: parse_and_store_def Let_def reg_parse_def naive_parsing_arch_def empty_asm_state_def
        lower fun_upd_twist)
  show ?thesis using run formatter_one_name [OF run] by (rule conjI)
qed

text \<open>
  \<open>AsmLiteral.as_s16\<close> reads the low sixteen bits of a literal as a two's
  complement number.
\<close>

lemma as_s16_signed: "as_s16 v = sint (word_of_int v :: 16 word)"
  by (simp add: as_s16_eq sint_word_ariths signed_take_bit_eq_take_bit_shift take_bit_eq_mod
      signed_of_int)

text \<open>
  The text of a writeback address mode does not depend on its addend (beyond its
  being zero), so two different accesses print alike; the source's f-string lacks its prefix.
\<close>

theorem writeback_addend_lost:
  "str_arg (AsmAddressMode r (AsmLiteral (4 + int n)) (Some w)) =
   str_arg (AsmAddressMode r (AsmLiteral 4) (Some w))"
  by simp

end
