(* ===== verification/Instruction.thy ===== *)
theory Instruction
  imports Asm_Props
begin

text \<open>
  Model of \<open>m2c/m2c/instruction.py\<close>: stack locations, instruction metadata, instructions with
  their register and stack dependencies, and \<open>parse_instruction\<close>.

  An \<open>Instruction\<close> of the source is compared by identity (\<open>eq=False\<close>) and its \<open>clobbers\<close>
  list is mutated in place; \<open>ins_id\<close> stands for that identity.  The opaque \<open>eval_fn\<close> belongs
  to the translation phase and is not part of the record.
\<close>

section \<open>Locations\<close>

datatype location =
    RegLoc register
  | StackLocation int "string option"

definition str_location :: "location \<Rightarrow> string" where
  "str_location l = (case l of
     RegLoc r \<Rightarrow> str_register r
   | StackLocation off symo \<Rightarrow>
       (case symo of None \<Rightarrow> [] | Some s \<Rightarrow> s @ ''+'') @ py_str_int off @ ''($sp)'')"

definition offset_as_arg :: "int \<Rightarrow> string option \<Rightarrow> argument" where
  "offset_as_arg off symo = (case symo of
     None \<Rightarrow> AsmLiteral off
   | Some s \<Rightarrow> if off = 0 then AsmGlobalSymbol s else BinOp ''+'' (AsmGlobalSymbol s) (AsmLiteral off))"

definition align4 :: "int \<Rightarrow> int" where
  "align4 x = x AND NOT 3"

definition from_offset :: "argument \<Rightarrow> location option" where
  "from_offset off =
     (case off of
        AsmLiteral v \<Rightarrow> Some (StackLocation (align4 v) None)
      | BinOp op l r \<Rightarrow>
          (if op = ''+'' \<or> op = ''-'' then
             (case (as_symbol l, r) of
                (Some s, AsmLiteral v) \<Rightarrow>
                  Some (StackLocation (align4 (if op = ''-'' then - v else v)) (Some s))
              | _ \<Rightarrow> None)
           else None)
      | _ \<Rightarrow> map_option (\<lambda>s. StackLocation 0 (Some s)) (as_symbol off))"

lemma align4_eq: "align4 x = x - x mod 4"
proof -
  have "x AND NOT (mask 2) = push_bit 2 (drop_bit 2 x)"
    by (rule bit_eqI) (auto simp: bit_simps not_less simp flip: add_2_eq_Suc)
  then have "align4 x = push_bit 2 (drop_bit 2 x)"
    by (simp add: align4_def mask_eq_exp_minus_1)
  also have "\<dots> = x - take_bit 2 x"
    using bits_ident [of 2 x] by (simp add: algebra_simps)
  finally show ?thesis by (simp add: take_bit_eq_mod)
qed

section \<open>Instructions\<close>

record instruction_meta =
  emit_goto :: bool
  meta_filename :: string
  meta_lineno :: nat
  synthetic :: bool

definition meta_missing :: instruction_meta where
  "meta_missing = \<lparr>emit_goto = False, meta_filename = ''<unknown>'', meta_lineno = 0, synthetic = True\<rparr>"

definition meta_derived :: "instruction_meta \<Rightarrow> instruction_meta" where
  "meta_derived m = m\<lparr>synthetic := True\<rparr>"

definition loc_str :: "instruction_meta \<Rightarrow> string" where
  "loc_str m = (if synthetic m then ''near'' else ''at'') @ '' '' @ meta_filename m @ '' line '' @
     py_str_nat (meta_lineno m)"

text \<open>\<open>Union[JumpTarget, Register, List[JumpTarget]]\<close>.\<close>

datatype jump_kind = JumpTo jump_target | JumpReg register | JumpTable "jump_target list"

record instruction =
  ins_id :: nat
  ins_mnemonic :: string
  ins_args :: "argument list"
  ins_meta :: instruction_meta
  inputs :: "location list"
  clobbers :: "location list"
  outputs :: "location list"
  ins_jump :: "jump_kind option"
  function_target :: "argument option"
  is_conditional :: bool
  is_return :: bool
  is_load :: bool
  is_store :: bool
  is_effectful :: bool
  has_delay_slot :: bool
  is_branch_likely :: bool
  in_pattern :: bool

text \<open>An instruction with the defaults of the dataclass.\<close>

definition plain_instruction :: "nat \<Rightarrow> string \<Rightarrow> argument list \<Rightarrow> instruction_meta \<Rightarrow>
    location list \<Rightarrow> location list \<Rightarrow> location list \<Rightarrow> instruction" where
  "plain_instruction n m as mt ins cl outs =
     \<lparr>ins_id = n, ins_mnemonic = m, ins_args = as, ins_meta = mt, inputs = ins, clobbers = cl, outputs = outs,
      ins_jump = None, function_target = None, is_conditional = False, is_return = False,
      is_load = False, is_store = False, is_effectful = True, has_delay_slot = False,
      is_branch_likely = False, in_pattern = False\<rparr>"

definition is_jump :: "instruction \<Rightarrow> bool" where
  "is_jump i \<longleftrightarrow> ins_jump i \<noteq> None \<or> is_return i"

definition str_instruction :: "instruction \<Rightarrow> string" where
  "str_instruction i =
     (if ins_args i = [] then ins_mnemonic i
      else ins_mnemonic i @ '' '' @ py_join '', '' (map str_arg (ins_args i)))"

text \<open>\<open>clone\<close> makes a new object, whose identity the caller supplies.\<close>

definition clone :: "nat \<Rightarrow> instruction \<Rightarrow> instruction" where
  "clone n i = i\<lparr>ins_id := n, ins_meta := meta_derived (ins_meta i)\<rparr>"

definition ins_writes :: "instruction \<Rightarrow> location list" where
  "ins_writes i = outputs i @ clobbers i"

section \<open>Architectures\<close>

datatype arch_enum = MIPS | PPC | ARM

definition str_arch_enum :: "arch_enum \<Rightarrow> string" where
  "str_arch_enum a = (case a of MIPS \<Rightarrow> ''mips'' | PPC \<Rightarrow> ''ppc'' | ARM \<Rightarrow> ''arm'')"

text \<open>
  \<open>ArchAsm\<close>, the abstract class of the three architectures.  \<open>arch_parse\<close> builds the
  instruction object; its identity is assigned by the caller.
\<close>

record arch_asm = arch_parsing +
  arch_name :: arch_enum
  stack_pointer_reg :: register
  frame_pointer_regs :: "register list"
  return_address_reg :: register
  all_return_regs :: "register list"
  argument_regs :: "register list"
  simple_temp_regs :: "register list"
  temp_regs :: "register list"
  saved_regs :: "register list"
  missing_return :: "instruction list"
  arch_parse :: "string \<Rightarrow> argument list \<Rightarrow> instruction_meta \<Rightarrow> instruction res"

definition arch_mnemonic :: "arch_asm \<Rightarrow> instruction \<Rightarrow> string" where
  "arch_mnemonic arch i = str_arch_enum (arch_name arch) @ '':'' @ ins_mnemonic i"

text \<open>Every exception is turned into a \<open>DecompFailure\<close>; fuel is not an exception.\<close>

definition as_decomp_failure :: "'a res \<Rightarrow> 'a res" where
  "as_decomp_failure r = (case r of
     Inl OutOfFuel \<Rightarrow> Inl OutOfFuel | Inl _ \<Rightarrow> Inl DecompFailure | Inr x \<Rightarrow> Inr x)"

definition parse_instruction :: "nat \<Rightarrow> string \<Rightarrow> instruction_meta \<Rightarrow> arch_asm \<Rightarrow> asm_state \<Rightarrow>
    (instruction \<times> asm_state) res" where
  "parse_instruction n line mt arch st = as_decomp_failure
     (ebind (parse_asm_instruction (arch_parsing.truncate arch) line st) (\<lambda>(base, st').
      ebind (arch_parse arch (ai_mnemonic base) (ai_args base) mt) (\<lambda>i.
        Inr (i\<lparr>ins_id := n\<rparr>, st'))))"

definition set_current_instr :: "'a res \<Rightarrow> 'a res" where
  "set_current_instr r = (case r of
     Inl OutOfFuel \<Rightarrow> Inl OutOfFuel | Inl _ \<Rightarrow> Inl InstrProcessingFailure | Inr x \<Rightarrow> Inr x)"

lemma as_decomp_failure_Inr [simp]: "as_decomp_failure r = Inr x \<longleftrightarrow> r = Inr x"
  by (auto simp: as_decomp_failure_def split: sum.splits py_error.splits)

lemma as_decomp_failure_Inl: "as_decomp_failure r = Inl e \<Longrightarrow> e = DecompFailure \<or> e = OutOfFuel"
  by (auto simp: as_decomp_failure_def split: sum.splits py_error.splits)

section \<open>Properties\<close>

text \<open>
  A stack location is a whole word: its offset is a multiple of four not above the offset
  read and less than four below it, and reading back the argument of a location gives the
  location itself.
\<close>

theorem stack_location_word:
  "from_offset (AsmLiteral v) = Some (StackLocation (4 * (v div 4)) None) \<and>
   (case from_offset a of
      Some (StackLocation off symo) \<Rightarrow> off mod 4 = 0 \<and> from_offset (offset_as_arg off symo) = from_offset a
    | Some (RegLoc r) \<Rightarrow> False
    | None \<Rightarrow> True)"
proof -
  have al: "align4 x mod 4 = 0" "align4 (align4 x) = align4 x" for x
    by (simp_all add: align4_eq mod_diff_eq mod_diff_right_eq flip: mod_diff_left_eq)
  show ?thesis
    by (auto simp: from_offset_def as_symbol_def offset_as_arg_def al minus_mod_eq_mult_div align4_eq
        split: option.splits argument.splits)
qed

end
