(* ===== verification/Asm_File.thy ===== *)
theory Asm_File
  imports Instruction "HOL-Library.AList"
begin

text \<open>
  Model of the data of \<open>m2c/m2c/asm_file.py\<close>: labels, functions, data entries and the
  \<open>AsmFile\<close> object with the operations that fill it.

  The source mutates shared objects; two aliases matter.  \<open>current_function\<close> is always the
  last element of \<open>functions\<close>, so it is that element here.  \<open>current_data\<close> is the entry last
  stored under its symbol, so it is that symbol here.  The \<open>RegFormatter\<close> shared by the file,
  its functions and the \<open>AsmState\<close> is the one inside \<open>asm_state\<close>.
\<close>

section \<open>Functions\<close>

datatype label = Label (label_names: "string list")

datatype body_part = BInstr instruction | BLabel label

definition str_label :: "label \<Rightarrow> string res" where
  "str_label l = (case label_names l of [] \<Rightarrow> Inl IndexError | n # _ \<Rightarrow> Inr n)"

record asm_function =
  fn_name :: string
  fn_body :: "body_part list"

definition fn_new_label :: "string \<Rightarrow> asm_function \<Rightarrow> asm_function" where
  "fn_new_label n f =
     (let label = Label [n]
      in if fn_body f \<noteq> [] \<and> last (fn_body f) = BLabel label then f
         else f\<lparr>fn_body := fn_body f @ [BLabel label]\<rparr>)"

definition fn_new_instruction :: "instruction \<Rightarrow> asm_function \<Rightarrow> asm_function" where
  "fn_new_instruction i f = f\<lparr>fn_body := fn_body f @ [BInstr i]\<rparr>"

definition bodyless_copy :: "asm_function \<Rightarrow> asm_function" where
  "bodyless_copy f = \<lparr>fn_name = fn_name f, fn_body = []\<rparr>"

section \<open>Data entries\<close>

type_synonym byte = "8 word"

datatype asm_datum = DBytes "byte list" | AsmSymbolicData argument nat

definition as_symbol_without_addend :: "asm_datum \<Rightarrow> string option" where
  "as_symbol_without_addend d = (case d of
     AsmSymbolicData a sz \<Rightarrow> if sz = 4 then as_symbol a else None
   | DBytes _ \<Rightarrow> None)"

record asm_data_entry =
  sort_order :: "string \<times> nat"
  de_data :: "asm_datum list"
  is_string :: bool
  is_readonly :: bool
  is_bss :: bool
  is_text :: bool
  is_jtbl :: bool
  used_as_literal :: bool

definition new_data_entry :: "string \<times> nat \<Rightarrow> bool \<Rightarrow> bool \<Rightarrow> bool \<Rightarrow> asm_data_entry" where
  "new_data_entry so ro bss txt = \<lparr>sort_order = so, de_data = [], is_string = False,
     is_readonly = ro, is_bss = bss, is_text = txt, is_jtbl = False, used_as_literal = False\<rparr>"

definition datum_size :: "asm_datum \<Rightarrow> nat" where
  "datum_size d = (case d of AsmSymbolicData a sz \<Rightarrow> sz | DBytes bs \<Rightarrow> length bs)"

definition is_bytes :: "asm_datum \<Rightarrow> bool" where
  "is_bytes d = (case d of DBytes _ \<Rightarrow> True | _ \<Rightarrow> False)"

definition trailing_zeros :: "byte list \<Rightarrow> nat" where
  "trailing_zeros bs = length (takeWhile (\<lambda>b. b = 0) (rev bs))"

definition entry_size :: "asm_datum list \<Rightarrow> nat" where
  "entry_size ds = sum_list (map datum_size ds)"

definition padding_of :: "asm_datum list \<Rightarrow> nat res" where
  "padding_of ds =
     (if ds = [] then Inr 0
      else (case last ds of
              DBytes bs \<Rightarrow>
                ebind (py_assert (length ds = 1 \<or> \<not> is_bytes (ds ! (length ds - 2))))
                  (\<lambda>_. Inr (trailing_zeros bs))
            | AsmSymbolicData _ _ \<Rightarrow> Inr 0))"

definition size_range_bytes :: "asm_data_entry \<Rightarrow> (nat \<times> nat) res" where
  "size_range_bytes e =
     (let max_size = entry_size (de_data e)
      in ebind (padding_of (de_data e)) (\<lambda>padding0.
           let padding_size = min padding0 15 in
           ebind (py_assert (padding_size \<le> max_size)) (\<lambda>_.
             if max_size = padding_size \<and> max_size \<noteq> 0 then Inr (1, max_size)
             else Inr (max_size - padding_size, max_size))))"

text \<open>A Python \<open>dict\<close> keeps the position of a key that is stored again, as \<^const>\<open>AList.update\<close> does.\<close>

record asm_data =
  ad_values :: "(string \<times> asm_data_entry) list"
  mentioned_labels :: "string set"

definition merge_into :: "asm_data \<Rightarrow> asm_data \<Rightarrow> asm_data" where
  "merge_into self other =
     other\<lparr>ad_values := fold (\<lambda>(k, v). AList.update k v) (ad_values self) (ad_values other),
           mentioned_labels := mentioned_labels other \<union> mentioned_labels self\<rparr>"

definition is_likely_char :: "byte \<Rightarrow> bool" where
  "is_likely_char c \<longleftrightarrow> (0x20 \<le> unat c \<and> unat c < 0x7F) \<or> unat c \<in> {0, 7, 8, 9, 10, 13, 27}"

definition looks_like_string :: "asm_data_entry \<Rightarrow> bool" where
  "looks_like_string e \<longleftrightarrow> is_readonly e \<and>
     (case de_data e of
        [DBytes bs] \<Rightarrow> length bs > 1 \<and> hd bs \<noteq> 0 \<and> list_all is_likely_char bs
      | _ \<Rightarrow> False)"

definition detect_heuristic_strings :: "asm_data \<Rightarrow> asm_data" where
  "detect_heuristic_strings d = d\<lparr>ad_values :=
     map (\<lambda>(k, e). (k, if looks_like_string e then e\<lparr>is_string := True\<rparr> else e)) (ad_values d)\<rparr>"

section \<open>The file under construction\<close>

record asm_file =
  af_filename :: string
  af_functions :: "asm_function list"
  af_data :: asm_data
  current_data :: "string option"

definition empty_asm_file :: "string \<Rightarrow> asm_file" where
  "empty_asm_file name = \<lparr>af_filename = name, af_functions = [],
     af_data = \<lparr>ad_values = [], mentioned_labels = {}\<rparr>, current_data = None\<rparr>"

definition update_last :: "('a \<Rightarrow> 'a) \<Rightarrow> 'a list \<Rightarrow> 'a list" where
  "update_last f xs = butlast xs @ [f (last xs)]"

definition af_new_function :: "string \<Rightarrow> asm_file \<Rightarrow> asm_file" where
  "af_new_function n f = f\<lparr>af_functions := af_functions f @ [\<lparr>fn_name = n, fn_body = []\<rparr>]\<rparr>"

definition af_new_instruction :: "instruction \<Rightarrow> asm_file \<Rightarrow> asm_file res" where
  "af_new_instruction i f =
     (if af_functions f = [] then (if ins_mnemonic i = ''nop'' then Inr f else Inl DecompFailure)
      else Inr (f\<lparr>af_functions := update_last (fn_new_instruction i) (af_functions f),
                  current_data := None\<rparr>))"

definition af_new_label :: "string \<Rightarrow> asm_file \<Rightarrow> asm_file res" where
  "af_new_label n f = ebind (py_assert (af_functions f \<noteq> []))
     (\<lambda>_. Inr (f\<lparr>af_functions := update_last (fn_new_label n) (af_functions f)\<rparr>))"

definition af_new_data_label :: "string \<Rightarrow> bool \<Rightarrow> bool \<Rightarrow> bool \<Rightarrow> asm_file \<Rightarrow> asm_file" where
  "af_new_data_label n ro bss txt f =
     (let e = new_data_entry (af_filename f, length (ad_values (af_data f))) ro bss txt
      in f\<lparr>af_data := (af_data f)\<lparr>ad_values := AList.update n e (ad_values (af_data f))\<rparr>,
            current_data := Some n\<rparr>)"

text \<open>Mutation of the entry \<open>current_data\<close> points to.\<close>

definition upd_current :: "(asm_data_entry \<Rightarrow> asm_data_entry) \<Rightarrow> asm_file \<Rightarrow> asm_file" where
  "upd_current g f = (case current_data f of
     None \<Rightarrow> f
   | Some n \<Rightarrow> f\<lparr>af_data := (af_data f)\<lparr>ad_values :=
       map (\<lambda>(k, e). (k, if k = n then g e else e)) (ad_values (af_data f))\<rparr>\<rparr>)"

definition symbols_of :: "argument \<Rightarrow> string set" where
  "symbols_of a = set (List.map_filter as_symbol (traverse_arg a))"

definition af_new_symbolic_data :: "argument \<Rightarrow> nat \<Rightarrow> asm_file \<Rightarrow> asm_file" where
  "af_new_symbolic_data d sz f =
     (let f' = upd_current (\<lambda>e. e\<lparr>de_data := de_data e @ [AsmSymbolicData d sz]\<rparr>) f
      in f'\<lparr>af_data := (af_data f')\<lparr>mentioned_labels :=
             mentioned_labels (af_data f') \<union> symbols_of d\<rparr>\<rparr>)"

definition append_bytes :: "byte list \<Rightarrow> asm_datum list \<Rightarrow> asm_datum list" where
  "append_bytes bs ds =
     (if ds = [] then [DBytes bs]
      else case last ds of
             DBytes old \<Rightarrow> butlast ds @ [DBytes (old @ bs)]
           | AsmSymbolicData _ _ \<Rightarrow> ds @ [DBytes bs])"

definition af_new_data_bytes :: "byte list \<Rightarrow> bool \<Rightarrow> asm_file \<Rightarrow> asm_file" where
  "af_new_data_bytes bs str f = upd_current (\<lambda>e.
     (let e' = (if de_data e = [] \<and> str then e\<lparr>is_string := True\<rparr> else e)
      in e'\<lparr>de_data := append_bytes bs (de_data e)\<rparr>)) f"

section \<open>Invariant of the data entries\<close>

text \<open>
  \<open>size_range_bytes\<close> asserts that two byte strings never follow each other in an entry.  The
  invariant below is what makes that assertion hold in every file the operations can build.
\<close>

fun separated :: "asm_datum list \<Rightarrow> bool" where
  "separated (a # b # ds) \<longleftrightarrow> \<not> (is_bytes a \<and> is_bytes b) \<and> separated (b # ds)"
| "separated _ \<longleftrightarrow> True"

text \<open>Symbolic data takes at least a byte.\<close>

definition sized :: "asm_datum list \<Rightarrow> bool" where
  "sized ds \<longleftrightarrow> list_all (\<lambda>d. is_bytes d \<or> 0 < datum_size d) ds"

definition entry_ok :: "asm_datum list \<Rightarrow> bool" where
  "entry_ok ds \<longleftrightarrow> separated ds \<and> sized ds"

definition entries_ok :: "(string \<times> asm_data_entry) list \<Rightarrow> bool" where
  "entries_ok vs \<longleftrightarrow> list_all (\<lambda>(k, e). entry_ok (de_data e)) vs"

definition file_ok :: "asm_file \<Rightarrow> bool" where
  "file_ok f \<longleftrightarrow> entries_ok (ad_values (af_data f))"

lemma entries_ok_update: "entries_ok vs \<Longrightarrow> entry_ok (de_data e) \<Longrightarrow> entries_ok (AList.update n e vs)"
  by (induction vs) (auto simp: entries_ok_def)

lemma entries_ok_map:
  assumes "entries_ok vs" and "\<And>e. entry_ok (de_data e) \<Longrightarrow> entry_ok (de_data (g e))"
  shows "entries_ok (map (\<lambda>(k, e). (k, if k = n then g e else e)) vs)"
  using assms by (induction vs) (auto simp: entries_ok_def)

lemma separated_append:
  "separated (xs @ [y]) \<longleftrightarrow> separated xs \<and> (xs = [] \<or> \<not> (is_bytes (last xs) \<and> is_bytes y))"
  by (induction xs rule: separated.induct) auto

lemma separated_snoc_bytes: "separated (xs @ [DBytes a]) = separated (xs @ [DBytes b])"
  by (simp add: separated_append is_bytes_def)

lemma separated_append_bytes: "separated ds \<Longrightarrow> separated (append_bytes bs ds)"
proof (cases ds rule: rev_cases)
  case (snoc xs y)
  assume sep: "separated ds"
  show ?thesis
  proof (cases y)
    case (DBytes old)
    with snoc sep separated_snoc_bytes [of xs old] show ?thesis by (simp add: append_bytes_def)
  next
    case (AsmSymbolicData a n)
    with snoc sep separated_append [of ds "DBytes bs"] show ?thesis
      by (simp add: append_bytes_def is_bytes_def)
  qed
qed (simp add: append_bytes_def)

lemma sized_append_bytes: "sized ds \<Longrightarrow> sized (append_bytes bs ds)"
  by (cases ds rule: rev_cases) (auto simp: append_bytes_def sized_def is_bytes_def split: asm_datum.splits)

lemma entry_ok_append_bytes: "entry_ok ds \<Longrightarrow> entry_ok (append_bytes bs ds)"
  by (simp add: entry_ok_def separated_append_bytes sized_append_bytes)

lemma entry_ok_symbolic: "entry_ok ds \<Longrightarrow> 0 < n \<Longrightarrow> entry_ok (ds @ [AsmSymbolicData a n])"
  by (simp add: entry_ok_def separated_append sized_def is_bytes_def datum_size_def)

lemma entry_ok_Nil [simp]: "entry_ok []"
  by (simp add: entry_ok_def sized_def)

lemma file_ok_upd_current:
  assumes "file_ok f" and "\<And>e. entry_ok (de_data e) \<Longrightarrow> entry_ok (de_data (g e))"
  shows "file_ok (upd_current g f)"
  using assms entries_ok_map [of "ad_values (af_data f)" g]
  by (simp add: file_ok_def upd_current_def split: option.split)

lemma file_ok_empty [simp]: "file_ok (empty_asm_file n)"
  by (simp add: file_ok_def entries_ok_def empty_asm_file_def)

lemma file_ok_new_function [simp]: "file_ok (af_new_function n f) = file_ok f"
  by (simp add: file_ok_def af_new_function_def)

lemma file_ok_new_instruction: "file_ok f \<Longrightarrow> af_new_instruction i f = Inr f' \<Longrightarrow> file_ok f'"
  by (auto simp: file_ok_def af_new_instruction_def split: if_splits)

lemma file_ok_new_label: "file_ok f \<Longrightarrow> af_new_label n f = Inr f' \<Longrightarrow> file_ok f'"
  by (auto simp: file_ok_def af_new_label_def)

lemma file_ok_new_data_label [intro]: "file_ok f \<Longrightarrow> file_ok (af_new_data_label n ro bss txt f)"
  by (simp add: file_ok_def af_new_data_label_def new_data_entry_def Let_def entries_ok_update)

lemma file_ok_new_symbolic_data [intro]: "file_ok f \<Longrightarrow> 0 < n \<Longrightarrow> file_ok (af_new_symbolic_data d n f)"
proof -
  assume f: "file_ok f" and n: "0 < n"
  from f have "file_ok (upd_current (\<lambda>e. e\<lparr>de_data := de_data e @ [AsmSymbolicData d n]\<rparr>) f)"
    by (rule file_ok_upd_current) (simp add: entry_ok_symbolic n)
  then show ?thesis by (simp add: af_new_symbolic_data_def Let_def file_ok_def)
qed

lemma file_ok_new_data_bytes [intro]: "file_ok f \<Longrightarrow> file_ok (af_new_data_bytes bs s f)"
  unfolding af_new_data_bytes_def
  by (rule file_ok_upd_current) (simp_all add: Let_def entry_ok_append_bytes)

lemmas file_ok_ops = file_ok_new_instruction file_ok_new_label

section \<open>Sizes\<close>

lemma trailing_zeros_le: "trailing_zeros bs \<le> length bs"
  using length_takeWhile_le [of _ "rev bs"] by (simp add: trailing_zeros_def)

text \<open>
  The bytes of an entry as they lie in memory, where those of a symbol are not known yet, and the
  number of zero bytes at their end.
\<close>

definition data_image :: "asm_datum list \<Rightarrow> byte option list" where
  "data_image ds = concat (map (\<lambda>d. case d of DBytes bs \<Rightarrow> map Some bs | AsmSymbolicData a sz \<Rightarrow> replicate sz None) ds)"

definition zeros_at_end :: "byte option list \<Rightarrow> nat" where
  "zeros_at_end bs = length (takeWhile (\<lambda>b. b = Some 0) (rev bs))"

lemma length_data_image: "length (data_image ds) = entry_size ds"
  by (induction ds) (auto simp: data_image_def entry_size_def datum_size_def split: asm_datum.split)

lemma zeros_at_end_le: "zeros_at_end bs \<le> length bs"
  using length_takeWhile_le [of _ "rev bs"] by (simp add: zeros_at_end_def)

lemma zeros_at_end_zero:
  assumes "length bs - zeros_at_end bs \<le> i" and "i < length bs"
  shows "bs ! i = Some 0"
proof -
  let ?j = "length bs - Suc i"
  have "?j < zeros_at_end bs" using assms zeros_at_end_le [of bs] by linarith
  then have "rev bs ! ?j = Some 0"
    unfolding zeros_at_end_def by (metis (mono_tags, lifting) nth_mem set_takeWhileD takeWhile_nth)
  then show ?thesis using assms by (simp add: rev_nth)
qed

lemma zeros_at_end_max:
  assumes "zeros_at_end bs < length bs"
  shows "bs ! (length bs - zeros_at_end bs - 1) \<noteq> Some 0"
proof -
  have "rev bs ! zeros_at_end bs \<noteq> Some 0"
    using assms nth_length_takeWhile [of "\<lambda>b. b = Some 0" "rev bs"] by (simp add: zeros_at_end_def)
  then show ?thesis using assms by (simp add: rev_nth)
qed

lemma zeros_at_end_bytes:
  "zeros_at_end (ys @ map Some bs) = (if \<forall>b\<in>set bs. b = 0 then length bs + zeros_at_end ys else trailing_zeros bs)"
proof -
  have "length (takeWhile (\<lambda>b. b = Some 0) (map Some (rev bs))) = trailing_zeros bs"
    by (simp add: takeWhile_map comp_def trailing_zeros_def)
  then show ?thesis by (auto simp: zeros_at_end_def takeWhile_append rev_map)
qed

lemma trailing_zeros_all: "\<forall>b\<in>set bs. b = 0 \<Longrightarrow> trailing_zeros bs = length bs"
  by (simp add: trailing_zeros_def takeWhile_eq_all_conv [THEN iffD2])

lemma zeros_at_end_symbolic: "0 < n \<Longrightarrow> zeros_at_end (ys @ replicate n None) = 0"
proof -
  assume "0 < n"
  then obtain m where "rev (ys @ replicate n None) = None # (replicate m None @ rev ys)"
    by (metis append_Cons gr0_implies_Suc replicate_Suc rev_append rev_replicate)
  then show ?thesis unfolding zeros_at_end_def by (simp only: takeWhile.simps) simp
qed

lemma padding_of_image:
  assumes "entry_ok ds"
  shows "padding_of ds = Inr (zeros_at_end (data_image ds))"
proof (cases ds rule: rev_cases)
  case Nil
  then show ?thesis by (simp add: padding_of_def data_image_def zeros_at_end_def)
next
  case (snoc xs y)
  show ?thesis
  proof (cases y)
    case (DBytes bs)
    have last: "xs = [] \<or> \<not> is_bytes (last xs)"
      using assms snoc DBytes by (auto simp: entry_ok_def separated_append is_bytes_def)
    then have "padding_of ds = Inr (trailing_zeros bs)"
      using snoc DBytes by (cases xs rule: rev_cases) (auto simp: padding_of_def nth_append)
    moreover have "zeros_at_end (data_image xs) = 0"
    proof (cases xs rule: rev_cases)
      case (snoc zs z)
      then obtain a n where "z = AsmSymbolicData a n" "0 < n"
        using last assms \<open>ds = xs @ [y]\<close> by (cases z) (auto simp: entry_ok_def sized_def is_bytes_def datum_size_def)
      with snoc show ?thesis by (simp add: data_image_def zeros_at_end_symbolic)
    qed (simp add: data_image_def zeros_at_end_def)
    moreover have "data_image ds = data_image xs @ map Some bs" using snoc DBytes by (simp add: data_image_def)
    ultimately show ?thesis by (simp add: zeros_at_end_bytes trailing_zeros_all)
  next
    case (AsmSymbolicData a n)
    then show ?thesis
      using snoc assms by (auto simp: padding_of_def data_image_def zeros_at_end_symbolic entry_ok_def sized_def is_bytes_def datum_size_def)
  qed
qed

lemma size_range_bytes_image:
  assumes "entry_ok (de_data e)" and "bs = data_image (de_data e)"
  shows "size_range_bytes e =
    (let pad = min (zeros_at_end bs) 15; n = length bs in Inr (if n = pad \<and> n \<noteq> 0 then 1 else n - pad, n))"
  using padding_of_image [OF assms(1)] length_data_image [of "de_data e"] zeros_at_end_le [of bs]
  by (auto simp: size_range_bytes_def Let_def py_assert_def assms(2))

text \<open>
  The range of sizes: the largest size counts all bytes, the bytes that may be stripped are zero,
  and as many are stripped as there are, up to fifteen, with one byte left.
\<close>

lemma size_range_bytes_sound:
  assumes "entry_ok (de_data e)" and "bs = data_image (de_data e)"
  obtains lo where "size_range_bytes e = Inr (lo, length bs)" and "lo \<le> length bs" and "length bs \<le> lo + 15"
    and "bs = [] \<or> 1 \<le> lo" and "\<And>i. lo \<le> i \<Longrightarrow> i < length bs \<Longrightarrow> bs ! i = Some 0"
    and "lo \<le> 1 \<or> length bs = lo + 15 \<or> bs ! (lo - 1) \<noteq> Some 0"
proof -
  define pad where "pad = min (zeros_at_end bs) 15"
  define lo where "lo = (if length bs = pad \<and> length bs \<noteq> 0 then 1 else length bs - pad)"
  have pad: "pad \<le> length bs" "pad \<le> 15" "pad \<le> zeros_at_end bs" using zeros_at_end_le [of bs] by (auto simp: pad_def)
  show ?thesis
  proof
    show "size_range_bytes e = Inr (lo, length bs)" using size_range_bytes_image [OF assms] by (simp add: lo_def pad_def Let_def)
    show "lo \<le> length bs" "length bs \<le> lo + 15" "bs = [] \<or> 1 \<le> lo" using pad by (auto simp: lo_def Suc_le_eq)
    show "bs ! i = Some 0" if "lo \<le> i" "i < length bs" for i
      using that pad by (intro zeros_at_end_zero) (auto simp: lo_def split: if_splits)
    show "lo \<le> 1 \<or> length bs = lo + 15 \<or> bs ! (lo - 1) \<noteq> Some 0"
      using zeros_at_end_max [of bs] pad by (auto simp: lo_def pad_def min_def split: if_splits)
  qed
qed

end
