(* ===== verification/Asm_Directives.thy ===== *)
theory Asm_Directives
  imports Asm_File
begin

text \<open>
  The helpers of \<open>m2c/m2c/asm_file.py\<close> that read the arguments of directives: comma lists,
  \<open>.ascii\<close> strings, \<open>.incbin\<close> files and preprocessor conditions.
\<close>

section \<open>More of Python's strings\<close>

text \<open>\<open>s.split()\<close> and \<open>s.split(c)\<close>.\<close>

fun split_ws_aux :: "string \<Rightarrow> string \<Rightarrow> string list" where
  "split_ws_aux w [] = (if w = [] then [] else [w])"
| "split_ws_aux w (c # s) =
     (if py_isspace c then (if w = [] then split_ws_aux [] s else w # split_ws_aux [] s)
      else split_ws_aux (w @ [c]) s)"

definition py_split_ws :: "string \<Rightarrow> string list" where
  "py_split_ws s = split_ws_aux [] s"

fun split_char_aux :: "char \<Rightarrow> string \<Rightarrow> string \<Rightarrow> string list" where
  "split_char_aux d w [] = [w]"
| "split_char_aux d w (c # s) =
     (if c = d then w # split_char_aux d [] s else split_char_aux d (w @ [c]) s)"

definition py_split_char :: "char \<Rightarrow> string \<Rightarrow> string list" where
  "py_split_char d s = split_char_aux d [] s"

text \<open>\<open>p in s\<close> for two strings.\<close>

definition py_in :: "string \<Rightarrow> string \<Rightarrow> bool" where
  "py_in p s \<longleftrightarrow> list_ex (\<lambda>t. py_startswith t p) (suffixes s)"

section \<open>Comma-separated lists\<close>

text \<open>
  \<open>csv.reader\<close> with the options of the source: a backslash escapes, a quote opens and closes
  a quoted stretch, blanks before a field are skipped.  A line of the file holds no line
  break, so the reader's record handling does not come into play.
\<close>

datatype csv_state = StartRecord | StartField | EscapedChar | InField | InQuoted | EscapeInQuoted

fun csv_loop :: "csv_state \<Rightarrow> string \<Rightarrow> string list \<Rightarrow> string \<Rightarrow> string list" where
  "csv_loop q cur out [] =
     (case q of
        StartRecord \<Rightarrow> out
      | StartField \<Rightarrow> out @ [cur]
      | EscapedChar \<Rightarrow> out @ [cur @ [CHR 0x0A]]
      | InField \<Rightarrow> out @ [cur]
      | InQuoted \<Rightarrow> out @ [cur]
      | EscapeInQuoted \<Rightarrow> out @ [cur @ [CHR 0x0A]])"
| "csv_loop q cur out (c # s) =
     (case q of
        EscapedChar \<Rightarrow> csv_loop InField (cur @ [c]) out s
      | InField \<Rightarrow>
          if c = CHR 0x5C then csv_loop EscapedChar cur out s
          else if c = CHR '','' then csv_loop StartField [] (out @ [cur]) s
          else csv_loop InField (cur @ [c]) out s
      | InQuoted \<Rightarrow>
          if c = CHR 0x5C then csv_loop EscapeInQuoted cur out s
          else if c = CHR 0x22 then csv_loop InField cur out s
          else csv_loop InQuoted (cur @ [c]) out s
      | EscapeInQuoted \<Rightarrow> csv_loop InQuoted (cur @ [c]) out s
      | _ \<Rightarrow>
          if c = CHR 0x22 then csv_loop InQuoted cur out s
          else if c = CHR 0x5C then csv_loop EscapedChar cur out s
          else if c = CHR '' '' then csv_loop StartField cur out s
          else if c = CHR '','' then csv_loop StartField [] (out @ [cur]) s
          else csv_loop InField (cur @ [c]) out s)"

definition split_quotable_arg_list :: "string \<Rightarrow> string list" where
  "split_quotable_arg_list args = map py_strip (csv_loop StartRecord [] [] args)"

text \<open>
  The expression \<open>"(?:\\.|[^\\"])*"\<close> at the start of a string: the length of its match.
\<close>

fun quoted_len :: "string \<Rightarrow> nat option" where
  "quoted_len [] = None"
| "quoted_len (c # s) =
     (if c = CHR 0x22 then Some 1
      else if c = CHR 0x5C then
        (case s of [] \<Rightarrow> None
         | d # t \<Rightarrow> if d = CHR 0x0A then None else map_option (\<lambda>n. n + 2) (quoted_len t))
      else map_option Suc (quoted_len s))"

definition match_string :: "string \<Rightarrow> nat option" where
  "match_string s = (case s of c # t \<Rightarrow> if c = CHR 0x22 then map_option Suc (quoted_len t) else None | [] \<Rightarrow> None)"

text \<open>
  The pieces between the commas that are outside of string literals, scanned the way
  \<open>finditer\<close> walks over \<open>,|"..."\<close>; \<open>skip\<close> counts the characters left of the current literal.
\<close>

fun split_outside :: "nat \<Rightarrow> string \<Rightarrow> string \<Rightarrow> string list" where
  "split_outside skip w [] = [w]"
| "split_outside (Suc n) w (c # s) = split_outside n (w @ [c]) s"
| "split_outside 0 w (c # s) =
     (if c = CHR '','' then w # split_outside 0 [] s
      else (case match_string (c # s) of
              Some n \<Rightarrow> split_outside (n - 1) (w @ [c]) s
            | None \<Rightarrow> split_outside 0 (w @ [c]) s))"

definition split_arg_list :: "string \<Rightarrow> string list" where
  "split_arg_list args =
     (if CHR 0x22 \<notin> set args then map py_strip (py_split_char (CHR '','') args)
      else map py_strip (split_outside 0 [] args))"

section \<open>String directives\<close>

text \<open>\<open>c.encode("utf-8")\<close> of a character below 256.\<close>

definition utf8 :: "char \<Rightarrow> byte list" where
  "utf8 c = (if ccode c < 128 then [word_of_nat (ccode c)]
     else [word_of_nat (192 + ccode c div 64), word_of_nat (128 + ccode c mod 64)])"

definition char_escapes :: "char \<rightharpoonup> byte" where
  "char_escapes = map_of [(CHR ''b'', 8), (CHR ''f'', 12), (CHR ''n'', 10), (CHR ''r'', 13),
     (CHR ''t'', 9), (CHR ''v'', 11)]"

definition is_hexdigit :: "char \<Rightarrow> bool" where
  "is_hexdigit c \<longleftrightarrow> ascii_digit c \<or> c \<in> set ''abcdefABCDEF''"

definition dig :: "char \<Rightarrow> nat" where
  "dig c = (case digit_val c of Some d \<Rightarrow> d | None \<Rightarrow> 0)"

definition number_in :: "nat \<Rightarrow> nat \<Rightarrow> string \<Rightarrow> nat" where
  "number_in b v ds = foldl (\<lambda>a c. a * b + dig c) v ds"

text \<open>
  The body of the loop over the line: \<open>inq\<close> is \<open>in_quote\<close>, \<open>parts\<close> is \<open>num_parts\<close>.  A hex
  escape takes every hex digit that follows, an octal escape up to two more decimal digits.
\<close>

function ascii_loop :: "bool \<Rightarrow> bool \<Rightarrow> nat \<Rightarrow> byte list \<Rightarrow> string \<Rightarrow> byte list res" where
  "ascii_loop z inq parts ret [] =
     (if inq then Inl DecompFailure else if parts = 0 then Inl DecompFailure else Inr ret)"
| "ascii_loop z False parts ret (c # s) =
     (if c = CHR 0x22 then ascii_loop z True (parts + 1) ret s else ascii_loop z False parts ret s)"
| "ascii_loop z True parts ret (c # s) =
     (if c = CHR 0x22 then ascii_loop z False parts (if z then ret @ [0] else ret) s
      else if c \<noteq> CHR 0x5C then ascii_loop z True parts (ret @ utf8 c) s
      else (case s of
              [] \<Rightarrow> Inl DecompFailure
            | d # t \<Rightarrow>
                (case char_escapes d of
                   Some b \<Rightarrow> ascii_loop z True parts (ret @ [b]) t
                 | None \<Rightarrow>
                     if d = CHR ''x'' then
                       ascii_loop z True parts
                         (ret @ [word_of_nat (number_in 16 0 (takeWhile is_hexdigit t))])
                         (dropWhile is_hexdigit t)
                     else if ascii_digit d then
                       (let more = takeWhile ascii_digit (take 2 t)
                        in ascii_loop z True parts (ret @ [word_of_nat (number_in 8 (dig d) more)])
                             (drop (length more) t))
                     else ascii_loop z True parts (ret @ utf8 d) t)))"
  by pat_completeness auto
termination
  by (relation "measure (\<lambda>(z, inq, parts, ret, s). length s)") (auto simp: le_imp_less_Suc less_SucI)

definition parse_ascii_directive :: "string \<Rightarrow> bool \<Rightarrow> byte list res" where
  "parse_ascii_directive line z = ascii_loop z False 0 [] line"

section \<open>Warnings and files\<close>

text \<open>A warning is identified by the values its text shows.\<close>

datatype warning =
    AssumingUnset string string
  | IgnoringIf string
  | SkippingIncbin string
  | UnableToRead int string string int nat
  | UnableToFind string nat

definition add_warning :: "warning list \<Rightarrow> warning \<Rightarrow> warning list" where
  "add_warning ws w = (if w \<in> set ws then ws else ws @ [w])"

text \<open>
  \<open>open\<close>, \<open>seek\<close> and \<open>read\<close>: a missing file and a negative offset are \<open>OSError\<close>s, which try
  the next directory; a size below \<open>-1\<close> is a \<open>ValueError\<close>.
\<close>

definition read_at :: "byte list \<Rightarrow> int \<Rightarrow> int \<Rightarrow> byte list option res" where
  "read_at content off sz =
     (if off < 0 then Inr None
      else if sz < -1 then Inl ValueError
      else if sz = -1 then Inr (Some (drop (nat off) content))
      else Inr (Some (take (nat sz) (drop (nat off) content))))"

fun incbin_dirs_loop :: "(string \<Rightarrow> string \<Rightarrow> byte list option) \<Rightarrow> nat \<Rightarrow> string list \<Rightarrow> string \<Rightarrow>
    int \<Rightarrow> int \<Rightarrow> warning list \<Rightarrow> (byte list option \<times> warning list) res" where
  "incbin_dirs_loop fs n [] fname off sz ws = Inr (None, add_warning ws (UnableToFind fname n))"
| "incbin_dirs_loop fs n (d # ds) fname off sz ws =
     (case fs d fname of
        None \<Rightarrow> incbin_dirs_loop fs n ds fname off sz ws
      | Some content \<Rightarrow>
          ebind (read_at content off sz) (\<lambda>r.
            (case r of
               None \<Rightarrow> incbin_dirs_loop fs n ds fname off sz ws
             | Some data \<Rightarrow>
                 if sz \<ge> 0 \<and> int (length data) \<noteq> sz
                 then Inr (None, add_warning ws (UnableToRead sz d fname off (length data)))
                 else Inr (Some data, ws))))"

definition parse_incbin :: "(string \<Rightarrow> string \<Rightarrow> byte list option) \<Rightarrow> string list \<Rightarrow> string list \<Rightarrow>
    warning list \<Rightarrow> (byte list option \<times> warning list) res" where
  "parse_incbin fs dirs args ws =
     ebind (case args of
              [f, o_str, s_str] \<Rightarrow>
                (case (py_int0 o_str, py_int0 s_str) of
                   (Inr off, Inr sz) \<Rightarrow> Inr (f, off, sz)
                 | _ \<Rightarrow> Inl DecompFailure)
            | [f] \<Rightarrow> Inr (f, 0, -1)
            | _ \<Rightarrow> Inl DecompFailure)
       (\<lambda>(fname, off, sz).
          if dirs = [] then Inr (None, add_warning ws (SkippingIncbin fname))
          else incbin_dirs_loop fs (length dirs) dirs fname off sz ws)"

section \<open>Preprocessor conditions\<close>

type_synonym cpp_env = "asm_state \<times> warning list"

definition check_ifdef :: "string \<Rightarrow> string \<Rightarrow> cpp_env \<Rightarrow> bool \<times> cpp_env" where
  "check_ifdef macro_name directive env =
     (let (st, ws) = env in
      case st_defines st macro_name of
        None \<Rightarrow> (False, st\<lparr>st_defines := (st_defines st)(macro_name \<mapsto> None)\<rparr>,
                 add_warning ws (AssumingUnset macro_name directive))
      | Some v \<Rightarrow> (v \<noteq> None, env))"

definition cpp_word :: "char \<Rightarrow> bool" where
  "cpp_word c \<longleftrightarrow> ascii_letter c \<or> ascii_digit c \<or> c = CHR ''_''"

text \<open>The tokens \<open>[a-zA-Z0-9_]+|&&|\|\||.\<close> of a condition, blanks dropped.\<close>

function cpp_tokens :: "string \<Rightarrow> string list" where
  "cpp_tokens [] = []"
| "cpp_tokens (c # s) =
     (if cpp_word c then (c # takeWhile cpp_word s) # cpp_tokens (dropWhile cpp_word s)
      else if c \<in> set ''&|'' \<and> s \<noteq> [] \<and> hd s = c then [c, c] # cpp_tokens (tl s)
      else if py_isspace c then cpp_tokens s
      else [c] # cpp_tokens s)"
  by pat_completeness auto
termination
  by (relation "measure length") (auto simp: le_imp_less_Suc)

definition cpp_atom :: "string \<Rightarrow> string \<Rightarrow> cpp_env \<Rightarrow> (bool \<times> cpp_env) res" where
  "cpp_atom directive tok env =
     (if tok \<noteq> [] \<and> ascii_digit (hd tok) then ebind (py_int0 tok) (\<lambda>v. Inr (v \<noteq> 0, env))
      else (case lookup_define (fst env) tok of
              None \<Rightarrow> Inr (False, snd (check_ifdef tok directive env))
            | Some v \<Rightarrow> Inr (v \<noteq> 0, env)))"

text \<open>
  The three nested parsers and the two \<open>while\<close> loops, on the tokens that are left; a loop
  carries the value so far.  The loops evaluate every operand, also when the result is
  already decided.  Each call is one step on its recursive calls.
\<close>

datatype cpp_call = Parse1 | Parse2 | Parse3 | AndLoop bool | OrLoop bool

type_synonym cpp_run = "cpp_call \<Rightarrow> string list \<Rightarrow> cpp_env \<Rightarrow> (bool \<times> string list \<times> cpp_env) res"

definition parse_defined :: "string \<Rightarrow> string list \<Rightarrow> cpp_env \<Rightarrow> (bool \<times> string list \<times> cpp_env) res" where
  "parse_defined d t env =
     (case t of
        [] \<Rightarrow> Inl IndexError
      | o1 # t1 \<Rightarrow> ebind (py_assert (o1 = ''('')) (\<lambda>_.
          (case t1 of
             w # cl # t2 \<Rightarrow> ebind (py_assert (cl = '')'')) (\<lambda>_.
               let (r, env') = check_ifdef w d env in Inr (r, t2, env'))
           | _ \<Rightarrow> Inl IndexError)))"

definition close_paren :: "bool \<times> string list \<times> cpp_env \<Rightarrow> (bool \<times> string list \<times> cpp_env) res" where
  "close_paren x = (let (r, t, env) = x in
     case t of
       [] \<Rightarrow> Inl IndexError
     | p # t' \<Rightarrow> ebind (py_assert (p = '')'')) (\<lambda>_. Inr (r, t', env)))"

definition parse1 :: "cpp_run \<Rightarrow> string \<Rightarrow> string list \<Rightarrow> cpp_env \<Rightarrow> (bool \<times> string list \<times> cpp_env) res" where
  "parse1 rec d toks env =
     (case toks of
        [] \<Rightarrow> Inl IndexError
      | tok # t \<Rightarrow>
          if tok = ''!'' then ebind (rec Parse1 t env) (\<lambda>(r, t', env'). Inr (\<not> r, t', env'))
          else if tok = ''('' then ebind (rec Parse3 t env) close_paren
          else if tok = ''defined'' then parse_defined d t env
          else ebind (cpp_atom d tok env) (\<lambda>(r, env'). Inr (r, t, env')))"

definition parse2 :: "cpp_run \<Rightarrow> string list \<Rightarrow> cpp_env \<Rightarrow> (bool \<times> string list \<times> cpp_env) res" where
  "parse2 rec toks env = ebind (rec Parse1 toks env) (\<lambda>(r, t, env'). rec (AndLoop r) t env')"

definition and_loop :: "cpp_run \<Rightarrow> bool \<Rightarrow> string list \<Rightarrow> cpp_env \<Rightarrow> (bool \<times> string list \<times> cpp_env) res" where
  "and_loop rec r toks env =
     (if toks \<noteq> [] \<and> hd toks = ''&&''
      then ebind (rec Parse1 (tl toks) env) (\<lambda>(r', t, env'). rec (AndLoop (r \<and> r')) t env')
      else Inr (r, toks, env))"

definition parse3 :: "cpp_run \<Rightarrow> string list \<Rightarrow> cpp_env \<Rightarrow> (bool \<times> string list \<times> cpp_env) res" where
  "parse3 rec toks env = ebind (rec Parse2 toks env) (\<lambda>(r, t, env'). rec (OrLoop r) t env')"

definition or_loop :: "cpp_run \<Rightarrow> bool \<Rightarrow> string list \<Rightarrow> cpp_env \<Rightarrow> (bool \<times> string list \<times> cpp_env) res" where
  "or_loop rec r toks env =
     (if toks \<noteq> [] \<and> hd toks = ''||''
      then ebind (rec Parse2 (tl toks) env) (\<lambda>(r', t, env'). rec (OrLoop (r \<or> r')) t env')
      else Inr (r, toks, env))"

fun cpp_run :: "nat \<Rightarrow> string \<Rightarrow> cpp_run" where
  "cpp_run 0 d call toks env = Inl OutOfFuel"
| "cpp_run (Suc n) d call toks env =
     (case call of
        Parse1 \<Rightarrow> parse1 (cpp_run n d) d toks env
      | Parse2 \<Rightarrow> parse2 (cpp_run n d) toks env
      | Parse3 \<Rightarrow> parse3 (cpp_run n d) toks env
      | AndLoop r \<Rightarrow> and_loop (cpp_run n d) r toks env
      | OrLoop r \<Rightarrow> or_loop (cpp_run n d) r toks env)"

text \<open>\<open>except (AssertionError, IndexError, ValueError)\<close> around the whole parse.\<close>

definition eval_cpp_if :: "string \<Rightarrow> string \<Rightarrow> cpp_env \<Rightarrow> (bool \<times> cpp_env) res" where
  "eval_cpp_if expr directive env =
     (let tokens = cpp_tokens expr in
      case ebind (cpp_run (4 * length tokens + 3) directive Parse3 tokens env)
             (\<lambda>(r, t, env'). ebind (py_assert (t = [])) (\<lambda>_. Inr (r, env'))) of
        Inr r \<Rightarrow> Inr r
      | Inl e \<Rightarrow> if e \<in> {AssertionError, IndexError, ValueError} then Inl DecompFailure else Inl e)"

section \<open>The condition parser ends\<close>

fun call_cost :: "cpp_call \<Rightarrow> nat" where
  "call_cost Parse2 = 1"
| "call_cost Parse3 = 2"
| "call_cost _ = 0"

fun takes :: "cpp_call \<Rightarrow> nat" where
  "takes (AndLoop r) = 0"
| "takes (OrLoop r) = 0"
| "takes _ = 1"

lemma cpp_atom_no_fuel [no_fuel_intros]: "no_fuel (cpp_atom d tok env)"
  by (auto simp: cpp_atom_def intro!: no_fuel_intros no_fuel_py_int split: option.split)

lemma parse_defined_no_fuel [no_fuel_intros]: "no_fuel (parse_defined d t env)"
  by (auto simp: parse_defined_def Let_def split_def intro!: no_fuel_intros split: list.split)

lemma close_paren_no_fuel [no_fuel_intros]: "no_fuel (close_paren x)"
  by (auto simp: close_paren_def split_def Let_def intro!: no_fuel_intros split: list.split)

lemma parse_defined_shrinks: "parse_defined d t env = Inr (r, t', env') \<Longrightarrow> length t' < length t"
  by (auto simp: parse_defined_def Let_def split_def split: list.splits)

lemma close_paren_shrinks: "close_paren (r0, t, env) = Inr (r, t', env') \<Longrightarrow> length t' < length t"
  by (auto simp: close_paren_def split: list.splits)

lemma cpp_run_shrinks:
  "cpp_run n d call toks env = Inr (r, t, env') \<Longrightarrow> length t + takes call \<le> length toks"
proof (induction n arbitrary: call toks env r t env')
  case (Suc n)
  note IH = Suc.IH
  show ?case
  proof (cases call)
    case Parse1
    with Suc.prems show ?thesis
      by (auto simp: parse1_def dest!: IH parse_defined_shrinks close_paren_shrinks split: list.splits if_splits)
  next
    case (AndLoop r)
    with Suc.prems show ?thesis
      by (cases toks) (auto simp: and_loop_def dest!: IH split: if_splits)
  next
    case (OrLoop r)
    with Suc.prems show ?thesis
      by (cases toks) (auto simp: or_loop_def dest!: IH split: if_splits)
  next
    case Parse2
    with Suc.prems show ?thesis by (auto simp: parse2_def dest!: IH)
  next
    case Parse3
    with Suc.prems show ?thesis by (auto simp: parse3_def dest!: IH)
  qed
qed simp

lemma cpp_run_no_fuel: "4 * length toks + call_cost call < n \<Longrightarrow> no_fuel (cpp_run n d call toks env)"
proof (induction n arbitrary: call toks env)
  case (Suc n)
  note rules = no_fuel_ebind Suc.IH
  show ?case
  proof (cases call)
    case Parse1
    with Suc.prems show ?thesis
      by (auto simp: parse1_def intro!: rules cpp_atom_no_fuel parse_defined_no_fuel close_paren_no_fuel split: list.split)
  next
    case (AndLoop r)
    with Suc.prems show ?thesis
      by (cases toks) (auto simp: and_loop_def intro!: rules dest!: cpp_run_shrinks)
  next
    case (OrLoop r)
    with Suc.prems show ?thesis
      by (cases toks) (auto simp: or_loop_def intro!: rules dest!: cpp_run_shrinks)
  next
    case Parse2
    with Suc.prems show ?thesis by (auto simp: parse2_def intro!: rules dest!: cpp_run_shrinks)
  next
    case Parse3
    with Suc.prems show ?thesis by (auto simp: parse3_def intro!: rules dest!: cpp_run_shrinks)
  qed
qed simp

section \<open>What a condition means\<close>

datatype cpp_expr =
    Num string | Name string | IsDefined string | Not cpp_expr | And cpp_expr cpp_expr | Or cpp_expr cpp_expr

text \<open>The truth value: a name that has no value, or that is not defined, is false.\<close>

fun cpp_val :: "asm_state \<Rightarrow> cpp_expr \<Rightarrow> bool" where
  "cpp_val st (Num w) \<longleftrightarrow> py_int0 w \<noteq> Inr 0"
| "cpp_val st (Name w) \<longleftrightarrow> (case lookup_define st w of None \<Rightarrow> False | Some v \<Rightarrow> v \<noteq> 0)"
| "cpp_val st (IsDefined w) \<longleftrightarrow> lookup_define st w \<noteq> None"
| "cpp_val st (Not e) \<longleftrightarrow> \<not> cpp_val st e"
| "cpp_val st (And a b) \<longleftrightarrow> cpp_val st a \<and> cpp_val st b"
| "cpp_val st (Or a b) \<longleftrightarrow> cpp_val st a \<or> cpp_val st b"

text \<open>Evaluation records every name that was never seen as explicitly undefined.\<close>

fun cpp_env_after :: "string \<Rightarrow> cpp_expr \<Rightarrow> cpp_env \<Rightarrow> cpp_env" where
  "cpp_env_after d (Num w) env = env"
| "cpp_env_after d (Name w) env = snd (check_ifdef w d env)"
| "cpp_env_after d (IsDefined w) env = snd (check_ifdef w d env)"
| "cpp_env_after d (Not e) env = cpp_env_after d e env"
| "cpp_env_after d (And a b) env = cpp_env_after d b (cpp_env_after d a env)"
| "cpp_env_after d (Or a b) env = cpp_env_after d b (cpp_env_after d a env)"

definition cpp_name :: "string \<Rightarrow> bool" where
  "cpp_name w \<longleftrightarrow> w \<noteq> [] \<and> list_all cpp_word w \<and> \<not> ascii_digit (hd w) \<and> w \<noteq> ''defined''"

fun cpp_wf :: "cpp_expr \<Rightarrow> bool" where
  "cpp_wf (Num w) \<longleftrightarrow> w \<noteq> [] \<and> list_all cpp_word w \<and> ascii_digit (hd w) \<and> \<not> is_err (py_int0 w)"
| "cpp_wf (Name w) \<longleftrightarrow> cpp_name w"
| "cpp_wf (IsDefined w) \<longleftrightarrow> cpp_name w"
| "cpp_wf (Not e) \<longleftrightarrow> cpp_wf e"
| "cpp_wf (And a b) \<longleftrightarrow> cpp_wf a \<and> cpp_wf b"
| "cpp_wf (Or a b) \<longleftrightarrow> cpp_wf a \<and> cpp_wf b"

text \<open>The tokens of an expression, with the parentheses its precedence needs.\<close>

fun pr :: "cpp_call \<Rightarrow> cpp_expr \<Rightarrow> string list" where
  "pr c (Num w) = [w]"
| "pr c (Name w) = [w]"
| "pr c (IsDefined w) = [''defined'', ''('', w, '')'']"
| "pr c (Not e) = ''!'' # pr Parse1 e"
| "pr c (And a b) = (if c = Parse1 then ''('' # (pr Parse2 a @ ''&&'' # pr Parse1 b) @ ['')'']
     else pr Parse2 a @ ''&&'' # pr Parse1 b)"
| "pr c (Or a b) = (if c = Parse3 then pr Parse3 a @ ''||'' # pr Parse2 b
     else ''('' # (pr Parse3 a @ ''||'' # pr Parse2 b) @ ['')''])"

lemma lookup_check_ifdef [simp]:
  "lookup_define (fst (snd (check_ifdef w d env))) n = lookup_define (fst env) n"
  by (auto simp: check_ifdef_def lookup_define_def split_def Let_def split: option.splits)

lemma check_ifdef_val [simp]: "fst (check_ifdef w d env) \<longleftrightarrow> lookup_define (fst env) w \<noteq> None"
  by (auto simp: check_ifdef_def lookup_define_def split_def Let_def split: option.splits)

lemma check_ifdef_seen: "lookup_define (fst env) w = Some v \<Longrightarrow> snd (check_ifdef w d env) = env"
  by (auto simp: check_ifdef_def lookup_define_def split_def Let_def split: option.splits)

lemma lookup_env_after [simp]: "lookup_define (fst (cpp_env_after d e env)) n = lookup_define (fst env) n"
  by (induction e arbitrary: env) auto

lemma cpp_val_env: "(\<And>n. lookup_define st n = lookup_define st' n) \<Longrightarrow> cpp_val st e = cpp_val st' e"
  by (induction e) auto

lemma cpp_val_after [simp]: "cpp_val (fst (cpp_env_after d e env)) e' = cpp_val (fst env) e'"
  by (rule cpp_val_env) simp

lemma pr_nonempty [simp]: "pr c e \<noteq> []"
  by (induction c e rule: pr.induct) auto

text \<open>
  Each parser reads its own printed form and stops behind it; the second and third are stated
  with the loop that follows, which is what their left recursion needs.
\<close>

definition reads1 :: "string \<Rightarrow> cpp_expr \<Rightarrow> bool" where
  "reads1 d e \<longleftrightarrow> (\<forall>rest n env. 4 * length (pr Parse1 e @ rest) < n \<longrightarrow>
     cpp_run n d Parse1 (pr Parse1 e @ rest) env = Inr (cpp_val (fst env) e, rest, cpp_env_after d e env))"

definition reads2 :: "string \<Rightarrow> cpp_expr \<Rightarrow> bool" where
  "reads2 d e \<longleftrightarrow> (\<forall>rest n env. 4 * length (pr Parse2 e @ rest) + 1 < n \<longrightarrow>
     (\<exists>m. 4 * length rest < m \<and> cpp_run n d Parse2 (pr Parse2 e @ rest) env =
        cpp_run m d (AndLoop (cpp_val (fst env) e)) rest (cpp_env_after d e env)))"

definition reads3 :: "string \<Rightarrow> cpp_expr \<Rightarrow> bool" where
  "reads3 d e \<longleftrightarrow> (\<forall>rest n env. 4 * length (pr Parse3 e @ rest) + 2 < n \<longrightarrow> take 1 rest \<noteq> [''&&''] \<longrightarrow>
     (\<exists>m. 4 * length rest < m \<and> cpp_run n d Parse3 (pr Parse3 e @ rest) env =
        cpp_run m d (OrLoop (cpp_val (fst env) e)) rest (cpp_env_after d e env)))"

lemma reads1D:
  "reads1 d e \<Longrightarrow> 4 * length (pr Parse1 e @ rest) < n \<Longrightarrow>
    cpp_run n d Parse1 (pr Parse1 e @ rest) env = Inr (cpp_val (fst env) e, rest, cpp_env_after d e env)"
  unfolding reads1_def by blast

lemma reads2E:
  assumes "reads2 d e" and "4 * length (pr Parse2 e @ rest) + 1 < n"
  obtains m where "4 * length rest < m" and "0 < m" and "cpp_run n d Parse2 (pr Parse2 e @ rest) env =
    cpp_run m d (AndLoop (cpp_val (fst env) e)) rest (cpp_env_after d e env)"
  using assms unfolding reads2_def by (metis gr_implies_not_zero neq0_conv)

lemma reads3E:
  assumes "reads3 d e" and "4 * length (pr Parse3 e @ rest) + 2 < n" and "take 1 rest \<noteq> [''&&'']"
  obtains m where "4 * length rest < m" and "0 < m" and "cpp_run n d Parse3 (pr Parse3 e @ rest) env =
    cpp_run m d (OrLoop (cpp_val (fst env) e)) rest (cpp_env_after d e env)"
  using assms unfolding reads3_def by (metis gr_implies_not_zero neq0_conv)

lemma loop_exits:
  "0 < m \<Longrightarrow> take 1 rest \<noteq> [''&&''] \<Longrightarrow> cpp_run m d (AndLoop r) rest env = Inr (r, rest, env)"
  "0 < m \<Longrightarrow> take 1 rest \<noteq> [''||''] \<Longrightarrow> cpp_run m d (OrLoop r) rest env = Inr (r, rest, env)"
  by (cases m; cases rest; auto simp: and_loop_def or_loop_def)+

lemma reads2_from_1:
  assumes "reads1 d e" and "pr Parse2 e = pr Parse1 e"
  shows "reads2 d e"
  unfolding reads2_def
proof (intro allI impI)
  fix rest n env
  assume n: "4 * length (pr Parse2 e @ rest) + 1 < n"
  then obtain k where k: "n = Suc k" by (cases n) auto
  from n k assms have "cpp_run n d Parse2 (pr Parse2 e @ rest) env =
      cpp_run k d (AndLoop (cpp_val (fst env) e)) rest (cpp_env_after d e env)"
    by (simp add: reads1D parse2_def)
  moreover have "4 * length rest < k" using n k by simp
  ultimately show "\<exists>m. 4 * length rest < m \<and> cpp_run n d Parse2 (pr Parse2 e @ rest) env =
      cpp_run m d (AndLoop (cpp_val (fst env) e)) rest (cpp_env_after d e env)" by blast
qed

lemma reads3_from_2:
  assumes "reads2 d e" and "pr Parse3 e = pr Parse2 e"
  shows "reads3 d e"
  unfolding reads3_def
proof (intro allI impI)
  fix rest n env
  assume n: "4 * length (pr Parse3 e @ rest) + 2 < n" and rest: "take 1 rest \<noteq> [''&&'']"
  then obtain k where k: "n = Suc k" by (cases n) auto
  have "4 * length (pr Parse2 e @ rest) + 1 < k" using n k assms(2) by simp
  with assms(1) obtain m where "0 < m" and "cpp_run k d Parse2 (pr Parse2 e @ rest) env =
      cpp_run m d (AndLoop (cpp_val (fst env) e)) rest (cpp_env_after d e env)"
    by (rule reads2E)
  then have "cpp_run n d Parse3 (pr Parse3 e @ rest) env =
      cpp_run k d (OrLoop (cpp_val (fst env) e)) rest (cpp_env_after d e env)"
    using assms(2) k loop_exits(1) [OF _ rest] by (simp add: parse3_def)
  moreover have "4 * length rest < k" using n k by simp
  ultimately show "\<exists>m. 4 * length rest < m \<and> cpp_run n d Parse3 (pr Parse3 e @ rest) env =
      cpp_run m d (OrLoop (cpp_val (fst env) e)) rest (cpp_env_after d e env)" by blast
qed

lemma reads1_from_3:
  assumes "reads3 d e" and "pr Parse1 e = ''('' # pr Parse3 e @ ['')'']"
  shows "reads1 d e"
  unfolding reads1_def
proof (intro allI impI)
  fix rest n env
  assume n: "4 * length (pr Parse1 e @ rest) < n"
  then obtain k where k: "n = Suc k" by (cases n) auto
  have "4 * length (pr Parse3 e @ ('')'' # rest)) + 2 < k" using n k assms(2) by simp
  then obtain m where "0 < m" and "cpp_run k d Parse3 (pr Parse3 e @ '')'' # rest) env =
      cpp_run m d (OrLoop (cpp_val (fst env) e)) ('')'' # rest) (cpp_env_after d e env)"
    by (rule reads3E [OF assms(1)]) simp
  then show "cpp_run n d Parse1 (pr Parse1 e @ rest) env = Inr (cpp_val (fst env) e, rest, cpp_env_after d e env)"
    using k assms(2) by (simp add: parse1_def close_paren_def loop_exits)
qed

lemma reads2_And:
  assumes "reads2 d a" and "reads1 d b"
  shows "reads2 d (And a b)"
  unfolding reads2_def
proof (intro allI impI)
  fix rest n env
  let ?rest = "''&&'' # pr Parse1 b @ rest"
  assume n: "4 * length (pr Parse2 (And a b) @ rest) + 1 < n"
  then have "4 * length (pr Parse2 a @ ?rest) + 1 < n" by simp
  then obtain m where m: "4 * length ?rest < m" and "cpp_run n d Parse2 (pr Parse2 a @ ?rest) env =
      cpp_run m d (AndLoop (cpp_val (fst env) a)) ?rest (cpp_env_after d a env)"
    by (rule reads2E [OF assms(1)])
  moreover obtain k where k: "m = Suc k" using m by (cases m) auto
  ultimately have "cpp_run n d Parse2 (pr Parse2 (And a b) @ rest) env =
      cpp_run k d (AndLoop (cpp_val (fst env) (And a b))) rest (cpp_env_after d (And a b) env)"
    using assms(2) by (simp add: and_loop_def reads1D)
  moreover have "4 * length rest < k" using m k by simp
  ultimately show "\<exists>m. 4 * length rest < m \<and> cpp_run n d Parse2 (pr Parse2 (And a b) @ rest) env =
      cpp_run m d (AndLoop (cpp_val (fst env) (And a b))) rest (cpp_env_after d (And a b) env)" by blast
qed

lemma reads3_Or:
  assumes "reads3 d a" and "reads2 d b"
  shows "reads3 d (Or a b)"
  unfolding reads3_def
proof (intro allI impI)
  fix rest n env
  let ?rest = "''||'' # pr Parse2 b @ rest"
  assume n: "4 * length (pr Parse3 (Or a b) @ rest) + 2 < n" and rest: "take 1 rest \<noteq> [''&&'']"
  then have "4 * length (pr Parse3 a @ ?rest) + 2 < n" by simp
  then obtain m where m: "4 * length ?rest < m" and a: "cpp_run n d Parse3 (pr Parse3 a @ ?rest) env =
      cpp_run m d (OrLoop (cpp_val (fst env) a)) ?rest (cpp_env_after d a env)"
    by (rule reads3E [OF assms(1)]) simp
  obtain k where k: "m = Suc k" using m by (cases m) auto
  have "4 * length (pr Parse2 b @ rest) + 1 < k" using m k by simp
  then obtain m' where "0 < m'" and "cpp_run k d Parse2 (pr Parse2 b @ rest) (cpp_env_after d a env) =
      cpp_run m' d (AndLoop (cpp_val (fst (cpp_env_after d a env)) b)) rest (cpp_env_after d b (cpp_env_after d a env))"
    by (rule reads2E [OF assms(2)])
  with a k have "cpp_run n d Parse3 (pr Parse3 (Or a b) @ rest) env =
      cpp_run k d (OrLoop (cpp_val (fst env) (Or a b))) rest (cpp_env_after d (Or a b) env)"
    using rest by (simp add: or_loop_def loop_exits)
  moreover have "4 * length rest < k" using m k by simp
  ultimately show "\<exists>m. 4 * length rest < m \<and> cpp_run n d Parse3 (pr Parse3 (Or a b) @ rest) env =
      cpp_run m d (OrLoop (cpp_val (fst env) (Or a b))) rest (cpp_env_after d (Or a b) env)" by blast
qed

lemma cpp_word_not_op: "list_all cpp_word w \<Longrightarrow> w \<noteq> ''!'' \<and> w \<noteq> ''(''"
  by (auto simp: cpp_word_def char_defs)

lemma reads1_atom:
  assumes "\<And>n rest env. cpp_run (Suc n) d Parse1 (pr Parse1 e @ rest) env =
    Inr (cpp_val (fst env) e, rest, cpp_env_after d e env)"
  shows "reads1 d e"
  unfolding reads1_def by (metis assms gr0_implies_Suc gr_implies_not_zero bot_nat_0.not_eq_extremum)

lemma reads1_Num: "cpp_wf (Num w) \<Longrightarrow> reads1 d (Num w)"
proof (rule reads1_atom)
  fix n rest env
  assume wf: "cpp_wf (Num w)"
  then obtain v where "py_int0 w = Inr v" by (cases "py_int0 w") auto
  moreover have "w \<noteq> ''!''" "w \<noteq> ''(''" "w \<noteq> ''defined''" using wf cpp_word_not_op by (auto simp: char_defs)
  ultimately show "cpp_run (Suc n) d Parse1 (pr Parse1 (Num w) @ rest) env =
    Inr (cpp_val (fst env) (Num w), rest, cpp_env_after d (Num w) env)"
    using wf by (simp add: parse1_def cpp_atom_def)
qed

lemma reads1_Name: "cpp_wf (Name w) \<Longrightarrow> reads1 d (Name w)"
proof (rule reads1_atom)
  fix n rest env
  assume wf: "cpp_wf (Name w)"
  moreover have "w \<noteq> ''!''" "w \<noteq> ''(''" "w \<noteq> ''defined''" using wf cpp_word_not_op by (auto simp: cpp_name_def)
  ultimately show "cpp_run (Suc n) d Parse1 (pr Parse1 (Name w) @ rest) env =
    Inr (cpp_val (fst env) (Name w), rest, cpp_env_after d (Name w) env)"
    by (auto simp: parse1_def cpp_atom_def cpp_name_def check_ifdef_seen split: option.split)
qed

lemma reads1_IsDefined: "reads1 d (IsDefined w)"
  by (rule reads1_atom) (simp add: parse1_def parse_defined_def split_def)

lemma reads1_Not: "reads1 d e \<Longrightarrow> reads1 d (Not e)"
proof -
  assume e: "reads1 d e"
  show ?thesis
    unfolding reads1_def
  proof (intro allI impI)
    fix rest n env
    assume n: "4 * length (pr Parse1 (Not e) @ rest) < n"
    then obtain k where k: "n = Suc k" by (cases n) auto
    with n e show "cpp_run n d Parse1 (pr Parse1 (Not e) @ rest) env =
      Inr (cpp_val (fst env) (Not e), rest, cpp_env_after d (Not e) env)"
      by (simp add: reads1D parse1_def)
  qed
qed

lemma reads_all: "cpp_wf e \<Longrightarrow> reads1 d e \<and> reads2 d e \<and> reads3 d e"
proof (induction e)
  case (And a b)
  then have "reads2 d (And a b)" by (simp add: reads2_And)
  moreover from this have "reads3 d (And a b)" by (rule reads3_from_2) simp
  moreover from this have "reads1 d (And a b)" by (rule reads1_from_3) simp
  ultimately show ?case by simp
next
  case (Or a b)
  then have "reads3 d (Or a b)" by (simp add: reads3_Or)
  moreover from this have "reads1 d (Or a b)" by (rule reads1_from_3) simp
  moreover from this have "reads2 d (Or a b)" by (rule reads2_from_1) simp
  ultimately show ?case by simp
qed (use reads1_Num reads1_Name reads1_IsDefined reads1_Not in
    \<open>auto intro: reads2_from_1 reads3_from_2 [OF reads2_from_1]\<close>)

text \<open>Tokens separated by blanks are found again by the tokeniser.\<close>

definition cpp_token :: "string \<Rightarrow> bool" where
  "cpp_token w \<longleftrightarrow> (w \<noteq> [] \<and> list_all cpp_word w) \<or> w = ''!'' \<or> w = ''('' \<or> w = '')'' \<or> w = ''&&'' \<or> w = ''||''"

lemma not_word_op: "c \<in> set ''!()&| '' \<Longrightarrow> \<not> cpp_word c"
  by (auto simp: cpp_word_def char_defs)

lemma blank_not_word [simp]: "\<not> cpp_word (CHR '' '')" "py_isspace (CHR '' '')"
  by (simp_all add: not_word_op char_defs)

lemma cpp_tokens_word:
  assumes "w \<noteq> []" and "list_all cpp_word w"
  shows "cpp_tokens (w @ CHR '' '' # s) = w # cpp_tokens s" and "cpp_tokens w = [w]"
proof -
  obtain c r where w: "w = c # r" using assms(1) by (cases w) auto
  then have r: "\<And>x. x \<in> set r \<Longrightarrow> cpp_word x" and c: "cpp_word c" using assms(2) by (auto simp: list_all_iff)
  have "takeWhile cpp_word (r @ CHR '' '' # s) = r" "dropWhile cpp_word (r @ CHR '' '' # s) = CHR '' '' # s"
    using r by (simp_all add: takeWhile_append2 dropWhile_append2)
  then show "cpp_tokens (w @ CHR '' '' # s) = w # cpp_tokens s" by (simp add: w c)
  have "takeWhile cpp_word r = r" "dropWhile cpp_word r = []" using r by simp_all
  then show "cpp_tokens w = [w]" by (simp add: w c del: takeWhile_eq_all_conv dropWhile_eq_Nil_conv)
qed

lemma op_chars [simp]:
  "\<not> cpp_word (CHR ''!'')" "\<not> cpp_word (CHR ''('')" "\<not> cpp_word (CHR '')'')" "\<not> cpp_word (CHR ''&'')"
  "\<not> cpp_word (CHR ''|'')" "\<not> py_isspace (CHR ''!'')" "\<not> py_isspace (CHR ''('')" "\<not> py_isspace (CHR '')'')"
  by (simp_all add: cpp_word_def char_defs)

lemma cpp_tokens_op:
  assumes "w = ''!'' \<or> w = ''('' \<or> w = '')'' \<or> w = ''&&'' \<or> w = ''||''"
  shows "cpp_tokens (w @ CHR '' '' # s) = w # cpp_tokens s" and "cpp_tokens w = [w]"
  using assms by (elim disjE; simp)+

lemma cpp_tokens_one:
  assumes "cpp_token w"
  shows "cpp_tokens (w @ CHR '' '' # s) = w # cpp_tokens s" and "cpp_tokens w = [w]"
  using assms cpp_tokens_word(1) [of w s] cpp_tokens_word(2) [of w] cpp_tokens_op(1) [of w s]
    cpp_tokens_op(2) [of w] unfolding cpp_token_def by blast+

lemma cpp_tokens_join: "list_all cpp_token ws \<Longrightarrow> cpp_tokens (py_join '' '' ws) = ws"
proof (induction "'' ''" ws rule: py_join.induct)
  case (2 x)
  then show ?case by (simp add: cpp_tokens_one del: cpp_tokens.simps)
next
  case (3 x y xs)
  then show ?case by (simp add: cpp_tokens_one del: cpp_tokens.simps)
qed simp

lemma pr_tokens: "cpp_wf e \<Longrightarrow> list_all cpp_token (pr c e)"
proof -
  have "cpp_token ''defined''" by (simp add: cpp_token_def cpp_word_def char_defs)
  moreover have "cpp_token ''!''" "cpp_token ''(''" "cpp_token '')''" "cpp_token ''&&''" "cpp_token ''||''"
    by (simp_all add: cpp_token_def)
  ultimately show "cpp_wf e \<Longrightarrow> list_all cpp_token (pr c e)"
    by (induction c e rule: pr.induct) (simp_all add: cpp_token_def cpp_name_def)
qed

text \<open>The text of a condition.\<close>

definition cpp_text :: "cpp_expr \<Rightarrow> string" where
  "cpp_text e = py_join '' '' (pr Parse3 e)"

lemma eval_cpp_text:
  assumes "cpp_wf e"
  shows "eval_cpp_if (cpp_text e) d env = Inr (cpp_val (fst env) e, cpp_env_after d e env)"
proof -
  have toks: "cpp_tokens (cpp_text e) = pr Parse3 e"
    using pr_tokens [OF assms] by (simp add: cpp_text_def cpp_tokens_join)
  obtain m where "0 < m" and "cpp_run (4 * length (pr Parse3 e @ []) + 3) d Parse3 (pr Parse3 e @ []) env =
      cpp_run m d (OrLoop (cpp_val (fst env) e)) [] (cpp_env_after d e env)"
    using reads3E [of d e "[]" "4 * length (pr Parse3 e @ []) + 3" env] reads_all [OF assms, of d] by auto
  then show ?thesis
    by (simp add: eval_cpp_if_def toks loop_exits)
qed

section \<open>Escapes of string directives\<close>

text \<open>A byte written as a three-digit octal escape.\<close>

definition octal_escape :: "byte \<Rightarrow> string" where
  "octal_escape b = (let n = unat b in
     [CHR 0x5C, digit_char (n div 64), digit_char (n div 8 mod 8), digit_char (n mod 8)])"

definition ascii_text :: "byte list \<Rightarrow> string" where
  "ascii_text bs = CHR 0x22 # concat (map octal_escape bs) @ [CHR 0x22]"

lemma digit_char_digit: "d < 8 \<Longrightarrow> ascii_digit (digit_char d) \<and> dig (digit_char d) = d"
  by (simp add: ascii_digit_def dig_def ccode_digit_char)

lemma digit_char_plain: "d < 8 \<Longrightarrow> char_escapes (digit_char d) = None \<and> digit_char d \<noteq> CHR ''x''"
proof -
  assume "d < 8"
  then have c: "ccode (digit_char d) < 56" by (simp add: ccode_digit_char)
  have "digit_char d \<noteq> k" if "56 \<le> ccode k" for k using c that by auto
  then show ?thesis by (simp add: char_escapes_def ccode_def)
qed

lemma ascii_loop_octal:
  "ascii_loop z True parts ret (octal_escape b @ s) = ascii_loop z True parts (ret @ [b]) s"
proof -
  let ?n = "unat b"
  have n: "?n < 256" using unsigned_less [of b] by simp
  then have d: "?n div 64 < 8" "?n div 8 mod 8 < 8" "?n mod 8 < 8" by (auto simp: less_mult_imp_div_less)
  have val: "(?n div 64 * 8 + ?n div 8 mod 8) * 8 + ?n mod 8 = ?n"
  proof -
    have "?n div 64 = ?n div 8 div 8" by (simp flip: div_mult2_eq)
    then show ?thesis by (simp add: div_mult_mod_eq)
  qed
  show ?thesis
    using d digit_char_digit digit_char_plain [OF d(1)] val
    by (simp add: octal_escape_def Let_def number_in_def)
qed

lemma ascii_loop_octals:
  "ascii_loop z True parts ret (concat (map octal_escape bs) @ s) = ascii_loop z True parts (ret @ bs) s"
proof (induction bs arbitrary: ret)
  case (Cons b bs)
  have "ascii_loop z True parts ret (octal_escape b @ (concat (map octal_escape bs) @ s)) =
      ascii_loop z True parts (ret @ [b]) (concat (map octal_escape bs) @ s)"
    by (rule ascii_loop_octal)
  with Cons.IH show ?case by simp
qed simp

section \<open>Properties\<close>

text \<open>
  C19: a preprocessor condition is evaluated as it is meant: \<open>!\<close>, \<open>&&\<close> and \<open>||\<close> with
  their precedence and parentheses, \<open>defined(X)\<close> and bare names by the defines; names that
  were never seen become explicitly undefined and nothing else changes.
\<close>

theorem eval_cpp_if_meaning:
  "cpp_wf e \<Longrightarrow> eval_cpp_if (cpp_text e) d env = Inr (cpp_val (fst env) e, cpp_env_after d e env)"
  by (rule eval_cpp_text)

theorem eval_cpp_if_meaning_witness:
  "cpp_text (Or (IsDefined ''A'') (And (Name ''B'') (Not (Num ''0'')))) =
     ''defined ( A ) || B && ! 0'' \<and>
   eval_cpp_if (cpp_text (Or (IsDefined ''A'') (And (Name ''B'') (Not (Num ''0''))))) ''#if''
     (empty_asm_state\<lparr>st_defines := [''B'' \<mapsto> Some 2]\<rparr>, []) =
   Inr (True, empty_asm_state\<lparr>st_defines := [''B'' \<mapsto> Some 2, ''A'' \<mapsto> None]\<rparr>,
     [AssumingUnset ''A'' ''#if''])"
proof -
  let ?e = "Or (IsDefined ''A'') (And (Name ''B'') (Not (Num ''0'')))"
  let ?env = "(empty_asm_state\<lparr>st_defines := [''B'' \<mapsto> Some 2]\<rparr>, []) :: cpp_env"
  have "cpp_wf ?e" by code_simp
  from eval_cpp_if_meaning [OF this, of "''#if''" ?env] have
    "eval_cpp_if (cpp_text ?e) ''#if'' ?env = Inr (cpp_val (fst ?env) ?e, cpp_env_after ''#if'' ?e ?env)" .
  moreover have "cpp_val (fst ?env) ?e" "cpp_text ?e = ''defined ( A ) || B && ! 0''" by code_simp+
  moreover have "cpp_env_after ''#if'' ?e ?env =
      (empty_asm_state\<lparr>st_defines := [''B'' \<mapsto> Some 2, ''A'' \<mapsto> None]\<rparr>, [AssumingUnset ''A'' ''#if''])"
    by (simp add: check_ifdef_def add_warning_def)
  ultimately show ?thesis by simp
qed

text \<open>
  C26: every byte string can be written in an \<open>.ascii\<close> directive and is read back exactly, with
  the terminating zero of the \<open>z\<close> variants.
\<close>

theorem ascii_directive_roundtrip:
  "parse_ascii_directive (ascii_text bs) z = Inr (bs @ (if z then [0] else []))"
  by (simp add: parse_ascii_directive_def ascii_text_def ascii_loop_octals)

end
