(* ===== verification/Asm_Listing.thy ===== *)
theory Asm_Listing
  imports Asm_Directives
begin

text \<open>
  Model of \<open>parse_file\<close> of \<open>m2c/m2c/asm_file.py\<close>: the scan of a listing line by line, with
  comment stripping, labels, conditional assembly, section and data directives and
  instructions.

  Two things are passed in: \<open>fs\<close>, the files \<open>.incbin\<close> may open, and \<open>pack_float\<close>, the
  floating-point conversion \<open>struct.pack(fmt, float(w))\<close>.  Printing the warnings at the end is
  not modelled.
\<close>

record parse_options =
  preproc_defines :: "string \<rightharpoonup> int option"
  goto_patterns :: "string list"
  incbin_dirs :: "string list"
  big_endian :: bool

record parse_env =
  pe_arch :: arch_asm
  pe_options :: parse_options
  pe_filename :: string
  pe_fs :: "string \<Rightarrow> string \<Rightarrow> byte list option"
  pack_float :: "char \<Rightarrow> bool \<Rightarrow> string \<Rightarrow> byte list res"

text \<open>The local variables of \<open>parse_file\<close>; \<open>pf_next\<close> supplies instruction identities.\<close>

record pf_state =
  pf_file :: asm_file
  curr_section :: string
  pf_warnings :: "warning list"
  pf_asm :: asm_state
  ifdef_level :: int
  ifdef_levels :: "int list"
  pf_next :: nat

definition init_pf_state :: "parse_env \<Rightarrow> pf_state" where
  "init_pf_state E = \<lparr>pf_file = empty_asm_file (pe_filename E), curr_section = ''.text'',
     pf_warnings = [],
     pf_asm = empty_asm_state\<lparr>st_defines := [''NULL'' \<mapsto> Some 0] ++ preproc_defines (pe_options E)\<rparr>,
     ifdef_level = 0, ifdef_levels = [], pf_next = 0\<rparr>"

section \<open>Comments and white space\<close>

text \<open>\<open>arch.re_comment\<close> of the three architectures: the length of a match here.\<close>

definition to_eol :: "string \<Rightarrow> nat" where
  "to_eol s = length (takeWhile (\<lambda>c. c \<noteq> CHR 0x0A) s)"

definition re_comment :: "arch_enum \<Rightarrow> bool \<Rightarrow> string \<Rightarrow> nat option" where
  "re_comment a at_start s =
     (case s of
        [] \<Rightarrow> None
      | c # _ \<Rightarrow>
          if a = ARM then
            (let rest = dropWhile (\<lambda>c. c \<in> {CHR '' '', CHR 0x09}) s
             in if at_start \<and> rest \<noteq> [] \<and> hd rest = CHR ''#'' then Some (to_eol s)
                else if c \<in> set ''@;'' then Some (to_eol s) else None)
          else if c \<in> set ''#;'' then Some (to_eol s) else None)"

fun block_end :: "string \<Rightarrow> nat option" where
  "block_end (c # d # s) =
     (if c = CHR ''*'' \<and> d = CHR ''/'' then Some 2
      else if c = CHR 0x0A then None else map_option Suc (block_end (d # s)))"
| "block_end _ = None"

definition match_block :: "string \<Rightarrow> nat option" where
  "match_block s = (if take 2 s = ''/*'' then map_option (\<lambda>n. n + 2) (block_end (drop 2 s)) else None)"

definition first_match :: "nat option \<Rightarrow> nat option \<Rightarrow> nat option" where
  "first_match a b = (case a of Some n \<Rightarrow> Some n | None \<Rightarrow> b)"

definition comment_or_string :: "arch_enum \<Rightarrow> bool \<Rightarrow> string \<Rightarrow> nat option" where
  "comment_or_string a at_start s =
     first_match (re_comment a at_start s) (first_match (match_block s) (match_string s))"

definition whitespace_or_string :: "bool \<Rightarrow> string \<Rightarrow> nat option" where
  "whitespace_or_string at_start s =
     (if s \<noteq> [] \<and> py_isspace (hd s) then Some (length (takeWhile py_isspace s)) else match_string s)"

text \<open>\<open>re.sub\<close> with \<open>re_comment_replacer\<close>.\<close>

definition replacer :: "string \<Rightarrow> string" where
  "replacer s = (if s \<noteq> [] \<and> (hd s \<in> set ''/#;@ '' \<or> hd s = CHR 0x09) then '' '' else s)"

function re_sub :: "(bool \<Rightarrow> string \<Rightarrow> nat option) \<Rightarrow> bool \<Rightarrow> string \<Rightarrow> string" where
  "re_sub m at_start [] = []"
| "re_sub m at_start (c # s) =
     (case m at_start (c # s) of
        Some (Suc n) \<Rightarrow> replacer (take (Suc n) (c # s)) @ re_sub m False (drop n s)
      | _ \<Rightarrow> c # re_sub m False s)"
  by pat_completeness auto
termination
  by (relation "measure (\<lambda>(m, a, s). length s)") auto

definition c_directives :: "string list" where
  "c_directives = [''#ifdef'', ''#ifndef'', ''#else'', ''#if'', ''#elif'', ''#elifdef'',
     ''#elifndef'', ''#endif'', ''#define'']"

definition is_c_preproc :: "string \<Rightarrow> bool" where
  "is_c_preproc line \<longleftrightarrow> py_split_ws line \<noteq> [] \<and> hd (py_split_ws line) \<in> set c_directives"

definition clean_line :: "arch_enum \<Rightarrow> string \<Rightarrow> string" where
  "clean_line a line =
     (let l0 = (if is_c_preproc line then ''.'' @ tl line else line);
          l1 = re_sub (comment_or_string a) True l0;
          l2 = re_sub whitespace_or_string True l1
      in py_strip l2)"

section \<open>Labels\<close>

datatype label_kind = GLOBAL | LOCAL | JUMP_TARGET

definition upper_hex :: "char \<Rightarrow> bool" where
  "upper_hex c \<longleftrightarrow> ascii_digit c \<or> c \<in> set ''ABCDEF''"

definition hex7 :: "string \<Rightarrow> bool" where
  "hex7 s \<longleftrightarrow> length (takeWhile upper_hex s) \<ge> 7"

definition re_local_glabel :: "string \<Rightarrow> bool" where
  "re_local_glabel s \<longleftrightarrow> py_startswith s ''L'' \<and>
     (hex7 (drop 1 s) \<or>
      (py_startswith s ''L_'' \<and>
       list_ex (\<lambda>t. py_startswith t ''_'' \<and> hex7 (drop 1 t)) (suffixes (drop 2 s))))"

definition re_local_label :: "string \<Rightarrow> bool" where
  "re_local_label s \<longleftrightarrow>
     list_ex (py_startswith s) [''loc_'', ''locret_'', ''def_'', ''lbl_'', ''LAB_'', ''switchD_'', ''jump_''] \<or>
     (py_startswith s ''_'' \<and>
      list_ex (\<lambda>n. n \<le> length (tl s) \<and> list_all upper_hex (take n (tl s)) \<and>
        (drop n (tl s) = [] \<or> hd (drop n (tl s)) = CHR ''_'')) [7, 8])"

definition label_word :: "char \<Rightarrow> bool" where
  "label_word c \<longleftrightarrow> ascii_letter c \<or> ascii_digit c \<or> c \<in> set ''_.$''"

definition label_quoted :: "char \<Rightarrow> bool" where
  "label_quoted c \<longleftrightarrow> label_word c \<or> c \<in> set ''<>@,-''"

text \<open>\<open>re_label.match\<close>: the label and the rest of the line behind the colon.\<close>

definition match_label :: "string \<Rightarrow> (string \<times> string) option" where
  "match_label line =
     (let w = takeWhile label_word line; r = dropWhile label_word line
      in if w \<noteq> [] \<and> py_startswith r '':'' then Some (w, drop 1 r)
         else if py_startswith line [CHR 0x22] then
           (let q = takeWhile label_quoted (tl line); r' = dropWhile label_quoted (tl line)
            in if q \<noteq> [] \<and> py_startswith r' (CHR 0x22 # '':'') then Some (q, drop 2 r') else None)
         else None)"

definition upd_file :: "(asm_file \<Rightarrow> asm_file) \<Rightarrow> pf_state \<Rightarrow> pf_state" where
  "upd_file g s = s\<lparr>pf_file := g (pf_file s)\<rparr>"

definition upd_file_res :: "(asm_file \<Rightarrow> asm_file res) \<Rightarrow> pf_state \<Rightarrow> pf_state res" where
  "upd_file_res g s = ebind (g (pf_file s)) (\<lambda>f. Inr (s\<lparr>pf_file := f\<rparr>))"

definition process_label :: "string \<Rightarrow> label_kind \<Rightarrow> pf_state \<Rightarrow> pf_state res" where
  "process_label label kind s =
     (let sec = curr_section s in
      if sec = ''.rodata'' then Inr (upd_file (af_new_data_label label True False False) s)
      else if sec = ''.data'' then Inr (upd_file (af_new_data_label label False False False) s)
      else if sec = ''.bss'' then Inr (upd_file (af_new_data_label label False True False) s)
      else if sec = ''.text'' then
        (let s1 = upd_file (af_new_data_label label True False True) s;
             in_function = (af_functions (pf_file s1) \<noteq> [])
         in if py_startswith label ''.'' \<or> kind = JUMP_TARGET then
              (if in_function then upd_file_res (af_new_label label) s1 else Inr s1)
            else if (re_local_glabel label \<or> (kind \<noteq> GLOBAL \<and> re_local_label label)) \<and> in_function then
              upd_file_res (af_new_label label) s1
            else Inr (upd_file (af_new_function label) s1))
      else Inr s)"

lemma match_label_shorter: "match_label line = Some (w, r) \<Longrightarrow> length r < length line"
proof -
  assume m: "match_label line = Some (w, r)"
  have "length (dropWhile P xs) - k < Suc (length xs)" for P k and xs :: string
    using length_dropWhile_le [of P xs] by linarith
  with m show ?thesis
    by (cases line) (auto simp: match_label_def Let_def py_startswith_def split: if_splits)
qed

lemma length_py_strip: "length (py_strip s) \<le> length s"
  unfolding py_strip_def py_lstrip_def py_rstrip_def
  by (metis length_dropWhile_le length_rev order_trans)

function label_loop :: "string \<Rightarrow> pf_state \<Rightarrow> (string \<times> pf_state) res" where
  "label_loop line s =
     (case match_label line of
        None \<Rightarrow> Inr (line, s)
      | Some (label, rest) \<Rightarrow>
          ebind (if ifdef_level s = 0 then process_label label LOCAL s else Inr s)
            (\<lambda>s'. label_loop (py_strip rest) s'))"
  by pat_completeness auto
termination
  by (relation "measure (\<lambda>(line, s). length line)")
    (auto dest!: match_label_shorter intro: le_less_trans [OF length_py_strip])

declare label_loop.simps [simp del]

section \<open>Conditional assembly\<close>

text \<open>
  Each nested conditional has a level: 0 active, 1 inactive, 2 inactive after an active branch.
\<close>

definition push_level :: "int \<Rightarrow> pf_state \<Rightarrow> pf_state" where
  "push_level l s = s\<lparr>ifdef_level := ifdef_level s + l, ifdef_levels := ifdef_levels s @ [l]\<rparr>"

definition active_level :: "bool \<Rightarrow> int" where
  "active_level active = 1 - (if active then 1 else 0)"

definition pop_level :: "pf_state \<Rightarrow> (int \<times> pf_state) res" where
  "pop_level s =
     (if ifdef_levels s = [] then Inl IndexError
      else (let l = last (ifdef_levels s)
            in Inr (l, s\<lparr>ifdef_level := ifdef_level s - l, ifdef_levels := butlast (ifdef_levels s)\<rparr>)))"

definition pf_check_ifdef :: "string \<Rightarrow> string \<Rightarrow> pf_state \<Rightarrow> bool \<times> pf_state" where
  "pf_check_ifdef m directive s =
     (let (active, st, ws) = check_ifdef m directive (pf_asm s, pf_warnings s)
      in (active, s\<lparr>pf_asm := st, pf_warnings := ws\<rparr>))"

definition pf_eval_if :: "string \<Rightarrow> string \<Rightarrow> pf_state \<Rightarrow> (bool \<times> pf_state) res" where
  "pf_eval_if expr directive s =
     ebind (eval_cpp_if expr directive (pf_asm s, pf_warnings s))
       (\<lambda>(active, st, ws). Inr (active, s\<lparr>pf_asm := st, pf_warnings := ws\<rparr>))"

definition open_ifdef :: "string \<Rightarrow> string \<Rightarrow> pf_state \<Rightarrow> pf_state res" where
  "open_ifdef directive args_str s =
     (let (active, s') = pf_check_ifdef args_str directive s;
          active' = (if tl directive = ''ifndef'' then \<not> active else active)
      in Inr (push_level (active_level active') s'))"

definition open_if :: "string \<Rightarrow> pf_state \<Rightarrow> pf_state res" where
  "open_if line s =
     (case py_split_ws line of
        _ # macro_name # _ \<Rightarrow>
          if macro_name = ''0'' then Inr (push_level 1 s)
          else if macro_name = ''1'' then Inr (push_level 0 s)
          else Inr (push_level 0 (s\<lparr>pf_warnings := add_warning (pf_warnings s) (IgnoringIf macro_name)\<rparr>))
      | _ \<Rightarrow> Inl IndexError)"

definition open_cpp_if :: "string \<Rightarrow> string \<Rightarrow> pf_state \<Rightarrow> pf_state res" where
  "open_cpp_if directive args_str s =
     ebind (pf_eval_if args_str directive s) (\<lambda>(active, s'). Inr (push_level (active_level active) s'))"

definition else_active :: "string \<Rightarrow> string \<Rightarrow> pf_state \<Rightarrow> (bool \<times> pf_state) res" where
  "else_active directive args_str s =
     (if directive = ''#elifdef'' then Inr (pf_check_ifdef args_str directive s)
      else if directive = ''#elifndef'' then
        (let (active, s') = pf_check_ifdef args_str directive s in Inr (\<not> active, s'))
      else if directive = ''#elif'' then pf_eval_if args_str directive s
      else Inr (True, s))"

definition switch_else :: "string \<Rightarrow> string \<Rightarrow> pf_state \<Rightarrow> pf_state res" where
  "switch_else directive args_str s =
     ebind (pop_level s) (\<lambda>(level, s1).
       if level = 1 then
         ebind (else_active directive args_str s1)
           (\<lambda>(active, s2). Inr (push_level (active_level active) s2))
       else Inr (push_level 2 s1))"

definition close_if :: "pf_state \<Rightarrow> pf_state res" where
  "close_if s = ebind (pop_level s) (\<lambda>(_, s'). Inr s')"

section \<open>Data directives\<close>

definition parse_value :: "parse_env \<Rightarrow> string \<Rightarrow> pf_state \<Rightarrow> (argument \<times> pf_state) res" where
  "parse_value E w s =
     ebind (as_decomp_failure (parse_arg (arch_parsing.truncate (pe_arch E)) w (pf_asm s)))
       (\<lambda>(v, st). Inr (v, s\<lparr>pf_asm := st\<rparr>))"

definition parse_int :: "parse_env \<Rightarrow> string \<Rightarrow> pf_state \<Rightarrow> (int \<times> pf_state) res" where
  "parse_int E w s = ebind (parse_value E w s) (\<lambda>(v, s').
     case v of AsmLiteral n \<Rightarrow> Inr (n, s') | _ \<Rightarrow> Inl DecompFailure)"

text \<open>\<open>ival.to_bytes(size, order)\<close> of the masked value.\<close>

fun bytes_le :: "nat \<Rightarrow> int \<Rightarrow> byte list" where
  "bytes_le 0 v = []"
| "bytes_le (Suc n) v = word_of_int v # bytes_le n (v div 256)"

definition to_bytes :: "bool \<Rightarrow> nat \<Rightarrow> int \<Rightarrow> byte list" where
  "to_bytes big n v = (let bs = bytes_le n (v AND (2 ^ (n * 8) - 1)) in if big then rev bs else bs)"

definition emit_word :: "parse_env \<Rightarrow> nat \<Rightarrow> string \<Rightarrow> pf_state \<Rightarrow> pf_state res" where
  "emit_word E n w s = ebind (parse_value E w s) (\<lambda>(v, s').
     case v of
       AsmLiteral x \<Rightarrow> Inr (upd_file (af_new_data_bytes (to_bytes (big_endian (pe_options E)) n x) False) s')
     | _ \<Rightarrow> Inr (upd_file (af_new_symbolic_data v n) s'))"

fun for_each :: "('a \<Rightarrow> 's \<Rightarrow> 's res) \<Rightarrow> 'a list \<Rightarrow> 's \<Rightarrow> 's res" where
  "for_each f [] s = Inr s"
| "for_each f (x # xs) s = ebind (f x s) (for_each f xs)"

definition emit_float :: "parse_env \<Rightarrow> char \<Rightarrow> string \<Rightarrow> pf_state \<Rightarrow> pf_state res" where
  "emit_float E fmt w s = ebind (pack_float E fmt (big_endian (pe_options E)) w)
     (\<lambda>bs. Inr (upd_file (af_new_data_bytes bs False) s))"

definition emit_space :: "parse_env \<Rightarrow> string list \<Rightarrow> pf_state \<Rightarrow> pf_state res" where
  "emit_space E as s =
     ebind (case as of
              [a, b] \<Rightarrow> ebind (parse_int E b s) (\<lambda>(v, s'). Inr (v AND 0xFF, s'))
            | [a] \<Rightarrow> Inr (0, s)
            | _ \<Rightarrow> Inl DecompFailure)
       (\<lambda>(fill, s1). ebind (parse_int E (hd as) s1) (\<lambda>(sz, s2).
          Inr (upd_file (af_new_data_bytes (replicate (nat sz) (word_of_int fill)) False) s2)))"

definition emit_incbin :: "parse_env \<Rightarrow> string list \<Rightarrow> pf_state \<Rightarrow> pf_state res" where
  "emit_incbin E as s =
     ebind (parse_incbin (pe_fs E) (incbin_dirs (pe_options E)) as (pf_warnings s)) (\<lambda>(d, ws).
       let s' = s\<lparr>pf_warnings := ws\<rparr> in
       (case d of None \<Rightarrow> Inr s' | Some bs \<Rightarrow> Inr (upd_file (af_new_data_bytes bs False) s')))"

definition data_directive :: "parse_env \<Rightarrow> string \<Rightarrow> string \<Rightarrow> string \<Rightarrow> pf_state \<Rightarrow> pf_state res" where
  "data_directive E directive args_str line s =
     (if directive \<in> set [''.word'', ''.gpword'', ''.4byte''] then
        for_each (emit_word E 4) (split_arg_list args_str) s
      else if directive = ''.rel'' then
        (case split_arg_list args_str of [_, b] \<Rightarrow> emit_word E 4 b s | _ \<Rightarrow> Inl AssertionError)
      else if directive = ''.obj'' then
        (case split_quotable_arg_list args_str of
           [a, b] \<Rightarrow> process_label a (if b = ''local'' then LOCAL else GLOBAL) s
         | _ \<Rightarrow> Inl AssertionError)
      else if directive \<in> set [''.short'', ''.half'', ''.2byte''] then
        for_each (emit_word E 2) (split_arg_list args_str) s
      else if directive = ''.byte'' then for_each (emit_word E 1) (split_arg_list args_str) s
      else if directive = ''.float'' then for_each (emit_float E (CHR ''f'')) (split_arg_list args_str) s
      else if directive = ''.double'' then for_each (emit_float E (CHR ''d'')) (split_arg_list args_str) s
      else if directive \<in> set [''.asci'', ''.asciz'', ''.ascii'', ''.asciiz'', ''.string''] then
        ebind (parse_ascii_directive line (py_endswith directive ''z'' \<or> directive = ''.string''))
          (\<lambda>bs. Inr (upd_file (af_new_data_bytes bs True) s))
      else if directive \<in> set [''.space'', ''.skip''] then emit_space E (split_arg_list args_str) s
      else if py_startswith line ''.incbin'' then emit_incbin E (split_quotable_arg_list args_str) s
      else Inr s)"

section \<open>Directives\<close>

definition section_of :: "string \<Rightarrow> string" where
  "section_of sec =
     (if sec \<in> set [''.rdata'', ''.late_rodata'', ''.sdata2''] then ''.rodata''
      else if sec = ''.sdata'' then ''.data''
      else if py_startswith sec ''.text'' then ''.text''
      else sec)"

definition define_int :: "parse_env \<Rightarrow> string \<Rightarrow> string \<Rightarrow> pf_state \<Rightarrow> pf_state res" where
  "define_int E n w s = ebind (parse_int E w s) (\<lambda>(v, s').
     Inr (s'\<lparr>pf_asm := (pf_asm s')\<lparr>st_defines := (st_defines (pf_asm s'))(n \<mapsto> Some v)\<rparr>\<rparr>))"

definition set_directive :: "parse_env \<Rightarrow> string \<Rightarrow> pf_state \<Rightarrow> pf_state res" where
  "set_directive E args_str s =
     (case split_quotable_arg_list args_str of
        [_] \<Rightarrow> Inr s
      | [n, w] \<Rightarrow> define_int E n w s
      | _ \<Rightarrow> Inl DecompFailure)"

text \<open>\<open>args_str.split(None, 1)\<close>.\<close>

definition split_first :: "string \<Rightarrow> string list" where
  "split_first s =
     (let t = py_lstrip s; w = takeWhile (\<lambda>c. \<not> py_isspace c) t;
          r = py_lstrip (dropWhile (\<lambda>c. \<not> py_isspace c) t)
      in if w = [] then [] else if r = [] then [w] else [w, r])"

definition define_directive :: "parse_env \<Rightarrow> string \<Rightarrow> pf_state \<Rightarrow> pf_state res" where
  "define_directive E args_str s =
     (case split_first args_str of
        [] \<Rightarrow> Inl IndexError
      | [n] \<Rightarrow> Inr (s\<lparr>pf_asm := (pf_asm s)\<lparr>st_defines := (st_defines (pf_asm s))(n \<mapsto> Some 1)\<rparr>\<rparr>)
      | n # w # _ \<Rightarrow> define_int E n w s)"

definition set_thumb :: "bool \<Rightarrow> pf_state \<Rightarrow> pf_state" where
  "set_thumb b s = s\<lparr>pf_asm := (pf_asm s)\<lparr>is_thumb := b\<rparr>\<rparr>"

definition set_unified :: "bool \<Rightarrow> pf_state \<Rightarrow> pf_state" where
  "set_unified b s = s\<lparr>pf_asm := (pf_asm s)\<lparr>is_unified := b\<rparr>\<rparr>"

definition plain_directive :: "parse_env \<Rightarrow> string \<Rightarrow> string \<Rightarrow> string \<Rightarrow> pf_state \<Rightarrow> pf_state res" where
  "plain_directive E directive args_str line s =
     (if directive = ''.section'' then
        (case py_split_ws line of
           _ # w # _ \<Rightarrow> Inr (s\<lparr>curr_section := section_of (hd (py_split_char (CHR '','') w))\<rparr>)
         | _ \<Rightarrow> Inl IndexError)
      else if directive \<in> set [''.rdata'', ''.rodata'', ''.late_rodata''] then
        Inr (s\<lparr>curr_section := ''.rodata''\<rparr>)
      else if directive \<in> set [''.data'', ''.bss'', ''.text''] then Inr (s\<lparr>curr_section := directive\<rparr>)
      else if directive = ''.set'' then set_directive E args_str s
      else if directive = ''#define'' then define_directive E args_str s
      else if directive = ''.syntax'' then
        Inr (if py_strip args_str = ''unified'' then set_unified True s
             else if py_strip args_str = ''divided'' then set_unified False s else s)
      else if directive \<in> set [''.thumb'', ''.thumb_func''] then Inr (set_thumb True s)
      else if directive = ''.arm'' then Inr (set_thumb False s)
      else if directive = ''.code'' then
        Inr (if py_strip args_str = ''16'' then set_thumb True s
             else if py_strip args_str = ''32'' then set_thumb False s else s)
      else if curr_section s \<in> set [''.rodata'', ''.data'', ''.bss'', ''.text''] then
        data_directive E directive args_str line s
      else Inr s)"

definition fn_directive :: "string \<Rightarrow> pf_state \<Rightarrow> pf_state res" where
  "fn_directive args_str s =
     (case split_quotable_arg_list args_str of
        [] \<Rightarrow> Inl IndexError
      | n # _ \<Rightarrow> Inr (upd_file (af_new_function n) s))"

definition process_directive :: "parse_env \<Rightarrow> string \<Rightarrow> string \<Rightarrow> string \<Rightarrow> pf_state \<Rightarrow> pf_state res" where
  "process_directive E directive args_str line s =
     (if directive \<in> set [''.ifdef'', ''.ifndef'', ''#ifdef'', ''#ifndef''] then open_ifdef directive args_str s
      else if directive = ''.if'' then open_if line s
      else if directive = ''#if'' then open_cpp_if directive args_str s
      else if directive \<in> set [''#elif'', ''#elifdef'', ''#elifndef'', ''#else'', ''.else''] then
        switch_else directive args_str s
      else if directive \<in> set [''.endif'', ''#endif''] then close_if s
      else if directive = ''.macro'' then Inr (s\<lparr>ifdef_level := ifdef_level s + 1\<rparr>)
      else if directive = ''.endm'' then Inr (s\<lparr>ifdef_level := ifdef_level s - 1\<rparr>)
      else if directive = ''.fn'' then fn_directive args_str s
      else if ifdef_level s = 0 then plain_directive E directive args_str line s
      else Inr s)"

section \<open>Lines\<close>

definition func_start_words :: "string list" where
  "func_start_words = [''glabel'', ''dlabel'', ''arm_func_start'', ''thumb_func_start'',
     ''non_word_aligned_thumb_func_start'', ''ARM_FUNC_START'', ''THUMB_FUNC_START'',
     ''NON_WORD_ALIGNED_THUMB_FUNC_START'']"

definition ignored_words :: "string list" where
  "ignored_words = [''arm_func_end'', ''thumb_func_end'', ''ARM_FUNC_END'', ''THUMB_FUNC_END'',
     ''endlabel'', ''enddlabel'', ''alabel'', ''nonmatching'']"

definition label_line :: "string \<Rightarrow> label_kind \<Rightarrow> pf_state \<Rightarrow> pf_state res" where
  "label_line line kind s =
     (case py_split_ws line of _ # l # _ \<Rightarrow> process_label l kind s | _ \<Rightarrow> Inr s)"

definition instruction_line :: "parse_env \<Rightarrow> bool \<Rightarrow> nat \<Rightarrow> string \<Rightarrow> pf_state \<Rightarrow> pf_state res" where
  "instruction_line E emit n line s =
     (let mt = \<lparr>emit_goto = emit, meta_filename = pe_filename E, meta_lineno = n, synthetic = False\<rparr>
      in ebind (parse_instruction (pf_next s) line mt (pe_arch E) (pf_asm s)) (\<lambda>(ins, st).
           upd_file_res (af_new_instruction ins) (s\<lparr>pf_asm := st, pf_next := Suc (pf_next s)\<rparr>)))"

definition process_statement :: "parse_env \<Rightarrow> bool \<Rightarrow> nat \<Rightarrow> string \<Rightarrow> string \<Rightarrow> pf_state \<Rightarrow> pf_state res" where
  "process_statement E emit n directive line s =
     (if directive = ''jlabel'' then label_line line JUMP_TARGET s
      else if directive \<in> set func_start_words then
        (let s1 = (if py_in ''thumb'' (py_lower directive) then set_thumb True s
                   else if py_in ''arm'' (py_lower directive) then set_thumb False s else s)
         in label_line line GLOBAL s1)
      else if directive \<in> set ignored_words then Inr s
      else if curr_section s = ''.text'' then instruction_line E emit n line s
      else Inr s)"

text \<open>An assignment \<open>key = value\<close> is read as \<open>.set key, value\<close>.\<close>

definition rewrite_assignment :: "bool \<Rightarrow> string \<Rightarrow> string" where
  "rewrite_assignment c_preproc line =
     (if CHR ''='' \<in> set line \<and> \<not> c_preproc then
        (let (k, v) = py_partition line (CHR ''=''); key = py_strip k
         in if CHR '' '' \<notin> set key then ''.set '' @ key @ '', '' @ v else line)
      else line)"

definition process_line :: "parse_env \<Rightarrow> nat \<Rightarrow> string \<Rightarrow> pf_state \<Rightarrow> pf_state res" where
  "process_line E n raw s =
     (let emit = list_ex (\<lambda>p. py_in p raw) (goto_patterns (pe_options E));
          c_preproc = is_c_preproc raw
      in ebind (label_loop (clean_line (arch_name (pe_arch E)) raw) s) (\<lambda>(l1, s1).
           if l1 = [] then Inr s1
           else
             (let line = rewrite_assignment c_preproc l1;
                  directive = hd (py_split_ws line)
              in if py_startswith directive ''.'' then
                   (let args_str = snd (py_partition line (CHR '' ''));
                        line' = (if c_preproc then CHR ''#'' # tl line else line);
                        directive' = (if c_preproc then hd (py_split_ws line') else directive)
                    in process_directive E directive' args_str line' s1)
                 else if ifdef_level s1 = 0 then process_statement E emit n directive line s1
                 else Inr s1)))"

fun parse_lines :: "parse_env \<Rightarrow> nat \<Rightarrow> string list \<Rightarrow> pf_state \<Rightarrow> pf_state res" where
  "parse_lines E n [] s = Inr s"
| "parse_lines E n (l # ls) s = ebind (process_line E n l s) (parse_lines E (Suc n) ls)"

definition parse_file :: "parse_env \<Rightarrow> string list \<Rightarrow> (asm_file \<times> warning list) res" where
  "parse_file E ls = ebind (parse_lines E 1 ls (init_pf_state E)) (\<lambda>s. Inr (pf_file s, pf_warnings s))"

end
