(* ===== verification/Listing_Props.thy ===== *)
theory Listing_Props
  imports Asm_Listing
begin

text \<open>
  Properties of the listing scanner: the file under construction is always well formed, a
  conditional has at most one active branch, inactive lines have no effect, and data words
  are emitted at their width.
\<close>

section \<open>Steps that keep a well-formed file\<close>

text \<open>
  The interface between the scanner and the file it fills: a notion of good files and a kind of
  step that keeps them.  Sequencing, iteration and reading of whole listings follow.
\<close>

locale step_invariant =
  fixes good :: "'s \<Rightarrow> bool"
begin

definition keeps :: "('s \<Rightarrow> 's res) \<Rightarrow> bool" where
  "keeps f \<longleftrightarrow> (\<forall>s s'. good s \<longrightarrow> f s = Inr s' \<longrightarrow> good s')"

definition keeps_val :: "('s \<Rightarrow> ('a \<times> 's) res) \<Rightarrow> bool" where
  "keeps_val f \<longleftrightarrow> (\<forall>s v s'. good s \<longrightarrow> f s = Inr (v, s') \<longrightarrow> good s')"

lemma keepsI: "(\<And>s s'. good s \<Longrightarrow> f s = Inr s' \<Longrightarrow> good s') \<Longrightarrow> keeps f"
  unfolding keeps_def by blast

lemma keepsD: "keeps f \<Longrightarrow> good s \<Longrightarrow> f s = Inr s' \<Longrightarrow> good s'"
  unfolding keeps_def by blast

lemma keeps_valI: "(\<And>s v s'. good s \<Longrightarrow> f s = Inr (v, s') \<Longrightarrow> good s') \<Longrightarrow> keeps_val f"
  unfolding keeps_val_def by blast

lemma keeps_valD: "keeps_val f \<Longrightarrow> good s \<Longrightarrow> f s = Inr (v, s') \<Longrightarrow> good s'"
  unfolding keeps_val_def by blast

lemma keeps_Inr: "(\<And>s. good s \<Longrightarrow> good (h s)) \<Longrightarrow> keeps (\<lambda>s. Inr (h s))"
  by (rule keepsI) auto

lemma keeps_Inl: "keeps (\<lambda>s. Inl e)"
  by (rule keepsI) simp

lemma keeps_If: "keeps f \<Longrightarrow> keeps g \<Longrightarrow> keeps (\<lambda>s. if P s then f s else g s)"
  by (rule keepsI) (auto split: if_splits elim: keepsD)

lemma keeps_case_list:
  "keeps f \<Longrightarrow> (\<And>x xs. keeps (g x xs)) \<Longrightarrow> keeps (\<lambda>s. case ys of [] \<Rightarrow> f s | x # xs \<Rightarrow> g x xs s)"
  by (cases ys) simp_all

lemma keeps_case_arg:
  "(\<And>v. keeps (f v)) \<Longrightarrow> (\<And>n. keeps (g n)) \<Longrightarrow>
    keeps (\<lambda>s. case v of AsmLiteral n \<Rightarrow> g n s | _ \<Rightarrow> f v s)"
  by (cases v) simp_all

lemma keeps_bind_val:
  assumes "keeps_val m" and "\<And>v. keeps (k v)"
  shows "keeps (\<lambda>s. ebind (m s) (\<lambda>(v, s'). k v s'))"
proof (rule keepsI)
  fix s s'
  assume "good s" and "ebind (m s) (\<lambda>(v, s'). k v s') = Inr s'"
  then obtain v s1 where "m s = Inr (v, s1)" and "k v s1 = Inr s'" by auto
  with \<open>good s\<close> show "good s'" using keeps_valD [OF assms(1)] keepsD [OF assms(2)] by blast
qed

lemma keeps_bind_pure:
  assumes "\<And>v. keeps (k v)"
  shows "keeps (\<lambda>s. ebind (m s) (\<lambda>v. k v s))"
  by (rule keepsI) (use keepsD [OF assms] in blast)

lemma keeps_after: "keeps f \<Longrightarrow> (\<And>s. good s \<Longrightarrow> good (h s)) \<Longrightarrow> keeps (\<lambda>s. f (h s))"
  unfolding keeps_def by blast

lemma keeps_for_each: "(\<And>x. keeps (f x)) \<Longrightarrow> keeps (for_each f xs)"
proof (induction xs)
  case Nil
  show ?case by (rule keepsI) simp
next
  case (Cons x xs)
  show ?case
  proof (rule keepsI)
    fix s s'
    assume s: "good s" and "for_each f (x # xs) s = Inr s'"
    then obtain s1 where "f x s = Inr s1" and rest: "for_each f xs s1 = Inr s'" by auto
    from keepsD [OF Cons.prems s this(1)] rest show "good s'" by (rule keepsD [OF Cons.IH [OF Cons.prems]])
  qed
qed

lemmas keeps_rules = keeps_Inr keeps_Inl keeps_If keeps_case_list keeps_for_each

end

definition pf_ok :: "pf_state \<Rightarrow> bool" where
  "pf_ok s \<longleftrightarrow> file_ok (pf_file s)"

interpretation pf: step_invariant pf_ok .

lemma pf_ok_upd [simp]:
  "pf_ok (s\<lparr>curr_section := x\<rparr>) = pf_ok s" "pf_ok (s\<lparr>pf_warnings := w\<rparr>) = pf_ok s"
  "pf_ok (s\<lparr>pf_asm := a\<rparr>) = pf_ok s" "pf_ok (s\<lparr>ifdef_level := i\<rparr>) = pf_ok s"
  "pf_ok (s\<lparr>ifdef_levels := l\<rparr>) = pf_ok s" "pf_ok (s\<lparr>pf_next := n\<rparr>) = pf_ok s"
  "pf_ok (push_level l' s) = pf_ok s" "pf_ok (set_thumb b s) = pf_ok s" "pf_ok (set_unified b s) = pf_ok s"
  by (simp_all add: pf_ok_def push_level_def set_thumb_def set_unified_def)

lemma pf_ok_file_ops [simp, intro]:
  "pf_ok s \<Longrightarrow> pf_ok (upd_file (af_new_data_label l ro bss txt) s)"
  "pf_ok s \<Longrightarrow> pf_ok (upd_file (af_new_data_bytes bs str) s)"
  "pf_ok s \<Longrightarrow> 0 < n \<Longrightarrow> pf_ok (upd_file (af_new_symbolic_data v n) s)"
  "pf_ok s \<Longrightarrow> pf_ok (upd_file (af_new_function l) s)"
  by (auto simp: pf_ok_def upd_file_def)

lemma keeps_file_res:
  "pf.keeps (upd_file_res (af_new_label l))" "pf.keeps (upd_file_res (af_new_instruction i))"
  by (rule pf.keepsI; auto simp: upd_file_res_def pf_ok_def dest: file_ok_new_label file_ok_new_instruction)+

lemma keeps_process_label: "pf.keeps (process_label l k)"
  unfolding process_label_def [abs_def] Let_def
  by (intro pf.keeps_rules keeps_file_res [THEN pf.keeps_after] pf_ok_file_ops; assumption)

lemma keeps_label_loop: "label_loop line s = Inr (l, s') \<Longrightarrow> pf_ok s \<Longrightarrow> pf_ok s'"
proof (induction line s rule: label_loop.induct)
  case (1 line s)
  show ?case
  proof (cases "match_label line")
    case None
    with "1.prems" show ?thesis by (simp add: label_loop.simps [of line s])
  next
    case (Some p)
    obtain label rest where p: "p = (label, rest)" by (cases p)
    obtain s1 where s1: "(if ifdef_level s = 0 then process_label label LOCAL s else Inr s) = Inr s1"
      and more: "label_loop (py_strip rest) s1 = Inr (l, s')"
      using "1.prems"(1) Some p by (subst (asm) label_loop.simps) auto
    have "pf_ok s1"
      using s1 "1.prems"(2) pf.keepsD [OF keeps_process_label] by (metis Inr_inject)
    then show ?thesis by (rule "1.IH" [OF Some p [symmetric] s1 more])
  qed
qed

text \<open>Conditionals, conditions and argument parsing never touch the file.\<close>

lemma keeps_values:
  "pf.keeps_val (pf_eval_if e d)" "pf.keeps_val pop_level" "pf.keeps_val (parse_value E w)"
  by (rule pf.keeps_valI; auto simp: pf_eval_if_def pop_level_def parse_value_def Let_def split: if_splits)+

lemma keeps_parse_int: "pf.keeps_val (parse_int E w)"
  by (rule pf.keeps_valI)
    (auto simp: parse_int_def split: argument.splits elim: pf.keeps_valD [OF keeps_values(3)])

lemma pf_check_ifdef_ok: "pf_ok (snd (pf_check_ifdef m d s)) = pf_ok s"
  by (simp add: pf_check_ifdef_def split_def Let_def)

lemma keeps_else_active: "pf.keeps_val (else_active d a)"
proof (rule pf.keeps_valI)
  fix s v s'
  assume "pf_ok s" and "else_active d a s = Inr (v, s')"
  then show "pf_ok s'"
    using pf_check_ifdef_ok [of a d s]
    by (auto simp: else_active_def split_def Let_def split: if_splits elim: pf.keeps_valD [OF keeps_values(1)])
qed

lemma keeps_conditionals:
  "pf.keeps (open_ifdef d a)" "pf.keeps (open_if l)" "pf.keeps (open_cpp_if d a)"
  "pf.keeps (switch_else d a)" "pf.keeps close_if"
  unfolding open_ifdef_def [abs_def] open_if_def [abs_def] open_cpp_if_def [abs_def]
    switch_else_def [abs_def] close_if_def [abs_def] Let_def split_def
  by (intro pf.keeps_rules pf.keeps_bind_val [unfolded split_def] keeps_values keeps_else_active;
      simp add: pf_check_ifdef_ok)+

lemma keeps_emit_word: "0 < n \<Longrightarrow> pf.keeps (emit_word E n w)"
  unfolding emit_word_def [abs_def]
  by (intro pf.keeps_bind_val keeps_values pf.keeps_case_arg pf.keeps_Inr) simp_all

lemma keeps_emit_float: "pf.keeps (emit_float E c w)"
  unfolding emit_float_def [abs_def] by (intro pf.keeps_bind_pure pf.keeps_Inr) simp

lemma keeps_emit_space: "pf.keeps (emit_space E as)"
  unfolding emit_space_def [abs_def]
proof (intro pf.keeps_bind_val keeps_parse_int pf.keeps_Inr)
  show "pf.keeps_val (\<lambda>s. case as of [] \<Rightarrow> Inl DecompFailure | [a] \<Rightarrow> Inr (0, s)
      | [a, b] \<Rightarrow> ebind (parse_int E b s) (\<lambda>(v, s'). Inr (v AND 255, s'))
      | a # b # aa # list \<Rightarrow> Inl DecompFailure)"
    by (rule pf.keeps_valI) (auto split: list.splits elim: pf.keeps_valD [OF keeps_parse_int])
qed simp

lemma keeps_emit_incbin: "pf.keeps (emit_incbin E as)"
  by (rule pf.keepsI) (auto simp: emit_incbin_def Let_def split: option.splits)

lemma keeps_data_directive: "pf.keeps (data_directive E d a l)"
  unfolding data_directive_def [abs_def]
  by (intro pf.keeps_rules keeps_emit_word keeps_emit_float keeps_process_label keeps_emit_space
      keeps_emit_incbin pf.keeps_bind_pure; simp)

lemma keeps_define_int: "pf.keeps (define_int E n w)"
  unfolding define_int_def [abs_def]
  by (intro pf.keeps_bind_val keeps_parse_int pf.keeps_Inr) simp

lemma keeps_plain_directive: "pf.keeps (plain_directive E d a l)"
  unfolding plain_directive_def [abs_def] set_directive_def [abs_def] define_directive_def [abs_def]
  by (intro pf.keeps_rules keeps_define_int keeps_data_directive; simp)

lemma keeps_process_directive: "pf.keeps (process_directive E d a l)"
  unfolding process_directive_def [abs_def] fn_directive_def [abs_def]
  by (intro pf.keeps_rules keeps_conditionals keeps_plain_directive; simp)

lemma keeps_label_line: "pf.keeps (label_line l k)"
  unfolding label_line_def [abs_def] by (intro pf.keeps_rules keeps_process_label; simp)

lemma keeps_instruction_line: "pf.keeps (instruction_line E em n l)"
  by (rule pf.keepsI) (auto simp: instruction_line_def Let_def elim: pf.keepsD [OF keeps_file_res(2), rotated])

lemma keeps_process_statement: "pf.keeps (process_statement E em n d l)"
  unfolding process_statement_def [abs_def] Let_def
  by (intro pf.keeps_rules keeps_label_line keeps_label_line [THEN pf.keeps_after] keeps_instruction_line; simp)

lemma process_line_cases:
  assumes "process_line E n raw s = Inr s'"
  obtains l1 s1 where "label_loop (clean_line (arch_name (pe_arch E)) raw) s = Inr (l1, s1)"
    and "s' = s1 \<or> (\<exists>d a l. process_directive E d a l s1 = Inr s') \<or>
      ifdef_level s1 = 0 \<and> (\<exists>em d l. process_statement E em n d l s1 = Inr s')"
proof -
  obtain l1 s1 where "label_loop (clean_line (arch_name (pe_arch E)) raw) s = Inr (l1, s1)"
    using assms unfolding process_line_def Let_def by auto
  moreover from this have "s' = s1 \<or> (\<exists>d a l. process_directive E d a l s1 = Inr s') \<or>
      ifdef_level s1 = 0 \<and> (\<exists>em d l. process_statement E em n d l s1 = Inr s')"
    using assms unfolding process_line_def Let_def by (simp split: if_splits) blast+
  ultimately show ?thesis by (rule that)
qed

lemma keeps_process_line: "process_line E n raw s = Inr s' \<Longrightarrow> pf_ok s \<Longrightarrow> pf_ok s'"
  by (elim process_line_cases)
    (meson keeps_label_loop keeps_process_directive keeps_process_statement pf.keepsD)

lemma parse_lines_ok: "parse_lines E n ls s = Inr s' \<Longrightarrow> pf_ok s \<Longrightarrow> pf_ok s'"
  by (induction ls arbitrary: n s) (auto dest: keeps_process_line)

lemma parse_file_ok: "parse_file E ls = Inr (f, ws) \<Longrightarrow> file_ok f"
proof -
  have "pf_ok (init_pf_state E)" by (simp add: pf_ok_def init_pf_state_def)
  then show "parse_file E ls = Inr (f, ws) \<Longrightarrow> file_ok f"
    by (auto simp: parse_file_def pf_ok_def dest: parse_lines_ok [unfolded pf_ok_def])
qed

section \<open>Levels of conditional assembly\<close>

text \<open>
  Without the macro directives, the level is the sum of the levels of the enclosing
  conditionals, so a line is active exactly when all of them are in their active branch.
\<close>

definition levels_ok :: "pf_state \<Rightarrow> bool" where
  "levels_ok s \<longleftrightarrow> ifdef_level s = sum_list (ifdef_levels s) \<and> set (ifdef_levels s) \<subseteq> {0, 1, 2}"

interpretation lv: step_invariant levels_ok .

lemma levels_ok_upd [simp]:
  "levels_ok (s\<lparr>curr_section := x\<rparr>) = levels_ok s" "levels_ok (s\<lparr>pf_warnings := w\<rparr>) = levels_ok s"
  "levels_ok (s\<lparr>pf_asm := a\<rparr>) = levels_ok s" "levels_ok (s\<lparr>pf_file := f\<rparr>) = levels_ok s"
  "levels_ok (s\<lparr>pf_next := n\<rparr>) = levels_ok s" "levels_ok (upd_file g s) = levels_ok s"
  "levels_ok (set_thumb b s) = levels_ok s" "levels_ok (set_unified b s) = levels_ok s"
  by (simp_all add: levels_ok_def upd_file_def set_thumb_def set_unified_def)

lemma levels_ok_push: "l \<in> {0, 1, 2} \<Longrightarrow> levels_ok s \<Longrightarrow> levels_ok (push_level l s)"
  by (auto simp: levels_ok_def push_level_def)

lemma levels_ok_push_active [simp]: "levels_ok s \<Longrightarrow> levels_ok (push_level (active_level b) s)"
  by (rule levels_ok_push) (simp_all add: active_level_def)

lemma levels_ok_pop: "lv.keeps_val pop_level"
proof (rule lv.keeps_valI)
  fix s v s'
  assume ok: "levels_ok s" and pop: "pop_level s = Inr (v, s')"
  then obtain xs x where xs: "ifdef_levels s = xs @ [x]" and s': "s' = s\<lparr>ifdef_level := ifdef_level s - x, ifdef_levels := xs\<rparr>"
    by (cases "ifdef_levels s" rule: rev_cases) (auto simp: pop_level_def Let_def)
  with ok show "levels_ok s'" by (auto simp: levels_ok_def)
qed

lemma level_zero_iff:
  assumes "levels_ok s"
  shows "ifdef_level s = 0 \<longleftrightarrow> (\<forall>l \<in> set (ifdef_levels s). l = 0)"
proof -
  have "\<And>x. x \<in> set (ifdef_levels s) \<Longrightarrow> 0 \<le> x" using assms by (auto simp: levels_ok_def)
  then have "sum_list (ifdef_levels s) = 0 \<longleftrightarrow> (\<forall>l \<in> set (ifdef_levels s). l = 0)"
    by (induction "ifdef_levels s") (auto simp: add_nonneg_eq_0_iff sum_list_nonneg_eq_0_iff sum_list_nonneg)
  with assms show ?thesis by (simp add: levels_ok_def)
qed

lemma levels_check_ifdef: "levels_ok (snd (pf_check_ifdef m d s)) = levels_ok s"
  by (simp add: pf_check_ifdef_def split_def Let_def)

lemma levels_values: "lv.keeps_val (pf_eval_if e d)" "lv.keeps_val (parse_value E w)"
  by (rule lv.keeps_valI; auto simp: pf_eval_if_def parse_value_def)+

lemma levels_parse_int: "lv.keeps_val (parse_int E w)"
  by (rule lv.keeps_valI)
    (auto simp: parse_int_def split: argument.splits elim: lv.keeps_valD [OF levels_values(2)])

lemma levels_else_active: "lv.keeps_val (else_active d a)"
proof (rule lv.keeps_valI)
  fix s v s'
  assume "levels_ok s" and "else_active d a s = Inr (v, s')"
  then show "levels_ok s'"
    using levels_check_ifdef [of a d s]
    by (auto simp: else_active_def split_def Let_def split: if_splits elim: lv.keeps_valD [OF levels_values(1)])
qed

lemma levels_conditionals:
  "lv.keeps (open_ifdef d a)" "lv.keeps (open_if l)" "lv.keeps (open_cpp_if d a)"
  "lv.keeps (switch_else d a)" "lv.keeps close_if"
  unfolding open_ifdef_def [abs_def] open_if_def [abs_def] open_cpp_if_def [abs_def]
    switch_else_def [abs_def] close_if_def [abs_def] Let_def split_def
  by (intro lv.keeps_rules lv.keeps_bind_val [unfolded split_def] levels_values levels_else_active
      levels_ok_pop; simp add: levels_check_ifdef levels_ok_push)+

lemma levels_upd_file_res: "lv.keeps (upd_file_res g)"
  by (rule lv.keepsI) (auto simp: upd_file_res_def)

lemma levels_process_label: "lv.keeps (process_label l k)"
  unfolding process_label_def [abs_def] Let_def
  by (intro lv.keeps_rules levels_upd_file_res [THEN lv.keeps_after]; simp)

lemma levels_emit_word: "lv.keeps (emit_word E n w)"
  unfolding emit_word_def [abs_def]
  by (intro lv.keeps_bind_val levels_values lv.keeps_case_arg lv.keeps_Inr) simp_all

lemma levels_emit_float: "lv.keeps (emit_float E c w)"
  unfolding emit_float_def [abs_def] by (intro lv.keeps_bind_pure lv.keeps_Inr) simp

lemma levels_emit_space: "lv.keeps (emit_space E as)"
  unfolding emit_space_def [abs_def]
proof (intro lv.keeps_bind_val levels_parse_int lv.keeps_Inr)
  show "lv.keeps_val (\<lambda>s. case as of [] \<Rightarrow> Inl DecompFailure | [a] \<Rightarrow> Inr (0, s)
      | [a, b] \<Rightarrow> ebind (parse_int E b s) (\<lambda>(v, s'). Inr (v AND 255, s'))
      | a # b # aa # list \<Rightarrow> Inl DecompFailure)"
    by (rule lv.keeps_valI) (auto split: list.splits elim: lv.keeps_valD [OF levels_parse_int])
qed simp

lemma levels_emit_incbin: "lv.keeps (emit_incbin E as)"
  by (rule lv.keepsI) (auto simp: emit_incbin_def Let_def split: option.splits)

lemma levels_plain_directive: "lv.keeps (plain_directive E d a l)"
  unfolding plain_directive_def [abs_def] set_directive_def [abs_def] define_directive_def [abs_def]
    define_int_def [abs_def] data_directive_def [abs_def]
  by (intro lv.keeps_rules lv.keeps_bind_val levels_parse_int levels_emit_word levels_emit_float
      levels_process_label levels_emit_space levels_emit_incbin lv.keeps_bind_pure; simp)

lemma levels_process_directive:
  assumes "d \<noteq> ''.macro''" and "d \<noteq> ''.endm''"
  shows "lv.keeps (process_directive E d a l)"
  unfolding process_directive_def [abs_def] fn_directive_def [abs_def]
  by (simp only: assms if_False) (intro lv.keeps_rules levels_conditionals levels_plain_directive; simp)

text \<open>
  The branches of one conditional as the scanner goes through them: it is opened, the lines
  inside leave the stack of levels as it was, and each \<open>else\<close> directive starts a new branch.
  The list holds the levels of the branches so far.
\<close>

inductive branches :: "int list \<Rightarrow> pf_state \<Rightarrow> bool" where
  opened: "l \<in> {0, 1} \<Longrightarrow> branches [l] (push_level l s)"
| inside: "branches t s \<Longrightarrow> ifdef_levels s' = ifdef_levels s \<Longrightarrow> branches t s'"
| switched: "branches t s \<Longrightarrow> switch_else d a s = Inr s' \<Longrightarrow> branches (t @ [last (ifdef_levels s')]) s'"

lemma switch_else_level:
  assumes "switch_else d a s = Inr s'"
  shows "ifdef_levels s \<noteq> [] \<and> ifdef_levels s' \<noteq> [] \<and>
    last (ifdef_levels s') \<in> (if last (ifdef_levels s) = 1 then {0, 1} else {2})"
  using assms
  by (auto simp: switch_else_def pop_level_def Let_def push_level_def active_level_def split: if_splits)

lemma branches_shape:
  "branches t s \<Longrightarrow> t \<noteq> [] \<and> ifdef_levels s \<noteq> [] \<and> last t = last (ifdef_levels s) \<and>
    (\<exists>a b c. t = replicate a 1 @ replicate b 0 @ replicate c 2 \<and> b \<le> 1 \<and> (c > 0 \<longrightarrow> b = 1))"
proof (induction rule: branches.induct)
  case (opened l s)
  have "\<exists>a b c. [l] = replicate a 1 @ replicate b 0 @ replicate c 2 \<and> b \<le> 1 \<and> (c > 0 \<longrightarrow> b = 1)"
  proof (cases "l = 1")
    case True
    then show ?thesis by (intro exI [of _ 1] exI [of _ 0]) simp
  next
    case False
    with opened show ?thesis by (intro exI [of _ 0] exI [of _ 1] exI [of _ 0]) simp
  qed
  then show ?case by (simp add: push_level_def)
next
  case (inside t s s')
  then show ?case by simp
next
  case (switched t s d a s')
  let ?l = "last (ifdef_levels s')"
  obtain p b c where t: "t = replicate p 1 @ replicate b 0 @ replicate c 2" "b \<le> 1" "c > 0 \<longrightarrow> b = 1"
    and ne: "t \<noteq> []" and lt: "last t = last (ifdef_levels s)"
    using switched.IH by blast
  from switch_else_level [OF switched.hyps(2)] lt
  have l: "?l \<in> (if last t = 1 then {0, 1} else {2})" and ne': "ifdef_levels s' \<noteq> []" by auto
  have "\<exists>a b c. t @ [?l] = replicate a 1 @ replicate b 0 @ replicate c 2 \<and> b \<le> 1 \<and> (c > 0 \<longrightarrow> b = 1)"
  proof (cases "last t = 1")
    case True
    have c: "c = 0"
    proof (rule ccontr)
      assume "c \<noteq> 0"
      then have "last t = 2" by (simp add: t(1) last_append)
      with True show False by simp
    qed
    with t True have "b = 0" by (cases b) auto
    with c t have t1: "t = replicate p 1" by simp
    from True l consider "?l = 1" | "?l = 0" by auto
    then show ?thesis
    proof cases
      case 1
      with t1 show ?thesis by (intro exI [of _ "Suc p"] exI [of _ 0]) (simp add: replicate_append_same)
    next
      case 2
      with t1 show ?thesis by (intro exI [of _ p] exI [of _ 1] exI [of _ 0]) simp
    qed
  next
    case False
    with t ne have "b = 1" by (cases "c = 0") (auto simp: le_Suc_eq)
    with False l t(1) show ?thesis
      by (intro exI [of _ p] exI [of _ 1] exI [of _ "Suc c"]) (simp add: replicate_append_same)
  qed
  with ne' show ?case by simp
qed

section \<open>Inactive lines\<close>

definition same_file :: "pf_state \<Rightarrow> pf_state \<Rightarrow> bool" where
  "same_file s s' \<longleftrightarrow> pf_file s' = pf_file s"

lemma label_loop_inactive:
  "label_loop line s = Inr (l, s') \<Longrightarrow> ifdef_level s \<noteq> 0 \<Longrightarrow> s' = s"
proof (induction line s rule: label_loop.induct)
  case (1 line s)
  show ?case
  proof (cases "match_label line")
    case None
    with "1.prems" show ?thesis by (simp add: label_loop.simps [of line s])
  next
    case (Some p)
    with "1.prems" "1.IH" show ?thesis by (cases p) (simp add: label_loop.simps [of line s])
  qed
qed

text \<open>
  The text of a line behind its labels, with an assignment rewritten to \<open>.set\<close>, and its first word.
\<close>

function skip_labels :: "string \<Rightarrow> string" where
  "skip_labels line = (case match_label line of None \<Rightarrow> line | Some (label, rest) \<Rightarrow> skip_labels (py_strip rest))"
  by pat_completeness auto
termination
  by (relation "measure length") (auto dest!: match_label_shorter intro: le_less_trans [OF length_py_strip])

declare skip_labels.simps [simp del]

definition statement_text :: "parse_env \<Rightarrow> string \<Rightarrow> string" where
  "statement_text E raw =
     (let l = skip_labels (clean_line (arch_name (pe_arch E)) raw)
      in if l = [] then [] else rewrite_assignment (is_c_preproc raw) l)"

definition first_word :: "string \<Rightarrow> string" where
  "first_word line = (case py_split_ws line of [] \<Rightarrow> [] | w # _ \<Rightarrow> w)"

lemma label_loop_skip: "ifdef_level s \<noteq> 0 \<Longrightarrow> label_loop line s = Inr (skip_labels line, s)"
proof (induction line rule: skip_labels.induct)
  case (1 line)
  then show ?case
    by (subst label_loop.simps, subst skip_labels.simps) (auto split: option.split)
qed

text \<open>The conditionals leave the file, the section and the numbering alone: these are their invariant.\<close>

interpretation fl: step_invariant "\<lambda>s. pf_file s = f \<and> curr_section s = c \<and> pf_next s = n" for f c n .

lemma file_upd [simp]:
  "pf_file (push_level l s) = pf_file s" "pf_file (snd (pf_check_ifdef m d s)) = pf_file s"
  "curr_section (push_level l s) = curr_section s" "curr_section (snd (pf_check_ifdef m d s)) = curr_section s"
  "pf_next (push_level l s) = pf_next s" "pf_next (snd (pf_check_ifdef m d s)) = pf_next s"
  by (simp_all add: push_level_def pf_check_ifdef_def split_def Let_def)

lemma file_values: "fl.keeps_val f c n (pf_eval_if e d)" "fl.keeps_val f c n pop_level"
  by (rule fl.keeps_valI; auto simp: pf_eval_if_def pop_level_def Let_def split: if_splits)+

lemma file_else_active: "fl.keeps_val f c n (else_active d a)"
proof (rule fl.keeps_valI)
  fix s v s'
  assume s: "pf_file s = f \<and> curr_section s = c \<and> pf_next s = n" and run: "else_active d a s = Inr (v, s')"
  have "s' = snd (pf_check_ifdef a d s) \<or> s' = s \<or> (\<exists>e b. pf_eval_if e b s = Inr (v, s'))"
    using run by (auto simp: else_active_def split_def Let_def split: if_splits)
  then show "pf_file s' = f \<and> curr_section s' = c \<and> pf_next s' = n"
    using s file_values(1) [THEN fl.keeps_valD, OF s] by auto
qed

lemma file_conditionals:
  "fl.keeps f c n (open_ifdef d a)" "fl.keeps f c n (open_if l)" "fl.keeps f c n (open_cpp_if d a)"
  "fl.keeps f c n (switch_else d a)" "fl.keeps f c n close_if"
  unfolding open_ifdef_def [abs_def] open_if_def [abs_def] open_cpp_if_def [abs_def]
    switch_else_def [abs_def] close_if_def [abs_def] Let_def split_def
  by (intro fl.keeps_rules fl.keeps_bind_val [unfolded split_def] file_values file_else_active; simp)+

lemmas conditionals_file = file_conditionals [THEN fl.keepsD, OF conjI [OF refl conjI [OF refl refl]]]

lemma directive_inactive:
  assumes "process_directive E d a l s = Inr s'" and "ifdef_level s \<noteq> 0"
  shows "pf_file s' = (if d = ''.fn'' then af_new_function (hd (split_quotable_arg_list a)) (pf_file s) else pf_file s) \<and>
    curr_section s' = curr_section s \<and> pf_next s' = pf_next s"
proof (cases "d = ''.fn''")
  case True
  with assms show ?thesis
    by (auto simp: process_directive_def fn_directive_def upd_file_def split: list.splits)
next
  case False
  with assms have "open_ifdef d a s = Inr s' \<or> open_if l s = Inr s' \<or> open_cpp_if d a s = Inr s' \<or>
      switch_else d a s = Inr s' \<or> close_if s = Inr s' \<or> (\<exists>i. s' = s\<lparr>ifdef_level := i\<rparr>)"
    unfolding process_directive_def by (simp split: if_splits) (metis pf_state.surjective pf_state.update_convs(5))+
  then show ?thesis using False by (elim disjE) (auto dest: conditionals_file)
qed

lemma split_ws_aux_hd: "c # w \<noteq> [] \<Longrightarrow> \<exists>v ws. split_ws_aux (c # w) s = (c # v) # ws"
  by (induction s arbitrary: w) auto

lemma py_split_ws_hd: "\<not> py_isspace c \<Longrightarrow> \<exists>v ws. py_split_ws (c # s) = (c # v) # ws"
  using split_ws_aux_hd [of c "[]" s] by (simp add: py_split_ws_def)

lemma py_strip_hd: "py_strip s \<noteq> [] \<Longrightarrow> \<not> py_isspace (hd (py_strip s))"
proof -
  let ?l = "py_lstrip s"
  assume ne: "py_strip s \<noteq> []"
  have "?l = py_rstrip ?l @ rev (takeWhile py_isspace (rev ?l))"
    unfolding py_rstrip_def by (metis rev_append rev_rev_ident takeWhile_dropWhile_id)
  with ne have "hd (py_strip s) = hd ?l" "?l \<noteq> []" unfolding py_strip_def by (metis hd_append2, metis append_is_Nil_conv)
  then show ?thesis using hd_dropWhile [of py_isspace s] by (simp add: py_lstrip_def)
qed

lemma skip_labels_strip: "\<exists>r. skip_labels (py_strip l) = py_strip r"
proof (induction "py_strip l" arbitrary: l rule: skip_labels.induct)
  case 1
  then show ?case by (subst skip_labels.simps) (auto split: option.split)
qed

lemma statement_words:
  assumes "statement_text E raw \<noteq> []"
  shows "py_split_ws (statement_text E raw) \<noteq> []"
proof -
  obtain r where r: "skip_labels (clean_line (arch_name (pe_arch E)) raw) = py_strip r"
    using skip_labels_strip by (auto simp: clean_line_def Let_def)
  with assms have "py_strip r \<noteq> []" by (auto simp: statement_text_def Let_def split: if_splits)
  then obtain c cs where "py_strip r = c # cs" "\<not> py_isspace c"
    by (metis py_strip_hd list.collapse)
  then have "py_split_ws (py_strip r) \<noteq> []" using py_split_ws_hd [of c cs] by auto
  moreover have "\<not> py_isspace (CHR ''.'')" by code_simp
  then have "py_split_ws (''.set '' @ t) \<noteq> []" for t using py_split_ws_hd [of "CHR ''.''"] by (metis append_Cons list.distinct(1))
  ultimately show ?thesis
    by (auto simp: statement_text_def r Let_def rewrite_assignment_def split_def)
qed

lemma process_line_inactive:
  assumes "process_line E n raw s = Inr s'" and "ifdef_level s \<noteq> 0"
  shows "pf_file s' =
      (if \<not> is_c_preproc raw \<and> first_word (statement_text E raw) = ''.fn''
       then af_new_function (hd (split_quotable_arg_list (snd (py_partition (statement_text E raw) (CHR '' ''))))) (pf_file s)
       else pf_file s) \<and> curr_section s' = curr_section s \<and> pf_next s' = pf_next s"
proof -
  let ?line = "statement_text E raw" and ?l = "skip_labels (clean_line (arch_name (pe_arch E)) raw)"
  have loop: "label_loop (clean_line (arch_name (pe_arch E)) raw) s = Inr (?l, s)" using assms(2) by (rule label_loop_skip)
  show ?thesis
  proof (cases "?l = []")
    case True
    then have "s' = s" "?line = []" using assms(1) loop by (simp_all add: process_line_def statement_text_def Let_def)
    then show ?thesis by (simp add: first_word_def py_split_ws_def)
  next
    case False
    then have line: "?line = rewrite_assignment (is_c_preproc raw) ?l" by (simp add: statement_text_def Let_def)
    have "?line \<noteq> []" using False by (auto simp: line rewrite_assignment_def split_def Let_def)
    then have word: "hd (py_split_ws ?line) = first_word ?line"
      using statement_words [of E raw] by (auto simp: first_word_def split: list.split)
    have hash: "hd (py_split_ws (CHR ''#'' # t)) \<noteq> ''.fn''" for t
    proof -
      have "\<not> py_isspace (CHR ''#'')" by code_simp
      then show ?thesis using py_split_ws_hd [of "CHR ''#''" t] by auto
    qed
    show ?thesis
    proof (cases "py_startswith (first_word ?line) ''.''")
      case True
      have "process_directive E (if is_c_preproc raw then hd (py_split_ws (CHR ''#'' # tl ?line)) else first_word ?line)
          (snd (py_partition ?line (CHR '' ''))) (if is_c_preproc raw then CHR ''#'' # tl ?line else ?line) s = Inr s'"
        using assms(1) False True unfolding process_line_def Let_def loop ebind_Inr prod.case line [symmetric] word
        by (cases "is_c_preproc raw") simp_all
      from directive_inactive [OF this assms(2)] show ?thesis using hash by auto
    next
      case False': False
      then have "first_word ?line \<noteq> ''.fn''" by (auto simp: py_startswith_def)
      moreover have "s' = s"
        using assms False False' unfolding process_line_def Let_def loop ebind_Inr prod.case line [symmetric] word by simp
      ultimately show ?thesis by simp
    qed
  qed
qed

section \<open>Bytes\<close>

fun value_le :: "byte list \<Rightarrow> int" where
  "value_le [] = 0"
| "value_le (b # bs) = uint b + 256 * value_le bs"

definition value_of :: "bool \<Rightarrow> byte list \<Rightarrow> int" where
  "value_of big bs = value_le (if big then rev bs else bs)"

lemma value_bytes_le: "value_le (bytes_le n v) = v mod 256 ^ n"
proof (induction n arbitrary: v)
  case (Suc n)
  have "v mod (256 * 256 ^ n) = 256 * (v div 256 mod 256 ^ n) + v mod 256"
    by (rule zmod_zmult2_eq) simp
  then show ?case using Suc.IH [of "v div 256"] by (simp add: unsigned_of_int take_bit_eq_mod)
qed simp

lemma length_bytes_le [simp]: "length (bytes_le n v) = n"
  by (induction n arbitrary: v) auto

lemma and_mask_mod: "(v :: int) AND (2 ^ k - 1) = v mod 2 ^ k"
  by (simp flip: mask_eq_exp_minus_1 take_bit_eq_mask take_bit_eq_mod)

section \<open>A small environment for concrete runs\<close>

definition sample_arch :: arch_asm where
  "sample_arch = \<lparr>all_regs = [], aliased_regs = Map.empty, supports_dollar_regs = True,
     normalize_instruction = (\<lambda>i st. Inr i), arch_name = PPC,
     stack_pointer_reg = Register ''r1'', frame_pointer_regs = [], return_address_reg = Register ''lr'',
     all_return_regs = [Register ''f1'', Register ''r3''], argument_regs = [], simple_temp_regs = [],
     temp_regs = [], saved_regs = [], missing_return = [],
     arch_parse = (\<lambda>m as mt. Inr (plain_instruction 0 m as mt [] [] []))\<rparr>"

definition sample_env :: parse_env where
  "sample_env = \<lparr>pe_arch = sample_arch,
     pe_options = \<lparr>preproc_defines = Map.empty, goto_patterns = [], incbin_dirs = [], big_endian = True\<rparr>,
     pe_filename = ''a.s'', pe_fs = (\<lambda>d f. None), pack_float = (\<lambda>c b w. Inl DecompFailure)\<rparr>"

definition sample_listing :: "string list" where
  "sample_listing = [''.data'', ''foo:'', ''.word 1, foo # table'', ''.byte 7'', ''.byte 0'']"

section \<open>Properties\<close>

text \<open>
  C23: whatever listing is read, the size range of every data entry is sound.  Its upper end is the
  number of bytes of the entry, symbols included; the bytes above its lower end are all zero, so
  that only padding can be stripped; and the lower end is as low as it may be: one byte is left,
  or fifteen are stripped, or the byte before is not zero.  None of the assertions of
  \<open>size_range_bytes\<close> fails.
\<close>

theorem listing_data_sizes:
  assumes "parse_file E ls = Inr (f, ws)" and "(k, e) \<in> set (ad_values (af_data f))" and "bs = data_image (de_data e)"
  shows "\<exists>lo. size_range_bytes e = Inr (lo, length bs) \<and> lo \<le> length bs \<and> length bs \<le> lo + 15 \<and> (bs = [] \<or> 1 \<le> lo) \<and>
    (\<forall>i. lo \<le> i \<and> i < length bs \<longrightarrow> bs ! i = Some 0) \<and>
    (lo \<le> 1 \<or> length bs = lo + 15 \<or> bs ! (lo - 1) \<noteq> Some 0)"
proof -
  have "entry_ok (de_data e)"
    using parse_file_ok [OF assms(1)] assms(2) by (auto simp: file_ok_def entries_ok_def list_all_iff)
  from size_range_bytes_sound [OF this assms(3)] show ?thesis by metis
qed

theorem listing_data_sizes_witness:
  "\<exists>f ws e lo. parse_file sample_env sample_listing = Inr (f, ws) \<and> (''foo'', e) \<in> set (ad_values (af_data f)) \<and>
    size_range_bytes e = Inr (lo, length (data_image (de_data e))) \<and>
    (\<forall>i. lo \<le> i \<and> i < length (data_image (de_data e)) \<longrightarrow> data_image (de_data e) ! i = Some 0)"
proof -
  have "(case parse_file sample_env sample_listing of
      Inr (f, ws) \<Rightarrow> map fst (ad_values (af_data f)) = [''foo''] | Inl _ \<Rightarrow> False)"
    by code_simp
  then obtain f ws where f: "parse_file sample_env sample_listing = Inr (f, ws)"
    and "map fst (ad_values (af_data f)) = [''foo'']"
    by (auto split: sum.splits)
  then obtain e where e: "(''foo'', e) \<in> set (ad_values (af_data f))" by auto
  from f e listing_data_sizes [OF f e refl] show ?thesis by blast
qed

text \<open>
  A data directive emits exactly its width, and the bytes read in the byte order of the
  target are the value modulo two to the number of bits.
\<close>

theorem to_bytes_value:
  "length (to_bytes big n v) = n \<and> value_of big (to_bytes big n v) = v mod 2 ^ (8 * n)"
proof -
  have "(256 :: int) ^ n = 2 ^ (8 * n)" by (simp add: power_mult)
  then show ?thesis
    by (simp add: to_bytes_def Let_def value_of_def value_bytes_le and_mask_mod mult.commute)
qed

text \<open>
  C24: along one conditional at most one branch is active: the branches before it are inactive,
  and every branch after it is closed for good.
\<close>

theorem conditional_one_branch:
  "branches t s \<Longrightarrow> count_list t 0 \<le> 1 \<and> (\<exists>a b c. t = replicate a 1 @ replicate b 0 @ replicate c 2)"
proof -
  assume "branches t s"
  then obtain a b c where "t = replicate a 1 @ replicate b 0 @ replicate c 2" "b \<le> 1"
    using branches_shape by blast
  moreover have "count_list (replicate n x) 0 = (if x = 0 then n else 0)" for n and x :: int
    by (induction n) auto
  ultimately show ?thesis by auto
qed

theorem conditional_one_branch_witness:
  "branches [1, 0, 2] (push_level 2 (init_pf_state sample_env)) \<and> count_list [1, 0, 2 :: int] 0 \<le> 1"
proof -
  let ?s = "init_pf_state sample_env"
  have s: "ifdef_levels ?s = []" "ifdef_level ?s = 0" by (simp_all add: init_pf_state_def)
  have one: "branches [1] (push_level 1 ?s)" by (rule opened) simp
  have e1: "switch_else ''#else'' [] (push_level 1 ?s) = Inr (push_level 0 ?s)"
    by (simp add: switch_else_def pop_level_def push_level_def else_active_def active_level_def s Let_def)
  have two: "branches [1, 0] (push_level 0 ?s)"
    using switched [OF one e1] by (simp add: push_level_def)
  have e2: "switch_else ''#else'' [] (push_level 0 ?s) = Inr (push_level 2 ?s)"
    by (simp add: switch_else_def pop_level_def push_level_def s Let_def)
  have three: "branches [1, 0, 2] (push_level 2 ?s)"
    using switched [OF two e2] by (simp add: push_level_def)
  with conditional_one_branch [OF three] show ?thesis by blast
qed

text \<open>
  Every directive but the macro ones keeps the level equal to the sum of the levels of
  the open conditionals, so that lines are processed exactly where all of these are active.
\<close>

theorem directive_levels:
  assumes "levels_ok s" and "d \<noteq> ''.macro''" and "d \<noteq> ''.endm''"
    and "process_directive E d a l s = Inr s'"
  shows "levels_ok s' \<and> (ifdef_level s' = 0 \<longleftrightarrow> (\<forall>x \<in> set (ifdef_levels s'). x = 0))"
proof -
  have "levels_ok s'" using lv.keepsD [OF levels_process_directive [OF assms(2,3)] assms(1,4)] .
  then show ?thesis using level_zero_iff by blast
qed

theorem directive_levels_witness:
  "\<exists>s'. process_directive sample_env ''.if'' [] ''.if 0'' (init_pf_state sample_env) = Inr s' \<and>
    levels_ok s' \<and> (ifdef_level s' = 0 \<longleftrightarrow> (\<forall>x \<in> set (ifdef_levels s'). x = 0))"
proof -
  let ?s = "init_pf_state sample_env"
  have run: "process_directive sample_env ''.if'' [] ''.if 0'' ?s = Inr (push_level 1 ?s)"
    by (simp add: process_directive_def open_if_def py_split_ws_def char_defs)
  have "levels_ok ?s" by (simp add: levels_ok_def init_pf_state_def)
  from directive_levels [OF this _ _ run] run show ?thesis by simp
qed

text \<open>
  C25: a line inside an inactive branch adds no label, no instruction and no data, and leaves the
  current section alone.  The one line that still changes the file is one that, after its labels,
  begins with the word \<open>.fn\<close> (and is no preprocessor directive): it starts the function it names.
\<close>

theorem inactive_line_effect:
  assumes "process_line E n raw s = Inr s'" and "ifdef_level s \<noteq> 0"
  shows "pf_file s' =
      (if \<not> is_c_preproc raw \<and> first_word (statement_text E raw) = ''.fn''
       then af_new_function (hd (split_quotable_arg_list (snd (py_partition (statement_text E raw) (CHR '' ''))))) (pf_file s)
       else pf_file s) \<and> curr_section s' = curr_section s \<and> pf_next s' = pf_next s"
  using process_line_inactive [OF assms] .

theorem inactive_line_effect_witness:
  "\<exists>s' s''. process_line sample_env 2 ''foo: nop'' (push_level 1 (init_pf_state sample_env)) = Inr s' \<and>
     pf_file s' = empty_asm_file ''a.s'' \<and>
     process_line sample_env 2 ''bar: .fn foo'' (push_level 1 (init_pf_state sample_env)) = Inr s'' \<and>
     pf_file s'' = af_new_function ''foo'' (empty_asm_file ''a.s'')"
proof -
  let ?s = "push_level 1 (init_pf_state sample_env)"
  have s: "ifdef_level ?s \<noteq> 0" "pf_file ?s = empty_asm_file ''a.s''"
    by (simp_all add: push_level_def init_pf_state_def sample_env_def)
  have "case process_line sample_env 2 ''foo: nop'' ?s of Inr _ \<Rightarrow> True | Inl _ \<Rightarrow> False"
    "case process_line sample_env 2 ''bar: .fn foo'' ?s of Inr _ \<Rightarrow> True | Inl _ \<Rightarrow> False" by code_simp+
  then obtain s' s'' where runs: "process_line sample_env 2 ''foo: nop'' ?s = Inr s'" "process_line sample_env 2 ''bar: .fn foo'' ?s = Inr s''"
    by (auto split: sum.splits)
  have texts: "is_c_preproc ''bar: .fn foo'' = False" "first_word (statement_text sample_env ''foo: nop'') = ''nop''"
    "first_word (statement_text sample_env ''bar: .fn foo'') = ''.fn''"
    "hd (split_quotable_arg_list (snd (py_partition (statement_text sample_env ''bar: .fn foo'') (CHR '' '')))) = ''foo''"
    by code_simp+
  show ?thesis
    using runs inactive_line_effect [OF runs(1) s(1)] inactive_line_effect [OF runs(2) s(1)] s(2) by (simp add: texts)
qed

text \<open>
  The directive \<open>.fn\<close> is not guarded by the conditionals around it: it starts a function in
  every state, also in an inactive branch.
\<close>

theorem fn_ignores_conditionals:
  "process_line E n ''.fn foo'' s = Inr (upd_file (af_new_function ''foo'') s)"
proof -
  have "clean_line MIPS ''.fn foo'' = ''.fn foo''" "clean_line PPC ''.fn foo'' = ''.fn foo''"
    "clean_line ARM ''.fn foo'' = ''.fn foo''"
    by code_simp+
  then have "clean_line a ''.fn foo'' = ''.fn foo''" for a by (cases a) simp_all
  moreover have "match_label ''.fn foo'' = None" "is_c_preproc ''.fn foo'' = False"
    "py_split_ws ''.fn foo'' = [''.fn'', ''foo'']" "py_startswith ''.fn'' ''.''"
    "py_partition ''.fn foo'' (CHR '' '') = (''.fn'', ''foo'')"
    "split_quotable_arg_list ''foo'' = [''foo'']" "rewrite_assignment False ''.fn foo'' = ''.fn foo''"
    by code_simp+
  ultimately show ?thesis
    by (simp add: process_line_def label_loop.simps process_directive_def fn_directive_def)
qed

text \<open>
  A preprocessor directive that is indented is not recognised: the whole line is skipped
  in every state and opens no conditional.
\<close>

theorem indented_ifdef_ignored: "process_line E n ''  #ifdef FOO'' s = Inr s"
proof -
  let ?l = "clean_line (arch_name (pe_arch E)) ''  #ifdef FOO''"
  have "clean_line MIPS ''  #ifdef FOO'' = ''.''" "clean_line PPC ''  #ifdef FOO'' = ''.''"
    "clean_line ARM ''  #ifdef FOO'' = ''. #ifdef FOO''"
    by code_simp+
  then have l: "?l = ''.'' \<or> ?l = ''. #ifdef FOO''"
    by (cases "arch_name (pe_arch E)") simp_all
  moreover have "match_label ''.'' = None" "match_label ''. #ifdef FOO'' = None" "is_c_preproc ''  #ifdef FOO'' = True"
    "py_split_ws ''.'' = [''.'']" "py_split_ws ''. #ifdef FOO'' = [''.'', ''#ifdef'', ''FOO'']" "py_startswith ''.'' ''.''"
    "py_split_ws ''#'' = [''#'']" "py_split_ws ''# #ifdef FOO'' = [''#'', ''#ifdef'', ''FOO'']"
    "rewrite_assignment True ''.'' = ''.''" "rewrite_assignment True ''. #ifdef FOO'' = ''. #ifdef FOO''"
    "py_startswith ''#'' ''.incbin'' = False" "py_startswith ''# #ifdef FOO'' ''.incbin'' = False"
    by code_simp+
  ultimately show ?thesis
    by (elim disjE) (simp_all add: process_line_def label_loop.simps process_directive_def
        plain_directive_def data_directive_def Let_def)
qed

end
