(* ===== verification/Asm_Pattern.thy ===== *)
theory Asm_Pattern
  imports Listing_Props
begin

text \<open>
  Model of \<open>m2c/m2c/asm_pattern.py\<close>: patterns over instruction sequences, the matcher with its
  symbolic registers, labels and literals, the substitution of a replacement, and the pass that
  rewrites a function body.

  The matching methods of the source mutate the state also when they fail, so every one of
  them returns its verdict together with the state it leaves.
\<close>

section \<open>Patterns\<close>

datatype pattern_part = PWild | PLabel label | PInstr asm_instruction

type_synonym pattern = "(pattern_part \<times> bool) list"

definition rstrip_char :: "char \<Rightarrow> string \<Rightarrow> string" where
  "rstrip_char c s = rev (dropWhile (\<lambda>x. x = c) (rev s))"

definition make_pattern_part :: "string \<Rightarrow> (pattern_part \<times> bool) res" where
  "make_pattern_part part0 =
     (let optional = py_endswith part0 ''?''; part = rstrip_char (CHR ''?'') part0
      in if part = ''*'' then Inr (PWild, optional)
         else if py_endswith part '':'' then Inr (PLabel (Label [butlast part]), optional)
         else ebind (parse_asm_instruction naive_parsing_arch part empty_asm_state)
                (\<lambda>(ins, _). Inr (PInstr ins, optional)))"

definition make_pattern :: "string list \<Rightarrow> pattern res" where
  "make_pattern parts = emap make_pattern_part parts"

datatype repl_part = RAsm asm_instruction | RInstr instruction | RLabel label

record replacement =
  new_body :: "repl_part list"
  num_consumed :: nat
  repl_clobbers :: "register list option"

record asm_match =
  am_body :: "body_part list"
  am_wildcards :: "body_part list"
  am_regs :: "string \<rightharpoonup> register"
  am_literals :: "string \<rightharpoonup> int"
  am_labels :: "string \<rightharpoonup> label"

section \<open>Matching\<close>

text \<open>\<open>TryMatchState\<close>; \<open>ms_uses\<close> is a \<open>defaultdict\<close> of sets.\<close>

record match_state =
  ms_regs :: "string \<rightharpoonup> register"
  ms_defs :: "string \<rightharpoonup> label"
  ms_uses :: "string \<Rightarrow> string set"
  ms_lits :: "string \<rightharpoonup> int"
  ms_wild :: "body_part list"

definition empty_match_state :: match_state where
  "empty_match_state = \<lparr>ms_regs = Map.empty, ms_defs = Map.empty, ms_uses = (\<lambda>_. {}),
     ms_lits = Map.empty, ms_wild = []\<rparr>"

definition match_var :: "(string \<rightharpoonup> 'v) \<Rightarrow> string \<Rightarrow> 'v \<Rightarrow> bool \<times> (string \<rightharpoonup> 'v)" where
  "match_var m key v = (case m key of Some w \<Rightarrow> (w = v, m) | None \<Rightarrow> (True, m(key \<mapsto> v)))"

definition match_reg :: "register \<Rightarrow> register \<Rightarrow> match_state \<Rightarrow> bool \<times> match_state" where
  "match_reg actual exp s =
     (if length (register_name exp) \<le> 1 then
        (let (b, m) = match_var (ms_regs s) (register_name exp) actual in (b, s\<lparr>ms_regs := m\<rparr>))
      else (register_name exp = register_name actual, s))"

definition match_lit :: "string \<Rightarrow> int \<Rightarrow> match_state \<Rightarrow> bool \<times> match_state" where
  "match_lit key v s = (let (b, m) = match_var (ms_lits s) key v in (b, s\<lparr>ms_lits := m\<rparr>))"

definition match_label_def :: "string \<Rightarrow> label \<Rightarrow> match_state \<Rightarrow> (bool \<times> match_state) res" where
  "match_label_def key defn s =
     ebind (py_assert (ms_defs s key = None)) (\<lambda>_.
       Inr (ms_uses s key \<subseteq> set (label_names defn), s\<lparr>ms_defs := (ms_defs s)(key \<mapsto> defn)\<rparr>))"

definition match_label_use :: "string \<Rightarrow> string \<Rightarrow> match_state \<Rightarrow> bool \<times> match_state" where
  "match_label_use key u s =
     (case ms_defs s key of
        Some d \<Rightarrow> if u \<notin> set (label_names d) then (False, s)
                  else (True, s\<lparr>ms_uses := (ms_uses s)(key := insert u (ms_uses s key))\<rparr>)
      | None \<Rightarrow> (True, s\<lparr>ms_uses := (ms_uses s)(key := insert u (ms_uses s key))\<rparr>))"

fun eval_math :: "(string \<rightharpoonup> int) \<Rightarrow> argument \<Rightarrow> int res" where
  "eval_math lits (AsmLiteral v) = Inr v"
| "eval_math lits (BinOp op l r) =
     (if op = ''+'' then ebind (eval_math lits l) (\<lambda>a. ebind (eval_math lits r) (\<lambda>b. Inr (a + b)))
      else if op = ''-'' then ebind (eval_math lits l) (\<lambda>a. ebind (eval_math lits r) (\<lambda>b. Inr (a - b)))
      else if op = ''<<'' then ebind (eval_math lits l) (\<lambda>a. ebind (eval_math lits r) (py_shl a))
      else Inl AssertionError)"
| "eval_math lits (AsmGlobalSymbol n) =
     (case lits n of Some v \<Rightarrow> Inr v | None \<Rightarrow> Inl AssertionError)"
| "eval_math lits (AsmSectionGlobalSymbol n sec add) =
     (case lits n of Some v \<Rightarrow> Inr v | None \<Rightarrow> Inl AssertionError)"
| "eval_math lits _ = Inl AssertionError"

text \<open>Sequencing of two tests by \<open>and\<close>: the second runs, and mutates, only after a success.\<close>

definition and_then :: "(bool \<times> 's) res \<Rightarrow> ('s \<Rightarrow> (bool \<times> 's) res) \<Rightarrow> (bool \<times> 's) res" where
  "and_then m f = ebind m (\<lambda>(b, s). if b then f s else Inr (False, s))"

fun match_regs :: "register list \<Rightarrow> register list \<Rightarrow> match_state \<Rightarrow> bool \<times> match_state" where
  "match_regs (a # as) (e # es) s =
     (let (b, s') = match_reg a e s in if b then match_regs as es s' else (False, s'))"
| "match_regs _ _ s = (True, s)"

definition match_symbol :: "argument \<Rightarrow> string \<Rightarrow> match_state \<Rightarrow> bool \<times> match_state" where
  "match_symbol a n s =
     (if py_startswith n ''.'' then
        (case as_symbol a of Some u \<Rightarrow> match_label_use n u s | None \<Rightarrow> (False, s))
      else if py_isupper n then
        (case a of AsmLiteral v \<Rightarrow> match_lit n v s | _ \<Rightarrow> (False, s))
      else if n = ''_'' then (True, s)
      else (as_symbol a = Some n, s))"

fun match_arg :: "argument \<Rightarrow> argument \<Rightarrow> match_state \<Rightarrow> (bool \<times> match_state) res" where
  "match_arg a (AsmLiteral v) s = Inr (a = AsmLiteral v, s)"
| "match_arg a (Reg r) s = (case a of Reg q \<Rightarrow> Inr (match_reg q r s) | _ \<Rightarrow> Inr (False, s))"
| "match_arg a (AsmGlobalSymbol n) s = Inr (match_symbol a n s)"
| "match_arg a (AsmSectionGlobalSymbol n sec add) s = Inr (match_symbol a n s)"
| "match_arg a (AsmAddressMode b e w) s =
     (case a of
        AsmAddressMode b' a' w' \<Rightarrow>
          and_then (Inr (match_reg b' b s)) (\<lambda>s1.
            and_then (match_arg a' e s1) (\<lambda>s2. Inr (w' = w, s2)))
      | _ \<Rightarrow> Inr (False, s))"
| "match_arg a (BinOp op l r) s =
     (if op \<in> set ARM_BARREL_SHIFTER_OPS then
        (case a of
           BinOp op' l' r' \<Rightarrow>
             if op' = op then and_then (match_arg l' l s) (match_arg r' r) else Inr (False, s)
         | _ \<Rightarrow> Inr (False, s))
      else (case a of
              AsmLiteral v \<Rightarrow> ebind (eval_math (ms_lits s) (BinOp op l r)) (\<lambda>m. Inr (v = m, s))
            | _ \<Rightarrow> Inr (False, s)))"
| "match_arg a (Macro n e) s =
     (case a of
        Macro n' a' \<Rightarrow> if n' = n then match_arg a' e s else Inr (False, s)
      | _ \<Rightarrow> Inr (False, s))"
| "match_arg a (RegisterList rs) s =
     (case a of
        RegisterList qs \<Rightarrow> if length qs = length rs then Inr (match_regs qs rs s) else Inr (False, s)
      | _ \<Rightarrow> Inr (False, s))"

fun match_args :: "argument list \<Rightarrow> argument list \<Rightarrow> match_state \<Rightarrow> (bool \<times> match_state) res" where
  "match_args (a # as) (e # es) s = and_then (match_arg a e s) (match_args as es)"
| "match_args _ _ s = Inr (True, s)"

definition match_one :: "body_part \<Rightarrow> pattern_part \<Rightarrow> match_state \<Rightarrow> (bool \<times> match_state) res" where
  "match_one actual exp s =
     (case exp of
        PWild \<Rightarrow> Inr (True, s\<lparr>ms_wild := ms_wild s @ [actual]\<rparr>)
      | PLabel l \<Rightarrow>
          ebind (py_assert (length (label_names l) = 1)) (\<lambda>_.
            case actual of
              BLabel d \<Rightarrow> match_label_def (hd (label_names l)) d s
            | BInstr _ \<Rightarrow> Inr (False, s))
      | PInstr e \<Rightarrow>
          (case actual of
             BLabel _ \<Rightarrow> Inr (False, s)
           | BInstr ins \<Rightarrow>
               if ins_mnemonic ins \<noteq> ai_mnemonic e then Inr (False, s)
               else if ai_args e = [] then Inr (True, s)
               else if length (ins_args ins) \<noteq> length (ai_args e) then Inr (False, s)
               else match_args (ins_args ins) (ai_args e) s))"

definition match_meta :: "asm_instruction \<Rightarrow> match_state \<Rightarrow> (bool \<times> match_state) res" where
  "match_meta ins s =
     ebind (py_assert (ai_mnemonic ins = ''.eq'')) (\<lambda>_.
       case ai_args ins of
         a0 # a1 # _ \<Rightarrow> ebind (eval_math (ms_lits s) a1) (\<lambda>v. match_arg (AsmLiteral v) a0 s)
       | _ \<Rightarrow> Inl IndexError)"

section \<open>The matcher\<close>

record matcher =
  mt_data :: asm_data
  mt_input :: "body_part list"
  mt_labels :: "string set"
  mt_output :: "body_part list"
  mt_index :: nat
  mt_next :: nat

definition is_meta :: "pattern_part \<Rightarrow> bool res" where
  "is_meta p = (case p of
     PInstr i \<Rightarrow> (case ai_mnemonic i of [] \<Rightarrow> Inl IndexError | c # _ \<Rightarrow> Inr (c = CHR ''.''))
   | _ \<Rightarrow> Inr False)"

text \<open>The loop over the pattern: \<open>None\<close> when a required part does not match.\<close>

fun match_loop :: "body_part list \<Rightarrow> pattern \<Rightarrow> nat \<Rightarrow> match_state \<Rightarrow> (nat \<times> match_state) option res" where
  "match_loop inp [] i s = Inr (Some (i, s))"
| "match_loop inp ((pat, optional) # ps) i s =
     ebind (is_meta pat) (\<lambda>m.
       if m then
         (case pat of
            PInstr ins \<Rightarrow> ebind (match_meta ins s) (\<lambda>(b, s').
              if \<not> b \<and> \<not> optional then Inr None else match_loop inp ps i s')
          | _ \<Rightarrow> Inr None)
       else if i < length inp then
         ebind (match_one (inp ! i) pat s) (\<lambda>(b, s').
           if b then match_loop inp ps (Suc i) s'
           else if optional then match_loop inp ps i s' else Inr None)
       else if optional then match_loop inp ps i s
       else Inr None)"

definition try_match :: "matcher \<Rightarrow> pattern \<Rightarrow> asm_match option res" where
  "try_match m pat =
     ebind (match_loop (mt_input m) pat (mt_index m) empty_match_state) (\<lambda>r.
       Inr (map_option (\<lambda>(i, s).
         \<lparr>am_body = take (i - mt_index m) (drop (mt_index m) (mt_input m)), am_wildcards = ms_wild s,
          am_regs = ms_regs s, am_literals = ms_lits s, am_labels = ms_defs s\<rparr>) r))"

definition derived_meta :: "matcher \<Rightarrow> instruction_meta" where
  "derived_meta m =
     (case List.find (\<lambda>p. case p of BInstr _ \<Rightarrow> True | _ \<Rightarrow> False) (drop (mt_index m) (mt_input m)) of
        Some (BInstr i) \<Rightarrow> meta_derived (ins_meta i)
      | _ \<Rightarrow> meta_missing)"

definition is_local_label :: "matcher \<Rightarrow> string \<Rightarrow> bool" where
  "is_local_label m n \<longleftrightarrow> n \<in> mt_labels m"

section \<open>Replacement\<close>

text \<open>
  The new body as objects: an \<open>AsmInstruction\<close> is parsed into a fresh instruction, the other
  parts are the objects the pattern returned.
\<close>

fun build_parts :: "arch_asm \<Rightarrow> instruction_meta \<Rightarrow> nat \<Rightarrow> repl_part list \<Rightarrow> (body_part list \<times> nat) res" where
  "build_parts arch mt n [] = Inr ([], n)"
| "build_parts arch mt n (p # ps) =
     (case p of
        RAsm a \<Rightarrow>
          ebind (arch_parse arch (ai_mnemonic a) (ai_args a) mt) (\<lambda>i.
          ebind (build_parts arch mt (Suc n) ps) (\<lambda>(bs, n'). Inr (BInstr (i\<lparr>ins_id := n\<rparr>) # bs, n')))
      | RInstr i \<Rightarrow> ebind (build_parts arch mt n ps) (\<lambda>(bs, n'). Inr (BInstr i # bs, n'))
      | RLabel l \<Rightarrow> ebind (build_parts arch mt n ps) (\<lambda>(bs, n'). Inr (BLabel l # bs, n')))"

definition part_writes :: "body_part \<Rightarrow> location list" where
  "part_writes p = (case p of BInstr i \<Rightarrow> ins_writes i | BLabel _ \<Rightarrow> [])"

definition body_writes :: "body_part list \<Rightarrow> location list" where
  "body_writes ps = concat (map part_writes ps)"

definition final_instr :: "body_part list \<Rightarrow> instruction option" where
  "final_instr ps = fold (\<lambda>p f. case p of BInstr i \<Rightarrow> Some i | BLabel _ \<Rightarrow> f) ps None"

text \<open>The locations appended to the final instruction's \<open>clobbers\<close>, in the order of the source.\<close>

definition missing_writes :: "location list \<Rightarrow> location list \<Rightarrow> location list \<Rightarrow> location list" where
  "missing_writes repl_writes cl ws =
     fold (\<lambda>l acc. if l \<notin> set repl_writes \<and> l \<notin> set (cl @ acc) then acc @ [l] else acc) ws []"

text \<open>Mutation of one instruction object, wherever it is referenced.\<close>

definition add_clobbers :: "nat \<Rightarrow> location list \<Rightarrow> body_part \<Rightarrow> body_part" where
  "add_clobbers n ls p = (case p of
     BInstr i \<Rightarrow> if ins_id i = n then BInstr (i\<lparr>clobbers := clobbers i @ ls\<rparr>) else p
   | BLabel _ \<Rightarrow> p)"

definition extra_clobbers :: "replacement \<Rightarrow> body_part list \<Rightarrow> body_part list \<Rightarrow> location list res" where
  "extra_clobbers r consumed parts =
     (case repl_clobbers r of
        None \<Rightarrow>
          (case final_instr parts of
             Some f \<Rightarrow> Inr (missing_writes (body_writes parts) (clobbers f) (body_writes consumed))
           | None \<Rightarrow> if body_writes consumed = [] then Inr [] else Inl AssertionError)
      | Some rs \<Rightarrow>
          if rs = [] then Inr []
          else (case final_instr parts of Some f \<Rightarrow> Inr (map RegLoc rs) | None \<Rightarrow> Inl AssertionError))"

definition apply_repl :: "arch_asm \<Rightarrow> replacement \<Rightarrow> matcher \<Rightarrow> matcher res" where
  "apply_repl arch r m =
     (let consumed = take (num_consumed r) (drop (mt_index m) (mt_input m))
      in ebind (build_parts arch (derived_meta m) (mt_next m) (new_body r)) (\<lambda>(parts, n').
         ebind (extra_clobbers r consumed parts) (\<lambda>extra.
           let upd = (case final_instr parts of Some f \<Rightarrow> add_clobbers (ins_id f) extra | None \<Rightarrow> id)
           in Inr (m\<lparr>mt_output := map upd (mt_output m @ parts), mt_input := map upd (mt_input m),
                     mt_index := mt_index m + num_consumed r, mt_next := n'\<rparr>))))"

type_synonym asm_pattern = "matcher \<Rightarrow> replacement option res"

text \<open>\<open>SimpleAsmPattern.match\<close>.\<close>

definition simple_match :: "string list \<Rightarrow> (asm_match \<Rightarrow> replacement option res) \<Rightarrow> asm_pattern" where
  "simple_match parts repl m =
     ebind (make_pattern parts) (\<lambda>pat. ebind (try_match m pat) (\<lambda>r.
       case r of None \<Rightarrow> Inr None | Some am \<Rightarrow> repl am))"

fun pattern_loop :: "nat \<Rightarrow> arch_asm \<Rightarrow> asm_pattern \<Rightarrow> matcher \<Rightarrow> matcher res" where
  "pattern_loop 0 arch pat m = (if mt_index m < length (mt_input m) then Inl OutOfFuel else Inr m)"
| "pattern_loop (Suc k) arch pat m =
     (if mt_index m < length (mt_input m) then
        ebind (pat m) (\<lambda>r.
          case r of
            Some repl \<Rightarrow> ebind (apply_repl arch repl m) (pattern_loop k arch pat)
          | None \<Rightarrow>
              pattern_loop k arch pat (m\<lparr>mt_output := mt_output m @ [mt_input m ! mt_index m],
                mt_index := Suc (mt_index m)\<rparr>))
      else Inr m)"

definition body_labels :: "body_part list \<Rightarrow> string set" where
  "body_labels body = (\<Union>p \<in> set body. case p of BLabel l \<Rightarrow> set (label_names l) | BInstr _ \<Rightarrow> {})"

text \<open>
  The pass over all patterns, with the labels of the original body throughout.  The loop over
  the input runs at most once per part unless a replacement consumes nothing.
\<close>

fun simplify_patterns_aux :: "arch_asm \<Rightarrow> asm_data \<Rightarrow> string set \<Rightarrow> asm_pattern list \<Rightarrow>
    body_part list \<Rightarrow> nat \<Rightarrow> (body_part list \<times> nat) res" where
  "simplify_patterns_aux arch d ls [] body n = Inr (body, n)"
| "simplify_patterns_aux arch d ls (p # ps) body n =
     ebind (pattern_loop (length body) arch p \<lparr>mt_data = d, mt_input = body, mt_labels = ls,
              mt_output = [], mt_index = 0, mt_next = n\<rparr>)
       (\<lambda>m. simplify_patterns_aux arch d ls ps (mt_output m) (mt_next m))"

definition simplify_patterns :: "arch_asm \<Rightarrow> asm_data \<Rightarrow> asm_pattern list \<Rightarrow> body_part list \<Rightarrow> nat \<Rightarrow>
    (body_part list \<times> nat) res" where
  "simplify_patterns arch d ps body n = simplify_patterns_aux arch d (body_labels body) ps body n"

end
