(* ===== verification/Pattern_Match.thy ===== *)
theory Pattern_Match
  imports Asm_Pattern
begin

text \<open>
  Soundness of the pattern matcher: what a successful match says about the matched
  instructions, in terms of the bindings it returns.
\<close>

section \<open>Instances of a pattern\<close>

definition reg_inst :: "match_state \<Rightarrow> register \<Rightarrow> register \<Rightarrow> bool" where
  "reg_inst s a e \<longleftrightarrow>
     (if length (register_name e) \<le> 1 then ms_regs s (register_name e) = Some a else a = e)"

definition symbol_inst :: "match_state \<Rightarrow> argument \<Rightarrow> string \<Rightarrow> bool" where
  "symbol_inst s a n \<longleftrightarrow>
     (if py_startswith n ''.'' then (\<exists>u. as_symbol a = Some u \<and> u \<in> ms_uses s n)
      else if py_isupper n then (\<exists>v. a = AsmLiteral v \<and> ms_lits s n = Some v)
      else n = ''_'' \<or> as_symbol a = Some n)"

text \<open>An argument is the pattern argument with the bound registers, literals and labels put in.\<close>

fun arg_inst :: "match_state \<Rightarrow> argument \<Rightarrow> argument \<Rightarrow> bool" where
  "arg_inst s a (AsmLiteral v) \<longleftrightarrow> a = AsmLiteral v"
| "arg_inst s a (Reg r) \<longleftrightarrow> (\<exists>q. a = Reg q \<and> reg_inst s q r)"
| "arg_inst s a (AsmGlobalSymbol n) \<longleftrightarrow> symbol_inst s a n"
| "arg_inst s a (AsmSectionGlobalSymbol n sec add) \<longleftrightarrow> symbol_inst s a n"
| "arg_inst s a (AsmAddressMode b e w) \<longleftrightarrow>
     (\<exists>b' a'. a = AsmAddressMode b' a' w \<and> reg_inst s b' b \<and> arg_inst s a' e)"
| "arg_inst s a (BinOp op l r) \<longleftrightarrow>
     (if op \<in> set ARM_BARREL_SHIFTER_OPS
      then (\<exists>l' r'. a = BinOp op l' r' \<and> arg_inst s l' l \<and> arg_inst s r' r)
      else (\<exists>v. a = AsmLiteral v \<and> eval_math (ms_lits s) (BinOp op l r) = Inr v))"
| "arg_inst s a (Macro n e) \<longleftrightarrow> (\<exists>a'. a = Macro n a' \<and> arg_inst s a' e)"
| "arg_inst s a (RegisterList rs) \<longleftrightarrow> (\<exists>qs. a = RegisterList qs \<and> list_all2 (reg_inst s) qs rs)"

definition part_inst :: "match_state \<Rightarrow> body_part \<Rightarrow> pattern_part \<Rightarrow> bool" where
  "part_inst s p e = (case e of
     PWild \<Rightarrow> p \<in> set (ms_wild s)
   | PLabel l \<Rightarrow> (\<exists>d. p = BLabel d \<and> ms_defs s (hd (label_names l)) = Some d)
   | PInstr i \<Rightarrow> (\<exists>ins. p = BInstr ins \<and> ins_mnemonic ins = ai_mnemonic i \<and>
       (ai_args i = [] \<or> list_all2 (arg_inst s) (ins_args ins) (ai_args i))))"

definition meta_inst :: "match_state \<Rightarrow> pattern_part \<Rightarrow> bool" where
  "meta_inst s e = (case e of
     PInstr i \<Rightarrow> (\<exists>a0 a1 as v. ai_args i = a0 # a1 # as \<and> eval_math (ms_lits s) a1 = Inr v \<and>
       arg_inst s (AsmLiteral v) a0)
   | _ \<Rightarrow> False)"

text \<open>
  The instructions \<open>body\<close> are an instance of the pattern: each part stands for one of them,
  except the equations, which hold of the bindings, and the optional parts that were skipped.
\<close>

inductive instance_of :: "match_state \<Rightarrow> pattern \<Rightarrow> body_part list \<Rightarrow> bool" for s where
  nil: "instance_of s [] []"
| part: "is_meta e = Inr False \<Longrightarrow> part_inst s p e \<Longrightarrow> instance_of s ps ps' \<Longrightarrow>
    instance_of s ((e, opt) # ps) (p # ps')"
| equation: "is_meta e = Inr True \<Longrightarrow> meta_inst s e \<Longrightarrow> instance_of s ps ps' \<Longrightarrow>
    instance_of s ((e, opt) # ps) ps'"
| skipped: "instance_of s ps ps' \<Longrightarrow> instance_of s ((e, True) # ps) ps'"

inductive_cases instance_ofE: "instance_of s ((e, opt) # ps) body"

section \<open>Bindings only grow\<close>

definition ms_ext :: "match_state \<Rightarrow> match_state \<Rightarrow> bool" where
  "ms_ext s s' \<longleftrightarrow> ms_regs s \<subseteq>\<^sub>m ms_regs s' \<and> ms_lits s \<subseteq>\<^sub>m ms_lits s' \<and> ms_defs s \<subseteq>\<^sub>m ms_defs s' \<and>
     (\<forall>k. ms_uses s k \<subseteq> ms_uses s' k) \<and> set (ms_wild s) \<subseteq> set (ms_wild s')"

lemma ms_ext_refl [simp, intro!]: "ms_ext s s"
  by (simp add: ms_ext_def)

lemma ms_ext_trans [trans]: "ms_ext a b \<Longrightarrow> ms_ext b c \<Longrightarrow> ms_ext a c"
  unfolding ms_ext_def by (meson map_le_trans subset_trans)

lemma map_leD: "m \<subseteq>\<^sub>m m' \<Longrightarrow> m k = Some v \<Longrightarrow> m' k = Some v"
  by (metis domI map_le_def)

lemma map_le_upd_new: "m k = None \<Longrightarrow> m \<subseteq>\<^sub>m m(k \<mapsto> v)"
  by (auto simp: map_le_def)

lemma eval_math_mono: "m \<subseteq>\<^sub>m m' \<Longrightarrow> eval_math m e = Inr v \<Longrightarrow> eval_math m' e = Inr v"
  by (induction e arbitrary: v) (auto split: option.splits if_splits dest: map_leD)

lemma reg_inst_mono: "ms_ext s s' \<Longrightarrow> reg_inst s a e \<Longrightarrow> reg_inst s' a e"
  by (auto simp: reg_inst_def ms_ext_def split: if_splits dest: map_leD)

lemma symbol_inst_mono: "ms_ext s s' \<Longrightarrow> symbol_inst s a n \<Longrightarrow> symbol_inst s' a n"
  by (auto simp: symbol_inst_def ms_ext_def split: if_splits dest: map_leD) blast

lemma arg_inst_mono: "ms_ext s s' \<Longrightarrow> arg_inst s a e \<Longrightarrow> arg_inst s' a e"
proof (induction e arbitrary: a)
  case (RegisterList rs)
  then show ?case using list_all2_mono reg_inst_mono by fastforce
next
  case (BinOp op l r)
  then show ?case
    using eval_math_mono [of "ms_lits s" "ms_lits s'" "BinOp op l r"]
    by (auto simp: ms_ext_def simp del: eval_math.simps split: if_splits)
qed (auto simp: reg_inst_mono symbol_inst_mono)

lemma part_inst_mono: "ms_ext s s' \<Longrightarrow> part_inst s p e \<Longrightarrow> part_inst s' p e"
proof -
  assume ext: "ms_ext s s'"
  have "list_all2 (arg_inst s) xs ys \<Longrightarrow> list_all2 (arg_inst s') xs ys" for xs ys
    using list_all2_mono arg_inst_mono [OF ext] by blast
  with ext show "part_inst s p e \<Longrightarrow> part_inst s' p e"
    by (auto simp: part_inst_def ms_ext_def split: pattern_part.splits dest: map_leD)
qed

lemma meta_inst_mono: "ms_ext s s' \<Longrightarrow> meta_inst s e \<Longrightarrow> meta_inst s' e"
  by (auto simp: meta_inst_def split: pattern_part.splits dest: arg_inst_mono)
    (meson arg_inst_mono eval_math_mono ms_ext_def)

section \<open>Each matching step is sound\<close>

text \<open>A step extends the bindings, and on success its test holds of the extended bindings.\<close>

definition sound_step :: "(match_state \<Rightarrow> bool) \<Rightarrow> match_state \<Rightarrow> bool \<times> match_state \<Rightarrow> bool" where
  "sound_step P s r \<longleftrightarrow> ms_ext s (snd r) \<and> (fst r \<longrightarrow> P (snd r))"

lemma sound_step_False [simp]: "sound_step P s (False, s)"
  by (simp add: sound_step_def)

lemma match_reg_sound: "sound_step (\<lambda>s'. reg_inst s' a e) s (match_reg a e s)"
  by (auto simp: sound_step_def match_reg_def match_var_def reg_inst_def ms_ext_def map_le_upd_new
      register.expand split: option.split)

lemma match_lit_sound: "sound_step (\<lambda>s'. ms_lits s' n = Some v) s (match_lit n v s)"
  by (auto simp: sound_step_def match_lit_def match_var_def ms_ext_def map_le_upd_new split: option.split)

lemma match_label_use_sound: "sound_step (\<lambda>s'. u \<in> ms_uses s' n) s (match_label_use n u s)"
  by (auto simp: sound_step_def match_label_use_def ms_ext_def split: option.split)

lemma match_symbol_sound: "sound_step (\<lambda>s'. symbol_inst s' a n) s (match_symbol a n s)"
  using match_lit_sound match_label_use_sound
  by (auto simp: match_symbol_def symbol_inst_def sound_step_def split: option.split argument.split)

lemma match_regs_sound:
  "length as = length es \<Longrightarrow> sound_step (\<lambda>s'. list_all2 (reg_inst s') as es) s (match_regs as es s)"
proof (induction as es s rule: match_regs.induct)
  case (1 a as e es s)
  obtain b s1 where r: "match_reg a e s = (b, s1)" by (cases "match_reg a e s")
  have s1: "ms_ext s s1" "b \<Longrightarrow> reg_inst s1 a e"
    using match_reg_sound [of a e s] by (simp_all add: sound_step_def r)
  show ?case
  proof (cases b)
    case True
    have IH: "sound_step (\<lambda>s'. list_all2 (reg_inst s') as es) s1 (match_regs as es s1)"
      using "1.IH" [OF r [symmetric] refl True] "1.prems" by simp
    with s1 True show ?thesis
      by (auto simp: r sound_step_def intro: ms_ext_trans reg_inst_mono)
  qed (use s1 r in \<open>simp add: sound_step_def\<close>)
qed (auto simp: sound_step_def)

lemma and_then_sound:
  assumes "and_then m f = Inr r" and "\<And>r1. m = Inr r1 \<Longrightarrow> sound_step P s r1"
    and "\<And>s1 r2. f s1 = Inr r2 \<Longrightarrow> sound_step Q s1 r2"
    and "\<And>s1 s2. ms_ext s1 s2 \<Longrightarrow> P s1 \<Longrightarrow> P s2"
  shows "sound_step (\<lambda>s'. P s' \<and> Q s') s r"
proof -
  obtain b s1 where m: "m = Inr (b, s1)" and r: "(if b then f s1 else Inr (False, s1)) = Inr r"
    using assms(1) by (auto simp: and_then_def)
  note s1 = assms(2) [OF m]
  show ?thesis
  proof (cases b)
    case True
    with r assms(3) have "sound_step Q s1 r" by simp
    with s1 True assms(4) show ?thesis by (auto simp: sound_step_def intro: ms_ext_trans)
  qed (use s1 r in \<open>auto simp: sound_step_def\<close>)
qed

lemma sound_step_mono: "sound_step P s r \<Longrightarrow> (\<And>s'. P s' \<Longrightarrow> Q s') \<Longrightarrow> sound_step Q s r"
  by (auto simp: sound_step_def)

lemma match_arg_sound: "match_arg a e s = Inr r \<Longrightarrow> sound_step (\<lambda>s'. arg_inst s' a e) s r"
proof (induction e arbitrary: a s r)
  case (AsmAddressMode b e w)
  then show ?case
  proof (cases a)
    case (AsmAddressMode b' a' w')
    with AsmAddressMode.prems have
      "and_then (Inr (match_reg b' b s)) (\<lambda>s1. and_then (match_arg a' e s1) (\<lambda>s2. Inr (w' = w, s2))) = Inr r"
      by simp
    then have "sound_step (\<lambda>s'. reg_inst s' b' b \<and> (arg_inst s' a' e \<and> w' = w)) s r"
    proof (rule and_then_sound)
      fix s1 r2
      assume "and_then (match_arg a' e s1) (\<lambda>s2. Inr (w' = w, s2)) = Inr r2"
      then show "sound_step (\<lambda>s'. arg_inst s' a' e \<and> w' = w) s1 r2"
        by (rule and_then_sound) (use AsmAddressMode.IH arg_inst_mono in \<open>auto simp: sound_step_def\<close>)
    qed (use match_reg_sound in \<open>auto intro: reg_inst_mono\<close>)
    then show ?thesis by (rule sound_step_mono) (simp add: AsmAddressMode)
  qed auto
next
  case (BinOp op l r')
  show ?case
  proof (cases "op \<in> set ARM_BARREL_SHIFTER_OPS")
    case True
    show ?thesis
    proof (cases a)
      case (BinOp op' l1 r1)
      show ?thesis
      proof (cases "op' = op")
        case eq: True
        then have "and_then (match_arg l1 l s) (match_arg r1 r') = Inr r"
          using BinOp.prems True \<open>a = BinOp op' l1 r1\<close> by simp
        then have "sound_step (\<lambda>s'. arg_inst s' l1 l \<and> arg_inst s' r1 r') s r"
          by (rule and_then_sound) (auto intro: BinOp.IH arg_inst_mono)
        then show ?thesis by (rule sound_step_mono) (simp add: True eq \<open>a = BinOp op' l1 r1\<close>)
      qed (use BinOp.prems True \<open>a = BinOp op' l1 r1\<close> in auto)
    qed (use BinOp.prems True in auto)
  next
    case False
    with BinOp.prems show ?thesis
      by (cases a) (auto simp: sound_step_def simp del: eval_math.simps)
  qed
next
  case (RegisterList rs)
  then show ?case
    using match_regs_sound by (cases a) (auto split: if_splits elim!: sound_step_mono)
next
  case (Macro n e)
  then show ?case
    by (cases a) (auto split: if_splits elim!: sound_step_mono)
next
  case (Reg q)
  then show ?case
    using match_reg_sound by (cases a) (auto elim!: sound_step_mono)
qed (auto simp: sound_step_def match_symbol_sound [unfolded sound_step_def])

lemma match_args_sound:
  "match_args as es s = Inr r \<Longrightarrow> length as = length es \<Longrightarrow>
    sound_step (\<lambda>s'. list_all2 (arg_inst s') as es) s r"
proof (induction as es s arbitrary: r rule: match_args.induct)
  case (1 a as e es s)
  from "1.prems"(1) have "and_then (match_arg a e s) (match_args as es) = Inr r" by simp
  then have "sound_step (\<lambda>s'. arg_inst s' a e \<and> list_all2 (arg_inst s') as es) s r"
    by (rule and_then_sound) (use "1.prems"(2) "1.IH" match_arg_sound in \<open>auto intro: arg_inst_mono\<close>)
  then show ?case by (rule sound_step_mono) simp
qed (auto simp: sound_step_def)

lemma match_label_def_sound:
  "match_label_def k d s = Inr r \<Longrightarrow> sound_step (\<lambda>s'. ms_defs s' k = Some d) s r"
  by (auto simp: match_label_def_def sound_step_def ms_ext_def map_le_upd_new)

lemma match_one_sound: "match_one p e s = Inr r \<Longrightarrow> sound_step (\<lambda>s'. part_inst s' p e) s r"
proof (cases e)
  case PWild
  assume "match_one p e s = Inr r"
  with PWild show ?thesis by (auto simp: match_one_def sound_step_def part_inst_def ms_ext_def)
next
  case (PLabel l)
  assume "match_one p e s = Inr r"
  with PLabel show ?thesis
    by (cases p) (auto simp: match_one_def part_inst_def dest!: match_label_def_sound elim!: sound_step_mono)
next
  case (PInstr i)
  assume "match_one p e s = Inr r"
  with PInstr show ?thesis
    by (cases p) (auto simp: match_one_def part_inst_def sound_step_def split: if_splits
        dest!: match_args_sound [unfolded sound_step_def])
qed

lemma match_meta_sound:
  assumes "match_meta i s = Inr r"
  shows "sound_step (\<lambda>s'. meta_inst s' (PInstr i)) s r"
proof -
  obtain a0 a1 as v where args: "ai_args i = a0 # a1 # as" and v: "eval_math (ms_lits s) a1 = Inr v"
    and r: "match_arg (AsmLiteral v) a0 s = Inr r"
    using assms by (auto simp: match_meta_def split: list.splits)
  show ?thesis
    using match_arg_sound [OF r] eval_math_mono [OF _ v]
    by (auto simp: sound_step_def meta_inst_def args ms_ext_def)
qed

lemma instance_of_mono: "instance_of s ps body \<Longrightarrow> ms_ext s s' \<Longrightarrow> instance_of s' ps body"
  by (induction rule: instance_of.induct)
    (auto intro: instance_of.intros part_inst_mono meta_inst_mono)

section \<open>The loop over the pattern\<close>

lemma take_drop_Suc: "i < j \<Longrightarrow> j \<le> length xs \<Longrightarrow>
    take (j - i) (drop i xs) = xs ! i # take (j - Suc i) (drop (Suc i) xs)"
  by (metis Cons_nth_drop_Suc Suc_diff_Suc less_le_trans take_Suc_Cons)

lemma match_loop_sound:
  "match_loop inp pat i s = Inr (Some (j, s')) \<Longrightarrow> i \<le> length inp \<Longrightarrow>
    ms_ext s s' \<and> i \<le> j \<and> j \<le> length inp \<and> instance_of s' pat (take (j - i) (drop i inp))"
proof (induction inp pat i s arbitrary: j s' rule: match_loop.induct)
  case (1 inp i s)
  then show ?case by (auto intro: instance_of.nil)
next
  case (2 inp pat opt ps i s)
  obtain m where m: "is_meta pat = Inr m" using "2.prems"(1) by (auto simp: ebind_eq_Inr_iff)
  show ?case
  proof (cases m)
    case True
    then obtain ins where p: "pat = PInstr ins" using m by (cases pat) (auto simp: is_meta_def)
    obtain b s1 where b: "match_meta ins s = Inr (b, s1)" and "b \<or> opt"
      and rest: "match_loop inp ps i s1 = Inr (Some (j, s'))"
      using "2.prems"(1) m True p by (auto split: if_splits)
    note IH = "2.IH"(1) [OF m True p b refl _ rest "2.prems"(2)]
    show ?thesis
      using IH \<open>b \<or> opt\<close> match_meta_sound [OF b] m True p
      by (auto simp: sound_step_def intro: instance_of.intros ms_ext_trans meta_inst_mono)
  next
    case False
    show ?thesis
    proof (cases "i < length inp")
      case True
      obtain b s1 where b: "match_one (inp ! i) pat s = Inr (b, s1)"
        and rest: "(if b then match_loop inp ps (Suc i) s1 else if opt then match_loop inp ps i s1 else Inr None) =
          Inr (Some (j, s'))"
        using "2.prems"(1) m False True by auto
      note one = match_one_sound [OF b, unfolded sound_step_def]
      show ?thesis
      proof (cases b)
        case b': True
        with rest have rest': "match_loop inp ps (Suc i) s1 = Inr (Some (j, s'))" by simp
        have IH: "ms_ext s1 s'" "Suc i \<le> j" "j \<le> length inp"
            "instance_of s' ps (take (j - Suc i) (drop (Suc i) inp))"
          using "2.IH"(2) [OF m _ True b refl b' rest'] False True by auto
        moreover have "part_inst s' (inp ! i) pat" using one b' IH(1) part_inst_mono by auto
        ultimately show ?thesis
          using one m False take_drop_Suc [of i j inp] by (auto intro: instance_of.part ms_ext_trans)
      next
        case b': False
        with rest have opt and rest': "match_loop inp ps i s1 = Inr (Some (j, s'))" by (auto split: if_splits)
        with "2.IH"(3) [OF m _ True b refl b' \<open>opt\<close> rest' "2.prems"(2)] False one show ?thesis
          by (auto intro: instance_of.skipped ms_ext_trans)
      qed
    next
      case i: False
      with "2.prems"(1) m False have opt and rest: "match_loop inp ps i s = Inr (Some (j, s'))"
        by (auto split: if_splits)
      with "2.IH"(4) [OF m _ i \<open>opt\<close> rest "2.prems"(2)] False show ?thesis
        by (auto intro: instance_of.skipped)
    qed
  qed
qed

section \<open>Labels\<close>

text \<open>
  Every use of a symbolic label names the label part it is bound to.  A label part that fails
  leaves its binding behind, so this needs label parts to be required.
\<close>

definition lab_ok :: "match_state \<Rightarrow> bool" where
  "lab_ok s \<longleftrightarrow> (\<forall>k d. ms_defs s k = Some d \<longrightarrow> ms_uses s k \<subseteq> set (label_names d))"

definition required_labels :: "pattern \<Rightarrow> bool" where
  "required_labels pat \<longleftrightarrow>
     (\<forall>(e, opt) \<in> set pat. opt \<longrightarrow> (case e of PLabel _ \<Rightarrow> False | _ \<Rightarrow> True))"

lemma lab_ok_match_reg: "lab_ok s \<Longrightarrow> lab_ok (snd (match_reg a e s))"
  by (auto simp: lab_ok_def match_reg_def match_var_def split: option.split)

lemma lab_ok_match_regs: "lab_ok s \<Longrightarrow> lab_ok (snd (match_regs as es s))"
proof (induction as es s rule: match_regs.induct)
  case (1 a as e es s)
  then show ?case
    using lab_ok_match_reg [of s a e] by (cases "match_reg a e s") auto
qed auto

lemma lab_ok_match_symbol: "lab_ok s \<Longrightarrow> lab_ok (snd (match_symbol a n s))"
  by (auto simp: lab_ok_def match_symbol_def match_lit_def match_var_def match_label_use_def
      split: option.split argument.split)

lemma lab_ok_and_then:
  assumes "and_then m f = Inr r" and "\<And>r1. m = Inr r1 \<Longrightarrow> lab_ok (snd r1)"
    and "\<And>s1 r2. lab_ok s1 \<Longrightarrow> f s1 = Inr r2 \<Longrightarrow> lab_ok (snd r2)"
  shows "lab_ok (snd r)"
proof -
  obtain b s1 where m: "m = Inr (b, s1)" and r: "(if b then f s1 else Inr (False, s1)) = Inr r"
    using assms(1) by (auto simp: and_then_def)
  have "lab_ok s1" using assms(2) [OF m] by simp
  with r assms(3) show ?thesis by (cases b) auto
qed

lemma lab_ok_match_arg: "match_arg a e s = Inr r \<Longrightarrow> lab_ok s \<Longrightarrow> lab_ok (snd r)"
proof (induction e arbitrary: a s r)
  case (AsmAddressMode b e w)
  show ?case
  proof (cases a)
    case (AsmAddressMode b' a' w')
    with AsmAddressMode.prems have
      "and_then (Inr (match_reg b' b s)) (\<lambda>s1. and_then (match_arg a' e s1) (\<lambda>s2. Inr (w' = w, s2))) = Inr r"
      by simp
    then show ?thesis
    proof (rule lab_ok_and_then)
      show "Inr (match_reg b' b s) = Inr r1 \<Longrightarrow> lab_ok (snd r1)" for r1
        using lab_ok_match_reg AsmAddressMode.prems(2) by auto
      fix s1 r2
      assume "lab_ok s1" and "and_then (match_arg a' e s1) (\<lambda>s2. Inr (w' = w, s2)) = Inr r2"
      then show "lab_ok (snd r2)" by (elim lab_ok_and_then) (auto intro: AsmAddressMode.IH)
    qed
  qed (use AsmAddressMode.prems in auto)
next
  case (BinOp op l e)
  then show ?case
    by (cases a) (auto split: if_splits simp del: eval_math.simps elim!: lab_ok_and_then intro: BinOp.IH)
next
  case (RegisterList rs)
  then show ?case using lab_ok_match_regs by (cases a) (auto split: if_splits)
next
  case (Macro n e)
  then show ?case by (cases a) (auto split: if_splits)
next
  case (Reg q)
  then show ?case using lab_ok_match_reg by (cases a) auto
qed (auto simp: lab_ok_match_symbol)

lemma lab_ok_match_args: "match_args as es s = Inr r \<Longrightarrow> lab_ok s \<Longrightarrow> lab_ok (snd r)"
proof (induction as es s arbitrary: r rule: match_args.induct)
  case (1 a as e es s)
  from "1.prems"(1) have "and_then (match_arg a e s) (match_args as es) = Inr r" by simp
  then show ?case
    by (rule lab_ok_and_then) (use "1.prems"(2) "1.IH" lab_ok_match_arg in auto)
qed auto

lemma lab_ok_match_one:
  assumes "match_one p e s = Inr (b, s')" and "lab_ok s" and "b \<or> (\<forall>l. e \<noteq> PLabel l)"
  shows "lab_ok s'"
proof (cases e)
  case PWild
  with assms show ?thesis by (fastforce simp: match_one_def lab_ok_def)
next
  case (PLabel l)
  with assms show ?thesis
    by (cases p) (fastforce simp: match_one_def match_label_def_def lab_ok_def split: if_splits)+
next
  case (PInstr i)
  with assms show ?thesis
    by (cases p) (auto simp: match_one_def split: if_splits dest: lab_ok_match_args)
qed

lemma lab_ok_match_meta: "match_meta i s = Inr r \<Longrightarrow> lab_ok s \<Longrightarrow> lab_ok (snd r)"
  by (auto simp: match_meta_def split: list.splits dest: lab_ok_match_arg)

lemma lab_ok_match_loop:
  "match_loop inp pat i s = Inr (Some (j, s')) \<Longrightarrow> lab_ok s \<Longrightarrow> required_labels pat \<Longrightarrow> lab_ok s'"
proof (induction pat arbitrary: i s)
  case (Cons pe ps)
  obtain pat opt where pe: "pe = (pat, opt)" by (cases pe)
  have req: "required_labels ps" and lab: "opt \<Longrightarrow> pat \<noteq> PLabel l" for l
    using Cons.prems(3) by (auto simp: required_labels_def pe split: pattern_part.splits)
  note IH = Cons.IH [OF _ _ req]
  from Cons.prems(1) obtain m where m: "is_meta pat = Inr m"
    and run: "(if m then (case pat of
            PInstr ins \<Rightarrow> ebind (match_meta ins s) (\<lambda>(b, s').
              if \<not> b \<and> \<not> opt then Inr None else match_loop inp ps i s')
          | _ \<Rightarrow> Inr None)
       else if i < length inp then
         ebind (match_one (inp ! i) pat s) (\<lambda>(b, s').
           if b then match_loop inp ps (Suc i) s'
           else if opt then match_loop inp ps i s' else Inr None)
       else if opt then match_loop inp ps i s else Inr None) = Inr (Some (j, s'))"
    unfolding pe match_loop.simps by blast
  show ?case
  proof (cases m)
    case True
    then obtain ins where "pat = PInstr ins" using run by (cases pat) auto
    with True run show ?thesis
      using IH lab_ok_match_meta Cons.prems(2) by (fastforce split: if_splits)
  next
    case False
    with run show ?thesis
      using IH lab_ok_match_one [OF _ Cons.prems(2)] Cons.prems(2) lab by (fastforce split: if_splits)
  qed
qed simp

section \<open>Properties\<close>

text \<open>
  C12: a successful match is an instance of the pattern: the matched instructions are the pattern
  with one register for every symbolic register, one number for every symbolic literal, the
  equations true of these numbers, and (labels being required parts) every label operand naming
  the label it is bound to.
\<close>

theorem try_match_instance:
  assumes "try_match m pat = Inr (Some am)" and "mt_index m \<le> length (mt_input m)"
    and "required_labels pat"
  shows "\<exists>s. am_regs am = ms_regs s \<and> am_literals am = ms_lits s \<and> am_labels am = ms_defs s \<and>
    lab_ok s \<and> instance_of s pat (am_body am) \<and>
    prefix (am_body am) (drop (mt_index m) (mt_input m))"
proof -
  obtain j s where run: "match_loop (mt_input m) pat (mt_index m) empty_match_state = Inr (Some (j, s))"
    and am: "am = \<lparr>am_body = take (j - mt_index m) (drop (mt_index m) (mt_input m)), am_wildcards = ms_wild s,
          am_regs = ms_regs s, am_literals = ms_lits s, am_labels = ms_defs s\<rparr>"
    using assms(1) by (auto simp: try_match_def)
  from match_loop_sound [OF run assms(2)] have inst: "instance_of s pat (am_body am)" by (simp add: am)
  have "lab_ok s"
    by (rule lab_ok_match_loop [OF run _ assms(3)]) (simp add: lab_ok_def empty_match_state_def)
  with inst show ?thesis by (intro exI [of _ s]) (simp add: am take_is_prefix)
qed

text \<open>Two loads of adjacent words.\<close>

definition sample_pattern :: "string list" where
  "sample_pattern = [''lwz $a, I($s)'', ''lwz $b, (I+4)($s)'']"

definition sample_load :: "nat \<Rightarrow> string \<Rightarrow> int \<Rightarrow> body_part" where
  "sample_load n r off = BInstr (plain_instruction n ''lwz''
     [Reg (Register r), AsmAddressMode (Register ''r31'') (AsmLiteral off) None] meta_missing [] []
     [RegLoc (Register r)])"

definition sample_matcher :: matcher where
  "sample_matcher = \<lparr>mt_data = \<lparr>ad_values = [], mentioned_labels = {}\<rparr>,
     mt_input = [sample_load 0 ''r5'' 0, sample_load 1 ''r3'' 8, sample_load 2 ''r4'' 12],
     mt_labels = {}, mt_output = [], mt_index = 1, mt_next = 3\<rparr>"

theorem try_match_instance_witness:
  "\<exists>pat am s. make_pattern sample_pattern = Inr pat \<and> try_match sample_matcher pat = Inr (Some am) \<and>
    am_regs am = ms_regs s \<and> am_literals am ''I'' = Some 8 \<and> lab_ok s \<and> instance_of s pat (am_body am)"
proof -
  have "(case make_pattern sample_pattern of Inr pat \<Rightarrow> required_labels pat \<and>
      (case try_match sample_matcher pat of Inr (Some am) \<Rightarrow> am_literals am ''I'' = Some 8 | _ \<Rightarrow> False)
    | Inl _ \<Rightarrow> False)"
    by code_simp
  then obtain pat am where pat: "make_pattern sample_pattern = Inr pat" and req: "required_labels pat"
    and am: "try_match sample_matcher pat = Inr (Some am)" and lit: "am_literals am ''I'' = Some 8"
    by (auto split: sum.splits option.splits)
  have "mt_index sample_matcher \<le> length (mt_input sample_matcher)" by (simp add: sample_matcher_def)
  from try_match_instance [OF am this req] pat am lit show ?thesis by blast
qed

end
