(* ===== verification/Ppc_Arch.thy ===== *)
theory Ppc_Arch
  imports Pattern_Match
begin

text \<open>
  Model of the assembly side of \<open>PpcArch\<close> in \<open>m2c/m2c/arch_ppc.py\<close>: its registers, the
  normalisation of instructions and \<open>parse\<close>, which computes the registers and stack words an
  instruction reads and writes.

  The instruction tables of the source map a mnemonic to an evaluation function of the
  translation phase; only their keys matter here, so they are lists of mnemonics.  The
  \<open>eval_fn\<close> that \<open>parse\<close> attaches to an instruction is not modelled.
\<close>

section \<open>Registers and instruction tables\<close>

definition ppc_all_return_regs :: "register list" where
  "ppc_all_return_regs = map Register [''f1'', ''r3'', ''r4'']"

definition ppc_argument_regs :: "register list" where
  "ppc_argument_regs = map Register [''r3'', ''r4'', ''r5'', ''r6'', ''r7'', ''r8'', ''r9'', ''r10'', ''f1'', ''f2'', ''f3'',
     ''f4'', ''f5'', ''f6'', ''f7'', ''f8'', ''f9'', ''f10'', ''f11'', ''f12'', ''f13'']"

definition ppc_simple_temp_regs :: "register list" where
  "ppc_simple_temp_regs = map Register [''r11'', ''r12'']"

definition ppc_temp_regs :: "register list" where
  "ppc_temp_regs = ppc_argument_regs @ ppc_simple_temp_regs @
     map Register [''r0'', ''f0'', ''cr0_gt'', ''cr0_lt'', ''cr0_eq'', ''cr0_so'', ''ctr'']"

definition ppc_saved_regs :: "register list" where
  "ppc_saved_regs = map Register [''lr'', ''r2'', ''r13'', ''r14'', ''r15'', ''r16'', ''r17'', ''r18'', ''r19'', ''r20'',
     ''r21'', ''r22'', ''r23'', ''r24'', ''r25'', ''r26'', ''r27'', ''r28'', ''r29'', ''r30'',
     ''r31'', ''f14'', ''f15'', ''f16'', ''f17'', ''f18'', ''f19'', ''f20'', ''f21'', ''f22'',
     ''f23'', ''f24'', ''f25'', ''f26'', ''f27'', ''f28'', ''f29'', ''f30'', ''f31'']"

definition ppc_all_regs :: "register list" where
  "ppc_all_regs = ppc_saved_regs @ ppc_temp_regs @ [Register ''r1''] @
     map Register [''zero'', ''cr0'', ''cr1'', ''cr2'', ''cr3'', ''cr4'', ''cr5'', ''cr6'', ''cr7'']"

definition INSTRS_R0_AS_ZERO :: "string \<rightharpoonup> nat" where
  "INSTRS_R0_AS_ZERO = map_of [(''addi'', 1), (''addis'', 1), (''dcbf'', 0), (''dcbi'', 0), (''dcbst'', 0), (''dcbt'', 0),
     (''dcbtst'', 0), (''dcbz'', 0), (''dcbz_l'', 0), (''eciwx'', 1), (''ecowx'', 1),
     (''icbi'', 0), (''lbz'', 1), (''lbzx'', 1), (''lfd'', 1), (''lfdx'', 1), (''lfs'', 1),
     (''lfsx'', 1), (''lha'', 1), (''lhax'', 1), (''lhbrx'', 1), (''lhz'', 1), (''lhzx'', 1),
     (''lmw'', 1), (''lswi'', 1), (''lswx'', 1), (''lwarx'', 1), (''lwbrx'', 1), (''lwz'', 1),
     (''lwzx'', 1), (''psq_lx'', 1), (''psq_stx'', 1), (''stb'', 1), (''stbx'', 1), (''stfd'', 1),
     (''stfdx'', 1), (''stfiwx'', 1), (''stfs'', 1), (''stfsx'', 1), (''sth'', 1), (''sthbrx'', 1),
     (''sthx'', 1), (''stmw'', 1), (''stswi'', 1), (''stswx'', 1), (''stw'', 1), (''stwbrx'', 1),
     (''stwcx.'', 1), (''stwx'', 1)]"

definition instrs_ignore :: "string list" where
  "instrs_ignore = [''nop'', ''stmw'', ''lmw'', ''crclr'', ''crset'']"

definition instrs_store :: "string list" where
  "instrs_store = [''stb'', ''sth'', ''stw'', ''stbx'', ''sthx'', ''stwx'', ''stfs'', ''stfd'', ''stfsx'',
     ''stfdx'', ''psq_st'']"

definition instrs_store_update :: "string list" where
  "instrs_store_update = [''stbu'', ''sthu'', ''stwu'', ''stbux'', ''sthux'', ''stwux'', ''stfsu'', ''stfdu'',
     ''stfsux'', ''stfdux'']"

definition instrs_load :: "string list" where
  "instrs_load = [''lba'', ''lbz'', ''lha'', ''lhz'', ''lwz'', ''lbax'', ''lbzx'', ''lhax'', ''lhzx'', ''lwzx'',
     ''lfs'', ''lfd'', ''lfsx'', ''lfdx'', ''psq_l'']"

definition instrs_load_update :: "string list" where
  "instrs_load_update = [''lbau'', ''lbzu'', ''lhau'', ''lhzu'', ''lwzu'', ''lbaux'', ''lbzux'', ''lhaux'', ''lhzux'',
     ''lwzux'', ''lfsu'', ''lfdu'', ''lfsux'', ''lfdux'']"

definition instrs_branches :: "string \<rightharpoonup> string" where
  "instrs_branches = map_of [(''beq'', ''cr0_eq''), (''bge'', ''!cr0_lt''), (''bgt'', ''cr0_gt''), (''ble'', ''!cr0_gt''),
     (''blt'', ''cr0_lt''), (''bne'', ''!cr0_eq''), (''bns'', ''!cr0_so''), (''bso'', ''cr0_so''),
     (''bdnz'', ''ctr''), (''bdz'', ''!ctr''), (''bdnz.fictive'', ''ctr''),
     (''bdz.fictive'', ''!ctr'')]"

definition instrs_no_dest :: "string list" where
  "instrs_no_dest = [''sync'', ''isync'', ''structcopy.fictive'']"

definition instrs_dest_first_non_load :: "string list" where
  "instrs_dest_first_non_load = [''add'', ''addc'', ''adde'', ''addze'', ''addi'', ''addic'', ''addis'', ''subf'', ''subfc'',
     ''subfe'', ''subfic'', ''subfze'', ''neg'', ''divw'', ''divwu'', ''mulli'', ''mullw'',
     ''mulhw'', ''mulhwu'', ''or'', ''orc'', ''ori'', ''oris'', ''and'', ''andc'', ''not'',
     ''nor'', ''xor'', ''eqv'', ''andi'', ''andis'', ''xori'', ''xoris'', ''boolcast.fictive'',
     ''rlwimi'', ''rlwinm'', ''rlwnm'', ''slw'', ''srw'', ''sraw'', ''srawi'', ''extsb'',
     ''extsh'', ''cntlzw'', ''li'', ''lis'', ''mflr'', ''mfctr'', ''mr'', ''move.fictive'',
     ''fadd'', ''fadds'', ''fdiv'', ''fdivs'', ''fmul'', ''fmuls'', ''fsub'', ''fsubs'', ''fneg'',
     ''fmr'', ''frsp'', ''fctiwz'', ''fctiwz.fictive'', ''cvt.u.d.fictive'', ''cvt.d.i.fictive'',
     ''cvt.d.u.fictive'', ''cvt.s.i.fictive'', ''cvt.s.u.fictive'', ''fmadd'', ''fmadds'',
     ''fnmadd'', ''fnmadds'', ''fmsub'', ''fmsubs'', ''fnmsub'', ''fnmsubs'', ''fabs'', ''fres'',
     ''frsqrte'', ''fsel'']"

definition instrs_destination_first :: "string list" where
  "instrs_destination_first = instrs_dest_first_non_load @ instrs_load"

definition instrs_ppc_compare :: "string list" where
  "instrs_ppc_compare = [''cmpw'', ''cmpwi'', ''cmplw'', ''cmplwi'', ''fcmpo'', ''fcmpu'', ''fcmpo.lte.fictive'',
     ''fcmpo.gte.fictive'']"
section \<open>Normalisation\<close>

definition rstrip_set :: "string \<Rightarrow> string \<Rightarrow> string" where
  "rstrip_set cs s = rev (dropWhile (\<lambda>c. c \<in> set cs) (rev s))"

definition lstrip_set :: "string \<Rightarrow> string \<Rightarrow> string" where
  "lstrip_set cs s = dropWhile (\<lambda>c. c \<in> set cs) s"

definition arg_sub :: "argument \<Rightarrow> argument \<Rightarrow> argument" where
  "arg_sub a b = (case (a, b) of
     (AsmLiteral x, AsmLiteral y) \<Rightarrow> AsmLiteral (x - y) | _ \<Rightarrow> BinOp ''-'' a b)"

definition arg_add :: "argument \<Rightarrow> argument \<Rightarrow> argument" where
  "arg_add a b = (case (a, b) of
     (AsmLiteral x, AsmLiteral y) \<Rightarrow> AsmLiteral (x + y) | _ \<Rightarrow> BinOp ''+'' a b)"

definition r0_to_zero :: "argument \<Rightarrow> argument" where
  "r0_to_zero a = (case a of
     Reg r \<Rightarrow> if r = Register ''r0'' then Reg (Register ''zero'') else a
   | AsmAddressMode b e w \<Rightarrow> if b = Register ''r0'' then AsmAddressMode (Register ''zero'') e w else a
   | _ \<Rightarrow> a)"

text \<open>The argument list with \<open>$r0\<close> replaced where it reads as zero, if it occurs there.\<close>

definition zero_args :: "string \<Rightarrow> argument list \<Rightarrow> argument list option" where
  "zero_args m as = (case INSTRS_R0_AS_ZERO m of
     Some k \<Rightarrow> if k < length as \<and> r0_to_zero (as ! k) \<noteq> as ! k then Some (as[k := r0_to_zero (as ! k)]) else None
   | None \<Rightarrow> None)"

definition ins :: "string \<Rightarrow> argument list \<Rightarrow> asm_instruction" where
  "ins m as = \<lparr>ai_mnemonic = m, ai_args = as\<rparr>"

abbreviation lit :: "int \<Rightarrow> argument" where
  "lit \<equiv> AsmLiteral"

definition normalize4 :: "string \<Rightarrow> string \<Rightarrow> argument \<Rightarrow> argument \<Rightarrow> argument \<Rightarrow> argument \<Rightarrow> asm_instruction option" where
  "normalize4 b dot a0 a1 a2 a3 =
     (if b = ''extlwi'' then Some (ins (''rlwinm'' @ dot) [a0, a1, a3, lit 0, arg_sub a2 (lit 1)])
      else if b = ''extrwi'' then
        Some (ins (''rlwinm'' @ dot) [a0, a1, arg_add a2 a3, arg_sub (lit 32) a2, lit 31])
      else if b = ''clrlslwi'' then
        Some (ins (''rlwinm'' @ dot) [a0, a1, a3, arg_sub a2 a3, arg_sub (lit 31) a3])
      else None)"

definition is_sda_macro :: "argument \<Rightarrow> argument \<Rightarrow> argument option" where
  "is_sda_macro a1 a2 = (case a2 of
     Macro n e \<Rightarrow> if a1 \<in> {Reg (Register ''r2''), Reg (Register ''r13'')} \<and> n \<in> {''sda2'', ''sda21''}
                  then Some e else None
   | _ \<Rightarrow> None)"

definition normalize3 :: "string \<Rightarrow> string \<Rightarrow> argument \<Rightarrow> argument \<Rightarrow> argument \<Rightarrow> asm_instruction option" where
  "normalize3 b dot a0 a1 a2 =
     (if b \<in> set [''sub'', ''subo'', ''subc'', ''subco''] then
        Some (ins (''subf'' @ drop 3 b @ dot) [a0, a2, a1])
      else if b = ''rotlwi'' then Some (ins (''rlwinm'' @ dot) [a0, a1, a2, lit 0, lit 31])
      else if b = ''rotrwi'' then Some (ins (''rlwinm'' @ dot) [a0, a1, arg_sub (lit 32) a2, lit 0, lit 31])
      else if b = ''slwi'' then Some (ins (''rlwinm'' @ dot) [a0, a1, a2, lit 0, arg_sub (lit 31) a2])
      else if b = ''srwi'' then Some (ins (''rlwinm'' @ dot) [a0, a1, arg_sub (lit 32) a2, a2, lit 31])
      else if b = ''clrlwi'' then Some (ins (''rlwinm'' @ dot) [a0, a1, lit 0, a2, lit 31])
      else if b = ''clrrwi'' then Some (ins (''rlwinm'' @ dot) [a0, a1, lit 0, lit 0, arg_sub (lit 31) a2])
      else None)"

definition lis_value :: "argument \<Rightarrow> int option" where
  "lis_value a = (case a of
     AsmLiteral v \<Rightarrow> Some (push_bit 16 (v AND 0xFFFF))
   | Macro n (AsmLiteral v) \<Rightarrow>
       if n = ''ha'' then Some ((if v AND 0x8000 \<noteq> 0 then v + 0x10000 else v) AND 0xFFFF0000) else None
   | _ \<Rightarrow> None)"

definition normalize2 :: "string \<Rightarrow> argument \<Rightarrow> argument \<Rightarrow> asm_instruction option" where
  "normalize2 m a0 a1 =
     (if m = ''lis'' \<and> lis_value a1 \<noteq> None then Some (ins ''li'' [a0, lit (the (lis_value a1))])
      else if py_startswith m ''cmp'' then Some (ins m [Reg (Register ''cr0''), a0, a1])
      else None)"

definition has_hint :: "string \<Rightarrow> bool" where
  "has_hint m \<longleftrightarrow> py_startswith m ''b'' \<and> (py_endswith m ''+'' \<or> py_endswith m ''-'')"

definition subi_words :: "string list" where
  "subi_words = [''subi'', ''subis'', ''subic'']"

definition subi_value :: "string \<Rightarrow> argument \<Rightarrow> int option" where
  "subi_value b a2 = (case a2 of
     AsmLiteral v \<Rightarrow> if b \<in> set subi_words then Some v else None | _ \<Rightarrow> None)"

text \<open>The recursion of the source: each call removes a hint, a zero register or a \<open>subi\<close>.\<close>

definition norm_measure :: "asm_instruction \<Rightarrow> nat" where
  "norm_measure i = 4 * length (ai_mnemonic i) + (if py_startswith (ai_mnemonic i) ''sub'' then 2 else 0) +
     (if zero_args (ai_mnemonic i) (ai_args i) = None then 0 else 1)"

lemma ins_sel [simp]: "ins (ai_mnemonic i) (ai_args i) = i"
  by (cases i) (simp add: ins_def)

lemma ai_ins [simp]: "ai_mnemonic (ins m as) = m" "ai_args (ins m as) = as"
  by (simp_all add: ins_def)

lemma has_hint_nonempty: "has_hint m \<Longrightarrow> m \<noteq> []"
  by (auto simp: has_hint_def py_startswith_def)

lemma norm_measure_hint: "has_hint m \<Longrightarrow> norm_measure (ins (butlast m) as) < norm_measure (ins m as)"
proof -
  assume h: "has_hint m"
  then have "length (butlast m) < length m" by (simp add: has_hint_nonempty)
  moreover have "\<not> py_startswith (butlast m) ''sub''"
    using h by (cases m) (auto simp: has_hint_def py_startswith_def split: if_splits)
  ultimately show ?thesis by (simp add: norm_measure_def ins_def)
qed

lemma zero_args_again: "zero_args m as = Some as' \<Longrightarrow> zero_args m as' = None"
  by (auto simp: zero_args_def r0_to_zero_def split: option.splits if_splits argument.splits)

lemma norm_measure_zero: "zero_args m as = Some as' \<Longrightarrow> norm_measure (ins m as') < norm_measure (ins m as)"
  by (simp add: norm_measure_def ins_def zero_args_again)

lemma subi_valueD: "subi_value b a = Some v \<Longrightarrow> b \<in> set subi_words \<and> a = lit v"
  by (auto simp: subi_value_def split: argument.splits if_splits)

lemma norm_measure_subi:
  assumes "subi_value (rstrip_set ''.'' m) a = Some v"
  shows "norm_measure (ins (''add'' @ drop 3 m) as') < norm_measure (ins m as)"
proof -
  from subi_valueD [OF assms] have sub: "rstrip_set ''.'' m \<in> set subi_words" by simp
  obtain k where m: "m = rstrip_set ''.'' m @ k"
    unfolding rstrip_set_def by (metis append_take_drop_id dropWhile_eq_drop rev_append rev_rev_ident)
  with sub have "py_startswith m ''sub''" "3 \<le> length m"
    by (auto simp: subi_words_def py_startswith_def)
  then show ?thesis by (auto simp: norm_measure_def ins_def py_startswith_def)
qed

lemma norm_measure_subi_step:
  assumes "subi_value (rstrip_set ''.'' (ai_mnemonic i)) a = Some v"
  shows "norm_measure (ins (CHR ''a'' # CHR ''d'' # CHR ''d'' # drop 3 (ai_mnemonic i)) as') < norm_measure i"
  using norm_measure_subi [OF assms, of as' "ai_args i"] by simp

function ppc_normalize :: "asm_instruction \<Rightarrow> asm_instruction" where
  "ppc_normalize i =
     (let m = ai_mnemonic i; as = ai_args i; b = rstrip_set ''.'' m; dot = drop (length b) m
      in if has_hint m then ppc_normalize (ins (butlast m) as)
         else (case zero_args m as of
           Some as' \<Rightarrow> ppc_normalize (ins m as')
         | None \<Rightarrow>
             (case as of
                [a0, a1, a2, a3] \<Rightarrow> (case normalize4 b dot a0 a1 a2 a3 of Some j \<Rightarrow> j | None \<Rightarrow> i)
              | [a0, a1, a2] \<Rightarrow>
                  (case (if m = ''addi'' then is_sda_macro a1 a2 else None) of
                     Some e \<Rightarrow> ins ''li'' [a0, e]
                   | None \<Rightarrow>
                       (case subi_value b a2 of
                          Some v \<Rightarrow> ppc_normalize (ins (''add'' @ drop 3 m) [a0, a1, lit (- v)])
                        | None \<Rightarrow> (case normalize3 b dot a0 a1 a2 of Some j \<Rightarrow> j | None \<Rightarrow> i)))
              | [a0, a1] \<Rightarrow> (case normalize2 m a0 a1 of Some j \<Rightarrow> j | None \<Rightarrow> i)
              | _ \<Rightarrow> i)))"
  by pat_completeness auto
termination
proof (relation "measure norm_measure", goal_cases)
  case (2 i)
  then show ?case using norm_measure_hint [of "ai_mnemonic i" "ai_args i"] by simp
qed (auto intro: norm_measure_subi_step dest: norm_measure_zero [of "ai_mnemonic i" "ai_args i" for i, simplified])

declare ppc_normalize.simps [simp del]

section \<open>Parsing\<close>

definition ppc_stack_pointer :: register where
  "ppc_stack_pointer = Register ''r1''"

definition cr0_bits :: "location list" where
  "cr0_bits = map (RegLoc \<circ> Register) [''cr0_lt'', ''cr0_gt'', ''cr0_eq'', ''cr0_so'']"

definition reg_of :: "argument \<Rightarrow> register option" where
  "reg_of a = (case a of Reg r \<Rightarrow> Some r | _ \<Rightarrow> None)"

definition is_address :: "argument \<Rightarrow> bool" where
  "is_address a = (case a of AsmAddressMode _ _ _ \<Rightarrow> True | _ \<Rightarrow> False)"

definition arg_regs :: "argument list \<Rightarrow> location list" where
  "arg_regs as = map RegLoc (List.map_filter reg_of as)"

definition memory_size :: "string \<Rightarrow> nat option" where
  "memory_size m =
     (if py_startswith m ''psq_l'' \<or> py_startswith m ''psq_st'' then Some 8
      else map_of [(''b'', 1), (''h'', 2), (''w'', 4), (''fs'', 4), (''fd'', 8)]
             (rstrip_set ''azux'' (lstrip_set ''stl'' m)))"

definition psq_imms :: "string \<Rightarrow> nat" where
  "psq_imms m = (if py_startswith m ''psq_l'' \<or> py_startswith m ''psq_st'' then 2 else 0)"

definition make_memory_access :: "argument \<Rightarrow> nat \<Rightarrow> location list res" where
  "make_memory_access a sz =
     (case a of
        AsmAddressMode b e w \<Rightarrow>
          if b = ppc_stack_pointer then
            (case from_offset e of
               None \<Rightarrow> Inr []
             | Some (StackLocation off symo) \<Rightarrow>
                 if sz = 8 then Inr [StackLocation off symo, StackLocation (off + 4) symo]
                 else ebind (py_assert (sz \<le> 4)) (\<lambda>_. Inr [StackLocation off symo])
             | Some (RegLoc r) \<Rightarrow> Inr [])
          else Inr []
      | _ \<Rightarrow> Inr [])"

definition expect_reg :: "argument list \<Rightarrow> nat \<Rightarrow> register res" where
  "expect_reg as k =
     (if k < length as then (case reg_of (as ! k) of Some r \<Rightarrow> Inr r | None \<Rightarrow> Inl AssertionError)
      else Inl IndexError)"

definition known_size :: "string \<Rightarrow> nat res" where
  "known_size m = (case memory_size m of Some n \<Rightarrow> Inr n | None \<Rightarrow> Inl AssertionError)"

text \<open>The operands of the indexed form \<open>rD, rA, rB\<close> and of the displacement form \<open>rD, d(rA)\<close>.\<close>

definition indexed_operands :: "string \<Rightarrow> argument list \<Rightarrow> (register \<times> register) res" where
  "indexed_operands m as =
     (if length as \<noteq> 3 + psq_imms m then Inl AssertionError
      else (case (reg_of (as ! 1), reg_of (as ! 2)) of
              (Some a, Some b) \<Rightarrow> Inr (a, b) | _ \<Rightarrow> Inl AssertionError))"

definition address_operand :: "string \<Rightarrow> argument list \<Rightarrow> register res" where
  "address_operand m as =
     (if length as \<noteq> 2 + psq_imms m then Inl AssertionError
      else (case as ! 1 of AsmAddressMode b e w \<Rightarrow> Inr b | _ \<Rightarrow> Inl AssertionError))"

definition base_ins :: "string \<Rightarrow> argument list \<Rightarrow> instruction_meta \<Rightarrow> instruction" where
  "base_ins m as mt = plain_instruction 0 m as mt [] [] []"

definition parse_store :: "bool \<Rightarrow> string \<Rightarrow> argument list \<Rightarrow> instruction \<Rightarrow> instruction res" where
  "parse_store update m as i =
     ebind (expect_reg as 0) (\<lambda>src. ebind (known_size m) (\<lambda>sz.
       if py_endswith m ''x'' then
         ebind (indexed_operands m as) (\<lambda>(a, b).
           Inr (i\<lparr>is_store := True, inputs := map RegLoc [src, a, b],
                  outputs := (if update then [RegLoc a] else [])\<rparr>))
       else
         ebind (address_operand m as) (\<lambda>b. ebind (make_memory_access (as ! 1) sz) (\<lambda>mem.
           Inr (i\<lparr>is_store := True, inputs := map RegLoc [src, b],
                  outputs := mem @ (if update then [RegLoc b] else [])\<rparr>)))))"

definition parse_load :: "string \<Rightarrow> argument list \<Rightarrow> instruction \<Rightarrow> instruction res" where
  "parse_load m as i =
     ebind (expect_reg as 0) (\<lambda>dst. ebind (known_size m) (\<lambda>sz.
       if py_endswith m ''x'' then
         ebind (indexed_operands m as) (\<lambda>(a, b).
           Inr (i\<lparr>inputs := map RegLoc [a, b], outputs := [RegLoc dst]\<rparr>))
       else
         ebind (py_assert (length as = 2 + psq_imms m)) (\<lambda>_.
           case as ! 1 of
             AsmAddressMode b e w \<Rightarrow> ebind (make_memory_access (as ! 1) sz) (\<lambda>mem.
               Inr (i\<lparr>inputs := mem @ [RegLoc b], outputs := [RegLoc dst]\<rparr>))
           | _ \<Rightarrow> Inr (i\<lparr>outputs := [RegLoc dst]\<rparr>))))"

definition parse_load_update :: "string \<Rightarrow> argument list \<Rightarrow> instruction \<Rightarrow> instruction res" where
  "parse_load_update m as i =
     ebind (expect_reg as 0) (\<lambda>dst. ebind (known_size m) (\<lambda>sz.
       if py_endswith m ''x'' then
         ebind (indexed_operands m as) (\<lambda>(a, b).
           Inr (i\<lparr>inputs := map RegLoc [a, b], outputs := map RegLoc [dst, a]\<rparr>))
       else
         ebind (address_operand m as) (\<lambda>b. ebind (make_memory_access (as ! 1) sz) (\<lambda>mem.
           Inr (i\<lparr>inputs := mem @ [RegLoc b], outputs := map RegLoc [dst, b]\<rparr>)))))"

text \<open>The registers and stack words of \<open>stmw\<close> and \<open>lmw\<close>, from register \<open>k\<close> up to 31.\<close>

function multiple_words :: "register \<Rightarrow> int \<Rightarrow> int \<Rightarrow> (location list \<times> location list) res" where
  "multiple_words b k off =
     (if k > 31 then Inr ([], [])
      else ebind (make_memory_access (AsmAddressMode b (AsmLiteral off) None) 4) (\<lambda>mem.
           ebind (multiple_words b (k + 1) (off + 4)) (\<lambda>(rs, ms).
             Inr (RegLoc (Register (''r'' @ py_str_int k)) # rs, mem @ ms))))"
  by pat_completeness auto
termination by (relation "measure (\<lambda>(b, k, off). nat (32 - k))") auto

declare multiple_words.simps [simp del]

definition parse_multiple :: "string \<Rightarrow> argument list \<Rightarrow> instruction \<Rightarrow> instruction res" where
  "parse_multiple m as i =
     (case as of
        [Reg r, AsmAddressMode b e w] \<Rightarrow>
          (case register_name r of
             [] \<Rightarrow> Inl IndexError
           | c # ds \<Rightarrow>
               if c \<noteq> CHR ''r'' then Inl AssertionError
               else ebind (py_int10 ds) (\<lambda>k.
                 (case e of
                    AsmLiteral off \<Rightarrow>
                      ebind (multiple_words b k off) (\<lambda>(rs, ms).
                        if m = ''stmw'' then Inr (i\<lparr>is_store := True, inputs := rs @ [RegLoc b], outputs := ms\<rparr>)
                        else Inr (i\<lparr>inputs := ms @ [RegLoc b], outputs := rs\<rparr>))
                  | _ \<Rightarrow> Inl AssertionError)))
      | _ \<Rightarrow> Inl AssertionError)"

definition plain_operand :: "argument \<Rightarrow> bool" where
  "plain_operand a \<longleftrightarrow> reg_of a = None \<and> \<not> is_address a"

definition dest_first_inputs :: "string \<Rightarrow> argument list \<Rightarrow> location list res" where
  "dest_first_inputs m as =
     (if m = ''mflr'' then ebind (py_assert (length as = 1)) (\<lambda>_. Inr [RegLoc (Register ''lr'')])
      else if m = ''mfctr'' then ebind (py_assert (length as = 1)) (\<lambda>_. Inr [RegLoc (Register ''ctr'')])
      else if rstrip_set ''.'' m = ''rlwimi'' then
        ebind (py_assert (length as = 5 \<and> reg_of (as ! 1) \<noteq> None \<and> plain_operand (as ! 2) \<and>
                 plain_operand (as ! 3) \<and> plain_operand (as ! 4)))
          (\<lambda>_. Inr (arg_regs [as ! 0, as ! 1]))
      else if py_startswith m ''cvt.'' then
        ebind (expect_reg as 1) (\<lambda>r.
          if length as = 2 then Inr [RegLoc r]
          else (case as ! 2 of
                  AsmAddressMode b e w \<Rightarrow>
                    ebind (make_memory_access (as ! 2) 8) (\<lambda>mem. Inr (mem @ [RegLoc r, RegLoc b]))
                | _ \<Rightarrow> Inl AssertionError))
      else ebind (py_assert (\<not> list_ex is_address as)) (\<lambda>_. Inr (arg_regs (tl as))))"

definition parse_dest_first :: "string \<Rightarrow> argument list \<Rightarrow> instruction \<Rightarrow> instruction res" where
  "parse_dest_first m as i =
     ebind (expect_reg as 0) (\<lambda>dst. ebind (dest_first_inputs m as) (\<lambda>inp.
       Inr (i\<lparr>inputs := inp,
              outputs := RegLoc dst # (if py_endswith m ''.'' then cr0_bits else [])\<rparr>)))"

definition cond_returns :: "string list" where
  "cond_returns = [''beqlr'', ''bgelr'', ''bgtlr'', ''blelr'', ''bltlr'', ''bnelr'', ''bnglr'', ''bnllr'',
     ''bnslr'', ''bsolr'']"

definition call_ins :: "location list \<Rightarrow> argument \<Rightarrow> instruction \<Rightarrow> instruction" where
  "call_ins extra tgt i = i\<lparr>inputs := map RegLoc ppc_argument_regs @ extra,
     outputs := map RegLoc ppc_all_return_regs, clobbers := map RegLoc ppc_temp_regs,
     function_target := Some tgt\<rparr>"

definition parse_branch :: "string \<Rightarrow> argument list \<Rightarrow> instruction \<Rightarrow> instruction res" where
  "parse_branch raw_name as i =
     ebind (py_assert (1 \<le> length as \<and> length as \<le> 2)) (\<lambda>_.
     ebind (get_jump_target (last as)) (\<lambda>t.
       Inr (i\<lparr>inputs := [RegLoc (Register (lstrip_set ''!'' raw_name))], ins_jump := Some (JumpTo t),
              is_conditional := True\<rparr>)))"

definition parse_unknown :: "string \<Rightarrow> argument list \<Rightarrow> instruction \<Rightarrow> instruction" where
  "parse_unknown m as i =
     (case as of
        Reg r # rest \<Rightarrow> i\<lparr>inputs := arg_regs rest,
          outputs := RegLoc r # (if py_endswith m ''.'' then cr0_bits else [])\<rparr>
      | _ \<Rightarrow> i\<lparr>outputs := (if py_endswith m ''.'' then cr0_bits else [])\<rparr>)"

definition ppc_parse :: "string \<Rightarrow> argument list \<Rightarrow> instruction_meta \<Rightarrow> instruction res" where
  "ppc_parse m as mt =
     (let i = base_ins m as mt in
      if m = ''blr'' then
        ebind (py_assert (as = [])) (\<lambda>_. Inr (i\<lparr>inputs := [RegLoc (Register ''lr'')], is_return := True\<rparr>))
      else if m \<in> set cond_returns then
        ebind (py_assert (length as \<le> 1)) (\<lambda>_.
          Inr (i\<lparr>inputs := cr0_bits @ [RegLoc (Register ''lr'')], is_return := True, is_conditional := True\<rparr>))
      else if m = ''bctr'' then
        ebind (py_assert (as = [])) (\<lambda>_.
          Inr (i\<lparr>inputs := [RegLoc (Register ''ctr'')], ins_jump := Some (JumpReg (Register ''ctr'')),
                 is_conditional := True\<rparr>))
      else if m = ''bl'' then
        ebind (py_assert (length as = 1)) (\<lambda>_. Inr (call_ins [] (hd as) i))
      else if m = ''bctrl'' \<or> m = ''blrl'' then
        ebind (py_assert (as = [])) (\<lambda>_.
          let r = Register (butlast (tl m)) in Inr (call_ins [RegLoc r] (Reg r) i))
      else if m = ''b'' then
        ebind (py_assert (length as = 1)) (\<lambda>_. ebind (get_jump_target (hd as)) (\<lambda>t.
          Inr (i\<lparr>ins_jump := Some (JumpTo t)\<rparr>)))
      else (case instrs_branches m of
        Some raw_name \<Rightarrow> parse_branch raw_name as i
      | None \<Rightarrow>
          if m \<in> set instrs_store then parse_store False m as i
          else if m \<in> set instrs_store_update then parse_store True m as i
          else if m \<in> set instrs_load then parse_load m as i
          else if m \<in> set instrs_load_update then parse_load_update m as i
          else if m = ''stmw'' \<or> m = ''lmw'' then parse_multiple m as i
          else if m \<in> set instrs_no_dest then
            ebind (py_assert (\<not> list_ex is_address as)) (\<lambda>_. Inr (i\<lparr>inputs := arg_regs as\<rparr>))
          else if rstrip_set ''.'' m \<in> set instrs_destination_first then parse_dest_first m as i
          else if m = ''mtctr'' \<or> m = ''mtlr'' then
            (case as of
               [Reg r] \<Rightarrow> Inr (i\<lparr>inputs := [RegLoc r], outputs := [RegLoc (Register (drop 2 m))]\<rparr>)
             | _ \<Rightarrow> Inl AssertionError)
          else if m \<in> set instrs_ppc_compare then
            ebind (py_assert (length as = 3 \<and> reg_of (as ! 1) \<noteq> None)) (\<lambda>_.
              Inr (i\<lparr>inputs := arg_regs (tl as), outputs := cr0_bits\<rparr>))
          else if m \<in> set instrs_ignore then Inr i
          else Inr (parse_unknown m as i)))"

definition ppc_arch :: arch_asm where
  "ppc_arch = \<lparr>all_regs = ppc_all_regs, aliased_regs = Map.empty, supports_dollar_regs = True,
     normalize_instruction = (\<lambda>i st. Inr (ppc_normalize i)), arch_name = PPC,
     stack_pointer_reg = ppc_stack_pointer, frame_pointer_regs = [Register ''r30''],
     return_address_reg = Register ''lr'', all_return_regs = ppc_all_return_regs,
     argument_regs = ppc_argument_regs, simple_temp_regs = ppc_simple_temp_regs,
     temp_regs = ppc_temp_regs, saved_regs = ppc_saved_regs,
     missing_return = (case ppc_parse ''blr'' [] meta_missing of Inr i \<Rightarrow> [i] | Inl _ \<Rightarrow> []),
     arch_parse = ppc_parse\<rparr>"

end
