(* ===== verification/Ppc_Patterns.thy ===== *)
theory Ppc_Patterns
  imports Ppc_Arch
begin

text \<open>
  The eight assembly patterns of \<open>PpcArch.asm_patterns\<close> in \<open>m2c/m2c/arch_ppc.py\<close>, as functions
  of the matcher.  Each returns the replacement it proposes at the current index, nothing, or
  the exception the source would raise there.
\<close>

section \<open>Shared pieces\<close>

definition dict_get :: "(string \<rightharpoonup> 'v) \<Rightarrow> string \<Rightarrow> 'v res" where
  "dict_get d k = (case d k of Some v \<Rightarrow> Inr v | None \<Rightarrow> Inl KeyError)"

definition repl :: "repl_part list \<Rightarrow> nat \<Rightarrow> replacement option res" where
  "repl parts k = Inr (Some \<lparr>new_body = parts, num_consumed = k, repl_clobbers = None\<rparr>)"

definition rasm :: "string \<Rightarrow> argument list \<Rightarrow> repl_part" where
  "rasm m as = RAsm (ins m as)"

definition body_instr :: "asm_match \<Rightarrow> nat \<Rightarrow> instruction res" where
  "body_instr m k =
     (if k < length (am_body m) then
        (case am_body m ! k of BInstr i \<Rightarrow> Inr i | BLabel _ \<Rightarrow> Inl AssertionError)
      else Inl IndexError)"

text \<open>\<open>args[k]\<close>, raising when the instruction has too few arguments.\<close>

definition arg_at :: "instruction \<Rightarrow> nat \<Rightarrow> argument res" where
  "arg_at i k = (if k < length (ins_args i) then Inr (ins_args i ! k) else Inl IndexError)"

section \<open>The simple patterns\<close>

definition fcmpo_cror_parts :: "string list" where
  "fcmpo_cror_parts = [''fcmpo $cr0, $x, $y'', ''cror 2, N, 2'']"

definition FcmpoCrorPattern :: asm_pattern where
  "FcmpoCrorPattern = simple_match fcmpo_cror_parts (\<lambda>m.
     ebind (body_instr m 0) (\<lambda>fcmpo. ebind (dict_get (am_literals m) ''N'') (\<lambda>n.
       if n = 0 then repl [rasm ''fcmpo.lte.fictive'' (ins_args fcmpo)] (length (am_body m))
       else if n = 1 then repl [rasm ''fcmpo.gte.fictive'' (ins_args fcmpo)] (length (am_body m))
       else Inr None)))"

definition mfcr_parts :: "string list" where
  "mfcr_parts = [''mfcr $x'', ''rlwinm $x, $x, N, 31, 31'']"

definition mfcr_bit :: "int \<Rightarrow> string option" where
  "mfcr_bit n = (if n = 1 then Some ''cr0_lt'' else if n = 2 then Some ''cr0_gt''
     else if n = 3 then Some ''cr0_eq'' else if n = 4 then Some ''cr0_so'' else None)"

definition MfcrPattern :: asm_pattern where
  "MfcrPattern = simple_match mfcr_parts (\<lambda>m.
     ebind (dict_get (am_regs m) ''x'') (\<lambda>x. ebind (dict_get (am_literals m) ''N'') (\<lambda>n.
       case mfcr_bit n of
         Some b \<Rightarrow> repl [rasm ''move.fictive'' [Reg x, Reg (Register b)]] (length (am_body m))
       | None \<Rightarrow> Inr None)))"

definition boolcast_parts :: "string list" where
  "boolcast_parts = [''neg $a, $x'', ''addic $r0, $a, -1'', ''subfe $r0, $r0, $a'']"

definition BoolCastPattern :: asm_pattern where
  "BoolCastPattern = simple_match boolcast_parts (\<lambda>m.
     ebind (dict_get (am_regs m) ''x'') (\<lambda>x. ebind (dict_get (am_regs m) ''a'') (\<lambda>a.
       let boolcast = rasm ''boolcast.fictive'' [Reg (Register ''r0''), Reg x]
       in if a = Register ''r0'' then Inr None
          else ebind (body_instr m 0) (\<lambda>neg.
            if x = a then repl [boolcast, RInstr neg] (length (am_body m))
            else repl [RInstr neg, boolcast] (length (am_body m))))))"

definition FloatishToUintPattern :: asm_pattern where
  "FloatishToUintPattern = simple_match [''bl __cvt_fp2unsigned''] (\<lambda>m.
     repl [rasm ''cvt.u.d.fictive'' [Reg (Register ''r3''), Reg (Register ''f1'')]] (length (am_body m)))"

section \<open>Patterns that read the matcher\<close>

definition TailCallPattern :: asm_pattern where
  "TailCallPattern m =
     (if Suc (mt_index m) \<noteq> length (mt_input m) then Inr None
      else (case mt_input m ! mt_index m of
        BLabel _ \<Rightarrow> Inr None
      | BInstr i \<Rightarrow>
          if ins_mnemonic i \<noteq> ''b'' then Inr None
          else ebind (arg_at i 0) (\<lambda>a.
            case as_symbol a of
              None \<Rightarrow> Inr None
            | Some n \<Rightarrow>
                if is_local_label m n then Inr None
                else repl [rasm ''bl'' (ins_args i), rasm ''blr'' []] 1)))"

definition BranchCtrPattern :: asm_pattern where
  "BranchCtrPattern m =
     (case mt_input m ! mt_index m of
        BLabel _ \<Rightarrow> Inr None
      | BInstr i \<Rightarrow>
          if ins_mnemonic i \<in> {''bdz'', ''bdnz''} then
            (let ctr = Reg (Register ''ctr'')
             in repl [rasm ''addi'' [ctr, ctr, lit (- 1)],
                      rasm (ins_mnemonic i @ ''.fictive'') (ins_args i)] 1)
          else Inr None)"

text \<open>The last test of \<open>addi $r11, $r1, N\<close>, evaluated left to right as in the source.\<close>

definition stack_addend :: "instruction \<Rightarrow> int option res" where
  "stack_addend i =
     (if ins_mnemonic i \<noteq> ''addi'' then Inr None
      else ebind (arg_at i 0) (\<lambda>a0.
        if a0 \<noteq> Reg (Register ''r11'') then Inr None
        else ebind (arg_at i 1) (\<lambda>a1.
          if a1 \<noteq> Reg (Register ''r1'') then Inr None
          else ebind (arg_at i 2) (\<lambda>a2.
            case a2 of AsmLiteral v \<Rightarrow> Inr (Some v) | _ \<Rightarrow> Inr None))))"

text \<open>The backward search, over the reversed prefix of the input.\<close>

fun find_addend :: "body_part list \<Rightarrow> int option res" where
  "find_addend [] = Inr None"
| "find_addend (BLabel l # ps) = find_addend ps"
| "find_addend (BInstr i # ps) =
     ebind (stack_addend i) (\<lambda>r. case r of Some v \<Rightarrow> Inr (Some v) | None \<Rightarrow> find_addend ps)"

definition save_restore_kind :: "string \<Rightarrow> (string \<times> int \<times> string) option" where
  "save_restore_kind w =
     (if w = ''savegpr'' then Some (''stw'', 4, ''r'') else if w = ''restgpr'' then Some (''lwz'', 4, ''r'')
      else if w = ''savefpr'' then Some (''stfd'', 8, ''f'') else if w = ''restfpr'' then Some (''lfd'', 8, ''f'')
      else None)"

definition save_restore_instr :: "string \<times> int \<times> string \<Rightarrow> int \<Rightarrow> int \<Rightarrow> asm_instruction" where
  "save_restore_instr k addend i = (case k of (mn, sz, pre) \<Rightarrow>
     ins mn [Reg (Register (pre @ py_str_int i)),
             AsmAddressMode (Register ''r1'') (lit (sz * (i - 32) + addend)) None])"

definition save_restore_symbol :: "string \<Rightarrow> ((string \<times> int \<times> string) \<times> string) option" where
  "save_restore_symbol n =
     (case py_split_char (CHR ''_'') n of
        [p0, p1, p2] \<Rightarrow> if p0 = [] then map_option (\<lambda>k. (k, p2)) (save_restore_kind p1) else None
      | _ \<Rightarrow> None)"

definition SaveRestoreRegsFnPattern :: asm_pattern where
  "SaveRestoreRegsFnPattern m =
     (case mt_input m ! mt_index m of
        BLabel _ \<Rightarrow> Inr None
      | BInstr i \<Rightarrow>
          if ins_mnemonic i \<noteq> ''bl'' then Inr None
          else ebind (arg_at i 0) (\<lambda>a.
            case Option.bind (as_symbol a) save_restore_symbol of
              None \<Rightarrow> Inr None
            | Some (k, num) \<Rightarrow>
                ebind (find_addend (rev (take (mt_index m) (mt_input m)))) (\<lambda>r.
                  case r of
                    None \<Rightarrow> Inr None
                  | Some addend \<Rightarrow>
                      ebind (py_int10 num) (\<lambda>regnum.
                        repl (map (RAsm \<circ> save_restore_instr k addend) [regnum..31]) 1))))"

section \<open>Struct copies\<close>

definition structcopy_parts :: "string list" where
  "structcopy_parts = [''lwz $a, I($s)'', ''lwz $b, (I+4)($s)'', ''stw $a, I($d)'', ''stw $b, (I+4)($d)'']"

text \<open>The text of one access at offset \<open>I+i\<close>: mnemonic, data register and base register.\<close>

definition access_text :: "string \<Rightarrow> char \<Rightarrow> int \<Rightarrow> char \<Rightarrow> string" where
  "access_text mn r i b = mn @ '' $'' @ [r] @ '', (I+'' @ py_str_int i @ '')($'' @ [b] @ '')''"

definition copy_pair :: "int \<Rightarrow> string list" where
  "copy_pair i = [access_text ''lwz'' (CHR ''a'') i (CHR ''s''), access_text ''lwz'' (CHR ''b'') (i + 4) (CHR ''s''),
     access_text ''stw'' (CHR ''a'') i (CHR ''d''), access_text ''stw'' (CHR ''b'') (i + 4) (CHR ''d'')]"

definition copy_tail :: "string \<Rightarrow> string \<Rightarrow> int \<Rightarrow> string list" where
  "copy_tail ld st i = [access_text ld (CHR ''b'') i (CHR ''s''), access_text st (CHR ''b'') i (CHR ''d'')]"

text \<open>The \<open>while True\<close> loop: extend the pattern eight bytes at a time while it matches.\<close>

fun copy_loop :: "nat \<Rightarrow> matcher \<Rightarrow> asm_match \<Rightarrow> int \<Rightarrow> pattern \<Rightarrow> (asm_match \<times> int \<times> pattern) res" where
  "copy_loop 0 mt m i ext = Inl OutOfFuel"
| "copy_loop (Suc k) mt m i ext =
     ebind (make_pattern (copy_pair i)) (\<lambda>p2. ebind (try_match mt (ext @ p2)) (\<lambda>r.
       case r of
         Some m2 \<Rightarrow> copy_loop k mt m2 (i + 8) (ext @ p2)
       | None \<Rightarrow> Inr (m, i, ext)))"

definition copy_end :: "string \<Rightarrow> string \<Rightarrow> int \<Rightarrow> matcher \<Rightarrow> asm_match \<times> int \<times> pattern \<Rightarrow> (asm_match \<times> int \<times> pattern) res" where
  "copy_end ld st sz mt = (\<lambda>(m, i, ext).
     ebind (make_pattern (copy_tail ld st i)) (\<lambda>p. ebind (try_match mt (ext @ p)) (\<lambda>r.
       case r of Some m2 \<Rightarrow> Inr (m2, i + sz, ext @ p) | None \<Rightarrow> Inr (m, i, ext))))"

definition StructCopyPattern :: asm_pattern where
  "StructCopyPattern mt =
     ebind (make_pattern structcopy_parts) (\<lambda>pat. ebind (try_match mt pat) (\<lambda>r.
       case r of
         None \<Rightarrow> Inr None
       | Some m0 \<Rightarrow>
           ebind (copy_loop (length (mt_input mt)) mt m0 8 pat) (\<lambda>s1.
           ebind (copy_end ''lwz'' ''stw'' 4 mt s1) (\<lambda>s2.
           ebind (copy_end ''lhz'' ''sth'' 2 mt s2) (\<lambda>s3.
           ebind (copy_end ''lbz'' ''stb'' 1 mt s3) (\<lambda>(m, i, _).
           ebind (dict_get (am_regs m) ''d'') (\<lambda>d. ebind (dict_get (am_regs m) ''s'') (\<lambda>s.
             repl [rasm ''structcopy.fictive'' [Reg d, Reg s, lit i]] (length (am_body m))))))))))"

definition ppc_asm_patterns :: "asm_pattern list" where
  "ppc_asm_patterns = [FcmpoCrorPattern, MfcrPattern, TailCallPattern, SaveRestoreRegsFnPattern,
     BoolCastPattern, BranchCtrPattern, FloatishToUintPattern, StructCopyPattern]"

section \<open>The compiled patterns\<close>

text \<open>
  The source builds each pattern once, when the class is created.  These are the results; as
  code equations they spare the evaluation of the parser on every match.
\<close>

definition pat_ins :: "string \<Rightarrow> argument list \<Rightarrow> pattern_part \<times> bool" where
  "pat_ins m as = (PInstr (ins m as), False)"

abbreviation rg :: "string \<Rightarrow> argument" where
  "rg r \<equiv> Reg (Register r)"

definition compiled_match :: "pattern \<Rightarrow> (asm_match \<Rightarrow> replacement option res) \<Rightarrow> asm_pattern" where
  "compiled_match pat f m = ebind (try_match m pat) (\<lambda>r. case r of None \<Rightarrow> Inr None | Some am \<Rightarrow> f am)"

lemma simple_match_compiled: "make_pattern parts = Inr pat \<Longrightarrow> simple_match parts f = compiled_match pat f"
  by (simp add: simple_match_def compiled_match_def fun_eq_iff)

lemma fcmpo_cror_pattern: "make_pattern fcmpo_cror_parts =
    Inr [pat_ins ''fcmpo'' [rg ''cr0'', rg ''x'', rg ''y''], pat_ins ''cror'' [lit 2, AsmGlobalSymbol ''N'', lit 2]]"
  by code_simp

lemma mfcr_pattern: "make_pattern mfcr_parts =
    Inr [pat_ins ''mfcr'' [rg ''x''], pat_ins ''rlwinm'' [rg ''x'', rg ''x'', AsmGlobalSymbol ''N'', lit 31, lit 31]]"
  by code_simp

lemma boolcast_pattern: "make_pattern boolcast_parts =
    Inr [pat_ins ''neg'' [rg ''a'', rg ''x''], pat_ins ''addic'' [rg ''r0'', rg ''a'', lit (- 1)],
         pat_ins ''subfe'' [rg ''r0'', rg ''r0'', rg ''a'']]"
  by code_simp

lemma fp2unsigned_pattern: "make_pattern [''bl __cvt_fp2unsigned''] = Inr [pat_ins ''bl'' [AsmGlobalSymbol ''__cvt_fp2unsigned'']]"
  by code_simp

abbreviation at_I :: "int \<Rightarrow> string \<Rightarrow> argument" where
  "at_I i b \<equiv> AsmAddressMode (Register b) (BinOp ''+'' (AsmGlobalSymbol ''I'') (lit i)) None"

lemma structcopy_pattern: "make_pattern structcopy_parts =
    Inr [pat_ins ''lwz'' [rg ''a'', AsmAddressMode (Register ''s'') (AsmGlobalSymbol ''I'') None], pat_ins ''lwz'' [rg ''b'', at_I 4 ''s''],
         pat_ins ''stw'' [rg ''a'', AsmAddressMode (Register ''d'') (AsmGlobalSymbol ''I'') None], pat_ins ''stw'' [rg ''b'', at_I 4 ''d'']]"
  by code_simp

lemmas compiled_patterns [code] =
  FcmpoCrorPattern_def [unfolded simple_match_compiled [OF fcmpo_cror_pattern]]
  MfcrPattern_def [unfolded simple_match_compiled [OF mfcr_pattern]]
  BoolCastPattern_def [unfolded simple_match_compiled [OF boolcast_pattern]]
  FloatishToUintPattern_def [unfolded simple_match_compiled [OF fp2unsigned_pattern]]
  StructCopyPattern_def [unfolded structcopy_pattern ebind_Inr]

end
