(* ===== verification/Pattern_Pass.thy ===== *)
theory Pattern_Pass
  imports Ppc_Patterns
begin

text \<open>
  The pass \<open>simplify_patterns\<close> over a list of patterns: it always ends, and no location written
  by the original instructions is lost.  Both are proved once for every list of patterns that
  meets the contract \<open>pattern_list\<close>, and used for the patterns of the PowerPC target.
\<close>

section \<open>Writes of a body\<close>

lemma body_writes_append [simp]: "body_writes (xs @ ys) = body_writes xs @ body_writes ys"
  by (simp add: body_writes_def)

lemma body_writes_Nil [simp]: "body_writes [] = []"
  by (simp add: body_writes_def)

lemma body_writes_Cons [simp]: "body_writes (x # xs) = part_writes x @ body_writes xs"
  by (simp add: body_writes_def)

lemma set_body_writes: "set (body_writes ps) = (\<Union>p \<in> set ps. set (part_writes p))"
  by (induction ps) auto

lemma part_writes_add_clobbers: "set (part_writes p) \<subseteq> set (part_writes (add_clobbers n ls p))"
  by (auto simp: add_clobbers_def part_writes_def ins_writes_def split: body_part.splits)

lemma body_writes_add_clobbers: "set (body_writes ps) \<subseteq> set (body_writes (map (add_clobbers n ls) ps))"
  using part_writes_add_clobbers by (fastforce simp: set_body_writes)

lemma part_writes_added: "ins_id i = n \<Longrightarrow> set ls \<subseteq> set (part_writes (add_clobbers n ls (BInstr i)))"
  by (auto simp: add_clobbers_def part_writes_def ins_writes_def)

lemma final_instr_in: "final_instr ps = Some f \<Longrightarrow> BInstr f \<in> set ps"
proof -
  have "fold (\<lambda>p f. case p of BInstr i \<Rightarrow> Some i | BLabel _ \<Rightarrow> f) ps a = Some f \<Longrightarrow>
      a = Some f \<or> BInstr f \<in> set ps" for a
    by (induction ps arbitrary: a) (fastforce split: body_part.splits)+
  then show "final_instr ps = Some f \<Longrightarrow> BInstr f \<in> set ps"
    unfolding final_instr_def by blast
qed

lemma missing_writes_acc:
  "set acc \<union> (set ws - set rw - set cl) \<subseteq>
     set (fold (\<lambda>l acc. if l \<notin> set rw \<and> l \<notin> set (cl @ acc) then acc @ [l] else acc) ws acc)"
proof (induction ws arbitrary: acc)
  case (Cons w ws)
  show ?case using Cons.IH [of acc] Cons.IH [of "acc @ [w]"] by auto
qed simp

lemma missing_writes_covers: "set ws \<subseteq> set rw \<union> set cl \<union> set (missing_writes rw cl ws)"
  using missing_writes_acc [of "[]" ws rw cl] unfolding missing_writes_def by blast

lemma clobbers_written: "BInstr f \<in> set ps \<Longrightarrow> set (clobbers f) \<subseteq> set (body_writes ps)"
  by (force simp: set_body_writes part_writes_def ins_writes_def)

text \<open>The locations written by the output so far and by the rest of the input.\<close>

definition pending_writes :: "matcher \<Rightarrow> location set" where
  "pending_writes m = set (body_writes (mt_output m @ drop (mt_index m) (mt_input m)))"

section \<open>The contract of a list of patterns\<close>

locale pattern_list =
  fixes arch :: arch_asm and pats :: "asm_pattern list"
  assumes parse_no_fuel: "no_fuel (arch_parse arch m as mt)"
    and pat_no_fuel: "p \<in> set pats \<Longrightarrow> mt_index mt' < length (mt_input mt') \<Longrightarrow> no_fuel (p mt')"
    and pat_consumes: "p \<in> set pats \<Longrightarrow> p mt' = Inr (Some r) \<Longrightarrow>
      mt_index mt' < length (mt_input mt') \<Longrightarrow> 0 < num_consumed r \<and> repl_clobbers r = None"
begin

lemma no_fuel_build_parts: "no_fuel (build_parts arch mt n ps)"
  by (induction ps arbitrary: n)
    (auto intro!: no_fuel_ebind parse_no_fuel split: repl_part.split)

lemma no_fuel_apply_repl: "no_fuel (apply_repl arch r m)"
  unfolding apply_repl_def Let_def
  by (auto intro!: no_fuel_ebind no_fuel_build_parts simp: extra_clobbers_def split: option.split)

lemma apply_repl_index:
  assumes "apply_repl arch r m = Inr m'"
  shows "mt_index m' = mt_index m + num_consumed r" and "length (mt_input m') = length (mt_input m)"
  using assms by (auto simp: apply_repl_def Let_def)

lemma no_fuel_pattern_loop:
  assumes "p \<in> set pats" and "length (mt_input m) \<le> mt_index m + k"
  shows "no_fuel (pattern_loop k arch p m)"
  using assms(2)
proof (induction k arbitrary: m)
  case (Suc k)
  show ?case
  proof (cases "mt_index m < length (mt_input m)")
    case True
    have "no_fuel (pattern_loop k arch p m')"
      if "p m = Inr (Some r)" and "apply_repl arch r m = Inr m'" for r m'
      using Suc.prems apply_repl_index [OF that(2)] pat_consumes [OF assms(1) that(1) True]
      by (intro Suc.IH) linarith
    with True Suc show ?thesis
      by (auto intro!: no_fuel_ebind no_fuel_apply_repl pat_no_fuel [OF assms(1)] split: option.split)
  qed simp
qed simp

lemma apply_repl_writes:
  assumes "apply_repl arch r m = Inr m'" and cl: "repl_clobbers r = None"
  shows "pending_writes m \<subseteq> pending_writes m'"
proof -
  define consumed where "consumed = take (num_consumed r) (drop (mt_index m) (mt_input m))"
  define rest where "rest = drop (num_consumed r) (drop (mt_index m) (mt_input m))"
  from assms(1) obtain parts n' extra where
    ex: "extra_clobbers r consumed parts = Inr extra" and
    m': "m' = (let upd = (case final_instr parts of Some f \<Rightarrow> add_clobbers (ins_id f) extra | None \<Rightarrow> id)
           in m\<lparr>mt_output := map upd (mt_output m @ parts), mt_input := map upd (mt_input m),
                mt_index := mt_index m + num_consumed r, mt_next := n'\<rparr>)"
    by (auto simp: apply_repl_def Let_def consumed_def)
  have before: "pending_writes m = set (body_writes (mt_output m)) \<union> set (body_writes consumed) \<union> set (body_writes rest)"
    unfolding pending_writes_def consumed_def rest_def
    by (metis append_take_drop_id body_writes_append set_append sup_assoc)
  show ?thesis
  proof (cases "final_instr parts")
    case None
    with ex cl have "body_writes consumed = []" by (auto simp: extra_clobbers_def split: if_splits)
    with before show ?thesis
      by (auto simp: pending_writes_def m' Let_def None rest_def add.commute)
  next
    case (Some f)
    let ?upd = "add_clobbers (ins_id f) extra"
    have f: "BInstr f \<in> set parts" using Some by (rule final_instr_in)
    have after: "pending_writes m' = set (body_writes (map ?upd (mt_output m))) \<union>
        set (body_writes (map ?upd parts)) \<union> set (body_writes (map ?upd rest))"
      by (auto simp: pending_writes_def m' Let_def Some rest_def add.commute drop_map)
    have "?upd (BInstr f) \<in> set (map ?upd parts)" using f by simp
    then have extra_in: "set extra \<subseteq> set (body_writes (map ?upd parts))"
      using part_writes_added [of f "ins_id f" extra] by (fastforce simp: set_body_writes)
    from ex cl Some have "extra = missing_writes (body_writes parts) (clobbers f) (body_writes consumed)"
      by (simp add: extra_clobbers_def)
    with missing_writes_covers [of "body_writes consumed" "body_writes parts" "clobbers f"]
    have "set (body_writes consumed) \<subseteq> set (body_writes parts) \<union> set (clobbers f) \<union> set extra" by simp
    with clobbers_written [OF f] extra_in body_writes_add_clobbers [of parts "ins_id f" extra]
    have "set (body_writes consumed) \<subseteq> set (body_writes (map ?upd parts))" by blast
    with before after body_writes_add_clobbers [of "mt_output m" "ins_id f" extra]
      body_writes_add_clobbers [of rest "ins_id f" extra]
    show ?thesis by blast
  qed
qed

lemma pattern_loop_writes:
  assumes "p \<in> set pats" and "pattern_loop k arch p m = Inr m'"
  shows "pending_writes m \<subseteq> pending_writes m' \<and> length (mt_input m') \<le> mt_index m'"
  using assms(2)
proof (induction k arbitrary: m)
  case (Suc k)
  show ?case
  proof (cases "mt_index m < length (mt_input m)")
    case True
    with Suc.prems obtain r where pm: "p m = Inr r" and
      rest: "(case r of Some rp \<Rightarrow> ebind (apply_repl arch rp m) (pattern_loop k arch p)
          | None \<Rightarrow> pattern_loop k arch p (m\<lparr>mt_output := mt_output m @ [mt_input m ! mt_index m],
                mt_index := Suc (mt_index m)\<rparr>)) = Inr m'"
      by auto
    show ?thesis
    proof (cases r)
      case None
      let ?m1 = "m\<lparr>mt_output := mt_output m @ [mt_input m ! mt_index m], mt_index := Suc (mt_index m)\<rparr>"
      have "pending_writes ?m1 = pending_writes m"
        using True by (simp add: pending_writes_def flip: Cons_nth_drop_Suc)
      with Suc.IH [of ?m1] rest None show ?thesis by simp
    next
      case (Some rp)
      with rest obtain m1 where m1: "apply_repl arch rp m = Inr m1" and "pattern_loop k arch p m1 = Inr m'"
        by auto
      with Suc.IH [of m1] apply_repl_writes [OF m1] pat_consumes [OF assms(1) pm [unfolded Some] True]
      show ?thesis by (metis subset_trans)
    qed
  qed (use Suc.prems in simp)
qed (simp split: if_splits)

lemma pass_no_fuel: "set ps \<subseteq> set pats \<Longrightarrow> no_fuel (simplify_patterns_aux arch d ls ps body n)"
  by (induction ps arbitrary: body n) (auto intro!: no_fuel_ebind no_fuel_pattern_loop)

lemma pass_writes:
  "set ps \<subseteq> set pats \<Longrightarrow> simplify_patterns_aux arch d ls ps body n = Inr (body', n') \<Longrightarrow>
     set (body_writes body) \<subseteq> set (body_writes body')"
proof (induction ps arbitrary: body n)
  case (Cons p ps)
  from Cons.prems obtain m where
    loop: "pattern_loop (length body) arch p \<lparr>mt_data = d, mt_input = body, mt_labels = ls,
              mt_output = [], mt_index = 0, mt_next = n\<rparr> = Inr m" and
    rest: "simplify_patterns_aux arch d ls ps (mt_output m) (mt_next m) = Inr (body', n')" and
    p: "p \<in> set pats"
    by auto
  from pattern_loop_writes [OF p loop] have "set (body_writes body) \<subseteq> set (body_writes (mt_output m))"
    by (auto simp: pending_writes_def)
  with Cons.IH [OF _ rest] Cons.prems show ?case by auto
qed simp

theorem simplify_no_fuel: "no_fuel (simplify_patterns arch d pats body n)"
  by (simp add: simplify_patterns_def pass_no_fuel)

theorem simplify_writes:
  "simplify_patterns arch d pats body n = Inr (body', n') \<Longrightarrow> set (body_writes body) \<subseteq> set (body_writes body')"
  by (auto simp: simplify_patterns_def dest!: pass_writes [rotated])

end


section \<open>Matching never runs out of fuel\<close>

lemma no_fuel_py_shl [no_fuel_intros]: "no_fuel (py_shl a b)"
  by (simp add: py_shl_def)

lemma no_fuel_eval_math [no_fuel_intros]: "no_fuel (eval_math lits e)"
  by (induction e) (auto intro!: no_fuel_ebind no_fuel_py_shl split: option.split)

lemma no_fuel_and_then [no_fuel_intros]:
  "no_fuel m \<Longrightarrow> (\<And>s. no_fuel (f s)) \<Longrightarrow> no_fuel (and_then m f)"
  by (auto simp: and_then_def intro!: no_fuel_ebind)

lemma no_fuel_match_arg [no_fuel_intros]: "no_fuel (match_arg a e s)"
proof (induction e arbitrary: a s)
  case (BinOp op l r)
  then show ?case
    by (auto intro!: no_fuel_and_then no_fuel_ebind no_fuel_eval_math simp del: eval_math.simps split: argument.split)
qed (auto intro!: no_fuel_and_then split: argument.split)

lemma no_fuel_match_args [no_fuel_intros]: "no_fuel (match_args as es s)"
  by (induction as es s rule: match_args.induct) (auto intro!: no_fuel_and_then no_fuel_match_arg)

lemma no_fuel_match_one [no_fuel_intros]: "no_fuel (match_one p e s)"
  by (auto simp: match_one_def match_label_def_def intro!: no_fuel_ebind no_fuel_match_args
      split: pattern_part.split body_part.split)

lemma no_fuel_match_meta [no_fuel_intros]: "no_fuel (match_meta i s)"
  by (auto simp: match_meta_def intro!: no_fuel_ebind no_fuel_eval_math no_fuel_match_arg split: list.split)

lemma no_fuel_is_meta [no_fuel_intros]: "no_fuel (is_meta p)"
  by (auto simp: is_meta_def split: pattern_part.split list.split)

lemma no_fuel_match_loop [no_fuel_intros]: "no_fuel (match_loop inp ps i s)"
  by (induction inp ps i s rule: match_loop.induct)
    (auto intro!: no_fuel_ebind no_fuel_is_meta no_fuel_match_meta no_fuel_match_one split: pattern_part.split)

lemma no_fuel_try_match [no_fuel_intros]: "no_fuel (try_match m pat)"
  by (auto simp: try_match_def intro!: no_fuel_ebind no_fuel_match_loop)

lemma no_fuel_make_pattern [no_fuel_intros]: "no_fuel (make_pattern parts)"
  by (auto simp: make_pattern_def make_pattern_part_def Let_def parse_asm_instruction_def naive_parsing_arch_def
      intro!: no_fuel_emap no_fuel_ebind no_fuel_parse_args split: prod.split)

lemma no_fuel_simple_match [no_fuel_intros]: "(\<And>m. no_fuel (f m)) \<Longrightarrow> no_fuel (simple_match parts f mt)"
  by (auto simp: simple_match_def intro!: no_fuel_ebind no_fuel_make_pattern no_fuel_try_match split: option.split)

section \<open>Patterns whose parts are all required\<close>

definition required_part :: "pattern_part \<times> bool \<Rightarrow> bool" where
  "required_part pt \<longleftrightarrow> \<not> snd pt \<and> is_meta (fst pt) = Inr False"

lemma match_loop_required_Cons:
  assumes "match_loop inp (pt # ps) i s = Inr (Some (j, s'))" and "required_part pt"
  obtains s1 where "i < length inp" and "match_one (inp ! i) (fst pt) s = Inr (True, s1)"
    and "match_loop inp ps (Suc i) s1 = Inr (Some (j, s'))"
  using assms by (cases pt) (auto simp: required_part_def split: if_splits)

lemma match_loop_required:
  "match_loop inp pat i s = Inr (Some (j, s')) \<Longrightarrow> list_all required_part pat \<Longrightarrow>
     j = i + length pat \<and> (pat \<noteq> [] \<longrightarrow> j \<le> length inp)"
proof (induction pat arbitrary: i s)
  case (Cons pt ps)
  from Cons.prems obtain s1 where "i < length inp" and
    rest: "match_loop inp ps (Suc i) s1 = Inr (Some (j, s'))"
    by (auto elim: match_loop_required_Cons)
  with Cons.IH [OF rest] Cons.prems show ?case by (cases "ps = []") auto
qed simp

lemma try_match_required:
  assumes "try_match m pat = Inr (Some am)" and "list_all required_part pat" and "pat \<noteq> []"
  shows "length (am_body am) = length pat" and "mt_index m + length pat \<le> length (mt_input m)"
  using assms match_loop_required [of "mt_input m" pat "mt_index m" empty_match_state]
  by (auto simp: try_match_def)

section \<open>The parts of the patterns of the target\<close>

lemma access_text_part:
  assumes "make_pattern_part (access_text mn r i b) = Inr pt" and "mn \<in> {''lwz'', ''stw'', ''lhz'', ''sth'', ''lbz'', ''stb''}"
  shows "\<exists>e. pt = (PInstr e, False) \<and> ai_mnemonic e = mn"
proof -
  have "access_text mn r i b = (mn @ '' $'' @ [r] @ '', (I+'' @ py_str_int i @ '')($'' @ [b]) @ '')''"
    by (simp add: access_text_def)
  then obtain t where t: "access_text mn r i b = mn @ '' '' @ t @ '')''"
    by (metis access_text_def append_Cons append_Nil append.assoc)
  have "py_strip (access_text mn r i b) = access_text mn r i b"
    using assms(2) by (auto simp: t py_strip_def py_lstrip_def py_rstrip_def py_isspace_def ccode_def)
  moreover have "py_partition (access_text mn r i b) (CHR '' '') = (mn, t @ '')'')"
    using assms(2) by (auto simp: t py_partition_def)
  moreover have "rstrip_char (CHR ''?'') (access_text mn r i b) = access_text mn r i b"
    by (simp add: rstrip_char_def t)
  moreover have "access_text mn r i b \<noteq> ''*''" "\<not> py_endswith (access_text mn r i b) '':''"
      "\<not> py_endswith (access_text mn r i b) ''?''"
    by (simp_all add: t py_endswith_iff suffix_def)
  moreover have "py_lower mn = mn"
    using assms(2) by (auto simp: py_lower_def lower_char_def ascii_upper_def ccode_def)
  ultimately show ?thesis
    using assms(1) by (auto simp: make_pattern_part_def Let_def parse_asm_instruction_def naive_parsing_arch_def)
qed

lemma emap_list_all2: "emap f xs = Inr ys \<Longrightarrow> list_all2 (\<lambda>x y. f x = Inr y) xs ys"
  by (induction xs arbitrary: ys) auto

definition part_mnemonic :: "pattern_part \<times> bool \<Rightarrow> string" where
  "part_mnemonic pt = (case fst pt of PInstr e \<Rightarrow> ai_mnemonic e | _ \<Rightarrow> [])"

definition required_instr :: "pattern_part \<times> bool \<Rightarrow> bool" where
  "required_instr pt \<longleftrightarrow> (\<exists>e. pt = (PInstr e, False) \<and> ai_mnemonic e \<noteq> [] \<and> hd (ai_mnemonic e) \<noteq> CHR ''.'')"

lemma required_instr_part: "required_instr pt \<Longrightarrow> required_part pt"
  by (auto simp: required_instr_def required_part_def is_meta_def split: list.split)

lemma required_instrs_parts: "list_all required_instr pat \<Longrightarrow> list_all required_part pat"
  by (auto simp: list_all_iff required_instr_part)

lemma access_text_required:
  assumes "make_pattern_part (access_text mn r i b) = Inr pt" and "mn \<in> {''lwz'', ''stw'', ''lhz'', ''sth'', ''lbz'', ''stb''}"
  shows "required_instr pt \<and> part_mnemonic pt = mn"
  using access_text_part [OF assms] assms(2) by (auto simp: required_instr_def part_mnemonic_def)

lemma copy_pair_pattern:
  assumes "make_pattern (copy_pair i) = Inr p"
  shows "list_all required_instr p \<and> map part_mnemonic p = [''lwz'', ''lwz'', ''stw'', ''stw'']"
  using emap_list_all2 [OF assms [unfolded make_pattern_def copy_pair_def]]
  by (auto simp: list_all2_Cons1 dest!: access_text_required)

lemma copy_tail_pattern:
  assumes "make_pattern (copy_tail ld st i) = Inr p" and "{ld, st} \<subseteq> {''lwz'', ''stw'', ''lhz'', ''sth'', ''lbz'', ''stb''}"
  shows "list_all required_instr p \<and> map part_mnemonic p = [ld, st]"
  using emap_list_all2 [OF assms(1) [unfolded make_pattern_def copy_tail_def]] assms(2)
  by (auto simp: list_all2_Cons1 simp del: insert_iff dest!: access_text_required)

lemmas ppc_compiled = fcmpo_cror_pattern mfcr_pattern boolcast_pattern fp2unsigned_pattern structcopy_pattern

definition good_parts :: "string list \<Rightarrow> bool" where
  "good_parts parts \<longleftrightarrow> (case make_pattern parts of Inr p \<Rightarrow> list_all required_part p \<and> p \<noteq> [] | Inl _ \<Rightarrow> False)"

lemma good_parts_ppc: "good_parts fcmpo_cror_parts" "good_parts mfcr_parts" "good_parts boolcast_parts"
  "good_parts [''bl __cvt_fp2unsigned'']" "good_parts structcopy_parts"
  by (simp_all add: good_parts_def ppc_compiled required_part_def is_meta_def pat_ins_def)

lemma simple_match_body:
  assumes "simple_match parts f mt = Inr (Some r)" and "good_parts parts"
  obtains am where "f am = Inr (Some r)" and "0 < length (am_body am)"
proof -
  from assms obtain pat am where "make_pattern parts = Inr pat" "try_match mt pat = Inr (Some am)" "f am = Inr (Some r)"
    by (auto simp: simple_match_def split: option.splits)
  with assms(2) try_match_required(1) [of mt pat am] that [of am] show ?thesis
    by (cases "am_body am") (auto simp: good_parts_def)
qed

lemma body_mnemonics_matched:
  "match_loop inp pat i s = Inr (Some (j, s')) \<Longrightarrow> list_all required_instr pat \<Longrightarrow>
     map (\<lambda>p. case p of BInstr x \<Rightarrow> ins_mnemonic x | BLabel _ \<Rightarrow> []) (take (j - i) (drop i inp)) = map part_mnemonic pat"
proof (induction pat arbitrary: i s)
  case (Cons pt ps)
  from Cons.prems obtain s1 where i: "i < length inp" and one: "match_one (inp ! i) (fst pt) s = Inr (True, s1)" and
    rest: "match_loop inp ps (Suc i) s1 = Inr (Some (j, s'))"
    by (auto elim!: match_loop_required_Cons dest: required_instr_part)
  from match_loop_required [OF rest] Cons.prems(2) have j: "j = Suc i + length ps"
    by (simp add: required_instrs_parts)
  have "drop i inp = inp ! i # drop (Suc i) inp" using i by (rule Cons_nth_drop_Suc [symmetric])
  moreover have "(case inp ! i of BInstr x \<Rightarrow> ins_mnemonic x | BLabel _ \<Rightarrow> []) = part_mnemonic pt"
    using one Cons.prems(2)
    by (auto simp: required_instr_def part_mnemonic_def match_one_def split: body_part.splits if_splits)
  ultimately show ?case using Cons.IH [OF rest] Cons.prems(2) j by (simp add: Suc_diff_le)
qed simp

section \<open>Struct copies\<close>

definition body_mnemonic :: "body_part \<Rightarrow> string" where
  "body_mnemonic p = (case p of BInstr x \<Rightarrow> ins_mnemonic x | BLabel _ \<Rightarrow> [])"

definition access_bytes :: "string list \<Rightarrow> string \<Rightarrow> int" where
  "access_bytes ws m = (case ws of [w, h, b] \<Rightarrow> if m = w then 4 else if m = h then 2 else if m = b then 1 else 0 | _ \<Rightarrow> 0)"

definition loaded_bytes :: "body_part list \<Rightarrow> int" where
  "loaded_bytes ps = sum_list (map (access_bytes [''lwz'', ''lhz'', ''lbz''] \<circ> body_mnemonic) ps)"

definition stored_bytes :: "body_part list \<Rightarrow> int" where
  "stored_bytes ps = sum_list (map (access_bytes [''stw'', ''sth'', ''stb''] \<circ> body_mnemonic) ps)"

text \<open>What the loop keeps: the pattern so far matches, and its accesses add up to \<open>i\<close> bytes.\<close>

definition copy_inv :: "matcher \<Rightarrow> asm_match \<times> int \<times> pattern \<Rightarrow> bool" where
  "copy_inv mt = (\<lambda>(m, i, ext). try_match mt ext = Inr (Some m) \<and> list_all required_instr ext \<and> 4 \<le> length ext \<and>
     sum_list (map (access_bytes [''lwz'', ''lhz'', ''lbz''] \<circ> part_mnemonic) ext) = i \<and>
     sum_list (map (access_bytes [''stw'', ''sth'', ''stb''] \<circ> part_mnemonic) ext) = i)"

lemma sum_map_comp: "sum_list (map (f \<circ> g) xs) = sum_list (map f (map g xs))"
  by simp

lemma copy_inv_length: "copy_inv mt (m, i, ext) \<Longrightarrow> mt_index mt + length ext \<le> length (mt_input mt)"
  unfolding copy_inv_def using try_match_required(2) [of mt ext m] required_instrs_parts by fastforce

lemma copy_inv_pair:
  assumes "copy_inv mt (m, i, ext)" and "make_pattern (copy_pair i) = Inr p" and "try_match mt (ext @ p) = Inr (Some m2)"
  shows "copy_inv mt (m2, i + 8, ext @ p)"
  using assms(1,3) copy_pair_pattern [OF assms(2)]
  by (simp add: copy_inv_def sum_map_comp access_bytes_def del: map_map)

lemma copy_inv_loop:
  "copy_loop k mt m i ext = Inr st \<Longrightarrow> copy_inv mt (m, i, ext) \<Longrightarrow> copy_inv mt st"
proof (induction k mt m i ext rule: copy_loop.induct)
  case (2 k mt m i ext)
  from 2(2) obtain p r where "make_pattern (copy_pair i) = Inr p" and "try_match mt (ext @ p) = Inr r"
    and "(case r of Some m2 \<Rightarrow> copy_loop k mt m2 (i + 8) (ext @ p) | None \<Rightarrow> Inr (m, i, ext)) = Inr st"
    by auto
  with 2 show ?case by (cases r) (auto intro: copy_inv_pair)
qed simp

lemma no_fuel_copy_loop:
  assumes "copy_inv mt (m, i, ext)" and "length (mt_input mt) < mt_index mt + length ext + 4 * k"
  shows "no_fuel (copy_loop k mt m i ext)"
  using assms
proof (induction k mt m i ext rule: copy_loop.induct)
  case (2 k mt m i ext)
  have "no_fuel (copy_loop k mt m2 (i + 8) (ext @ p))"
    if "make_pattern (copy_pair i) = Inr p" and "try_match mt (ext @ p) = Inr (Some m2)" for p m2
  proof -
    from copy_pair_pattern [OF that(1)] have "length p = 4" by (auto dest!: arg_cong [of _ _ length])
    with 2(1) [OF that refl copy_inv_pair [OF 2(2) that]] 2(3) show ?thesis by simp
  qed
  then show ?case by (auto intro!: no_fuel_ebind no_fuel_make_pattern no_fuel_try_match split: option.split)
qed (use copy_inv_length in fastforce)

definition tail_sizes :: "(string \<times> string \<times> int) list" where
  "tail_sizes = [(''lwz'', ''stw'', 4), (''lhz'', ''sth'', 2), (''lbz'', ''stb'', 1)]"

lemma copy_inv_end:
  assumes "copy_inv mt st" and "copy_end ld sto sz mt st = Inr st'" and "(ld, sto, sz) \<in> set tail_sizes"
  shows "copy_inv mt st'"
proof -
  obtain m i ext where st: "st = (m, i, ext)" by (cases st)
  show ?thesis
    using assms(1,2) unfolding st copy_end_def
  proof (clarsimp split: option.splits)
    fix p m2
    assume p: "make_pattern (copy_tail ld sto i) = Inr p" and "try_match mt (ext @ p) = Inr (Some m2)"
      and "copy_inv mt (m, i, ext)"
    moreover have "list_all required_instr p \<and> map part_mnemonic p = [ld, sto]"
      using copy_tail_pattern [OF p] assms(3) by (auto simp: tail_sizes_def)
    ultimately show "copy_inv mt (m2, i + sz, ext @ p)"
      using assms(3) by (auto simp: copy_inv_def sum_map_comp access_bytes_def tail_sizes_def simp del: map_map)
  qed
qed

lemma no_fuel_copy_end: "no_fuel (copy_end ld sto sz mt st)"
  by (auto simp: copy_end_def intro!: no_fuel_ebind no_fuel_make_pattern no_fuel_try_match
      split: option.split prod.split)

lemma required_instrI:
  "part_mnemonic (p, False) = c # w \<Longrightarrow> c \<noteq> CHR ''.'' \<Longrightarrow> required_instr (p, False)"
  by (auto simp: required_instr_def part_mnemonic_def split: pattern_part.splits)

lemma copy_inv_start:
  assumes "make_pattern structcopy_parts = Inr pat" and "try_match mt pat = Inr (Some m0)"
  shows "copy_inv mt (m0, 8, pat)"
proof -
  from assms(1) have p: "map snd pat = [False, False, False, False]" "map part_mnemonic pat = [''lwz'', ''lwz'', ''stw'', ''stw'']"
    by (auto simp: ppc_compiled pat_ins_def part_mnemonic_def)
  then have "list_all required_instr pat"
    by (auto simp: map_eq_Cons_conv intro: required_instrI)
  with assms p show ?thesis
    by (auto simp: copy_inv_def sum_map_comp access_bytes_def simp del: map_map dest: arg_cong [of _ _ length])
qed

lemma copy_inv_body:
  assumes "copy_inv mt (m, i, ext)"
  shows "loaded_bytes (am_body m) = i" and "stored_bytes (am_body m) = i" and "0 < length (am_body m)"
    and "am_body m = take (length (am_body m)) (drop (mt_index mt) (mt_input mt))"
proof -
  from assms obtain j s' where loop: "match_loop (mt_input mt) ext (mt_index mt) empty_match_state = Inr (Some (j, s'))"
    and body: "am_body m = take (j - mt_index mt) (drop (mt_index mt) (mt_input mt))" and req: "list_all required_instr ext"
    by (auto simp: copy_inv_def try_match_def)
  have mn: "map body_mnemonic (am_body m) = map part_mnemonic ext"
    using body_mnemonics_matched [OF loop req] by (simp add: body body_mnemonic_def cong: map_cong)
  with assms show "loaded_bytes (am_body m) = i" "stored_bytes (am_body m) = i"
    by (simp_all add: copy_inv_def loaded_bytes_def stored_bytes_def sum_map_comp del: map_map)
  from mn have "length (am_body m) = length ext" by (metis length_map)
  with assms show "0 < length (am_body m)" by (auto simp: copy_inv_def)
  show "am_body m = take (length (am_body m)) (drop (mt_index mt) (mt_input mt))" unfolding body by (simp add: min_def)
qed

lemma StructCopy_result:
  assumes "StructCopyPattern mt = Inr (Some r)"
  obtains m i ext d s where "copy_inv mt (m, i, ext)" and "am_regs m ''d'' = Some d" and "am_regs m ''s'' = Some s"
    and "r = \<lparr>new_body = [rasm ''structcopy.fictive'' [Reg d, Reg s, lit i]], num_consumed = length (am_body m), repl_clobbers = None\<rparr>"
proof -
  from assms obtain pat m0 s1 s2 s3 m i ext d s where pat: "make_pattern structcopy_parts = Inr pat"
    and m0: "try_match mt pat = Inr (Some m0)" and s1: "copy_loop (length (mt_input mt)) mt m0 8 pat = Inr s1"
    and s2: "copy_end ''lwz'' ''stw'' 4 mt s1 = Inr s2" and s3: "copy_end ''lhz'' ''sth'' 2 mt s2 = Inr s3"
    and s4: "copy_end ''lbz'' ''stb'' 1 mt s3 = Inr (m, i, ext)"
    and regs: "dict_get (am_regs m) ''d'' = Inr d" "dict_get (am_regs m) ''s'' = Inr s"
    and r: "repl [rasm ''structcopy.fictive'' [Reg d, Reg s, lit i]] (length (am_body m)) = Inr (Some r)"
    unfolding StructCopyPattern_def by (auto split: option.splits)
  have "copy_inv mt s1" using copy_inv_loop [OF s1 copy_inv_start [OF pat m0]] .
  then have "copy_inv mt s2" by (rule copy_inv_end [OF _ s2]) (simp add: tail_sizes_def)
  then have "copy_inv mt s3" by (rule copy_inv_end [OF _ s3]) (simp add: tail_sizes_def)
  then have "copy_inv mt (m, i, ext)" by (rule copy_inv_end [OF _ s4]) (simp add: tail_sizes_def)
  with that regs r show ?thesis by (auto simp: dict_get_def repl_def split: option.splits)
qed

lemma no_fuel_StructCopy: "no_fuel (StructCopyPattern mt)"
proof -
  have "no_fuel (copy_loop (length (mt_input mt)) mt m0 8 pat)"
    if "make_pattern structcopy_parts = Inr pat" and "try_match mt pat = Inr (Some m0)" for pat m0
  proof -
    have inv: "copy_inv mt (m0, 8, pat)" using that by (rule copy_inv_start)
    then have "4 \<le> length pat" by (simp add: copy_inv_def)
    with inv show ?thesis by (intro no_fuel_copy_loop) auto
  qed
  then show ?thesis
    unfolding StructCopyPattern_def dict_get_def repl_def
    by (auto intro!: no_fuel_ebind no_fuel_make_pattern no_fuel_try_match no_fuel_copy_end split: option.split)
qed

section \<open>The patterns of the PowerPC target\<close>

lemma repl_Some: "repl ps k = Inr (Some r) \<longleftrightarrow> r = \<lparr>new_body = ps, num_consumed = k, repl_clobbers = None\<rparr>"
  by (auto simp: repl_def)

lemma no_fuel_repl [no_fuel_intros]: "no_fuel (repl ps k)"
  by (simp add: repl_def)

lemma no_fuel_dict_get [no_fuel_intros]: "no_fuel (dict_get d k)"
  by (simp add: dict_get_def split: option.split)

lemma no_fuel_body_instr [no_fuel_intros]: "no_fuel (body_instr m k)"
  by (simp add: body_instr_def split: body_part.split)

lemma no_fuel_arg_at [no_fuel_intros]: "no_fuel (arg_at i k)"
  by (simp add: arg_at_def)

lemma no_fuel_find_addend [no_fuel_intros]: "no_fuel (find_addend ps)"
  by (induction ps rule: find_addend.induct)
    (auto simp: stack_addend_def intro!: no_fuel_ebind no_fuel_arg_at split: option.split argument.split)

lemmas small_no_fuel = no_fuel_ebind no_fuel_repl no_fuel_dict_get no_fuel_body_instr no_fuel_arg_at
  no_fuel_find_addend no_fuel_simple_match no_fuel_py_int

lemmas simple_pattern_defs = FcmpoCrorPattern_def MfcrPattern_def BoolCastPattern_def FloatishToUintPattern_def

lemmas matcher_pattern_defs = TailCallPattern_def BranchCtrPattern_def SaveRestoreRegsFnPattern_def

lemma ppc_patterns_no_fuel: "p \<in> set ppc_asm_patterns \<Longrightarrow> no_fuel (p mt)"
  by (auto simp: ppc_asm_patterns_def simple_pattern_defs matcher_pattern_defs no_fuel_StructCopy Let_def
      intro!: small_no_fuel split: option.split body_part.split)

lemma simple_patterns_consume:
  assumes "p \<in> {FcmpoCrorPattern, MfcrPattern, BoolCastPattern, FloatishToUintPattern}" and "p mt = Inr (Some r)"
  shows "0 < num_consumed r \<and> repl_clobbers r = None"
proof -
  have "p mt = Inr (Some r) \<Longrightarrow> p \<in> {FcmpoCrorPattern, MfcrPattern, BoolCastPattern, FloatishToUintPattern} \<Longrightarrow>
      \<exists>parts f. p = simple_match parts f \<and> good_parts parts \<and>
        (\<forall>am. f am = Inr (Some r) \<longrightarrow> num_consumed r = length (am_body am) \<and> repl_clobbers r = None)"
    unfolding simple_pattern_defs using good_parts_ppc
    by (elim insertE emptyE) (fastforce simp: repl_Some Let_def split: option.splits if_splits)+
  with assms show ?thesis by (metis simple_match_body)
qed

lemma matcher_patterns_consume:
  assumes "p \<in> {TailCallPattern, BranchCtrPattern, SaveRestoreRegsFnPattern}" and "p mt = Inr (Some r)"
  shows "0 < num_consumed r \<and> repl_clobbers r = None"
  using assms
  by (auto simp: matcher_pattern_defs repl_Some Let_def split: body_part.splits if_splits option.splits)

lemma StructCopy_consumes: "StructCopyPattern mt = Inr (Some r) \<Longrightarrow> 0 < num_consumed r \<and> repl_clobbers r = None"
  by (elim StructCopy_result) (auto dest: copy_inv_body(3))

lemma ppc_patterns_consume:
  "p \<in> set ppc_asm_patterns \<Longrightarrow> p mt = Inr (Some r) \<Longrightarrow> 0 < num_consumed r \<and> repl_clobbers r = None"
  unfolding ppc_asm_patterns_def
  using simple_patterns_consume matcher_patterns_consume StructCopy_consumes by (metis insertCI insertE list.set singletonD)

lemma no_fuel_make_memory_access [no_fuel_intros]: "no_fuel (make_memory_access a sz)"
  by (auto simp: make_memory_access_def intro!: no_fuel_ebind split: argument.split option.split location.split)

lemma no_fuel_multiple_words: "no_fuel (multiple_words b k off)"
  by (induction b k off rule: multiple_words.induct)
    (subst multiple_words.simps, auto intro!: no_fuel_ebind no_fuel_make_memory_access)

lemmas operand_defs = expect_reg_def known_size_def indexed_operands_def address_operand_def

lemma no_fuel_operands [no_fuel_intros]:
  "no_fuel (expect_reg as k)" "no_fuel (known_size m)" "no_fuel (indexed_operands m as)" "no_fuel (address_operand m as)"
  by (auto simp: operand_defs split: option.split argument.split)

lemma no_fuel_jump_target [no_fuel_intros]: "no_fuel (get_jump_target a)"
  by (simp add: get_jump_target_def split: option.split)

lemmas parse_no_fuel_rules = no_fuel_ebind no_fuel_operands no_fuel_make_memory_access no_fuel_jump_target
  no_fuel_multiple_words no_fuel_py_int

lemma no_fuel_branches:
  "no_fuel (parse_store u m as i)" "no_fuel (parse_load m as i)" "no_fuel (parse_load_update m as i)"
  "no_fuel (parse_multiple m as i)" "no_fuel (parse_dest_first m as i)" "no_fuel (parse_branch b as i)"
  by (auto simp: parse_store_def parse_load_def parse_load_update_def parse_multiple_def parse_dest_first_def
      dest_first_inputs_def parse_branch_def intro!: parse_no_fuel_rules split: argument.split list.split)

lemma no_fuel_case_option [no_fuel_intros]:
  "no_fuel x \<Longrightarrow> (\<And>v. no_fuel (f v)) \<Longrightarrow> no_fuel (case r of None \<Rightarrow> x | Some v \<Rightarrow> f v)"
  by (cases r) simp_all

lemma no_fuel_one_reg: "no_fuel (case as of [Reg r] \<Rightarrow> Inr (f r) | _ \<Rightarrow> Inl AssertionError)"
  by (simp split: list.split argument.split)

lemma no_fuel_ppc_parse [no_fuel_intros]: "no_fuel (ppc_parse m as mt)"
  unfolding ppc_parse_def Let_def
  by (intro no_fuel_if no_fuel_ebind no_fuel_assert no_fuel_Inr no_fuel_branches no_fuel_jump_target
      no_fuel_case_option no_fuel_one_reg)

interpretation ppc: pattern_list ppc_arch ppc_asm_patterns
  by unfold_locales (auto simp: ppc_arch_def no_fuel_ppc_parse intro: ppc_patterns_no_fuel dest: ppc_patterns_consume)


section \<open>Properties\<close>

text \<open>C27: The rewriting of a PowerPC function body by all eight patterns always ends: the fuel of
  the model, one unit per body part for each pattern and one per part for the struct copy, is
  never used up, whatever the body holds.\<close>

theorem ppc_simplify_ends: "simplify_patterns ppc_arch d ppc_asm_patterns body n \<noteq> Inl OutOfFuel"
  using ppc.simplify_no_fuel unfolding no_fuel_def .

text \<open>C7: Rewriting never hides a write: every register and stack word that an instruction of the
  original body sets or clobbers is still set or clobbered by an instruction of the new body.\<close>

theorem ppc_simplify_keeps_writes:
  assumes "simplify_patterns ppc_arch d ppc_asm_patterns body n = Inr (body', n')"
  shows "set (body_writes body) \<subseteq> set (body_writes body')"
  using assms by (rule ppc.simplify_writes)

text \<open>C28: When the struct-copy pattern replaces instructions, the size it records is the number of
  bytes the replaced instructions load, and also the number of bytes they store.\<close>

theorem structcopy_size:
  assumes "StructCopyPattern mt = Inr (Some r)"
  shows "\<exists>d s sz. new_body r = [rasm ''structcopy.fictive'' [Reg d, Reg s, AsmLiteral sz]] \<and>
     loaded_bytes (take (num_consumed r) (drop (mt_index mt) (mt_input mt))) = sz \<and>
     stored_bytes (take (num_consumed r) (drop (mt_index mt) (mt_input mt))) = sz"
proof -
  from assms obtain m i ext d s where inv: "copy_inv mt (m, i, ext)" and
    r: "r = \<lparr>new_body = [rasm ''structcopy.fictive'' [Reg d, Reg s, lit i]], num_consumed = length (am_body m), repl_clobbers = None\<rparr>"
    by (rule StructCopy_result)
  from copy_inv_body [OF inv] r show ?thesis by auto
qed

definition sample_access :: "nat \<Rightarrow> string \<Rightarrow> string \<Rightarrow> int \<Rightarrow> string \<Rightarrow> body_part" where
  "sample_access k mn r off b = BInstr (plain_instruction k mn
     [rg r, AsmAddressMode (Register b) (AsmLiteral off) None] meta_missing [] [] [])"

text \<open>Ten bytes copied from offset \<open>off\<close> of one struct to the same offset of another.\<close>

definition sample_copy :: "int \<Rightarrow> body_part list" where
  "sample_copy off =
     [sample_access 0 ''lwz'' ''r5'' off ''r4'', sample_access 1 ''lwz'' ''r0'' (off + 4) ''r4'',
      sample_access 2 ''stw'' ''r5'' off ''r3'', sample_access 3 ''stw'' ''r0'' (off + 4) ''r3'',
      sample_access 4 ''lhz'' ''r0'' (off + 8) ''r4'', sample_access 5 ''sth'' ''r0'' (off + 8) ''r3'']"

definition sample_data :: asm_data where
  "sample_data = \<lparr>ad_values = [], mentioned_labels = {}\<rparr>"

definition sample_copy_matcher :: "int \<Rightarrow> matcher" where
  "sample_copy_matcher off = \<lparr>mt_data = sample_data, mt_input = sample_copy off, mt_labels = {},
     mt_output = [], mt_index = 0, mt_next = 6\<rparr>"

definition sample_copy_repl :: replacement where
  "sample_copy_repl = \<lparr>new_body = [rasm ''structcopy.fictive'' [rg ''r3'', rg ''r4'', AsmLiteral 10]],
     num_consumed = 6, repl_clobbers = None\<rparr>"

lemma copy_pair_8: "make_pattern (copy_pair 8) =
    Inr [pat_ins ''lwz'' [rg ''a'', at_I 8 ''s''], pat_ins ''lwz'' [rg ''b'', at_I 12 ''s''],
         pat_ins ''stw'' [rg ''a'', at_I 8 ''d''], pat_ins ''stw'' [rg ''b'', at_I 12 ''d'']]"
  by code_simp

lemma copy_tails_8:
  "make_pattern (copy_tail ''lwz'' ''stw'' 8) = Inr [pat_ins ''lwz'' [rg ''b'', at_I 8 ''s''], pat_ins ''stw'' [rg ''b'', at_I 8 ''d'']]"
  "make_pattern (copy_tail ''lhz'' ''sth'' 8) = Inr [pat_ins ''lhz'' [rg ''b'', at_I 8 ''s''], pat_ins ''sth'' [rg ''b'', at_I 8 ''d'']]"
  "make_pattern (copy_tail ''lbz'' ''stb'' 10) = Inr [pat_ins ''lbz'' [rg ''b'', at_I 10 ''s''], pat_ins ''stb'' [rg ''b'', at_I 10 ''d'']]"
  by code_simp+

lemmas match_eval = try_match_def match_one_def pat_ins_def ins_def match_symbol_def match_reg_def match_var_def match_lit_def
  and_then_def is_meta_def py_startswith_def py_isupper_def ascii_upper_def ascii_lower_def ccode_def
  ARM_BARREL_SHIFTER_OPS_def empty_match_state_def plain_instruction_def

lemma copy_loop_6: "copy_loop 6 mt m i ext = copy_loop (Suc (Suc 4)) mt m i ext"
  by simp

lemma sample_copy_matches: "StructCopyPattern (sample_copy_matcher off) = Inr (Some sample_copy_repl)"
  by (simp add: StructCopyPattern_def structcopy_pattern copy_loop_6 copy_end_def copy_pair_8 copy_tails_8 sample_copy_matcher_def
      sample_copy_def sample_access_def match_eval sample_copy_repl_def dict_get_def repl_def rasm_def del: copy_loop.simps(1))

theorem structcopy_size_witness:
  "\<exists>d s sz. new_body sample_copy_repl = [rasm ''structcopy.fictive'' [Reg d, Reg s, AsmLiteral sz]] \<and>
     loaded_bytes (take (num_consumed sample_copy_repl) (drop (mt_index (sample_copy_matcher 16)) (mt_input (sample_copy_matcher 16)))) = sz \<and>
     stored_bytes (take (num_consumed sample_copy_repl) (drop (mt_index (sample_copy_matcher 16)) (mt_input (sample_copy_matcher 16)))) = sz"
  by (rule structcopy_size [OF sample_copy_matches])

text \<open>The struct-copy pattern forgets where the copied region starts: one and the same
  instruction replaces a ten-byte copy at any offset of the two structs.\<close>

theorem structcopy_offset_lost:
  "StructCopyPattern (sample_copy_matcher off) = StructCopyPattern (sample_copy_matcher off')"
  by (simp add: sample_copy_matches)

definition sample_bdnz :: "body_part list" where
  "sample_bdnz = [BInstr (plain_instruction 0 ''bdnz'' [AsmGlobalSymbol ''L1''] meta_missing [] []
     [RegLoc (Register ''ctr'')])]"

lemma arch_parse_ppc [simp]: "arch_parse ppc_arch = ppc_parse"
  by (simp add: ppc_arch_def)

lemmas table_defs = instrs_branches_def cond_returns_def instrs_store_def instrs_store_update_def instrs_load_def
  instrs_load_update_def instrs_no_dest_def instrs_destination_first_def instrs_dest_first_non_load_def

lemma parse_ctr_dec: "ppc_parse ''addi'' [rg ''ctr'', rg ''ctr'', lit (- 1)] mt =
    Inr ((base_ins ''addi'' [rg ''ctr'', rg ''ctr'', lit (- 1)] mt)\<lparr>inputs := [RegLoc (Register ''ctr'')], outputs := [RegLoc (Register ''ctr'')]\<rparr>)"
  by (simp add: ppc_parse_def Let_def table_defs rstrip_set_def parse_dest_first_def expect_reg_def reg_of_def dest_first_inputs_def
      is_address_def arg_regs_def py_startswith_def py_endswith_def List.map_filter_def)

lemma parse_bdnz_fictive: "ppc_parse ''bdnz.fictive'' [AsmGlobalSymbol n] mt =
    Inr ((base_ins ''bdnz.fictive'' [AsmGlobalSymbol n] mt)\<lparr>inputs := [RegLoc (Register ''ctr'')],
      ins_jump := Some (JumpTo (JumpTarget n)), is_conditional := True\<rparr>)"
  by (simp add: ppc_parse_def Let_def table_defs parse_branch_def get_jump_target_def as_symbol_def lstrip_set_def)

lemmas pass_eval = compiled_patterns compiled_match_def match_eval matcher_pattern_defs arg_at_def as_symbol_def is_local_label_def
  body_labels_def apply_repl_def repl_def rasm_def extra_clobbers_def final_instr_def missing_writes_def add_clobbers_def
  part_writes_def ins_writes_def base_ins_def Let_def derived_meta_def arch_parse_ppc body_writes_def

lemma sample_bdnz_simplified:
  "case simplify_patterns ppc_arch sample_data ppc_asm_patterns sample_bdnz 1 of
     Inr (b, n) \<Rightarrow> length b = 2 | Inl _ \<Rightarrow> False"
  by (simp add: simplify_patterns_def ppc_asm_patterns_def sample_bdnz_def pass_eval parse_ctr_dec parse_bdnz_fictive)

theorem ppc_simplify_keeps_writes_witness:
  "\<exists>body' n'. simplify_patterns ppc_arch sample_data ppc_asm_patterns sample_bdnz 1 = Inr (body', n') \<and> length body' = 2 \<and>
     set (body_writes sample_bdnz) \<subseteq> set (body_writes body')"
proof -
  obtain b n where "simplify_patterns ppc_arch sample_data ppc_asm_patterns sample_bdnz 1 = Inr (b, n)" and "length b = 2"
    using sample_bdnz_simplified by (auto split: sum.splits)
  with ppc_simplify_keeps_writes show ?thesis by blast
qed

end
