(* ===== verification/Expr_Fold.thy ===== *)
theory Expr_Fold
  imports Prelude "HOL-Library.Word" "HOL-Library.Signed_Division"
begin

text \<open>
  The expressions of \<open>m2c/m2c/translate.py\<close> as \<open>m2c/m2c/evaluate.py\<close> folds them, their values as
  32-bit words, and the folding of multiplication chains, bit masks and leading-zero counts.

  The model covers expressions of 32-bit integer type.  For those \<open>as_intish\<close> and its relatives
  return their argument, \<open>is_floating\<close> is false, and \<open>BinaryOp.int\<close>, \<open>BinaryOp.uint\<close>,
  \<open>BinaryOp.sint\<close> and \<open>BinaryOp.icmp\<close> are the constructor with the kind they stand for.  Objects
  other than literals and casts are compared by identity in the source, so they carry one (a
  number); a new node takes the identity it is given.
\<close>

unbundle bit_operations_syntax

section \<open>Expressions\<close>

datatype op_kind = KInt | KUint | KSint | KBool

datatype expr =
    Literal int
  | Leaf nat
  | CarryBit nat
  | BinaryOp nat op_kind expr string expr
  | UnaryOp nat string expr
  | Cast bool bool nat expr
  | EvalOnceExpr nat bool expr

text \<open>
  \<open>Leaf\<close> is any expression the folding does not look into.  \<open>Cast\<close> carries whether it
  reinterprets, whether it is silent and the bits of its unsigned target type; \<open>EvalOnceExpr\<close>
  carries whether it must be emitted (\<open>forced_emit\<close> or \<open>emit_exactly_once\<close>).
\<close>

text \<open>The equality of the source: a \<open>Cast\<close> is compared by its fields except for the type.\<close>

fun same_expr :: "expr \<Rightarrow> expr \<Rightarrow> bool" where
  "same_expr (Cast re silent w x) (Cast re' silent' w' y) \<longleftrightarrow> re = re' \<and> silent = silent' \<and> same_expr x y"
| "same_expr a b \<longleftrightarrow> a = b"

lemma same_expr_refl [simp]: "same_expr e e"
  by (induction e) auto

fun early_unwrap :: "expr \<Rightarrow> expr" where
  "early_unwrap (EvalOnceExpr n opaque e) = (if opaque then EvalOnceExpr n opaque e else early_unwrap e)"
| "early_unwrap e = e"

lemma size_early_unwrap: "size (early_unwrap e) \<le> size e"
  by (induction e) auto

text \<open>Each cast here has an integer type.\<close>

function early_unwrap_ints :: "expr \<Rightarrow> expr" where
  "early_unwrap_ints e =
     (case early_unwrap e of
        Cast reinterpret silent w x \<Rightarrow> if reinterpret then early_unwrap_ints x else Cast reinterpret silent w x
      | u \<Rightarrow> u)"
  by pat_completeness auto
termination
proof (relation "measure size", goal_cases)
  case (2 e r s w x)
  then show ?case using size_early_unwrap [of e] by simp
qed simp

declare early_unwrap_ints.simps [simp del]

section \<open>Values\<close>

definition bool_word :: "bool \<Rightarrow> 32 word" where
  "bool_word b = (if b then 1 else 0)"

text \<open>
  The value of the operators the folding produces or removes.  Division and a right shift are
  signed for a signed node and unsigned for an unsigned one; for a node of undetermined sign they
  are whatever \<open>sg\<close> decides for the node.  The signed division truncates, as in C.
\<close>

definition mult_hi :: "32 word \<Rightarrow> 32 word \<Rightarrow> 32 word" where
  "mult_hi a b = word_of_int (sint a * sint b div 2 ^ 32)"

definition multu_hi :: "32 word \<Rightarrow> 32 word \<Rightarrow> 32 word" where
  "multu_hi a b = word_of_nat (unat a * unat b div 2 ^ 32)"

fun bin_value :: "bool \<Rightarrow> string \<Rightarrow> 32 word \<Rightarrow> 32 word \<Rightarrow> 32 word" where
  "bin_value s p a b =
     (if p = ''+'' then a + b else if p = ''-'' then a - b else if p = ''*'' then a * b
      else if p = ''&'' then a AND b else if p = ''|'' then a OR b else if p = ''^'' then a XOR b
      else if p = ''<<'' then push_bit (unat b) a
      else if p = ''>>'' then (if s then signed_drop_bit (unat b) a else drop_bit (unat b) a)
      else if p = ''/'' then (if s then word_of_int (sint a sdiv sint b) else a div b)
      else if p = ''%'' then (if s then word_of_int (sint a smod sint b) else a mod b)
      else if p = ''MULT_HI'' then mult_hi a b else if p = ''MULTU_HI'' then multu_hi a b
      else if p = ''=='' then bool_word (a = b) else if p = ''!='' then bool_word (a \<noteq> b) else 0)"

declare bin_value.simps [simp del]

definition clz :: "32 word \<Rightarrow> nat" where
  "clz a = length (takeWhile Not (map (bit a) (rev [0..<32])))"

definition un_value :: "string \<Rightarrow> 32 word \<Rightarrow> 32 word" where
  "un_value p a = (if p = ''-'' then - a else if p = ''~'' then NOT a
     else if p = ''CLZ'' then of_nat (clz a) else 0)"

fun value_of :: "(nat \<Rightarrow> 32 word) \<Rightarrow> (nat \<Rightarrow> bool) \<Rightarrow> expr \<Rightarrow> 32 word" where
  "value_of env sg (Literal v) = word_of_int v"
| "value_of env sg (Leaf n) = env n"
| "value_of env sg (CarryBit n) = env n AND 1"
| "value_of env sg (BinaryOp n k l p r) =
     bin_value (k = KSint \<or> k = KInt \<and> sg n) p (value_of env sg l) (value_of env sg r)"
| "value_of env sg (UnaryOp n p e) = un_value p (value_of env sg e)"
| "value_of env sg (Cast re silent w e) = take_bit w (value_of env sg e)"
| "value_of env sg (EvalOnceExpr n opaque e) = value_of env sg e"

lemma value_early_unwrap [simp]: "value_of env sg (early_unwrap e) = value_of env sg e"
  by (induction e) auto

section \<open>Shifts of Python integers\<close>

definition shl :: "int \<Rightarrow> int \<Rightarrow> int res" where
  "shl a n = (if n < 0 then Inl ValueError else Inr (push_bit (nat n) a))"

definition shr :: "int \<Rightarrow> int \<Rightarrow> int res" where
  "shr a n = (if n < 0 then Inl ValueError else Inr (drop_bit (nat n) a))"

section \<open>Folding\<close>

definition replace_bitand :: "expr \<Rightarrow> expr" where
  "replace_bitand e = (case e of
     BinaryOp i k l p r \<Rightarrow>
       if p = ''&'' then
         (if r = Literal 0 then Literal 0
          else if r = Literal 0xFF then (case l of Literal v \<Rightarrow> Literal v | _ \<Rightarrow> Cast True False 8 l)
          else if r = Literal 0xFFFF then (case l of Literal v \<Rightarrow> Literal v | _ \<Rightarrow> Cast True False 16 l)
          else e)
       else e
   | _ \<Rightarrow> e)"

definition replace_clz_shift :: "nat \<Rightarrow> expr \<Rightarrow> expr" where
  "replace_clz_shift n e = (case e of
     BinaryOp i k l p r \<Rightarrow>
       if p \<noteq> ''>>'' then e
       else (case (early_unwrap_ints l, early_unwrap_ints r) of
         (UnaryOp j q x, Literal v) \<Rightarrow>
           if q = ''CLZ'' \<and> v = 5 then
             (case early_unwrap x of
                BinaryOp i' k' a p' b \<Rightarrow>
                  if p' = ''-'' then BinaryOp n KBool a ''=='' b else BinaryOp n KBool x ''=='' (Literal 0)
              | _ \<Rightarrow> BinaryOp n KBool x ''=='' (Literal 0))
           else e
       | _ \<Rightarrow> e)
   | _ \<Rightarrow> e)"

text \<open>The inner \<open>fold\<close>; \<open>lnum << rhs\<close> raises for a negative literal.\<close>

lemma size_unwrapped: "early_unwrap e \<noteq> e \<Longrightarrow> size (early_unwrap e) < size e"
  using size_early_unwrap by (cases e) (auto simp: less_Suc_eq_le split: if_splits)

definition lit_value :: "expr \<Rightarrow> int option" where
  "lit_value e = (case e of Literal v \<Rightarrow> Some v | _ \<Rightarrow> None)"

function fold_chain :: "expr \<Rightarrow> bool \<Rightarrow> bool \<Rightarrow> (expr \<times> int) res" where
  "fold_chain e toplevel allow_sll =
     (let rest = (if early_unwrap e \<noteq> e
                  then ebind (fold_chain (early_unwrap e) False allow_sll) (\<lambda>(b, k).
                         Inr (if k \<noteq> 1 then (b, k) else (e, 1)))
                  else Inr (e, 1))
      in case e of
           BinaryOp i kd l p r \<Rightarrow>
             if p = ''<<'' \<or> p = ''*'' then
               (case lit_value r of
                  None \<Rightarrow> rest
                | Some rhs \<Rightarrow>
                    ebind (fold_chain l False (p \<noteq> ''<<'')) (\<lambda>(lbase, lnum).
                      if p = ''<<'' \<and> allow_sll then
                        (if toplevel \<and> lnum = 1 \<and> \<not> (1 \<le> rhs \<and> rhs \<le> 4) then Inr (e, 1)
                         else ebind (shl lnum rhs) (\<lambda>k. Inr (lbase, k)))
                      else if p = ''*'' \<and> (allow_sll \<or> rhs mod 2 \<noteq> 0) then Inr (lbase, lnum * rhs)
                      else rest))
             else if (p = ''+'' \<or> p = ''-'') \<and> toplevel then
               ebind (fold_chain l False True) (\<lambda>(lbase, lnum).
               ebind (fold_chain r False True) (\<lambda>(rbase, rnum).
                 if same_expr (early_unwrap lbase) (early_unwrap rbase)
                 then Inr (lbase, if p = ''+'' then lnum + rnum else lnum - rnum) else rest))
             else rest
         | UnaryOp i p x \<Rightarrow>
             if p = ''-'' \<and> \<not> toplevel then ebind (fold_chain x False True) (\<lambda>(b, k). Inr (b, - k))
             else rest
         | _ \<Rightarrow> rest)"
  by pat_completeness auto
termination
  by (relation "measure (\<lambda>(e, t, a). size e)") (auto simp: size_unwrapped)

declare fold_chain.simps [simp del]

definition fold_mul_chains :: "nat \<Rightarrow> expr \<Rightarrow> expr res" where
  "fold_mul_chains n e =
     ebind (fold_chain e True True) (\<lambda>(base, num).
       Inr (if num = 1 then e else BinaryOp n KInt base ''*'' (Literal num)))"
section \<open>Soundness of the multiplication chains\<close>

text \<open>Shift amounts written in the program are those of the instructions, 0 to 31.\<close>

fun shifts_ok :: "expr \<Rightarrow> bool" where
  "shifts_ok (BinaryOp n k l p r) \<longleftrightarrow> shifts_ok l \<and> shifts_ok r \<and>
     (case lit_value r of Some v \<Rightarrow> p = ''<<'' \<longrightarrow> 0 \<le> v \<and> v < 32 | None \<Rightarrow> True)"
| "shifts_ok (UnaryOp n p e) \<longleftrightarrow> shifts_ok e"
| "shifts_ok (Cast re silent w e) \<longleftrightarrow> shifts_ok e"
| "shifts_ok (EvalOnceExpr n opaque e) \<longleftrightarrow> shifts_ok e"
| "shifts_ok e \<longleftrightarrow> True"

lemma shifts_ok_early_unwrap [simp]: "shifts_ok e \<Longrightarrow> shifts_ok (early_unwrap e)"
  by (induction e) auto

lemma bin_value_simps [simp]:
  "bin_value s ''+'' a b = a + b" "bin_value s ''-'' a b = a - b" "bin_value s ''*'' a b = a * b"
  "bin_value s ''&'' a b = a AND b" "bin_value s ''|'' a b = a OR b" "bin_value s ''<<'' a b = push_bit (unat b) a"
  "bin_value s ''=='' a b = bool_word (a = b)" "bin_value False ''>>'' a b = drop_bit (unat b) a"
  "bin_value s ''MULTU_HI'' a b = multu_hi a b" "bin_value False ''/'' a b = a div b"
  by (simp_all add: bin_value.simps)

lemma lit_value_Some [simp]: "lit_value e = Some v \<longleftrightarrow> e = Literal v"
  by (cases e) (auto simp: lit_value_def)

lemma unat_lit: "0 \<le> v \<Longrightarrow> v < 2 ^ 32 \<Longrightarrow> unat (word_of_int v :: 32 word) = nat v"
  by (simp add: unat_eq_nat_uint uint_word_of_int)

lemma unat_small_lit [simp]: "0 \<le> v \<Longrightarrow> v \<le> 32 \<Longrightarrow> unat (word_of_int v :: 32 word) = nat v"
  by (simp add: unat_lit)

lemma shl_value:
  assumes "shl k v = Inr j" and "x * word_of_int k = (a :: 32 word)"
  shows "x * word_of_int j = push_bit (nat v) a"
  using assms by (auto simp: shl_def push_bit_eq_mult split: if_splits)

lemma lit_value_Literal [simp]: "lit_value (Literal v) = Some v"
  by (simp add: lit_value_def)

lemma fold_chain_BinaryOp:
  "fold_chain (BinaryOp i kd l p r) t a =
     (if p = ''<<'' \<or> p = ''*'' then
        (case lit_value r of
           None \<Rightarrow> Inr (BinaryOp i kd l p r, 1)
         | Some rhs \<Rightarrow>
             ebind (fold_chain l False (p \<noteq> ''<<'')) (\<lambda>(lbase, lnum).
               if p = ''<<'' \<and> a then
                 (if t \<and> lnum = 1 \<and> \<not> (1 \<le> rhs \<and> rhs \<le> 4) then Inr (BinaryOp i kd l p r, 1)
                  else ebind (shl lnum rhs) (\<lambda>k. Inr (lbase, k)))
               else if p = ''*'' \<and> (a \<or> rhs mod 2 \<noteq> 0) then Inr (lbase, lnum * rhs)
               else Inr (BinaryOp i kd l p r, 1)))
      else if (p = ''+'' \<or> p = ''-'') \<and> t then
        ebind (fold_chain l False True) (\<lambda>(lbase, lnum).
        ebind (fold_chain r False True) (\<lambda>(rbase, rnum).
          if same_expr (early_unwrap lbase) (early_unwrap rbase)
          then Inr (lbase, if p = ''+'' then lnum + rnum else lnum - rnum) else Inr (BinaryOp i kd l p r, 1)))
      else Inr (BinaryOp i kd l p r, 1))"
  by (subst fold_chain.simps) (simp only: Let_def expr.case early_unwrap.simps simp_thms if_False)

lemma fold_chain_UnaryOp:
  "fold_chain (UnaryOp i p x) t a =
     (if p = ''-'' \<and> \<not> t then ebind (fold_chain x False True) (\<lambda>(b, k). Inr (b, - k)) else Inr (UnaryOp i p x, 1))"
  by (subst fold_chain.simps) simp

lemma fold_chain_EvalOnceExpr:
  "fold_chain (EvalOnceExpr n opaque x) t a =
     (if opaque then Inr (EvalOnceExpr n opaque x, 1)
      else ebind (fold_chain (early_unwrap x) False a) (\<lambda>(b, k).
        Inr (if k \<noteq> 1 then (b, k) else (EvalOnceExpr n opaque x, 1))))"
proof -
  have "early_unwrap x \<noteq> EvalOnceExpr n b x" for b using size_early_unwrap [of x] by auto
  then show ?thesis by (subst fold_chain.simps) simp
qed

lemma fold_chain_atom:
  "fold_chain (Literal v) t a = Inr (Literal v, 1)" "fold_chain (Leaf n) t a = Inr (Leaf n, 1)"
  "fold_chain (CarryBit n) t a = Inr (CarryBit n, 1)" "fold_chain (Cast re silent w e) t a = Inr (Cast re silent w e, 1)"
  by (subst fold_chain.simps, simp)+

text \<open>
  What the source takes for the same expression is the same expression: two casts of one operand
  in an expression agree on their width.  Without this the equality of casts, which ignores the
  type, confuses them.
\<close>

fun subexprs :: "expr \<Rightarrow> expr list" where
  "subexprs (BinaryOp n k l p r) = BinaryOp n k l p r # subexprs l @ subexprs r"
| "subexprs (UnaryOp n p e) = UnaryOp n p e # subexprs e"
| "subexprs (Cast re silent w e) = Cast re silent w e # subexprs e"
| "subexprs (EvalOnceExpr n opaque e) = EvalOnceExpr n opaque e # subexprs e"
| "subexprs e = [e]"

definition casts_agree :: "expr \<Rightarrow> bool" where
  "casts_agree e \<longleftrightarrow> (\<forall>c\<in>set (subexprs e). \<forall>d\<in>set (subexprs e). same_expr c d \<longrightarrow> c = d)"

lemma subexprs_self [simp]: "e \<in> set (subexprs e)"
  by (cases e) simp_all

lemma early_unwrap_subexpr: "b \<in> set (subexprs (early_unwrap e)) \<Longrightarrow> b \<in> set (subexprs e)"
  by (induction e) (auto split: if_splits)

lemma early_unwrap_of_subexpr: "b \<in> set (subexprs e) \<Longrightarrow> early_unwrap b \<in> set (subexprs e)"
  by (induction e) (auto split: if_splits intro: early_unwrap_subexpr)

lemma casts_agree_sub:
  "casts_agree e \<Longrightarrow> set (subexprs d) \<subseteq> set (subexprs e) \<Longrightarrow> casts_agree d"
  unfolding casts_agree_def by blast

lemma fold_chain_base: "fold_chain e t a = Inr (b, k) \<Longrightarrow> b \<in> set (subexprs e)"
proof (induction e arbitrary: t a b k rule: measure_induct_rule [of size])
  case (less e)
  show ?case
  proof (cases e)
    case (BinaryOp i kd l p r)
    have l: "lb \<in> set (subexprs l)" if "fold_chain l t' a' = Inr (lb, ln)" for t' a' lb ln
      using less.IH [OF _ that] BinaryOp by simp
    show ?thesis using less.prems BinaryOp
      by (auto simp: fold_chain_BinaryOp split: option.splits if_splits dest!: l)
  next
    case (UnaryOp i p x)
    then show ?thesis using less.prems less.IH [of x] by (auto simp: fold_chain_UnaryOp split: if_splits)
  next
    case (EvalOnceExpr n opaque x)
    have "c \<in> set (subexprs x)" if "fold_chain (early_unwrap x) False a = Inr (c, j)" for c j
    proof (rule early_unwrap_subexpr)
      have "size (early_unwrap x) < size e" using size_early_unwrap [of x] EvalOnceExpr by simp
      from less.IH [OF this that] show "c \<in> set (subexprs (early_unwrap x))" .
    qed
    then show ?thesis using less.prems EvalOnceExpr
      by (auto simp: fold_chain_EvalOnceExpr split: if_splits)
  qed (use less.prems in \<open>auto simp: fold_chain_atom\<close>)
qed

lemma same_base_value:
  assumes "fold_chain l t a = Inr (lb, ln)" "fold_chain r t a = Inr (rb, rn)" "casts_agree (BinaryOp i kd l p r)"
    and "same_expr (early_unwrap lb) (early_unwrap rb)"
  shows "value_of env sg lb = value_of env sg rb"
proof -
  have "early_unwrap lb \<in> set (subexprs (BinaryOp i kd l p r))" "early_unwrap rb \<in> set (subexprs (BinaryOp i kd l p r))"
    using early_unwrap_of_subexpr [OF fold_chain_base [OF assms(1)]] early_unwrap_of_subexpr [OF fold_chain_base [OF assms(2)]]
    by simp_all
  then have "early_unwrap lb = early_unwrap rb"
    using assms(3,4) unfolding casts_agree_def by blast
  then show ?thesis by (metis value_early_unwrap)
qed

lemma casts_agree_parts:
  "casts_agree (BinaryOp n k l p r) \<Longrightarrow> casts_agree l \<and> casts_agree r"
  "casts_agree (UnaryOp n p e) \<Longrightarrow> casts_agree e"
  "casts_agree (EvalOnceExpr n opaque e) \<Longrightarrow> casts_agree (early_unwrap e)"
  by (auto elim!: casts_agree_sub intro: early_unwrap_subexpr)

lemma fold_chain_value:
  "fold_chain e t a = Inr (b, k) \<Longrightarrow> shifts_ok e \<Longrightarrow> casts_agree e \<Longrightarrow> value_of env sg b * word_of_int k = value_of env sg e"
proof (induction e arbitrary: t a b k rule: measure_induct_rule [of size])
  case (less e)
  show ?case
  proof (cases e)
    case (BinaryOp i kd l p r)
    have parts: "casts_agree l" "casts_agree r" using less.prems(3) BinaryOp casts_agree_parts(1) by blast+
    have l: "value_of env sg lb * word_of_int ln = value_of env sg l" if "fold_chain l t' a' = Inr (lb, ln)" for t' a' lb ln
      using less.IH [OF _ that _ parts(1)] less.prems(2) BinaryOp by simp
    have r: "value_of env sg rb * word_of_int rn = value_of env sg r" if "fold_chain r t' a' = Inr (rb, rn)" for t' a' rb rn
      using less.IH [OF _ that _ parts(2)] less.prems(2) BinaryOp by simp
    have same: "value_of env sg l + value_of env sg r = value_of env sg lb * word_of_int (ln + rn)"
        "value_of env sg l - value_of env sg r = value_of env sg lb * word_of_int (ln - rn)"
      if "fold_chain l t' a' = Inr (lb, ln)" "fold_chain r t' a' = Inr (rb, rn)"
        "same_expr (early_unwrap lb) (early_unwrap rb)" for t' a' lb ln rb rn
      using l [OF that(1)] r [OF that(2)] same_base_value [OF that(1,2) _ that(3)] less.prems(3) BinaryOp
      by (simp_all add: distrib_left right_diff_distrib)
    consider "p = ''<<''" | "p = ''*''" | "p = ''+''" | "p = ''-''" | "p \<notin> {''<<'', ''*'', ''+'', ''-''}" by blast
    then show ?thesis
    proof cases
      case 1
      then show ?thesis using less.prems BinaryOp
        by (auto simp: fold_chain_BinaryOp split: option.splits if_splits dest!: l intro: shl_value)
    next
      case 2
      then show ?thesis using less.prems BinaryOp
        by (auto simp: fold_chain_BinaryOp simp flip: mult.assoc split: option.splits if_splits dest!: l)
    next
      case 3
      then show ?thesis using less.prems BinaryOp by (auto simp: fold_chain_BinaryOp same split: if_splits)
    next
      case 4
      then show ?thesis using less.prems BinaryOp by (auto simp: fold_chain_BinaryOp same split: if_splits)
    next
      case 5
      then show ?thesis using less.prems BinaryOp by (auto simp: fold_chain_BinaryOp)
    qed
  next
    case (UnaryOp i p x)
    then have "casts_agree x" using less.prems(3) casts_agree_parts(2) by blast
    then show ?thesis using less.prems(1,2) less.IH [of x] UnaryOp
      by (auto simp: fold_chain_UnaryOp un_value_def split: if_splits)
  next
    case (EvalOnceExpr n opaque x)
    then have "casts_agree (early_unwrap x)" using less.prems(3) casts_agree_parts(3) by blast
    then show ?thesis using less.prems(1,2) less.IH [of "early_unwrap x"] size_early_unwrap [of x] EvalOnceExpr
      by (auto simp: fold_chain_EvalOnceExpr split: if_splits)
  qed (use less.prems in \<open>auto simp: fold_chain_atom\<close>)
qed

lemma fold_chain_total: "shifts_ok e \<Longrightarrow> \<exists>b k. fold_chain e t a = Inr (b, k)"
proof (induction e arbitrary: t a rule: measure_induct_rule [of size])
  case (less e)
  show ?case
  proof (cases e)
    case (BinaryOp i kd l p r)
    have l: "\<exists>b k. fold_chain l t' a' = Inr (b, k)" and r: "\<exists>b k. fold_chain r t' a' = Inr (b, k)" for t' a'
      using less.IH [of l] less.IH [of r] less.prems BinaryOp by simp_all
    obtain lb ln where l1: "fold_chain l False (p \<noteq> ''<<'') = Inr (lb, ln)" using l by blast
    obtain lb' ln' rb rn where l2: "fold_chain l False True = Inr (lb', ln')" "fold_chain r False True = Inr (rb, rn)"
      using l r by blast
    show ?thesis using less.prems BinaryOp l1 l2
      by (cases "lit_value r") (auto simp: fold_chain_BinaryOp shl_def)
  next
    case (UnaryOp i p x)
    then show ?thesis using less.prems less.IH [of x False True] by (auto simp: fold_chain_UnaryOp)
  next
    case (EvalOnceExpr n opaque x)
    then show ?thesis using less.prems less.IH [of "early_unwrap x" False a] size_early_unwrap [of x]
      by (auto simp: fold_chain_EvalOnceExpr less_Suc_eq_le)
  qed (auto simp: fold_chain_atom)
qed

section \<open>Soundness of the other folds\<close>

lemma clz_le: "clz a \<le> 32"
  using length_takeWhile_le [of Not "map (bit a) (rev [0..<32])"] by (simp add: clz_def)

lemma takeWhile_full: "length (takeWhile P xs) = length xs \<longleftrightarrow> (\<forall>x \<in> set xs. P x)"
  by (metis takeWhile_eq_all_conv takeWhile_eq_take take_all_iff order_refl)

lemma clz_32: "clz a = 32 \<longleftrightarrow> a = 0"
proof -
  have "clz a = 32 \<longleftrightarrow> (\<forall>b \<in> set (map (bit a) (rev [0..<32])). \<not> b)"
    unfolding clz_def using takeWhile_full [of Not "map (bit a) (rev [0..<32])"] by simp
  also have "\<dots> \<longleftrightarrow> (\<forall>i < 32. \<not> bit a i)" by auto
  also have "\<dots> \<longleftrightarrow> a = 0" by (auto intro: bit_word_eqI)
  finally show ?thesis .
qed

lemma unat_clz: "unat (of_nat (clz a) :: 32 word) = clz a"
  using clz_le [of a] by (simp add: unat_of_nat)

lemma clz_shift: "drop_bit 5 (of_nat (clz a) :: 32 word) = bool_word (a = 0)"
proof -
  have "unat (drop_bit 5 (of_nat (clz a) :: 32 word)) = clz a div 32"
    unfolding unat_drop_bit_eq unat_clz by (simp add: drop_bit_eq_div)
  also have "\<dots> = unat (bool_word (a = 0))"
    using clz_le [of a] clz_32 [of a] by (auto simp: bool_word_def)
  finally show ?thesis by (simp only: word_unat_eq_iff)
qed

text \<open>Casts are to types of at least a byte.\<close>

fun casts_wide :: "expr \<Rightarrow> bool" where
  "casts_wide (BinaryOp n k l p r) \<longleftrightarrow> casts_wide l \<and> casts_wide r"
| "casts_wide (UnaryOp n p e) \<longleftrightarrow> casts_wide e"
| "casts_wide (Cast re silent w e) \<longleftrightarrow> 8 \<le> w \<and> casts_wide e"
| "casts_wide (EvalOnceExpr n opaque e) \<longleftrightarrow> casts_wide e"
| "casts_wide e \<longleftrightarrow> True"

lemma casts_wide_early_unwrap: "casts_wide e \<Longrightarrow> casts_wide (early_unwrap e)"
  by (induction e) auto

lemma take_bit_small_word: "unat (x :: 32 word) < 256 \<Longrightarrow> 8 \<le> w \<Longrightarrow> take_bit w x = x"
proof -
  assume "unat x < 256" and w: "8 \<le> w"
  moreover have "(2 :: nat) ^ 8 \<le> 2 ^ w" using w by (intro power_increasing) auto
  ultimately have "take_bit w (unat x) = unat x" by (simp add: take_bit_nat_eq_self_iff)
  then show ?thesis by (simp add: word_unat_eq_iff unsigned_take_bit_eq)
qed

lemma early_unwrap_ints_Cast:
  "early_unwrap e = Cast re silent w x \<Longrightarrow> early_unwrap_ints e = (if re then early_unwrap_ints x else Cast re silent w x)"
  by (simp add: early_unwrap_ints.simps [of e])

lemma early_unwrap_ints_other:
  "(\<And>re silent w x. early_unwrap e \<noteq> Cast re silent w x) \<Longrightarrow> early_unwrap_ints e = early_unwrap e"
  by (simp add: early_unwrap_ints.simps [of e] split: expr.split)

lemma value_early_unwrap_ints:
  "unat (value_of env sg (early_unwrap_ints e)) < 256 \<Longrightarrow> casts_wide e \<Longrightarrow>
     value_of env sg (early_unwrap_ints e) = value_of env sg e"
proof (induction e rule: early_unwrap_ints.induct)
  case (1 e)
  show ?case
  proof (cases "\<exists>re silent w x. early_unwrap e = Cast re silent w x")
    case True
    then obtain re silent w x where c: "early_unwrap e = Cast re silent w x" by blast
    have wide: "8 \<le> w" "casts_wide x" using casts_wide_early_unwrap [OF 1(3)] c by simp_all
    have val: "value_of env sg e = take_bit w (value_of env sg x)"
      using value_early_unwrap [of env sg e] c by simp
    show ?thesis
    proof (cases re)
      case True
      have "value_of env sg (early_unwrap_ints x) = value_of env sg x"
        using 1(1) [OF c True] 1(2) early_unwrap_ints_Cast [OF c] True wide by simp
      then show ?thesis
        using 1(2) early_unwrap_ints_Cast [OF c] True wide val by (simp add: take_bit_small_word)
    next
      case False
      then show ?thesis using early_unwrap_ints_Cast [OF c] val by simp
    qed
  next
    case False
    then show ?thesis using early_unwrap_ints_other [of e] by simp
  qed
qed

lemma replace_clz_shift_value:
  assumes "casts_wide (BinaryOp i KUint l p r)"
  shows "value_of env sg (replace_clz_shift n (BinaryOp i KUint l p r)) = value_of env sg (BinaryOp i KUint l p r)"
proof (cases "p = ''>>'' \<and> (\<exists>j x. early_unwrap_ints l = UnaryOp j ''CLZ'' x) \<and> early_unwrap_ints r = Literal 5")
  case True
  then obtain j x where p: "p = ''>>''" and l: "early_unwrap_ints l = UnaryOp j ''CLZ'' x" and r: "early_unwrap_ints r = Literal 5"
    by blast
  have lv: "value_of env sg l = of_nat (clz (value_of env sg x))"
    using value_early_unwrap_ints [of env sg l] assms clz_le [of "value_of env sg x"] by (simp add: l un_value_def unat_clz)
  have rv: "value_of env sg r = 5" using value_early_unwrap_ints [of env sg r] assms by (simp add: r)
  have "value_of env sg (BinaryOp i KUint l p r) = bool_word (value_of env sg x = 0)"
    by (simp add: p lv rv clz_shift)
  moreover have "value_of env sg x = value_of env sg a - value_of env sg b"
    if "early_unwrap x = BinaryOp i' k' a ''-'' b" for i' k' a b
    using value_early_unwrap [of env sg x] that by simp
  ultimately show ?thesis
    by (auto simp: replace_clz_shift_def p l r split: expr.split)
next
  case False
  then show ?thesis by (auto simp: replace_clz_shift_def split: expr.split)
qed

lemma mask_low_bits:
  "(x :: 32 word) AND 0xFF = take_bit 8 x" "(x :: 32 word) AND 0xFFFF = take_bit 16 x"
  by (simp_all add: take_bit_eq_mask mask_eq_exp_minus_1)

lemma replace_bitand_value:
  assumes "lit_value l = None"
  shows "value_of env sg (replace_bitand (BinaryOp i k l p r)) = value_of env sg (BinaryOp i k l p r)"
  using assms by (auto simp: replace_bitand_def mask_low_bits lit_value_def split: expr.split)

section \<open>Properties\<close>

lemma fold_mul_chains_keeps:
  assumes "shifts_ok e" and "casts_agree e"
  shows "\<exists>e'. fold_mul_chains n e = Inr e' \<and> value_of env sg e' = value_of env sg e"
proof -
  from fold_chain_total [OF assms(1)] obtain b k where c: "fold_chain e True True = Inr (b, k)" by blast
  then show ?thesis using fold_chain_value [OF c assms, of env sg] by (auto simp: fold_mul_chains_def)
qed

text \<open>C13: Folding a chain of additions, subtractions, negations, shifts and multiplications into
  one multiplication succeeds and keeps the 32-bit value of the expression, for every value of its
  parts, unless two casts of one operand differ in their width.\<close>

theorem fold_mul_chains_value:
  assumes "shifts_ok e" and "casts_agree e"
  shows "\<exists>e'. fold_mul_chains n e = Inr e' \<and> value_of env sg e' = value_of env sg e"
  using assms by (rule fold_mul_chains_keeps)

definition sample_chain :: expr where
  "sample_chain = BinaryOp 1 KInt (BinaryOp 2 KInt (Leaf 0) ''<<'' (Literal 2)) ''-'' (EvalOnceExpr 3 False (Leaf 0))"

theorem fold_mul_chains_value_witness:
  "fold_mul_chains 9 sample_chain = Inr (BinaryOp 9 KInt (Leaf 0) ''*'' (Literal 3)) \<and>
   value_of (\<lambda>_. 7) (\<lambda>_. False) (BinaryOp 9 KInt (Leaf 0) ''*'' (Literal 3)) = value_of (\<lambda>_. 7) (\<lambda>_. False) sample_chain"
proof -
  have run: "fold_mul_chains 9 sample_chain = Inr (BinaryOp 9 KInt (Leaf 0) ''*'' (Literal 3))"
    by (simp add: sample_chain_def fold_mul_chains_def fold_chain_BinaryOp fold_chain_EvalOnceExpr fold_chain_atom shl_def)
  have "casts_agree sample_chain" by code_simp
  with run show ?thesis
    using fold_mul_chains_value [of sample_chain 9 "\<lambda>_. 7" "\<lambda>_. False"] by (simp add: sample_chain_def)
qed

text \<open>The confusion of casts: \<open>((u8) x << 2) + (u16) x\<close> is folded to \<open>(u8) x * 5\<close>, which has another
  value as soon as \<open>x\<close> has one of the bits 8 to 15.\<close>

theorem cast_width_confused:
  "fold_mul_chains n (BinaryOp i k (BinaryOp j k' (Cast True False 8 x) ''<<'' (Literal 2)) ''+'' (Cast True False 16 x)) =
     Inr (BinaryOp n KInt (Cast True False 8 x) ''*'' (Literal 5)) \<and>
   (value_of env sg (BinaryOp n KInt (Cast True False 8 x) ''*'' (Literal 5)) =
      value_of env sg (BinaryOp i k (BinaryOp j k' (Cast True False 8 x) ''<<'' (Literal 2)) ''+'' (Cast True False 16 x)) \<longleftrightarrow>
    take_bit 16 (value_of env sg x) = take_bit 8 (value_of env sg x))"
proof
  show "fold_mul_chains n (BinaryOp i k (BinaryOp j k' (Cast True False 8 x) ''<<'' (Literal 2)) ''+'' (Cast True False 16 x)) =
     Inr (BinaryOp n KInt (Cast True False 8 x) ''*'' (Literal 5))"
    by (simp add: fold_mul_chains_def fold_chain_BinaryOp fold_chain_atom shl_def)
  let ?a = "take_bit 8 (value_of env sg x)" and ?b = "take_bit 16 (value_of env sg x)"
  have "?a * 5 = ?a * 4 + ?a" by (simp flip: distrib_left_numeral mult_Suc_right)
  then show "value_of env sg (BinaryOp n KInt (Cast True False 8 x) ''*'' (Literal 5)) =
      value_of env sg (BinaryOp i k (BinaryOp j k' (Cast True False 8 x) ''<<'' (Literal 2)) ''+'' (Cast True False 16 x)) \<longleftrightarrow>
    ?b = ?a"
    by (auto simp: push_bit_eq_mult)
qed

end
