(* ===== verification/Expr_Divmod.thy ===== *)
theory Expr_Divmod
  imports Expr_Fold Complex_Main
begin

text \<open>
  Model of \<open>fold_divmod\<close> of \<open>m2c/m2c/evaluate.py\<close>, which turns the arithmetic that compilers emit
  for a division by a constant back into a division.  Its test \<open>round_div\<close> divides Python integers
  in floating point, so the rounding of a double is part of the model.  The main result is that
  every constant a compiler uses for an unsigned division is recognised.
\<close>

section \<open>Floating-point division of integers\<close>

fun bit_length :: "nat \<Rightarrow> nat" where
  "bit_length n = (if n = 0 then 0 else Suc (bit_length (n div 2)))"

declare bit_length.simps [simp del]

text \<open>To the nearest integer, ties to even: \<open>round\<close> of Python and the rounding of a mantissa.\<close>

definition half_even :: "rat \<Rightarrow> int" where
  "half_even q = (let f = \<lfloor>q\<rfloor>; d = q - of_int f in if d < 1 / 2 \<or> d = 1 / 2 \<and> even f then f else f + 1)"

text \<open>The exponent of the power of two below \<open>x / y\<close>.\<close>

definition binade :: "int \<Rightarrow> int \<Rightarrow> int" where
  "binade x y = (let j = int (bit_length (nat x)) - int (bit_length (nat y))
     in if (of_int x / of_int y :: rat) < 2 powi j then j - 1 else j)"

text \<open>
  \<open>x / y\<close> for positive integers: the nearest double, with 53 bits of mantissa and subnormal numbers
  below \<open>2 powi -1022\<close>; a result that is too large raises.
\<close>

definition true_div :: "int \<Rightarrow> int \<Rightarrow> rat res" where
  "true_div x y =
     (let e = max (binade x y - 52) (- 1074);
          q = of_int (half_even (of_int x / of_int y / 2 powi e)) * 2 powi e
      in if 2 ^ 1024 \<le> q then Inl OverflowError else Inr q)"

definition round_div :: "int \<Rightarrow> int \<Rightarrow> int option res" where
  "round_div x y =
     (if y \<le> 1 then Inr None
      else ebind (true_div x y) (\<lambda>q. let result = half_even q in
           ebind (true_div x (y + 1)) (\<lambda>low.
             if low \<le> of_int result
             then ebind (true_div x (y - 1)) (\<lambda>high. Inr (if of_int result \<le> high then Some result else None))
             else Inr None)))"

section \<open>The rules of \<open>fold_divmod\<close>\<close>

definition mult_high_ops :: "string list" where
  "mult_high_ops = [''MULT_HI'', ''MULTU_HI'']"

definition possible_match_ops :: "string list" where
  "possible_match_ops = mult_high_ops @ [''-'', ''+'', ''>>'']"

definition literal_right :: "expr \<times> expr \<Rightarrow> expr \<times> expr" where
  "literal_right p = (case p of (l, r) \<Rightarrow> if lit_value l \<noteq> None \<and> lit_value r = None then (r, l) else (l, r))"

definition is_shift31 :: "expr \<Rightarrow> bool" where
  "is_shift31 r \<longleftrightarrow> early_unwrap_ints r = Literal 31"

text \<open>\<open>(x >> N) + M2C_CARRY\<close> becomes \<open>x / (1 << N)\<close>.\<close>

definition carry_rule :: "nat \<Rightarrow> string \<Rightarrow> expr \<Rightarrow> expr \<Rightarrow> expr option res" where
  "carry_rule n p l r = (case (l, r) of
     (BinaryOp i k x q (Literal v), CarryBit c) \<Rightarrow>
       if q = ''>>'' \<and> p = ''+'' then ebind (shl 1 v) (\<lambda>d. Inr (Some (BinaryOp n KSint x ''/'' (Literal d)))) else Inr None
   | _ \<Rightarrow> Inr None)"

text \<open>\<open>(x / N) >> M\<close> becomes \<open>x / (N << M)\<close>.\<close>

definition div_shift_rule :: "nat \<Rightarrow> string \<Rightarrow> expr \<Rightarrow> expr \<Rightarrow> expr option res" where
  "div_shift_rule n p l r = (case (l, r) of
     (BinaryOp i k x q (Literal v), Literal m) \<Rightarrow>
       if q = ''/'' \<and> p = ''>>'' then ebind (shl v m) (\<lambda>d. Inr (if d < 2 ^ 32 then Some (BinaryOp n KInt x ''/'' (Literal d)) else None))
       else Inr None
   | _ \<Rightarrow> Inr None)"

text \<open>\<open>x - (x / y) * y\<close> becomes \<open>x % y\<close>, also with the division written as a shift.\<close>

definition mod_rule :: "nat \<Rightarrow> string \<Rightarrow> expr \<Rightarrow> expr \<Rightarrow> expr option res" where
  "mod_rule n p l r = (case r of
     BinaryOp i k m q b \<Rightarrow>
       if p = ''-'' \<and> q = ''*'' then
         (case early_unwrap_ints m of
            BinaryOp i' k' x q' y \<Rightarrow>
              let mod_base = early_unwrap_ints b; divisor = early_unwrap_ints y;
                  result = Inr (Some (BinaryOp n KInt l ''%'' b)) :: expr option res
              in if \<not> same_expr (early_unwrap_ints x) l then Inr None
                 else if q' = ''/'' \<and> same_expr divisor mod_base then result
                 else if q' = ''>>'' then
                   (case (divisor, mod_base) of
                      (Literal v, Literal w) \<Rightarrow> ebind (shl 1 v) (\<lambda>d. if d = w then result else Inr None)
                    | _ \<Rightarrow> Inr None)
                 else Inr None
          | _ \<Rightarrow> Inr None)
       else Inr None
   | _ \<Rightarrow> Inr None)"

text \<open>\<open>(x >> 31) - (x / N)\<close> is read as \<open>(x / -N) - (x >> 31)\<close>.\<close>

definition negative_rule :: "nat \<Rightarrow> string \<Rightarrow> expr \<Rightarrow> expr \<Rightarrow> expr \<times> expr" where
  "negative_rule n p l r = (case (l, r) of
     (BinaryOp i k x q s, BinaryOp i' k' y q' (Literal v)) \<Rightarrow>
       if p = ''-'' \<and> q = ''>>'' \<and> is_shift31 s \<and> q' = ''/'' then (BinaryOp n k' y q' (Literal (- v)), l) else (l, r)
   | _ \<Rightarrow> (l, r))"

text \<open>\<open>(x / N) + ((x / N) >> 31)\<close> becomes \<open>x / N\<close>.\<close>

definition add_error_rule :: "string \<Rightarrow> expr \<Rightarrow> expr \<Rightarrow> expr option" where
  "add_error_rule p l r = (case (l, r) of
     (BinaryOp i k x q (Literal v), BinaryOp i' k' y q' s) \<Rightarrow>
       if p = ''+'' \<and> q = ''/'' \<and> v \<le> 2 ^ 29 \<and> same_expr (early_unwrap_ints y) l \<and> q' = ''>>'' \<and> is_shift31 s
       then Some l else None
   | _ \<Rightarrow> None)"

text \<open>\<open>(x / N) - (x >> 31)\<close> becomes \<open>x / N\<close>, also with \<open>(x << K) >> 31\<close> for a narrow \<open>x\<close>.\<close>

definition sub_error_rule :: "nat \<Rightarrow> string \<Rightarrow> expr \<Rightarrow> expr \<Rightarrow> expr option" where
  "sub_error_rule n p l r = (case (l, r) of
     (BinaryOp i k x q (Literal v), BinaryOp i' k' y q' s) \<Rightarrow>
       if p = ''-'' \<and> q = ''/'' \<and> q' = ''>>'' \<and> is_shift31 s then
         (if same_expr (early_unwrap_ints x) (early_unwrap_ints y)
          then Some (if 2 ^ 30 \<le> v then BinaryOp n KInt x q (Literal v) else l)
          else case early_unwrap_ints y of
                 BinaryOp i'' k'' z q'' (Literal w) \<Rightarrow>
                   if same_expr (early_unwrap_ints x) (early_unwrap_ints z) \<and> q'' = ''<<'' then Some l else None
               | _ \<Rightarrow> None)
       else None
   | _ \<Rightarrow> None)"

text \<open>
  The high product inside a shift: its operator and operands and the amount shifted so far.  An
  added \<open>x\<close> in \<open>MULT_HI(x, N) + x\<close> is dropped.
\<close>

definition drop_addition :: "string \<times> expr \<times> expr \<Rightarrow> string \<times> expr \<times> expr" where
  "drop_addition t = (case t of (p, l, r) \<Rightarrow>
     (case l of
        BinaryOp i k a q b \<Rightarrow>
          if q = ''MULT_HI'' \<and> p = ''+'' \<and> (same_expr r (early_unwrap_ints a) \<or> same_expr r (early_unwrap_ints b))
          then (q, early_unwrap_ints a, early_unwrap_ints b) else (p, l, r)
      | _ \<Rightarrow> (p, l, r)))"

definition shifted_product :: "string \<Rightarrow> expr \<Rightarrow> expr \<Rightarrow> string \<times> expr \<times> expr \<times> int" where
  "shifted_product p l r = (case (l, r) of
     (BinaryOp i k a q b, Literal m) \<Rightarrow>
       if p = ''>>'' then
         (case drop_addition (q, early_unwrap_ints a, early_unwrap_ints b) of
            (p', l', r') \<Rightarrow> let (l'', r'') = literal_right (l', r') in (p', l'', r'', m))
       else (p, l, r, 0)
   | _ \<Rightarrow> (p, l, r, 0))"

definition shifted_operand :: "string \<times> expr \<times> expr \<times> int \<Rightarrow> string \<times> expr \<times> expr \<times> int" where
  "shifted_operand t = (case t of (p, l, r, m) \<Rightarrow>
     (case l of
        BinaryOp i k a q (Literal v) \<Rightarrow>
          if p \<in> set mult_high_ops \<and> q = ''>>'' then (p, early_unwrap_ints a, r, m + v) else (p, l, r, m)
      | _ \<Rightarrow> (p, l, r, m)))"

definition product_rule :: "nat \<Rightarrow> string \<times> expr \<times> expr \<times> int \<Rightarrow> expr option res" where
  "product_rule n t = (case t of (p, l, r, m) \<Rightarrow>
     (case r of
        Literal v \<Rightarrow>
          if p \<in> set mult_high_ops then
            ebind (shl 1 (32 + m)) (\<lambda>x. ebind (round_div x v) (\<lambda>d.
              Inr (map_option (\<lambda>d. BinaryOp n KInt l ''/'' (Literal d)) d)))
          else Inr None
      | _ \<Rightarrow> Inr None))"

definition first_of :: "expr option res \<Rightarrow> expr res \<Rightarrow> expr res" where
  "first_of m e = ebind m (\<lambda>x. case x of Some y \<Rightarrow> Inr y | None \<Rightarrow> e)"

text \<open>A folded expression has the identity \<open>n\<close>; the quotient with a negated divisor has \<open>n + 1\<close>.\<close>

definition fold_divmod :: "nat \<Rightarrow> expr \<Rightarrow> expr res" where
  "fold_divmod n original = (case original of
     BinaryOp i k left p right \<Rightarrow>
       if p \<notin> set possible_match_ops then Inr original
       else let (l, r) = literal_right (early_unwrap_ints left, early_unwrap_ints right) in
         first_of (carry_rule n p l r) (first_of (div_shift_rule n p l r) (first_of (mod_rule n p l r)
           (let (l, r) = negative_rule (n + 1) p l r in
            first_of (Inr (add_error_rule p l r)) (first_of (Inr (sub_error_rule n p l r))
              (first_of (product_rule n (shifted_operand (shifted_product p l r))) (Inr original))))))
   | _ \<Rightarrow> Inr original)"

section \<open>Rounding\<close>

lemma bit_length_less: "n < 2 ^ bit_length n"
proof (induction n rule: bit_length.induct)
  case (1 n)
  then show ?case by (subst bit_length.simps) auto
qed

lemma bit_length_le: "0 < n \<Longrightarrow> 2 ^ (bit_length n - 1) \<le> n"
proof (induction n rule: bit_length.induct)
  case (1 n)
  have len: "bit_length n = Suc (bit_length (n div 2))" using 1(2) by (subst bit_length.simps) simp
  show ?case
  proof (cases "n div 2 = 0")
    case True
    then have "bit_length n = 1" using len by (simp add: bit_length.simps)
    then show ?thesis using 1(2) by simp
  next
    case False
    then have "bit_length (n div 2) = Suc (bit_length (n div 2) - 1)"
      by (subst (1) bit_length.simps) (simp add: bit_length.simps [of "n div 2"])
    then have "(2 :: nat) ^ (bit_length n - 1) = 2 * 2 ^ (bit_length (n div 2) - 1)"
      using len by (metis diff_Suc_1 power_Suc)
    then show ?thesis using 1(1) False 1(2) by auto
  qed
qed

lemma bit_length_pos: "0 < n \<Longrightarrow> 0 < bit_length n"
  by (subst bit_length.simps) simp

lemma binade_le:
  assumes "0 < x" and "0 < y"
  shows "2 powi binade x y \<le> (of_int x / of_int y :: rat)"
proof -
  let ?bx = "bit_length (nat x)" and ?by = "bit_length (nat y)"
  have x: "(2 :: rat) ^ (?bx - 1) \<le> of_int x"
  proof -
    have "int (2 ^ (?bx - 1)) \<le> int (nat x)" using bit_length_le [of "nat x"] assms(1) by (simp only: of_nat_le_iff)
    then have "2 ^ (?bx - 1) \<le> x" using assms(1) by simp
    then have "(of_int (2 ^ (?bx - 1)) :: rat) \<le> of_int x" by (simp only: of_int_le_iff)
    then show ?thesis by simp
  qed
  have y: "of_int y \<le> (2 :: rat) ^ ?by"
  proof -
    have "int (nat y) < int (2 ^ ?by)" using bit_length_less [of "nat y"] by (simp only: of_nat_less_iff)
    then have "y \<le> 2 ^ ?by" using assms(2) by simp
    then have "(of_int y :: rat) \<le> of_int (2 ^ ?by)" by (simp only: of_int_le_iff)
    then show ?thesis by simp
  qed
  have "(2 :: rat) powi (int ?bx - int ?by - 1) = 2 ^ (?bx - 1) / 2 ^ ?by"
    using bit_length_pos [of "nat x"] assms(1)
    by (simp add: power_int_diff power_diff flip: power_int_of_nat)
  also have "\<dots> \<le> of_int x / of_int y"
    using x y assms by (intro frac_le) simp_all
  finally show ?thesis by (auto simp: binade_def Let_def)
qed

lemma half_even_le: "q \<le> of_int z \<Longrightarrow> half_even q \<le> z"
  unfolding half_even_def Let_def by (auto simp: floor_le_iff)

lemma half_even_ge: "of_int z \<le> q \<Longrightarrow> z \<le> half_even q"
proof -
  assume "of_int z \<le> q"
  then have "z \<le> \<lfloor>q\<rfloor>" by (simp add: le_floor_iff)
  then show ?thesis by (simp add: half_even_def Let_def)
qed

lemma half_even_near: "\<bar>of_int (half_even q) - q\<bar> \<le> 1 / 2"
proof -
  define f where "f = \<lfloor>q\<rfloor>"
  have f: "of_int f \<le> q" "q < of_int f + 1" using floor_correct [of q] by (auto simp: f_def)
  show ?thesis
  proof (cases "q - of_int f < 1 / 2 \<or> q - of_int f = 1 / 2 \<and> even f")
    case True
    then have "half_even q = f" by (simp add: half_even_def Let_def f_def)
    with True f show ?thesis by (simp add: abs_le_iff) linarith
  next
    case False
    then have "half_even q = f + 1" unfolding half_even_def Let_def f_def by (simp only: if_False)
    with False f show ?thesis by (simp add: abs_le_iff)
  qed
qed

lemma half_even_unique: "\<bar>q - of_int z\<bar> < 1 / 2 \<Longrightarrow> half_even q = z"
proof -
  assume near: "\<bar>q - of_int z\<bar> < 1 / 2"
  have "\<bar>of_int (half_even q) - of_int z :: rat\<bar> < 1" using near half_even_near [of q] by linarith
  then have "\<bar>half_even q - z\<bar> < 1" by (simp flip: of_int_diff of_int_abs)
  then show ?thesis by simp
qed

text \<open>On quotients below \<open>2 ^ 33\<close> at least twenty bits behind the point survive the rounding.\<close>

lemma true_div_scaled:
  assumes "0 < x" "0 < y" and q: "of_int x / of_int y = (q :: rat)" and small: "q < 2 ^ 33"
  obtains k where "20 \<le> k" and "true_div x y = Inr (of_int (half_even (q * 2 ^ k)) / 2 ^ k)"
proof -
  define e where "e = max (binade x y - 52) (- 1074)"
  define k where "k = nat (- e)"
  have "(2 :: rat) powi binade x y < 2 powi 33" using binade_le [OF assms(1,2)] small q by simp
  then have "binade x y < 33" using power_int_increasing [of 33 "binade x y" "2 :: rat"] by (cases "binade x y < 33") simp_all
  then have e: "e = - int k" and k: "20 \<le> k" by (auto simp: e_def k_def)
  let ?h = "half_even (q * 2 ^ k)"
  have "?h \<le> 2 ^ 33 * 2 ^ k" using small by (intro half_even_le) simp
  then have "(of_int ?h :: rat) \<le> of_int (2 ^ 33 * 2 ^ k)" by (simp only: of_int_le_iff)
  then have "(of_int ?h / 2 ^ k :: rat) \<le> 2 ^ 33" by (simp add: divide_le_eq)
  also have "\<dots> < 2 ^ 1024" by (rule power_strict_increasing) simp_all
  finally have "of_int ?h / 2 ^ k < (2 :: rat) ^ 1024" .
  moreover have "true_div x y = (let q = of_int ?h / 2 ^ k in if 2 ^ 1024 \<le> q then Inl OverflowError else Inr q)"
    unfolding true_div_def e_def [symmetric] q Let_def by (simp add: e power_int_minus divide_simps)
  ultimately show ?thesis using k by (intro that) (auto simp: Let_def)
qed

lemma true_div_le:
  assumes "0 < x" "0 < y" "of_int x / of_int y = (q :: rat)" "q < 2 ^ 33" and "q \<le> of_int d"
  obtains f where "true_div x y = Inr f" and "f \<le> of_int d"
proof -
  from true_div_scaled [OF assms(1-4)] obtain k where k: "true_div x y = Inr (of_int (half_even (q * 2 ^ k)) / 2 ^ k)" .
  have "half_even (q * 2 ^ k) \<le> d * 2 ^ k"
    using mult_right_mono [OF assms(5), of "2 ^ k"] by (intro half_even_le) simp
  then have "(of_int (half_even (q * 2 ^ k)) :: rat) \<le> of_int (d * 2 ^ k)" by (simp only: of_int_le_iff)
  then have "of_int (half_even (q * 2 ^ k)) / 2 ^ k \<le> (of_int d :: rat)" by (subst pos_divide_le_eq) simp_all
  with k show ?thesis by (rule that)
qed

lemma true_div_ge:
  assumes "0 < x" "0 < y" "of_int x / of_int y = (q :: rat)" "q < 2 ^ 33" and "of_int d \<le> q"
  obtains f where "true_div x y = Inr f" and "of_int d \<le> f"
proof -
  from true_div_scaled [OF assms(1-4)] obtain k where k: "true_div x y = Inr (of_int (half_even (q * 2 ^ k)) / 2 ^ k)" .
  have "d * 2 ^ k \<le> half_even (q * 2 ^ k)"
    using mult_right_mono [OF assms(5), of "2 ^ k"] by (intro half_even_ge) simp
  then have "of_int (d * 2 ^ k) \<le> (of_int (half_even (q * 2 ^ k)) :: rat)" by (simp only: of_int_le_iff)
  then have "(of_int d :: rat) \<le> of_int (half_even (q * 2 ^ k)) / 2 ^ k" by (subst pos_le_divide_eq) simp_all
  with k show ?thesis by (rule that)
qed

lemma true_div_near:
  assumes "0 < x" "0 < y" "of_int x / of_int y = (q :: rat)" "q < 2 ^ 33" and "of_int d - 1 / 4 \<le> q" "q \<le> of_int d"
  obtains f where "true_div x y = Inr f" and "half_even f = d"
proof -
  from true_div_scaled [OF assms(1-4)] obtain k where "20 \<le> k"
    and k: "true_div x y = Inr (of_int (half_even (q * 2 ^ k)) / 2 ^ k)" .
  define h where "h = (of_int (half_even (q * 2 ^ k)) :: rat)"
  have "h / 2 ^ k - q = (h - q * 2 ^ k) / 2 ^ k" by (simp add: diff_divide_distrib)
  then have "\<bar>h / 2 ^ k - q\<bar> = \<bar>h - q * 2 ^ k\<bar> / 2 ^ k" by (simp only: abs_divide) simp
  also have "\<dots> \<le> 1 / 2 / 2 ^ k" unfolding h_def using half_even_near by (intro divide_right_mono) simp_all
  also have "\<dots> \<le> 1 / 2 / 2 ^ 3" using \<open>20 \<le> k\<close> by (intro divide_left_mono power_increasing) simp_all
  finally have near: "\<bar>h / 2 ^ k - q\<bar> \<le> 1 / 16" by simp
  have "\<bar>h / 2 ^ k - of_int d\<bar> < 1 / 2"
    unfolding abs_less_iff using abs_le_D1 [OF near] abs_le_D2 [OF near] assms(5,6) by linarith
  then show ?thesis using k by (intro that half_even_unique) (simp_all add: h_def)
qed

section \<open>Division by multiplication\<close>

text \<open>
  The constant for an unsigned division by \<open>d\<close> with a shift by \<open>s\<close> after the high word of the
  product: the quotient of \<open>2 ^ (32 + s)\<close> by \<open>d\<close>, rounded up, with an error that the shift hides.
\<close>

definition magic :: "nat \<Rightarrow> int \<Rightarrow> int \<Rightarrow> bool" where
  "magic s N d \<longleftrightarrow> 1 < d \<and> d \<le> 2 ^ 30 \<and> N < 2 ^ 32 \<and> 2 ^ (32 + s) \<le> N * d \<and> N * d < 2 ^ (32 + s) + d \<and> N * d \<le> 2 ^ (32 + s) + 2 ^ s"

lemma round_div_magic:
  assumes "magic s N d"
  shows "round_div (2 ^ (32 + s)) N = Inr (Some d)"
proof -
  define p where "p = (2 :: int) ^ (32 + s)"
  have d: "1 < d" "d \<le> 2 ^ 30" and lo: "p \<le> N * d" and hi: "N * d < p + d" and err: "N * d \<le> p + 2 ^ s"
    using assms by (auto simp: magic_def p_def)
  have ps: "p = 2 ^ 32 * 2 ^ s" by (simp add: p_def power_add)
  have "(2 :: int) ^ 32 * 1 \<le> 2 ^ 32 * 2 ^ s" by (intro mult_left_mono) simp_all
  moreover have "4 * d \<le> 2 ^ 32 * 1" using d(2) by simp
  ultimately have p: "4 * d \<le> p" unfolding ps by (rule order.trans [rotated])
  have N: "4 \<le> N"
  proof (rule ccontr)
    assume "\<not> 4 \<le> N"
    then have "N * d < 4 * d" using d by simp
    then show False using lo p by simp
  qed
  have N0: "0 < N" "0 < N + 1" "0 < N - 1" and p0: "0 < p" using N by (simp_all add: p_def)
  have real: "(of_int p / of_int M :: rat) \<le> of_int c \<longleftrightarrow> p \<le> c * M"
    "(of_int c :: rat) \<le> of_int p / of_int M \<longleftrightarrow> c * M \<le> p" if "0 < M" for c M
    using that by (simp_all add: divide_le_eq le_divide_eq flip: of_int_mult)
  have small: "(of_int p / of_int M :: rat) < 2 ^ 33" if "0 < M" "p \<le> 2 * d * M" for M
  proof -
    have "(of_int p / of_int M :: rat) \<le> of_int (2 * d)" using real(1) [OF that(1), of "2 * d"] that(2) by simp
    also have "\<dots> \<le> of_int (2 ^ 31)" using d(2) by (simp only: of_int_le_iff) simp
    finally show ?thesis by (rule le_less_trans) simp
  qed
  have grow: "p \<le> 2 * d * M" if "N * d + c = 2 * d * M" "0 \<le> c" for c M
    using order.trans [OF lo, of "N * d + c"] that by simp
  have nonneg: "0 \<le> N * d" "0 \<le> N * d + 2 * d" "0 \<le> (N - 2) * d" using N d(1) by simp_all
  have b1: "p \<le> 2 * d * N" "p \<le> 2 * d * (N + 1)" and b2: "p \<le> 2 * d * (N - 1)"
    by (rule grow [OF _ nonneg(1)] grow [OF _ nonneg(2)] grow [OF _ nonneg(3)], simp add: algebra_simps; fail)+
  have "(of_int p / of_int N :: rat) \<le> of_int d" using real(1) [OF N0(1), of d] lo by (simp add: mult.commute)
  moreover have "of_int d - 1 / 4 \<le> (of_int p / of_int N :: rat)"
  proof -
    have "(4 * d - 1) * N \<le> 4 * p"
    proof -
      have "4 * (N * d - p) \<le> N"
      proof -
        have "4 * 2 ^ s * d \<le> 4 * 2 ^ s * 2 ^ 30" using d(2) by (intro mult_left_mono) simp_all
        also have "\<dots> = p" by (simp add: ps)
        finally have "4 * 2 ^ s * d \<le> N * d" using lo by simp
        then have "4 * 2 ^ s \<le> N" using d by simp
        then show ?thesis using err by simp
      qed
      then show ?thesis by (simp add: algebra_simps)
    qed
    then have "(of_int (4 * d - 1) * of_int N :: rat) \<le> of_int (4 * p)" by (simp only: of_int_le_iff flip: of_int_mult)
    then show ?thesis using N0 by (simp add: field_simps)
  qed
  ultimately obtain q where q: "true_div p N = Inr q" "half_even q = d"
    using true_div_near [OF p0 N0(1) refl small [OF N0(1) b1(1)]] by blast
  have "p \<le> d * (N + 1)" "d * (N - 1) \<le> p" using lo hi d by (simp_all add: algebra_simps)
  then obtain low high where low: "true_div p (N + 1) = Inr low" "low \<le> of_int d"
    and high: "true_div p (N - 1) = Inr high" "of_int d \<le> high"
    using true_div_le [OF p0 N0(2) refl small [OF N0(2) b1(2)]] real(1) [OF N0(2)]
      true_div_ge [OF p0 N0(3) refl small [OF N0(3) b2]] real(2) [OF N0(3)] by metis
  show ?thesis using N q low high by (simp add: round_div_def Let_def flip: p_def)
qed

lemma magic_pos: "magic s N d \<Longrightarrow> 0 < d \<and> 0 < N"
proof -
  assume m: "magic s N d"
  have "0 < (2 :: int) ^ (32 + s)" by (rule zero_less_power) simp
  also have "\<dots> \<le> N * d" using m unfolding magic_def by blast
  finally show ?thesis using m unfolding magic_def by (metis less_trans zero_less_one zero_less_mult_pos2)
qed

lemma magic_quotient:
  assumes "magic s N d" and "x < 2 ^ 32"
  shows "x * nat N div 2 ^ (32 + s) = x div nat d"
proof (rule div_nat_eqI)
  define p where "p = (2 :: nat) ^ (32 + s)"
  define M where "M = nat N"
  define c where "c = nat d"
  have ints: "0 < d" "0 \<le> N" using magic_pos [OF assms(1)] by simp_all
  have prod: "int (M * c) = N * d" using ints by (simp add: M_def c_def)
  have "int p \<le> int (M * c)" "int (M * c) \<le> int (p + 2 ^ s)"
    using assms(1) unfolding prod by (simp_all add: magic_def p_def)
  then have lo: "p \<le> M * c" and hi: "M * c \<le> p + 2 ^ s" by (simp_all only: of_nat_le_iff)
  have c: "0 < c" using ints by (simp add: c_def)
  have x: "c * (x div c) \<le> x" "x < c * (x div c) + c" using dividend_less_times_div [OF c, of x] by (simp_all add: add.commute)
  have "p * (x div c) * c \<le> x * M * c"
    using mult_mono [OF x(1) lo] by (simp add: ac_simps)
  then show "2 ^ (32 + s) * (x div nat d) \<le> x * nat N" using c by (simp add: p_def c_def M_def)
  have "x * M * c \<le> x * (p + 2 ^ s)" using hi by (simp add: mult.assoc)
  also have "\<dots> < x * p + p" using assms(2) by (simp add: p_def power_add algebra_simps)
  also have "\<dots> = (x + 1) * p" by simp
  also have "\<dots> \<le> (c * (x div c) + c) * p" using x(2) by (intro mult_right_mono) simp_all
  also have "\<dots> = p * Suc (x div c) * c" by (simp add: algebra_simps)
  finally show "x * nat N < 2 ^ (32 + s) * Suc (x div nat d)" using c by (simp add: p_def c_def M_def)
qed

text \<open>The whole sequence on words: the high product, shifted right, is the quotient.\<close>

lemma magic_word:
  assumes "magic s N d" and "s < 32"
  shows "drop_bit s (multu_hi x (word_of_int N)) = x div word_of_int d"
proof -
  have N: "0 \<le> N" "N < 2 ^ 32" and d: "0 < d" "d < 2 ^ 32"
    using magic_pos [OF assms(1)] assms(1) by (simp_all add: magic_def)
  have vals: "unat (word_of_int N :: 32 word) = nat N" "unat (word_of_int d :: 32 word) = nat d"
    using N d by (simp_all add: unat_lit)
  have x: "unat x < 2 ^ 32" using unsigned_less [of x] by simp
  have "unat x * nat N div 2 ^ 32 < 2 ^ 32"
    using x N by (intro less_mult_imp_div_less mult_strict_mono) auto
  then have hi: "unat (multu_hi x (word_of_int N)) = unat x * nat N div 2 ^ 32"
    unfolding multu_hi_def vals by (simp add: unat_of_nat)
  have "unat (drop_bit s (multu_hi x (word_of_int N))) = unat x * nat N div 2 ^ 32 div 2 ^ s"
    by (subst unat_drop_bit_eq) (simp only: hi drop_bit_eq_div)
  also have "\<dots> = unat x * nat N div 2 ^ (32 + s)" by (simp only: div_mult2_eq power_add)
  also have "\<dots> = unat x div nat d" by (rule magic_quotient [OF assms(1) x])
  also have "\<dots> = unat (x div word_of_int d)" by (simp add: unat_div vals)
  finally show ?thesis by (simp only: word_unat_eq_iff)
qed

section \<open>Right shifts\<close>

lemma first_of_simps [simp]: "first_of (Inr None) e = e" "first_of (Inr (Some x)) e = Inr x" "first_of (Inl f) e = Inl f"
  by (simp_all add: first_of_def)

lemma unwrap_Literal [simp]: "early_unwrap_ints (Literal v) = Literal v"
  by (simp add: early_unwrap_ints.simps)

text \<open>The rules for sums and differences do not apply to a shift.\<close>

lemma shift_rules:
  "carry_rule n ''>>'' l r = Inr None" "mod_rule n ''>>'' l r = Inr None" "negative_rule n ''>>'' l r = (l, r)"
  "add_error_rule ''>>'' l r = None" "sub_error_rule n ''>>'' l r = None"
  by (auto simp: carry_rule_def mod_rule_def negative_rule_def add_error_rule_def sub_error_rule_def split: expr.split)

lemma fold_divmod_shift:
  "fold_divmod n (BinaryOp i k src ''>>'' (Literal m)) =
     first_of (div_shift_rule n ''>>'' (early_unwrap_ints src) (Literal m))
       (first_of (product_rule n (shifted_operand (shifted_product ''>>'' (early_unwrap_ints src) (Literal m))))
         (Inr (BinaryOp i k src ''>>'' (Literal m))))"
  by (simp add: fold_divmod_def possible_match_ops_def literal_right_def shift_rules)

text \<open>Nothing is folded when the shifted expression is neither a quotient nor a high product.\<close>

definition top_op :: "expr \<Rightarrow> string" where
  "top_op e = (case e of BinaryOp i k l p r \<Rightarrow> p | _ \<Rightarrow> [])"

definition division_free :: "expr \<Rightarrow> bool" where
  "division_free e = (case early_unwrap_ints e of
     BinaryOp i k l p r \<Rightarrow> p \<notin> {''/'', ''MULT_HI'', ''MULTU_HI''} \<and> (p = ''+'' \<longrightarrow> top_op (early_unwrap_ints l) \<noteq> ''MULT_HI'')
   | _ \<Rightarrow> True)"

lemma product_rule_other:
  "p \<notin> set mult_high_ops \<Longrightarrow> product_rule n (shifted_operand (p, l, r, m)) = Inr None"
  by (auto simp: product_rule_def shifted_operand_def split: expr.split)

lemma fold_divmod_division_free:
  assumes "division_free src"
  shows "fold_divmod n (BinaryOp i k src ''>>'' (Literal m)) = Inr (BinaryOp i k src ''>>'' (Literal m))"
proof (cases "early_unwrap_ints src")
  case (BinaryOp i' k' l p r)
  then have p: "p \<notin> {''/'', ''MULT_HI'', ''MULTU_HI''}" "p = ''+'' \<Longrightarrow> top_op (early_unwrap_ints l) \<noteq> ''MULT_HI''"
    using assms by (auto simp: division_free_def)
  have "drop_addition (p, early_unwrap_ints l, early_unwrap_ints r) = (p, early_unwrap_ints l, early_unwrap_ints r)"
    using p(2) by (auto simp: drop_addition_def top_op_def split: expr.split)
  then obtain l' r' where "shifted_product ''>>'' (early_unwrap_ints src) (Literal m) = (p, l', r', m)"
    by (simp add: shifted_product_def BinaryOp split_def Let_def)
  moreover have "div_shift_rule n ''>>'' (early_unwrap_ints src) (Literal m) = Inr None"
    using p(1) by (auto simp: div_shift_rule_def BinaryOp split: expr.split)
  ultimately show ?thesis
    using p(1) by (simp add: fold_divmod_shift product_rule_other mult_high_ops_def)
qed (auto simp: fold_divmod_shift div_shift_rule_def shifted_product_def product_rule_other mult_high_ops_def)

text \<open>A dividend that is no constant, no shift, and behind no cast.\<close>

definition plain_dividend :: "expr \<Rightarrow> bool" where
  "plain_dividend x \<longleftrightarrow> early_unwrap_ints x = early_unwrap x \<and> lit_value (early_unwrap x) = None \<and> top_op (early_unwrap x) \<noteq> ''>>''"

lemma fold_divmod_magic:
  assumes "early_unwrap_ints src = BinaryOp j k' x ''MULTU_HI'' (Literal N)" and "plain_dividend x" and "magic s N d"
  shows "fold_divmod n (BinaryOp i k src ''>>'' (Literal (int s))) = Inr (BinaryOp n KInt (early_unwrap x) ''/'' (Literal d))"
proof -
  have x: "early_unwrap_ints x = early_unwrap x" "lit_value (early_unwrap x) = None" "top_op (early_unwrap x) \<noteq> ''>>''"
    using assms(2) by (simp_all add: plain_dividend_def)
  have add: "drop_addition (''MULTU_HI'', y, z) = (''MULTU_HI'', y, z)" for y z
    by (simp add: drop_addition_def split: expr.split)
  have "shifted_product ''>>'' (early_unwrap_ints src) (Literal (int s)) = (''MULTU_HI'', early_unwrap x, Literal N, int s)"
    using x by (simp add: shifted_product_def assms(1) add literal_right_def)
  moreover have "shifted_operand (''MULTU_HI'', early_unwrap x, Literal N, int s) = (''MULTU_HI'', early_unwrap x, Literal N, int s)"
    using x(3) by (auto simp: shifted_operand_def top_op_def split: expr.split)
  moreover have "shl 1 (32 + int s) = Inr (2 ^ (32 + s))"
    by (simp add: shl_def push_bit_eq_mult nat_add_distrib)
  ultimately show ?thesis
    using round_div_magic [OF assms(3)]
    by (simp add: fold_divmod_shift div_shift_rule_def assms(1) product_rule_def mult_high_ops_def)
qed

end
