(* ===== verification/Expr_Rotate.thy ===== *)
theory Expr_Rotate
  imports Expr_Divmod
begin

text \<open>
  Model of the rotate instructions in \<open>m2c/m2c/evaluate.py\<close>: the masks and the expressions built
  for \<open>rlwinm\<close>, \<open>rlwimi\<close> and \<open>rlwnm\<close>, simplified by the folds of the two theories before, against
  the words the processor computes.
\<close>

section \<open>Masks and rotations\<close>

definition bits_upto :: "int \<Rightarrow> int" where
  "bits_upto m = push_bit (nat (32 - m)) 1 - 1"

definition all_ones :: int where
  "all_ones = 0xFFFFFFFF"

text \<open>\<open>1 << n\<close> raises for a negative \<open>n\<close>, that is for a position above 32.\<close>

definition rlwi_mask :: "int \<Rightarrow> int \<Rightarrow> int res" where
  "rlwi_mask mask_begin mask_end =
     (if 32 < mask_begin \<or> 31 < mask_end then Inl ValueError
      else if mask_begin \<le> mask_end then Inr (bits_upto mask_begin - bits_upto (mask_end + 1))
      else Inr ((bits_upto (mask_end + 1) - bits_upto mask_begin) XOR all_ones))"

definition mask_node :: "bool \<Rightarrow> nat \<Rightarrow> int \<Rightarrow> int \<Rightarrow> expr \<Rightarrow> expr" where
  "mask_node simplify n m full e =
     (if m \<noteq> full
      then let masked = BinaryOp n KInt e ''&'' (Literal m) in if simplify then replace_bitand masked else masked
      else e)"

text \<open>The nodes that \<open>handle_rlwinm\<close> may build have the identities \<open>n\<close> to \<open>n + 8\<close>.\<close>

definition upper_bits :: "bool \<Rightarrow> nat \<Rightarrow> expr \<Rightarrow> int \<Rightarrow> int \<Rightarrow> int \<Rightarrow> expr option res" where
  "upper_bits simplify n source left_shift left_mask full =
     (if left_mask = 0 then Inr None
      else let shifted = (if left_shift \<noteq> 0 then BinaryOp n KInt source ''<<'' (Literal left_shift) else source)
        in ebind (if simplify then fold_mul_chains (n + 1) shifted else Inr shifted) (\<lambda>e.
             Inr (Some (mask_node simplify (n + 2) left_mask full e))))"

definition lower_bits :: "bool \<Rightarrow> nat \<Rightarrow> expr \<Rightarrow> int \<Rightarrow> int \<Rightarrow> int \<Rightarrow> expr option res" where
  "lower_bits simplify n source right_shift right_mask full =
     (if right_mask = 0 then Inr None
      else let shifted = BinaryOp n KUint source ''>>'' (Literal right_shift)
        in ebind (if simplify then ebind (fold_divmod (n + 1) shifted) (\<lambda>e. Inr (replace_clz_shift (n + 3) e)) else Inr shifted) (\<lambda>e.
             Inr (Some (mask_node simplify (n + 4) right_mask full e))))"

definition join_bits :: "nat \<Rightarrow> expr option \<Rightarrow> expr option \<Rightarrow> expr" where
  "join_bits n u l = (case (u, l) of
     (None, None) \<Rightarrow> Literal 0
   | (None, Some y) \<Rightarrow> y
   | (Some x, None) \<Rightarrow> x
   | (Some x, Some y) \<Rightarrow> BinaryOp n KInt x ''|'' y)"

definition handle_rlwinm :: "nat \<Rightarrow> expr \<Rightarrow> int \<Rightarrow> int \<Rightarrow> int \<Rightarrow> bool \<Rightarrow> expr res" where
  "handle_rlwinm n source shift mask_begin mask_end simplify0 =
     ebind (rlwi_mask mask_begin mask_end) (\<lambda>mask.
     ebind (shl all_ones shift) (\<lambda>left_all. ebind (shr all_ones (32 - shift)) (\<lambda>right_all.
       let left_mask = left_all AND mask; right_mask = right_all AND mask;
           simplify = (simplify0 \<and> \<not> (left_mask \<noteq> 0 \<and> right_mask \<noteq> 0))
       in case source of
            Literal v \<Rightarrow> ebind (shl v shift) (\<lambda>u. ebind (shr v (32 - shift)) (\<lambda>l.
              Inr (Literal ((u AND mask) OR (l AND mask)))))
          | _ \<Rightarrow> ebind (upper_bits simplify n source shift left_mask (left_all AND all_ones)) (\<lambda>u.
                 ebind (lower_bits simplify (n + 3) source (32 - shift) right_mask (right_all AND all_ones)) (\<lambda>l.
                   Inr (join_bits (n + 8) u l))))))"

definition handle_rlwimi :: "nat \<Rightarrow> expr \<Rightarrow> expr \<Rightarrow> int \<Rightarrow> int \<Rightarrow> int \<Rightarrow> expr res" where
  "handle_rlwimi n base source shift mask_begin mask_end =
     ebind (rlwi_mask mask_begin mask_end) (\<lambda>m.
       let masked_base = BinaryOp (n + 10) KInt base ''&'' (UnaryOp (n + 9) ''~'' (Literal m))
       in if source = Literal 0 then Inr masked_base
          else ebind (handle_rlwinm n source shift mask_begin mask_end False) (\<lambda>inserted.
            if inserted = Literal m then Inr (BinaryOp (n + 11) KInt base ''|'' inserted)
            else Inr (BinaryOp (n + 11) KInt masked_base ''|'' inserted)))"

definition handle_rlwnm :: "nat \<Rightarrow> expr \<Rightarrow> expr \<Rightarrow> int \<Rightarrow> int \<Rightarrow> expr res" where
  "handle_rlwnm n source shift_source mask_begin mask_end =
     ebind (rlwi_mask mask_begin mask_end) (\<lambda>mask.
       let shift = BinaryOp n KInt shift_source ''&'' (Literal 31);
           upper = BinaryOp (n + 2) KInt (BinaryOp (n + 1) KInt source ''<<'' shift) ''&'' (Literal mask);
           lower = BinaryOp (n + 5) KInt
             (BinaryOp (n + 4) KInt source ''>>'' (BinaryOp (n + 3) KInt (Literal 32) ''-'' shift)) ''&'' (Literal mask)
       in Inr (BinaryOp (n + 6) KInt upper ''|'' lower))"

section \<open>Masks as words\<close>

text \<open>The mask of the processor manual: bit 0 is the most significant.\<close>

definition in_mask :: "int \<Rightarrow> int \<Rightarrow> nat \<Rightarrow> bool" where
  "in_mask mb me i \<longleftrightarrow> (let j = 31 - int i in
     if mb \<le> me then mb \<le> j \<and> j \<le> me else j \<le> me \<or> mb \<le> j)"

lemma bits_upto_mask: "m \<le> 32 \<Longrightarrow> bits_upto m = mask (nat (32 - m))"
  by (simp add: bits_upto_def mask_eq_exp_minus_1 push_bit_eq_mult)

lemma bit_mask_diff: "b \<le> a \<Longrightarrow> bit (mask a - mask b :: int) i \<longleftrightarrow> b \<le> i \<and> i < a"
proof -
  assume le: "b \<le> a"
  then have "(mask a - mask b :: int) = push_bit b (mask (a - b))"
    by (simp add: mask_eq_exp_minus_1 push_bit_eq_mult algebra_simps flip: power_add)
  with le show ?thesis by (auto simp: bit_simps)
qed

lemma all_ones_mask: "all_ones = mask 32"
  by (simp add: all_ones_def mask_eq_exp_minus_1)

definition mask_range :: "int \<Rightarrow> int \<Rightarrow> bool" where
  "mask_range mb me \<longleftrightarrow> 0 \<le> mb \<and> mb \<le> 31 \<and> 0 \<le> me \<and> me \<le> 31"

lemma bit_rlwi_mask:
  assumes "rlwi_mask mb me = Inr m" and "mask_range mb me"
  shows "bit m i \<longleftrightarrow> i < 32 \<and> in_mask mb me i"
proof (cases "mb \<le> me")
  case True
  with assms have "m = mask (nat (32 - mb)) - mask (nat (31 - me))"
    by (simp add: rlwi_mask_def bits_upto_mask mask_range_def)
  with True assms(2) show ?thesis
    by (auto simp: bit_mask_diff in_mask_def Let_def mask_range_def)
next
  case False
  with assms have "m = (mask (nat (31 - me)) - mask (nat (32 - mb))) XOR mask 32"
    by (simp add: rlwi_mask_def bits_upto_mask mask_range_def all_ones_mask)
  with False assms(2) show ?thesis
    by (auto simp: bit_mask_diff bit_xor_iff bit_mask_iff in_mask_def Let_def mask_range_def)
qed

text \<open>\<open>rlwinm\<close> as the processor computes it.\<close>

definition ppc_mask :: "int \<Rightarrow> int \<Rightarrow> 32 word" where
  "ppc_mask mb me = horner_sum of_bool 2 (map (in_mask mb me) [0..<32])"

definition rlwinm_word :: "32 word \<Rightarrow> int \<Rightarrow> int \<Rightarrow> int \<Rightarrow> 32 word" where
  "rlwinm_word x sh mb me = word_rotl (nat sh) x AND ppc_mask mb me"

lemma bit_ppc_mask: "bit (ppc_mask mb me) i \<longleftrightarrow> i < 32 \<and> in_mask mb me i"
  by (auto simp: ppc_mask_def bit_horner_sum_bit_word_iff)

lemma rlwi_mask_word:
  "rlwi_mask mb me = Inr m \<Longrightarrow> mask_range mb me \<Longrightarrow> word_of_int m = ppc_mask mb me"
  by (rule bit_word_eqI) (simp add: bit_ppc_mask bit_rlwi_mask bit_word_of_int_iff)

lemma rotl_split:
  fixes x :: "32 word"
  assumes "sh \<le> 32"
  shows "word_rotl sh x = push_bit sh x OR drop_bit (32 - sh) x"
proof (rule bit_word_eqI)
  fix i assume i: "i < LENGTH(32)"
  show "bit (word_rotl sh x) i \<longleftrightarrow> bit (push_bit sh x OR drop_bit (32 - sh) x) i"
  proof (cases "sh = 32")
    case True
    with i show ?thesis by (simp add: bit_word_rotl_iff bit_or_iff bit_push_bit_iff bit_drop_bit_eq)
  next
    case False
    with assms have lt: "sh < 32" by simp
    have rot: "bit (word_rotl sh x) i \<longleftrightarrow> bit x ((i + (32 - sh)) mod 32)"
      using i lt by (simp add: bit_word_rotl_iff)
    have bits: "bit (push_bit sh x OR drop_bit (32 - sh) x) i \<longleftrightarrow> sh \<le> i \<and> bit x (i - sh) \<or> bit x (i + (32 - sh))"
      using i by (simp only: bit_or_iff bit_push_bit_iff bit_drop_bit_eq o_apply add.commute possible_bit_word) auto
    show ?thesis
    proof (cases "sh \<le> i")
      case True
      then have "(i + (32 - sh)) mod 32 = i - sh" using i lt by (simp add: mod_if)
      moreover have "\<not> bit x (i + (32 - sh))" using True lt bit_imp_le_length [of x "i + (32 - sh)"] by auto
      ultimately show ?thesis using True rot bits by simp
    next
      case False
      then have "(i + (32 - sh)) mod 32 = i + (32 - sh)" using lt by simp
      then show ?thesis using False rot bits by simp
    qed
  qed
qed

lemma push_ones: "push_bit k (x :: 32 word) AND word_of_int (push_bit k all_ones) = push_bit k x"
  by (rule bit_word_eqI) (auto simp: bit_simps all_ones_mask)

lemma drop_ones: "drop_bit k (x :: 32 word) AND word_of_int (drop_bit k all_ones) = drop_bit k x"
  by (rule bit_word_eqI) (auto simp: bit_simps all_ones_mask dest: bit_imp_le_length)

lemma and_all_ones: "word_of_int (a AND all_ones) = (word_of_int a :: 32 word)"
  by (rule bit_word_eqI) (auto simp: bit_simps all_ones_mask)

lemma word_of_int_and: "word_of_int (a AND b) = (word_of_int a AND word_of_int b :: 32 word)"
  by (rule bit_word_eqI) (auto simp: bit_simps)

lemma word_of_int_or: "word_of_int (a OR b) = (word_of_int a OR word_of_int b :: 32 word)"
  by (rule bit_word_eqI) (auto simp: bit_simps)

lemma mask_node_value:
  assumes "value_of env sg e AND word_of_int full = value_of env sg e" and "lit_value e = None"
  shows "value_of env sg (mask_node simplify n m full e) = value_of env sg e AND word_of_int m"
  using assms by (auto simp: mask_node_def Let_def replace_bitand_value)

definition opt_value :: "(nat \<Rightarrow> 32 word) \<Rightarrow> (nat \<Rightarrow> bool) \<Rightarrow> expr option \<Rightarrow> 32 word" where
  "opt_value env sg r = (case r of None \<Rightarrow> 0 | Some e \<Rightarrow> value_of env sg e)"

lemma same_expr_simps [simp]:
  "same_expr (BinaryOp n k l p r) d \<longleftrightarrow> d = BinaryOp n k l p r" "same_expr d (BinaryOp n k l p r) \<longleftrightarrow> d = BinaryOp n k l p r"
  "same_expr (Literal v) d \<longleftrightarrow> d = Literal v" "same_expr d (Literal v) \<longleftrightarrow> d = Literal v"
  by (cases d; auto)+

lemma casts_agree_shift: "casts_agree e \<Longrightarrow> casts_agree (BinaryOp n k e p (Literal v))"
  unfolding casts_agree_def by auto

text \<open>What the folds need to know of an operand when they may simplify.\<close>

definition foldable :: "expr \<Rightarrow> bool" where
  "foldable e \<longleftrightarrow> shifts_ok e \<and> casts_agree e \<and> casts_wide e \<and> division_free e"

lemma fold_mul_chains_nonliteral: "fold_mul_chains n e = Inr e' \<Longrightarrow> lit_value e = None \<Longrightarrow> lit_value e' = None"
  by (auto simp: fold_mul_chains_def lit_value_def split: if_splits)

lemma upper_shifted:
  assumes "0 \<le> sh" "sh < 32" "simplify \<Longrightarrow> foldable src" "lit_value src = None"
  shows "\<exists>u. (let shifted = (if sh \<noteq> 0 then BinaryOp n KInt src ''<<'' (Literal sh) else src)
      in if simplify then fold_mul_chains (n + 1) shifted else Inr shifted) = Inr u \<and>
    lit_value u = None \<and> value_of env sg u = push_bit (nat sh) (value_of env sg src)"
proof -
  define e where "e = (if sh \<noteq> 0 then BinaryOp n KInt src ''<<'' (Literal sh) else src)"
  have e: "lit_value e = None" "value_of env sg e = push_bit (nat sh) (value_of env sg src)"
    using assms(1,2,4) by (auto simp: e_def lit_value_def)
  show ?thesis
  proof (cases simplify)
    case True
    then have "shifts_ok e" "casts_agree e"
      using assms(1-3) by (auto simp: e_def foldable_def lit_value_def intro: casts_agree_shift)
    from fold_mul_chains_keeps [OF this] obtain u
      where "fold_mul_chains (n + 1) e = Inr u" "value_of env sg u = value_of env sg e" by blast
    with True e fold_mul_chains_nonliteral show ?thesis by (simp flip: e_def)
  qed (use e in \<open>simp flip: e_def\<close>)
qed

lemma upper_bits_value:
  assumes "0 \<le> sh" and "sh \<le> 32" and m: "\<And>i. bit m i \<Longrightarrow> i < 32" and "simplify \<Longrightarrow> foldable src" "lit_value src = None"
  shows "\<exists>u. upper_bits simplify n src sh (push_bit (nat sh) all_ones AND m) (push_bit (nat sh) all_ones AND all_ones) = Inr u \<and>
    opt_value env sg u = push_bit (nat sh) (value_of env sg src) AND word_of_int m"
proof -
  let ?y = "push_bit (nat sh) (value_of env sg src)" and ?m = "push_bit (nat sh) all_ones AND m"
  have masked: "?y AND word_of_int ?m = ?y AND word_of_int m"
    by (simp add: word_of_int_and push_ones flip: and.assoc)
  show ?thesis
  proof (cases "?m = 0")
    case True
    then have "?y AND word_of_int m = 0" using masked by simp
    then show ?thesis using True by (simp add: upper_bits_def opt_value_def)
  next
    case False
    have "push_bit 32 all_ones AND m = 0" using m by (intro bit_eqI) (auto simp: bit_simps dest!: m)
    then have "sh < 32" using False assms(2) by (cases "sh = 32") simp_all
    then obtain u where u: "(let shifted = (if sh \<noteq> 0 then BinaryOp n KInt src ''<<'' (Literal sh) else src)
        in if simplify then fold_mul_chains (n + 1) shifted else Inr shifted) = Inr u"
      "lit_value u = None" "value_of env sg u = ?y"
      using upper_shifted [OF assms(1) _ assms(4,5)] by blast
    have "value_of env sg u AND word_of_int (push_bit (nat sh) all_ones AND all_ones) = value_of env sg u"
      by (simp add: u(3) and_all_ones push_ones)
    from mask_node_value [OF this u(2)] show ?thesis
      using False u(1,3) masked by (auto simp: upper_bits_def opt_value_def Let_def split: if_splits)
  qed
qed

lemma lower_shifted:
  assumes "0 \<le> k" "k \<le> 32" "simplify \<Longrightarrow> foldable src"
  shows "\<exists>l. (let shifted = BinaryOp n KUint src ''>>'' (Literal k)
      in if simplify then ebind (fold_divmod (n + 1) shifted) (\<lambda>e. Inr (replace_clz_shift (n + 3) e)) else Inr shifted) = Inr l \<and>
    lit_value l = None \<and> value_of env sg l = drop_bit (nat k) (value_of env sg src)"
proof -
  let ?e = "BinaryOp n KUint src ''>>'' (Literal k)"
  have v: "value_of env sg ?e = drop_bit (nat k) (value_of env sg src)" using assms(1,2) by simp
  have lit: "lit_value (replace_clz_shift (n + 3) ?e) = None"
    by (auto simp: replace_clz_shift_def lit_value_def split: expr.split)
  show ?thesis
  proof (cases simplify)
    case True
    then have src: "casts_wide ?e" "division_free src" using assms(3) by (simp_all add: foldable_def)
    show ?thesis
      using True v lit replace_clz_shift_value [OF src(1), of env sg] by (simp add: Let_def fold_divmod_division_free [OF src(2)])
  qed (use v in \<open>simp add: lit_value_def\<close>)
qed

lemma lower_bits_value:
  assumes "0 \<le> k" and "k \<le> 32" and "simplify \<Longrightarrow> foldable src"
  shows "\<exists>l. lower_bits simplify n src k (drop_bit (nat k) all_ones AND m) (drop_bit (nat k) all_ones AND all_ones) = Inr l \<and>
    opt_value env sg l = drop_bit (nat k) (value_of env sg src) AND word_of_int m"
proof -
  let ?y = "drop_bit (nat k) (value_of env sg src)" and ?m = "drop_bit (nat k) all_ones AND m"
  have masked: "?y AND word_of_int ?m = ?y AND word_of_int m"
    by (simp add: word_of_int_and drop_ones flip: and.assoc)
  show ?thesis
  proof (cases "?m = 0")
    case True
    then have "?y AND word_of_int m = 0" using masked by simp
    then show ?thesis using True by (simp add: lower_bits_def opt_value_def)
  next
    case False
    from lower_shifted [OF assms] obtain l where l: "(let shifted = BinaryOp n KUint src ''>>'' (Literal k)
        in if simplify then ebind (fold_divmod (n + 1) shifted) (\<lambda>e. Inr (replace_clz_shift (n + 3) e)) else Inr shifted) = Inr l"
      "lit_value l = None" "value_of env sg l = ?y" by blast
    have "value_of env sg l AND word_of_int (drop_bit (nat k) all_ones AND all_ones) = value_of env sg l"
      by (simp add: l(3) and_all_ones drop_ones)
    from mask_node_value [OF this l(2)] show ?thesis
      using False l(1,3) masked unfolding lower_bits_def Let_def by (auto simp: opt_value_def)
  qed
qed

lemma join_bits_value: "value_of env sg (join_bits n u l) = opt_value env sg u OR opt_value env sg l"
  by (auto simp: join_bits_def opt_value_def split: option.split)

text \<open>A literal operand is a 32-bit pattern, not a negative number.\<close>

definition unsigned_literal :: "expr \<Rightarrow> bool" where
  "unsigned_literal e \<longleftrightarrow> (case lit_value e of Some v \<Rightarrow> 0 \<le> v \<and> v < 2 ^ 32 | None \<Rightarrow> True)"

lemma drop_bit_lit:
  assumes "0 \<le> v" and "v < 2 ^ 32"
  shows "word_of_int (drop_bit k v) = drop_bit k (word_of_int v :: 32 word)"
proof (rule bit_word_eqI)
  fix i assume "i < LENGTH(32)"
  have "bit v j \<Longrightarrow> j < 32" for j
    using assms by (metis bit_take_bit_iff take_bit_int_eq_self)
  from this [of "k + i"] show "bit (word_of_int (drop_bit k v) :: 32 word) i \<longleftrightarrow> bit (drop_bit k (word_of_int v :: 32 word)) i"
    by (auto simp: bit_simps)
qed

lemma push_bit_lit: "word_of_int (push_bit k v) = push_bit k (word_of_int v :: 32 word)"
  by (rule bit_word_eqI) (auto simp: bit_simps)

lemma rlwinm_value:
  assumes mask: "mask_range mb me" and sh: "0 \<le> sh" "sh \<le> 32" and lit: "unsigned_literal src"
    and fold: "simplify \<Longrightarrow> foldable src"
  shows "\<exists>e. handle_rlwinm n src sh mb me simplify = Inr e \<and> value_of env sg e = rlwinm_word (value_of env sg src) sh mb me"
proof -
  obtain m where m: "rlwi_mask mb me = Inr m" using mask by (cases "mb \<le> me") (auto simp: rlwi_mask_def mask_range_def)
  let ?x = "value_of env sg src" and ?M = "word_of_int m :: 32 word"
  have sh': "nat (32 - sh) = 32 - nat sh" using sh by simp
  let ?lm = "push_bit (nat sh) all_ones AND m" and ?rm = "drop_bit (nat (32 - sh)) all_ones AND m"
  define s where "s \<longleftrightarrow> simplify \<and> \<not> (?lm \<noteq> 0 \<and> ?rm \<noteq> 0)"
  have "\<exists>e. handle_rlwinm n src sh mb me simplify = Inr e \<and>
      value_of env sg e = (push_bit (nat sh) ?x AND ?M) OR (drop_bit (nat (32 - sh)) ?x AND ?M)"
  proof (cases "lit_value src")
    case None
    have bits: "bit m i \<Longrightarrow> i < 32" for i using bit_rlwi_mask [OF m mask] by simp
    have "s \<Longrightarrow> foldable src" using fold by (simp add: s_def)
    with upper_bits_value [where simplify = s and n = n and src = src and m = m and env = env and sg = sg, OF sh bits _ None]
      lower_bits_value [where simplify = s and k = "32 - sh" and n = "n + 3" and src = src and m = m and env = env and sg = sg] sh
    obtain u l where u: "upper_bits s n src sh ?lm (push_bit (nat sh) all_ones AND all_ones) = Inr u"
        "opt_value env sg u = push_bit (nat sh) ?x AND ?M"
      and l: "lower_bits s (n + 3) src (32 - sh) ?rm (drop_bit (nat (32 - sh)) all_ones AND all_ones) = Inr l"
        "opt_value env sg l = drop_bit (nat (32 - sh)) ?x AND ?M"
      by auto
    have "handle_rlwinm n src sh mb me simplify = Inr (join_bits (n + 8) u l)"
      using None sh m u(1) l(1) unfolding s_def
      by (cases src) (auto simp: handle_rlwinm_def shl_def shr_def Let_def lit_value_def)
    then show ?thesis by (simp add: join_bits_value u l)
  next
    case (Some v)
    then show ?thesis
      using sh m lit
      by (auto simp: handle_rlwinm_def shl_def shr_def unsigned_literal_def word_of_int_or word_of_int_and push_bit_lit drop_bit_lit)
  qed
  moreover have "(push_bit (nat sh) ?x AND ?M) OR (drop_bit (nat (32 - sh)) ?x AND ?M) = rlwinm_word ?x sh mb me"
  proof -
    have "(push_bit (nat sh) ?x AND ?M) OR (drop_bit (nat (32 - sh)) ?x AND ?M) = (push_bit (nat sh) ?x OR drop_bit (32 - nat sh) ?x) AND ?M"
      by (simp add: sh' bit.conj_disj_distrib2)
    also have "\<dots> = rlwinm_word ?x sh mb me"
      using sh by (simp add: rlwinm_word_def rotl_split rlwi_mask_word [OF m mask])
    finally show ?thesis .
  qed
  ultimately show ?thesis by simp
qed

lemma bit_rlwinm_word:
  assumes "0 \<le> sh" and "sh \<le> 32" and "i < 32"
  shows "bit (rlwinm_word x sh mb me) i \<longleftrightarrow>
    (nat sh \<le> i \<and> bit x (i - nat sh) \<or> bit x (i + (32 - nat sh))) \<and> in_mask mb me i"
proof -
  have "word_rotl (nat sh) x = push_bit (nat sh) x OR drop_bit (32 - nat sh) x"
    using assms by (intro rotl_split) simp
  then show ?thesis
    using assms(3) by (auto simp: rlwinm_word_def bit_and_iff bit_or_iff bit_ppc_mask bit_push_bit_iff bit_drop_bit_eq add.commute)
qed

section \<open>Properties\<close>

text \<open>C6: The expression built for \<open>rlwinm\<close>, simplified or not, has the value the processor computes:
  the operand rotated left by \<open>shift\<close>, and-ed with the mask of the bits \<open>MB\<close> to \<open>ME\<close>, wrap-around masks
  included.  A literal operand is not negative; when the expression may be simplified, the shifts
  in the operand are those of the machine, two casts of one expression agree, casts are to a byte
  at least, and the operand is no quotient or high product (the recovery of divisions is the
  subject of a property of its own).\<close>

theorem handle_rlwinm_value:
  assumes "mask_range mb me" and "0 \<le> shift" and "shift \<le> 32" and "unsigned_literal source"
    and "simplify \<Longrightarrow> foldable source"
  shows "\<exists>e. handle_rlwinm n source shift mb me simplify = Inr e \<and>
    value_of env sg e = rlwinm_word (value_of env sg source) shift mb me"
  using assms by (rule rlwinm_value)

theorem handle_rlwinm_value_witness:
  "\<exists>e. handle_rlwinm 1 (Leaf 0) 4 20 27 True = Inr e \<and> value_of (\<lambda>_. 0x12345678) (\<lambda>_. False) e = rlwinm_word 0x12345678 4 20 27"
proof -
  have "foldable (Leaf 0)" by code_simp
  with handle_rlwinm_value [of 20 27 4 "Leaf 0" True 1 "\<lambda>_. 0x12345678" "\<lambda>_. False"] show ?thesis
    by (simp add: mask_range_def unsigned_literal_def lit_value_def)
qed



text \<open>C31: The expression built for \<open>rlwimi\<close> keeps the bits of the base outside the mask and
  takes the bits inside it from the rotated operand.\<close>

theorem handle_rlwimi_value:
  assumes "handle_rlwimi n base source shift mb me = Inr e" and "mask_range mb me"
    and "0 \<le> shift" and "shift \<le> 32" and "unsigned_literal source"
  shows "value_of env sg e = (value_of env sg base AND NOT (ppc_mask mb me)) OR rlwinm_word (value_of env sg source) shift mb me"
proof -
  let ?b = "value_of env sg base" and ?M = "ppc_mask mb me" and ?s = "value_of env sg source"
  from assms(1) obtain m where m: "rlwi_mask mb me = Inr m" by (auto simp: handle_rlwimi_def)
  note M = rlwi_mask_word [OF m assms(2)]
  have over: "?b OR ?M = (?b AND NOT ?M) OR ?M" by (rule bit_word_eqI) (auto simp: bit_simps)
  show ?thesis
  proof (cases "source = Literal 0")
    case True
    with assms(1) m show ?thesis by (auto simp: handle_rlwimi_def rlwinm_word_def un_value_def M)
  next
    case False
    with assms(1) m obtain ins where ins: "handle_rlwinm n source shift mb me False = Inr ins" and
      e: "e = (if ins = Literal m then BinaryOp (n + 11) KInt base ''|'' ins
        else BinaryOp (n + 11) KInt (BinaryOp (n + 10) KInt base ''&'' (UnaryOp (n + 9) ''~'' (Literal m))) ''|'' ins)"
      by (auto simp: handle_rlwimi_def Let_def split: if_splits)
    have v: "value_of env sg ins = rlwinm_word ?s shift mb me"
      using rlwinm_value [OF assms(2-5), of False n env sg] ins by simp
    show ?thesis
    proof (cases "ins = Literal m")
      case True
      with v M have "rlwinm_word ?s shift mb me = ?M" by simp
      with e True M over show ?thesis by simp
    next
      case False
      with e v M show ?thesis by (simp add: un_value_def)
    qed
  qed
qed

theorem handle_rlwimi_value_witness:
  "\<exists>e. handle_rlwimi 1 (Leaf 0) (Literal 15) 4 24 27 = Inr e \<and>
     value_of (\<lambda>_. 0x12345678) (\<lambda>_. False) e = (0x12345678 AND NOT (ppc_mask 24 27)) OR rlwinm_word 15 4 24 27"
proof -
  have "\<exists>e. handle_rlwimi 1 (Leaf 0) (Literal 15) 4 24 27 = Inr e"
    by (simp add: handle_rlwimi_def handle_rlwinm_def rlwi_mask_def shl_def shr_def Let_def)
  then obtain e where e: "handle_rlwimi 1 (Leaf 0) (Literal 15) 4 24 27 = Inr e" ..
  from handle_rlwimi_value [OF e, of "\<lambda>_. 0x12345678" "\<lambda>_. False"] e show ?thesis
    by (simp add: mask_range_def unsigned_literal_def)
qed

lemma or_absorbed: "r AND p = r \<Longrightarrow> r OR (p AND NOT k) = r \<longleftrightarrow> p AND NOT k = r AND NOT (k :: 32 word)"
  by (auto simp: bit_eq_iff bit_and_iff bit_or_iff bit_not_iff)

text \<open>C32: A negative literal operand is folded with the shifts of unbounded integers, where the right
  shift brings in copies of the sign.  The folded literal is the word the processor computes with
  every bit of the mask from position \<open>shift\<close> on set as well; so it is right exactly when the
  processor sets all of these bits.\<close>

theorem rlwinm_negative_literal:
  assumes "mask_range mb me" and "0 \<le> shift" and "shift \<le> 32" and "- (2 ^ 31) \<le> v" and "v < 0"
  shows "\<exists>w. handle_rlwinm n (Literal v) shift mb me simplify = Inr (Literal w) \<and>
    word_of_int w = rlwinm_word (word_of_int v) shift mb me OR (ppc_mask mb me AND NOT (mask (nat shift))) \<and>
    ((word_of_int w :: 32 word) = rlwinm_word (word_of_int v) shift mb me \<longleftrightarrow>
       ppc_mask mb me AND NOT (mask (nat shift)) = rlwinm_word (word_of_int v) shift mb me AND NOT (mask (nat shift)))"
proof -
  obtain m where m: "rlwi_mask mb me = Inr m" using assms(1) by (cases "mb \<le> me") (auto simp: rlwi_mask_def mask_range_def)
  let ?w = "(push_bit (nat shift) v AND m) OR (drop_bit (nat (32 - shift)) v AND m)"
  let ?r = "rlwinm_word (word_of_int v) shift mb me" and ?h = "ppc_mask mb me AND NOT (mask (nat shift))"
  have high: "bit v j" if "31 \<le> j" for j
  proof -
    have "take_bit 31 (NOT v) = NOT v" using assms(4,5) by (simp add: take_bit_int_eq_self_iff not_int_def)
    then have "\<not> bit (NOT v) j" using that by (metis bit_take_bit_iff not_less)
    then show ?thesis by (simp add: bit_not_int_iff)
  qed
  have w: "word_of_int ?w = ?r OR ?h"
  proof (rule bit_word_eqI)
    fix i assume i: "i < LENGTH(32)"
    have high': "nat shift \<le> i \<Longrightarrow> bit v (i + 32 - nat shift)" using assms(2,3) by (intro high) simp
    show "bit (word_of_int ?w :: 32 word) i \<longleftrightarrow> bit (?r OR ?h) i"
      using i assms(2,3) high'
      by (auto simp: bit_simps bit_rlwinm_word bit_ppc_mask bit_rlwi_mask [OF m assms(1)] nat_diff_distrib add.commute)
  qed
  have "?r AND ppc_mask mb me = ?r" by (simp add: rlwinm_word_def and.assoc)
  then have "?r OR ?h = ?r \<longleftrightarrow> ?h = ?r AND NOT (mask (nat shift))" by (rule or_absorbed)
  moreover have "handle_rlwinm n (Literal v) shift mb me simplify = Inr (Literal ?w)"
    using assms(2,3) m by (simp add: handle_rlwinm_def shl_def shr_def Let_def)
  ultimately show ?thesis using w by auto
qed

theorem rlwinm_negative_literal_witness:
  "\<exists>w. handle_rlwinm 1 (Literal (- 2)) 4 0 27 True = Inr (Literal w) \<and>
    (word_of_int w :: 32 word) \<noteq> rlwinm_word (word_of_int (- 2)) 4 0 27"
proof -
  have "ppc_mask 0 27 AND NOT (mask (nat 4)) \<noteq> rlwinm_word (word_of_int (- 2)) 4 0 27 AND NOT (mask (nat 4))" by code_simp
  then show ?thesis
    using rlwinm_negative_literal [of 0 27 4 "- 2" 1 True] by (auto simp: mask_range_def)
qed

text \<open>The rotation by a register is right as long as its right shift is read as unsigned.\<close>

lemma handle_rlwnm_unsigned:
  assumes "handle_rlwnm n source shift_source mb me = Inr e" and "mask_range mb me" and "\<not> sg (n + 4)"
  shows "value_of env sg e = rlwinm_word (value_of env sg source) (uint (value_of env sg shift_source AND 31)) mb me"
proof -
  let ?x = "value_of env sg source" and ?k = "value_of env sg shift_source AND 31 :: 32 word"
  from assms(1) obtain m where m: "rlwi_mask mb me = Inr m" by (auto simp: handle_rlwnm_def)
  note M = rlwi_mask_word [OF m assms(2)]
  have "?k = take_bit 5 (value_of env sg shift_source)" by (simp add: take_bit_eq_mask mask_eq_exp_minus_1)
  then have "unat ?k = take_bit 5 (unat (value_of env sg shift_source))" by (simp add: unsigned_take_bit_eq)
  then have k: "unat ?k \<le> 31" using take_bit_nat_less_exp [of 5 "unat (value_of env sg shift_source)"] by simp
  then have k': "unat (32 - ?k) = 32 - unat ?k"
    by (subst unat_sub) (auto simp: word_le_nat_alt)
  have "value_of env sg e = (push_bit (unat ?k) ?x AND ppc_mask mb me) OR (drop_bit (32 - unat ?k) ?x AND ppc_mask mb me)"
    using assms(1,3) m k' by (auto simp: handle_rlwnm_def Let_def M)
  also have "\<dots> = rlwinm_word ?x (uint ?k) mb me"
    unfolding rlwinm_word_def unat_eq_nat_uint [symmetric] using k
    by (subst rotl_split) (simp_all only: bit.conj_disj_distrib2)
  finally show ?thesis .
qed

text \<open>The expression built for \<open>rlwnm\<close> leaves the sign of its right shift open (\<open>handle_rlwinm\<close>
  makes it unsigned).  Read as a signed shift, as for a signed operand, it is wrong: rotating
  0x80000000 left by one yields 0xFFFFFFFF, while the processor computes 1.\<close>

theorem rlwnm_signed_shift:
  "\<exists>e. handle_rlwnm 2 (Leaf 0) (Leaf 1) 0 31 = Inr e \<and>
     value_of ((\<lambda>_. 1)(0 := 0x80000000)) (\<lambda>_. True) e = 0xFFFFFFFF \<and> rlwinm_word 0x80000000 1 0 31 = 1"
proof -
  have "case handle_rlwnm 2 (Leaf 0) (Leaf 1) 0 31 of
      Inr e \<Rightarrow> value_of ((\<lambda>_. 1)(0 := 0x80000000)) (\<lambda>_. True) e = 0xFFFFFFFF \<and> rlwinm_word 0x80000000 1 0 31 = 1
    | Inl _ \<Rightarrow> False"
    by code_simp
  then show ?thesis by (auto split: sum.splits)
qed

end

