(* ===== verification/Ppc_Props.thy ===== *)
theory Ppc_Props
  imports Pattern_Pass Expr_Rotate
begin

text \<open>
  Properties of the PowerPC front end: the rotate and shift pseudo-instructions are expanded to
  \<open>rlwinm\<close> with the operands that make it compute them, an upper half loaded with \<open>lis\<close> and its
  signed lower half add up to the value, and what \<open>parse\<close> guarantees of every instruction.
\<close>

section \<open>Rotate and shift pseudo-instructions\<close>

text \<open>What the pseudo-instructions compute, after the programming manual.\<close>

definition pseudo_value :: "string \<Rightarrow> int list \<Rightarrow> 32 word \<Rightarrow> 32 word option" where
  "pseudo_value m ns x =
     (case ns of
        [n] \<Rightarrow>
          if n < 0 \<or> 31 < n then None
          else if m = ''rotlwi'' then Some (word_rotl (nat n) x)
          else if m = ''rotrwi'' then Some (word_rotr (nat n) x)
          else if m = ''slwi'' then Some (push_bit (nat n) x)
          else if m = ''srwi'' then Some (drop_bit (nat n) x)
          else if m = ''clrlwi'' then Some (take_bit (32 - nat n) x)
          else if m = ''clrrwi'' then Some (push_bit (nat n) (drop_bit (nat n) x))
          else None
      | [n, b] \<Rightarrow>
          if m = ''extlwi'' \<and> 1 \<le> n \<and> n \<le> 32 \<and> 0 \<le> b \<and> b \<le> 31 then
            Some (push_bit (32 - nat n) (drop_bit (32 - nat n) (word_rotl (nat b) x)))
          else if m = ''extrwi'' \<and> 1 \<le> n \<and> 0 \<le> b \<and> n + b \<le> 32 then
            Some (take_bit (nat n) (drop_bit (32 - nat n - nat b) x))
          else if m = ''clrlslwi'' \<and> 0 \<le> b \<and> b \<le> n \<and> n \<le> 31 then
            Some (push_bit (nat b) (take_bit (32 - nat n) x))
          else None
      | _ \<Rightarrow> None)"

lemma bit_above: "32 \<le> i \<Longrightarrow> \<not> bit (x :: 32 word) i"
  using bit_imp_le_length [of x i] by auto

lemma word32_eqI: "(\<And>i. i < 32 \<Longrightarrow> bit (x :: 32 word) i \<longleftrightarrow> bit y i) \<Longrightarrow> x = y"
  by (rule bit_word_eqI) simp

lemma rotl_full: "0 \<le> n \<Longrightarrow> n \<le> 32 \<Longrightarrow> rlwinm_word x n 0 31 = word_rotl (nat n) x"
  by (rule word32_eqI) (auto simp: rlwinm_word_def bit_and_iff bit_ppc_mask in_mask_def Let_def)

lemma rotr_as_rotl: "n \<le> 32 \<Longrightarrow> word_rotr n (x :: 32 word) = word_rotl (32 - n) x"
  by (cases "n = 0") (auto intro!: word32_eqI simp: bit_word_rotr_iff bit_word_rotl_iff mod_if)

lemmas rlwinm_bits = bit_rlwinm_word in_mask_def Let_def bit_push_bit_iff bit_drop_bit_eq bit_take_bit_iff bit_above

lemma slwi_bits: "0 \<le> n \<Longrightarrow> n \<le> 31 \<Longrightarrow> rlwinm_word x n 0 (31 - n) = push_bit (nat n) x"
  by (rule word32_eqI) (auto simp: rlwinm_bits)

lemma srwi_bits: "0 \<le> n \<Longrightarrow> n \<le> 31 \<Longrightarrow> rlwinm_word x (32 - n) n 31 = drop_bit (nat n) x"
  by (rule word32_eqI) (auto simp: rlwinm_bits nat_diff_distrib add.commute dest: bit_imp_le_length)

lemma clrlwi_bits: "0 \<le> n \<Longrightarrow> n \<le> 31 \<Longrightarrow> rlwinm_word x 0 n 31 = take_bit (32 - nat n) x"
  by (rule word32_eqI) (auto simp: rlwinm_bits)

lemma clrrwi_bits: "0 \<le> n \<Longrightarrow> n \<le> 31 \<Longrightarrow> rlwinm_word x 0 0 (31 - n) = push_bit (nat n) (drop_bit (nat n) x)"
  by (rule word32_eqI) (auto simp: rlwinm_bits)

lemma extlwi_bits: "1 \<le> n \<Longrightarrow> n \<le> 32 \<Longrightarrow> 0 \<le> b \<Longrightarrow> b \<le> 31 \<Longrightarrow>
    rlwinm_word x b 0 (n - 1) = push_bit (32 - nat n) (drop_bit (32 - nat n) (word_rotl (nat b) x))"
  by (rule word32_eqI)
    (auto simp: rlwinm_word_def bit_and_iff bit_ppc_mask in_mask_def Let_def bit_push_bit_iff bit_drop_bit_eq)

lemma extrwi_bits: "1 \<le> n \<Longrightarrow> 0 \<le> b \<Longrightarrow> n + b \<le> 32 \<Longrightarrow>
    rlwinm_word x (n + b) (32 - n) 31 = take_bit (nat n) (drop_bit (32 - nat n - nat b) x)"
  by (rule word32_eqI) (auto simp: rlwinm_bits nat_add_distrib add.commute)

lemma clrlslwi_bits: "0 \<le> b \<Longrightarrow> b \<le> n \<Longrightarrow> n \<le> 31 \<Longrightarrow>
    rlwinm_word x b (n - b) (31 - b) = push_bit (nat b) (take_bit (32 - nat n) x)"
  by (rule word32_eqI) (auto simp: rlwinm_bits)


text \<open>The operands of the expansion.\<close>

definition pseudo_operands :: "string \<Rightarrow> int list \<Rightarrow> int \<times> int \<times> int" where
  "pseudo_operands m ns =
     (case ns of
        [n] \<Rightarrow>
          if m = ''rotlwi'' then (n, 0, 31) else if m = ''rotrwi'' then (32 - n, 0, 31)
          else if m = ''slwi'' then (n, 0, 31 - n) else if m = ''srwi'' then (32 - n, n, 31)
          else if m = ''clrlwi'' then (0, n, 31) else (0, 0, 31 - n)
      | [n, b] \<Rightarrow>
          if m = ''extlwi'' then (b, 0, n - 1) else if m = ''extrwi'' then (n + b, 32 - n, 31)
          else (b, n - b, 31 - b)
      | _ \<Rightarrow> (0, 0, 0))"

lemma pseudo_value_cases:
  assumes "pseudo_value m ns x = Some y"
  obtains n where "ns = [n]" and "0 \<le> n" and "n \<le> 31" and "m \<in> {''rotlwi'', ''rotrwi'', ''slwi'', ''srwi'', ''clrlwi'', ''clrrwi''}"
  | n b where "ns = [n, b]" and "m \<in> {''extlwi'', ''extrwi'', ''clrlslwi''}"
  using assms by (auto simp: pseudo_value_def split: list.splits if_splits)

lemma pseudo_value_rlwinm:
  assumes "pseudo_value m ns x = Some y" and "pseudo_operands m ns = (sh, mb, me)"
  shows "0 \<le> sh \<and> sh \<le> 32 \<and> mask_range mb me \<and> rlwinm_word x sh mb me = y"
  using assms
  by (auto simp: pseudo_value_def pseudo_operands_def mask_range_def rotl_full rotr_as_rotl slwi_bits srwi_bits clrlwi_bits
      clrrwi_bits extlwi_bits extrwi_bits clrlslwi_bits nat_diff_distrib split: list.splits if_splits)

lemmas normalize_eval = ppc_normalize.simps rstrip_set_def has_hint_def py_startswith_def zero_args_def INSTRS_R0_AS_ZERO_def
  subi_value_def subi_words_def arg_sub_def arg_add_def normalize3_def normalize4_def is_sda_macro_def Let_def

lemma pseudo_normalized3:
  "m \<in> {''rotlwi'', ''rotrwi'', ''slwi'', ''srwi'', ''clrlwi'', ''clrrwi''} \<Longrightarrow> dot \<in> {[], ''.''} \<Longrightarrow>
    pseudo_operands m [n] = (sh, mb, me) \<Longrightarrow>
    ppc_normalize (ins (m @ dot) [a0, a1, lit n]) = ins (''rlwinm'' @ dot) [a0, a1, lit sh, lit mb, lit me]"
  by (elim insertE emptyE) (simp_all add: normalize_eval pseudo_operands_def)

lemma pseudo_normalized4:
  "m \<in> {''extlwi'', ''extrwi'', ''clrlslwi''} \<Longrightarrow> dot \<in> {[], ''.''} \<Longrightarrow>
    pseudo_operands m [n, b] = (sh, mb, me) \<Longrightarrow>
    ppc_normalize (ins (m @ dot) [a0, a1, lit n, lit b]) = ins (''rlwinm'' @ dot) [a0, a1, lit sh, lit mb, lit me]"
  by (elim insertE emptyE) (simp_all add: normalize_eval pseudo_operands_def)

section \<open>Properties\<close>

text \<open>C29: The nine rotate, shift, clear and extract pseudo-instructions, with or without the
  record dot, are expanded to \<open>rlwinm\<close> so that the expression the decompiler builds for the
  expansion, simplified as for every \<open>rlwinm\<close>, has the value the manual gives to the
  pseudo-instruction, for every operand word and every operand the manual allows.\<close>

theorem pseudo_rotate_expansion:
  assumes "pseudo_value m ns x = Some y" and "dot \<in> {[], ''.''}" and "value_of env sg source = x"
    and "foldable source" and "unsigned_literal source"
  shows "\<exists>sh mb me e. ppc_normalize (ins (m @ dot) (a0 # a1 # map AsmLiteral ns)) =
      ins (''rlwinm'' @ dot) [a0, a1, AsmLiteral sh, AsmLiteral mb, AsmLiteral me] \<and>
    handle_rlwinm k source sh mb me True = Inr e \<and> value_of env sg e = y"
proof -
  obtain sh mb me where ops: "pseudo_operands m ns = (sh, mb, me)" by (cases "pseudo_operands m ns")
  from pseudo_value_rlwinm [OF assms(1) ops] have sh: "0 \<le> sh" "sh \<le> 32" and mask: "mask_range mb me"
    and y: "rlwinm_word x sh mb me = y" by simp_all
  from rlwinm_value [OF mask sh assms(5), of True k env sg] assms(3,4) y
  obtain e where e: "handle_rlwinm k source sh mb me True = Inr e" "value_of env sg e = y" by blast
  have "ppc_normalize (ins (m @ dot) (a0 # a1 # map AsmLiteral ns)) =
      ins (''rlwinm'' @ dot) [a0, a1, AsmLiteral sh, AsmLiteral mb, AsmLiteral me]"
    using assms(1)
  proof (cases rule: pseudo_value_cases)
    case (1 n)
    then show ?thesis using pseudo_normalized3 [OF 1(4) assms(2)] ops by simp
  next
    case (2 n b)
    then show ?thesis using pseudo_normalized4 [OF 2(2) assms(2)] ops by simp
  qed
  then show ?thesis using e by blast
qed

theorem pseudo_rotate_expansion_witness:
  "pseudo_value ''extrwi'' [8, 4] 0x12345678 = Some 0x23 \<and>
   (\<exists>sh mb me e. ppc_normalize (ins (''extrwi'' @ ''.'') (Reg (Register ''r3'') # Reg (Register ''r4'') # map AsmLiteral [8, 4])) =
      ins (''rlwinm'' @ ''.'') [Reg (Register ''r3''), Reg (Register ''r4''), AsmLiteral sh, AsmLiteral mb, AsmLiteral me] \<and>
    handle_rlwinm 1 (Leaf 0) sh mb me True = Inr e \<and> value_of (\<lambda>_. 0x12345678) (\<lambda>_. False) e = 0x23)"
proof -
  have v: "pseudo_value ''extrwi'' [8, 4] 0x12345678 = Some 0x23" by code_simp
  have src: "foldable (Leaf 0)" "unsigned_literal (Leaf 0)" by code_simp+
  show ?thesis
    by (intro conjI v) (rule pseudo_rotate_expansion [OF v _ _ src, of "''.''"], simp_all)
qed

section \<open>Loading an upper half\<close>

lemma and_mod: "(a :: int) AND 0xFFFF = a mod 0x10000"
  using take_bit_eq_mask [of 16 a] by (simp add: take_bit_eq_mod mask_eq_exp_minus_1)

lemma push15: "(0x8000 :: int) = push_bit 15 1"
  by simp

lemma push16: "(0xFFFF0000 :: int) = push_bit 16 (mask 16)"
  by (simp add: mask_eq_exp_minus_1)

lemma bit15: "(v :: int) AND 0x8000 \<noteq> 0 \<longleftrightarrow> 0x8000 \<le> v mod 0x10000"
proof -
  have "v AND 0x8000 = push_bit 15 (of_bool (bit v 15))"
    unfolding push15 by (rule bit_eqI) (simp only: bit_and_iff bit_push_bit_iff bit_1_iff bit_of_bool_iff possible_bit_int, auto)
  then have "v AND 0x8000 \<noteq> 0 \<longleftrightarrow> bit v 15" by simp
  also have "\<dots> \<longleftrightarrow> odd (v div 2 ^ 15)" by (simp add: bit_iff_odd)
  also have "\<dots> \<longleftrightarrow> 0x8000 \<le> v mod 0x10000"
  proof -
    have "v mod 0x10000 = 0x8000 * (v div 0x8000 mod 2) + v mod 0x8000" using zmod_zmult2_eq [of 2 v "0x8000"] by simp
    moreover have "0 \<le> v mod 0x8000" "v mod 0x8000 < 0x8000" by simp_all
    ultimately show ?thesis by (cases "odd (v div 0x8000)") (simp_all add: odd_iff_mod_2_eq_one)
  qed
  finally show ?thesis .
qed

lemma upper_half: "(v :: int) AND 0xFFFF0000 = v mod 0x100000000 - v mod 0x10000"
proof -
  have "v AND 0xFFFF0000 = push_bit 16 (take_bit 16 (drop_bit 16 v))"
    unfolding push16 by (rule bit_eqI)
      (simp only: bit_and_iff bit_push_bit_iff bit_mask_iff bit_take_bit_iff bit_drop_bit_eq o_apply possible_bit_int, auto)
  also have "\<dots> = v mod 0x100000000 - v mod 0x10000"
    using zmod_zmult2_eq [of 65536 v 65536] by (simp add: push_bit_eq_mult take_bit_eq_mod drop_bit_eq_div)
  finally show ?thesis .
qed

lemma as_s16_halves: "as_s16 v = v mod 0x10000 - (if 0x8000 \<le> v mod 0x10000 then 0x10000 else 0)"
proof -
  let ?l = "v mod 0x10000"
  have l: "0 \<le> ?l" "?l < 0x10000" by simp_all
  have "(v + 0x8000) mod 0x10000 = (?l + 0x8000) mod 0x10000" by (simp add: mod_add_left_eq)
  also have "\<dots> = (if 0x8000 \<le> ?l then ?l - 0x8000 else ?l + 0x8000)"
    using l minus_mod_self2 [of "?l + 0x8000" "0x10000"] by (auto simp: mod_pos_pos_trivial)
  finally show ?thesis by (simp add: as_s16_def and_mod)
qed

text \<open>\<open>lis rD, v@ha\<close> is normalised to a load of a constant which, together with the
  sign-extended lower half \<open>v@l\<close>, adds up to \<open>v\<close> in 32 bits.\<close>

theorem lis_ha_pair:
  "\<exists>h. ppc_normalize (ins ''lis'' [a0, Macro ''ha'' (AsmLiteral v)]) = ins ''li'' [a0, AsmLiteral h] \<and>
     (word_of_int h + word_of_int (as_s16 v) :: 32 word) = word_of_int v"
proof -
  define h where "h = (if v AND 0x8000 \<noteq> 0 then v + 0x10000 else v) AND 0xFFFF0000"
  have "(h + as_s16 v) mod 2 ^ 32 = v mod 2 ^ 32"
  proof (cases "0x8000 \<le> v mod 0x10000")
    case True
    then have "h = (v + 0x10000) mod 0x100000000 - v mod 0x10000" by (simp add: h_def bit15 upper_half)
    then have "h + as_s16 v = (v + 0x10000) mod 0x100000000 - 0x10000" using True by (simp add: as_s16_halves)
    then show ?thesis by (simp add: mod_diff_left_eq)
  next
    case False
    then have "h = v mod 0x100000000 - v mod 0x10000" by (simp add: h_def bit15 upper_half)
    then show ?thesis using False by (simp add: as_s16_halves)
  qed
  then have "(word_of_int (h + as_s16 v) :: 32 word) = word_of_int v"
    by (simp only: word_of_int_eq_iff take_bit_eq_mod) simp
  then have "(word_of_int h + word_of_int (as_s16 v) :: 32 word) = word_of_int v" by simp
  moreover have "ppc_normalize (ins ''lis'' [a0, Macro ''ha'' (AsmLiteral v)]) = ins ''li'' [a0, AsmLiteral h]"
    by (simp add: normalize_eval normalize2_def lis_value_def h_def)
  ultimately show ?thesis by blast
qed

section \<open>What every parsed instruction satisfies\<close>

definition word_aligned :: "location \<Rightarrow> bool" where
  "word_aligned l = (case l of RegLoc _ \<Rightarrow> True | StackLocation off _ \<Rightarrow> off mod 4 = 0)"

text \<open>Parsing one group of instructions changes only the dependencies and the store flag.\<close>

definition sets_deps :: "instruction \<Rightarrow> instruction \<Rightarrow> bool" where
  "sets_deps i j \<longleftrightarrow> (\<exists>rd wr st. j = i\<lparr>inputs := rd, outputs := wr, is_store := st\<rparr> \<and>
     list_all word_aligned (rd @ wr))"

lemma align4_mod: "align4 v mod 4 = 0"
  by (simp add: align4_eq mod_diff_left_eq)

lemma from_offset_aligned: "from_offset e = Some l \<Longrightarrow> word_aligned l"
  by (auto simp: from_offset_def word_aligned_def align4_mod split: argument.splits if_splits option.splits)

lemma make_memory_access_aligned: "make_memory_access a sz = Inr ls \<Longrightarrow> list_all word_aligned ls"
  by (auto simp: make_memory_access_def word_aligned_def mod_add_left_eq [symmetric] split: argument.splits if_splits option.splits location.splits
      dest!: from_offset_aligned)

lemma aligned_regs [simp]: "list_all word_aligned (map RegLoc rs)" "word_aligned (RegLoc r)"
  by (auto simp: list_all_iff word_aligned_def)

lemma aligned_arg_regs [simp]: "list_all word_aligned (arg_regs as)"
  by (simp add: arg_regs_def)

lemma aligned_cr0_bits [simp]: "list_all word_aligned cr0_bits"
  by (simp add: cr0_bits_def word_aligned_def)

lemma sets_depsI:
  "list_all word_aligned rd \<Longrightarrow> list_all word_aligned wr \<Longrightarrow> sets_deps i (i\<lparr>inputs := rd, outputs := wr, is_store := st\<rparr>)"
  by (auto simp: sets_deps_def)

lemma sets_deps_variants:
  "list_all word_aligned rd \<Longrightarrow> sets_deps (base_ins m as mt) ((base_ins m as mt)\<lparr>inputs := rd\<rparr>)"
  "list_all word_aligned wr \<Longrightarrow> sets_deps (base_ins m as mt) ((base_ins m as mt)\<lparr>outputs := wr\<rparr>)"
  "list_all word_aligned rd \<Longrightarrow> list_all word_aligned wr \<Longrightarrow>
     sets_deps (base_ins m as mt) ((base_ins m as mt)\<lparr>inputs := rd, outputs := wr\<rparr>)"
  "list_all word_aligned rd \<Longrightarrow> list_all word_aligned wr \<Longrightarrow>
     sets_deps (base_ins m as mt) ((base_ins m as mt)\<lparr>is_store := st, inputs := rd, outputs := wr\<rparr>)"
  "sets_deps (base_ins m as mt) (base_ins m as mt)"
  using sets_depsI [of rd wr "base_ins m as mt" st] sets_depsI [of rd wr "base_ins m as mt" False]
    sets_depsI [of rd "[]" "base_ins m as mt" False] sets_depsI [of "[]" wr "base_ins m as mt" False]
    sets_depsI [of "[]" "[]" "base_ins m as mt" False]
  by (simp_all add: base_ins_def plain_instruction_def)

lemma multiple_words_aligned: "multiple_words b k off = Inr (rs, ms) \<Longrightarrow> list_all word_aligned rs \<and> list_all word_aligned ms"
proof (induction b k off arbitrary: rs ms rule: multiple_words.induct)
  case (1 b k off)
  from 1(2) show ?case
    by (subst (asm) multiple_words.simps) (fastforce split: if_splits dest: 1(1) make_memory_access_aligned)
qed

lemma dest_first_inputs_aligned: "dest_first_inputs m as = Inr ls \<Longrightarrow> list_all word_aligned ls"
  by (auto simp: dest_first_inputs_def split: if_splits argument.splits)
    (rule make_memory_access_aligned, assumption)+

lemma parse_groups_deps:
  "parse_store u m as (base_ins m as mt) = Inr j \<Longrightarrow> sets_deps (base_ins m as mt) j"
  "parse_load m as (base_ins m as mt) = Inr j \<Longrightarrow> sets_deps (base_ins m as mt) j"
  "parse_load_update m as (base_ins m as mt) = Inr j \<Longrightarrow> sets_deps (base_ins m as mt) j"
  "parse_multiple m as (base_ins m as mt) = Inr j \<Longrightarrow> sets_deps (base_ins m as mt) j"
  "parse_dest_first m as (base_ins m as mt) = Inr j \<Longrightarrow> sets_deps (base_ins m as mt) j"
  "sets_deps (base_ins m as mt) (parse_unknown m as (base_ins m as mt))"
  subgoal by (auto simp: parse_store_def split: if_splits intro!: sets_deps_variants)
    (rule make_memory_access_aligned, assumption)+
  subgoal by (auto simp: parse_load_def split: if_splits argument.splits intro!: sets_deps_variants)
    (rule make_memory_access_aligned, assumption)+
  subgoal by (auto simp: parse_load_update_def split: if_splits intro!: sets_deps_variants)
    (rule make_memory_access_aligned, assumption)+
  subgoal by (auto simp: parse_multiple_def split: if_splits list.splits argument.splits intro!: sets_deps_variants)
    (drule multiple_words_aligned, simp)+
  subgoal by (auto simp: parse_dest_first_def intro!: sets_deps_variants)
    (rule dest_first_inputs_aligned, assumption)+
  subgoal by (auto simp: parse_unknown_def split: list.split argument.split intro!: sets_deps_variants)
  done

definition parsed_ok :: "string \<Rightarrow> argument list \<Rightarrow> instruction_meta \<Rightarrow> instruction \<Rightarrow> bool" where
  "parsed_ok m as mt i \<longleftrightarrow> ins_mnemonic i = m \<and> ins_args i = as \<and> ins_meta i = mt \<and>
     \<not> has_delay_slot i \<and> \<not> is_branch_likely i \<and> (is_conditional i \<longrightarrow> is_jump i) \<and>
     (clobbers i \<noteq> [] \<longrightarrow> function_target i \<noteq> None) \<and> list_all word_aligned (inputs i @ outputs i @ clobbers i)"

lemmas base_eval = base_ins_def plain_instruction_def parsed_ok_def is_jump_def

lemma sets_deps_ok: "sets_deps (base_ins m as mt) j \<Longrightarrow> parsed_ok m as mt j"
  by (auto simp: sets_deps_def base_eval)

lemma parsed_ok_branch: "parse_branch b as (base_ins m as mt) = Inr j \<Longrightarrow> parsed_ok m as mt j"
  by (auto simp: parse_branch_def base_eval)

lemma parsed_ok_call: "list_all word_aligned extra \<Longrightarrow> parsed_ok m as mt (call_ins extra t (base_ins m as mt))"
  by (simp add: call_ins_def base_eval)

lemma parsed_ok_move:
  "(case as of [Reg r] \<Rightarrow> Inr ((base_ins m as mt)\<lparr>inputs := [RegLoc r], outputs := [RegLoc d]\<rparr>) | _ \<Rightarrow> Inl AssertionError) = Inr j \<Longrightarrow>
     parsed_ok m as mt j"
  by (auto simp: base_eval split: list.splits argument.splits)

lemma all_res_groups:
  "all_res (parsed_ok m as mt) (parse_store u m as (base_ins m as mt))"
  "all_res (parsed_ok m as mt) (parse_load m as (base_ins m as mt))"
  "all_res (parsed_ok m as mt) (parse_load_update m as (base_ins m as mt))"
  "all_res (parsed_ok m as mt) (parse_multiple m as (base_ins m as mt))"
  "all_res (parsed_ok m as mt) (parse_dest_first m as (base_ins m as mt))"
  "all_res (parsed_ok m as mt) (parse_branch b as (base_ins m as mt))"
  "all_res (parsed_ok m as mt) (case as of [Reg r] \<Rightarrow> Inr ((base_ins m as mt)\<lparr>inputs := [RegLoc r], outputs := [RegLoc d]\<rparr>)
     | _ \<Rightarrow> Inl AssertionError)"
  unfolding all_res_def
  by (intro allI impI; (erule parse_groups_deps(1-5) [THEN sets_deps_ok] | erule parsed_ok_branch | erule parsed_ok_move))+

lemma parsed_ok_simple:
  "list_all word_aligned (rd @ wr) \<Longrightarrow> parsed_ok m as mt ((base_ins m as mt)\<lparr>inputs := rd, outputs := wr\<rparr>)"
  "list_all word_aligned rd \<Longrightarrow> parsed_ok m as mt ((base_ins m as mt)\<lparr>inputs := rd, is_return := True\<rparr>)"
  "list_all word_aligned rd \<Longrightarrow> parsed_ok m as mt ((base_ins m as mt)\<lparr>inputs := rd, is_return := True, is_conditional := True\<rparr>)"
  "list_all word_aligned rd \<Longrightarrow> parsed_ok m as mt ((base_ins m as mt)\<lparr>inputs := rd, ins_jump := Some t, is_conditional := True\<rparr>)"
  "parsed_ok m as mt ((base_ins m as mt)\<lparr>ins_jump := Some t\<rparr>)" "parsed_ok m as mt (base_ins m as mt)"
  "list_all word_aligned rd \<Longrightarrow> parsed_ok m as mt ((base_ins m as mt)\<lparr>inputs := rd\<rparr>)"
  by (simp_all add: base_eval)

text \<open>C30: Every instruction the PowerPC parser accepts keeps its mnemonic, arguments and origin, has
  no delay slot, is a jump whenever it is conditional, clobbers registers only as a call, and
  names stack words only at multiples of four.\<close>

theorem ppc_parse_type:
  assumes "ppc_parse m as mt = Inr i"
  shows "parsed_ok m as mt i"
proof -
  have "all_res (parsed_ok m as mt) (ppc_parse m as mt)"
    unfolding ppc_parse_def Let_def
    by (intro all_res_if all_res_option all_res_groups all_res_ebind all_res_Inr parsed_ok_simple parsed_ok_call sets_deps_ok
      parse_groups_deps(6)) simp_all
  with assms show ?thesis by (simp add: all_res_def)
qed

theorem ppc_parse_type_witness:
  "\<exists>i. ppc_parse ''bdnz.fictive'' [AsmGlobalSymbol ''L1''] meta_missing = Inr i \<and>
     parsed_ok ''bdnz.fictive'' [AsmGlobalSymbol ''L1''] meta_missing i"
  using ppc_parse_type parse_bdnz_fictive by blast

end
