(* ===== verification/Flow_Graph.thy ===== *)
theory Flow_Graph
  imports Prelude
begin

text \<open>
  Model of the graph algorithms of \<open>m2c/m2c/flow_graph.py\<close>: the kinds of nodes and their edges,
  parents, dominators and postdominators, natural loops, reducibility, and the fictive edges
  that let every infinite loop reach the exit.

  A node object is its identity, a number; \<open>ch\<close> gives the children of a node and \<open>idx\<close> the index
  of its block.  Python's sets are sets; where the source pops an arbitrary element of a set,
  the model takes the choice as an argument.
\<close>

section \<open>Nodes\<close>

datatype node_kind =
    BasicNode nat "nat option"
  | ConditionalNode nat nat
  | ReturnNode nat nat
  | SwitchNode "nat list"
  | TerminalNode

text \<open>The children of a switch are its cases without repetitions, in order of first occurrence.\<close>

fun dedup :: "nat set \<Rightarrow> nat list \<Rightarrow> nat list" where
  "dedup seen [] = []"
| "dedup seen (x # xs) = (if x \<in> seen then dedup seen xs else x # dedup (insert x seen) xs)"

definition children :: "node_kind \<Rightarrow> nat list" where
  "children k = (case k of
     BasicNode s None \<Rightarrow> [s]
   | BasicNode s (Some f) \<Rightarrow> [s, f]
   | ConditionalNode c f \<Rightarrow> if c = f then [c] else [c, f]
   | ReturnNode i t \<Rightarrow> [t]
   | SwitchNode cs \<Rightarrow> dedup {} cs
   | TerminalNode \<Rightarrow> [])"

definition succs :: "(nat \<Rightarrow> node_kind) \<Rightarrow> nat \<Rightarrow> nat list" where
  "succs kinds n = children (kinds n)"

definition is_basic :: "node_kind \<Rightarrow> bool" where
  "is_basic k = (case k of BasicNode _ _ \<Rightarrow> True | _ \<Rightarrow> False)"

text \<open>Each parent is appended once per edge, in the order of the nodes.\<close>

definition parents_of :: "nat list \<Rightarrow> (nat \<Rightarrow> nat list) \<Rightarrow> nat \<Rightarrow> nat list" where
  "parents_of ns ch c = concat (map (\<lambda>n. map (\<lambda>_. n) (filter (\<lambda>d. d = c) (ch n))) ns)"

section \<open>Dominators\<close>

definition dom_init :: "nat list \<Rightarrow> nat \<Rightarrow> nat \<Rightarrow> nat set" where
  "dom_init ns entry n = (if n = entry then {n} else set ns)"

text \<open>The new set of one node: what all parents agree on, and the node itself.\<close>

definition dom_new :: "(nat \<Rightarrow> nat list) \<Rightarrow> (nat \<Rightarrow> nat set) \<Rightarrow> nat \<Rightarrow> nat set" where
  "dom_new ps D n = insert n (fold (\<lambda>p s. s \<inter> D p) (ps n) (D n))"

text \<open>One round over the nodes; the flag says whether a set shrank.\<close>

fun dom_sweep :: "(nat \<Rightarrow> nat list) \<Rightarrow> nat \<Rightarrow> nat list \<Rightarrow> (nat \<Rightarrow> nat set) \<Rightarrow> bool \<Rightarrow> ((nat \<Rightarrow> nat set) \<times> bool) res" where
  "dom_sweep ps entry [] D c = Inr (D, c)"
| "dom_sweep ps entry (n # ns) D c =
     (if n = entry then dom_sweep ps entry ns D c
      else (let s = dom_new ps D n
            in if card s < card (D n)
               then ebind (py_assert (s \<subseteq> D n)) (\<lambda>_. dom_sweep ps entry ns (D(n := D n \<inter> s)) True)
               else dom_sweep ps entry ns D c))"

definition dom_size :: "nat list \<Rightarrow> (nat \<Rightarrow> nat set) \<Rightarrow> nat" where
  "dom_size ns D = sum_list (map (\<lambda>n. card (D n)) ns)"

lemma card_shrink: "card s < card d \<Longrightarrow> s \<subseteq> d \<Longrightarrow> card (d \<inter> s) < card d"
  by (simp add: inf_absorb2)

lemma dom_size_upd_le: "card s \<le> card (D n) \<Longrightarrow> dom_size ns (D(n := s)) \<le> dom_size ns D"
  unfolding dom_size_def by (rule sum_list_mono) simp

lemma dom_size_upd_less:
  "card s < card (D n) \<Longrightarrow> n \<in> set ns \<Longrightarrow> dom_size ns (D(n := s)) < dom_size ns D"
proof (induction ns)
  case (Cons m ns)
  have "dom_size ns (D(n := s)) \<le> dom_size ns D" using Cons.prems by (intro dom_size_upd_le) simp
  with Cons show ?case by (cases "m = n") (auto simp: dom_size_def)
qed simp

lemma dom_sweep_size:
  "dom_sweep ps e ns D c = Inr (D', c') \<Longrightarrow> set ns \<subseteq> set all \<Longrightarrow>
     dom_size all D' \<le> dom_size all D \<and> (c' \<longrightarrow> c \<or> dom_size all D' < dom_size all D)"
proof (induction ps e ns D c rule: dom_sweep.induct)
  case (2 ps e n ns D c)
  let ?s = "dom_new ps D n"
  show ?case
  proof (cases "n \<noteq> e \<and> card ?s < card (D n)")
    case True
    with 2(4) have sub: "?s \<subseteq> D n" and rest: "dom_sweep ps e ns (D(n := D n \<inter> ?s)) True = Inr (D', c')"
      by (auto simp: Let_def)
    from True sub have "card (D n \<inter> ?s) < card (D n)" by (intro card_shrink) simp_all
    with 2(5) have "dom_size all (D(n := D n \<inter> ?s)) < dom_size all D" by (intro dom_size_upd_less) simp_all
    with 2(2) [OF _ refl _ _ rest] True sub 2(5) show ?thesis by (fastforce simp: py_assert_def)
  next
    case False
    with 2 show ?thesis by (auto simp: Let_def split: if_splits)
  qed
qed simp

function dom_loop :: "(nat \<Rightarrow> nat list) \<Rightarrow> nat \<Rightarrow> nat list \<Rightarrow> (nat \<Rightarrow> nat set) \<Rightarrow> (nat \<Rightarrow> nat set) res" where
  "dom_loop ps entry ns D =
     ebind (dom_sweep ps entry ns D False) (\<lambda>(D', changes). if changes then dom_loop ps entry ns D' else Inr D')"
  by pat_completeness auto
termination
  by (relation "measure (\<lambda>(ps, e, ns, D). dom_size ns D)") (auto dest: dom_sweep_size [OF _ order_refl])

declare dom_loop.simps [simp del]

text \<open>Python's \<open>max\<close> with a key: the first of the largest.\<close>

definition key_less :: "nat \<times> int \<Rightarrow> nat \<times> int \<Rightarrow> bool" where
  "key_less a b \<longleftrightarrow> fst a < fst b \<or> fst a = fst b \<and> snd a < snd b"

fun best_by :: "(nat \<Rightarrow> nat \<times> int) \<Rightarrow> nat \<Rightarrow> nat list \<Rightarrow> nat" where
  "best_by key b [] = b"
| "best_by key b (x # xs) = best_by key (if key_less (key b) (key x) then x else b) xs"

definition immediate_dominator :: "nat list \<Rightarrow> (nat \<Rightarrow> int) \<Rightarrow> (nat \<Rightarrow> nat set) \<Rightarrow> nat \<Rightarrow> nat option" where
  "immediate_dominator ns idx D n =
     (case filter (\<lambda>d. d \<in> D n - {n}) ns of
        [] \<Rightarrow> None
      | d # ds \<Rightarrow> Some (best_by (\<lambda>d. (card (D d), idx d)) d ds))"

definition immediately_dominates :: "nat list \<Rightarrow> (nat \<Rightarrow> int) \<Rightarrow> (nat \<Rightarrow> nat set) \<Rightarrow> nat \<Rightarrow> nat list" where
  "immediately_dominates ns idx D d =
     sort_key idx (filter (\<lambda>n. immediate_dominator ns idx D n = Some d) ns)"

definition compute_dominators :: "nat list \<Rightarrow> (nat \<Rightarrow> nat list) \<Rightarrow> nat \<Rightarrow> (nat \<Rightarrow> nat set) res" where
  "compute_dominators ns ps entry = dom_loop ps entry ns (dom_init ns entry)"

section \<open>Reachability and loops\<close>

text \<open>
  Depth-first search with an explicit stack, popped at its end.  The fuel counts pops; every
  node is expanded at most once, so one pop per edge and one for the start are enough.
\<close>

fun search :: "nat \<Rightarrow> (nat \<Rightarrow> nat list) \<Rightarrow> nat \<Rightarrow> nat set \<Rightarrow> nat list \<Rightarrow> nat set res" where
  "search fuel ch w seen [] = Inr seen"
| "search 0 ch w seen (x # xs) = Inl OutOfFuel"
| "search (Suc fuel) ch w seen (x # xs) =
     (let stack = x # xs; n = last stack; rest = butlast stack
      in if n = w \<or> n \<in> seen then search fuel ch w seen rest
         else search fuel ch w (insert n seen) (rest @ ch n))"

definition edge_count :: "nat list \<Rightarrow> (nat \<Rightarrow> nat list) \<Rightarrow> nat" where
  "edge_count ns ch = sum_list (map (\<lambda>n. length (ch n)) ns)"

definition reachable_without :: "nat list \<Rightarrow> (nat \<Rightarrow> nat list) \<Rightarrow> nat \<Rightarrow> nat \<Rightarrow> nat \<Rightarrow> bool res" where
  "reachable_without ns ch start end_node without =
     ebind (search (Suc (edge_count ns ch)) ch without {} [start]) (\<lambda>r. Inr (end_node \<in> r))"

record natural_loop =
  loop_nodes :: "nat set"
  backedges :: "nat set"

definition empty_loop :: natural_loop where
  "empty_loop = \<lparr>loop_nodes = {}, backedges = {}\<rparr>"

text \<open>The body of one backedge: every node that reaches its tail without passing the head.\<close>

fun loop_body :: "nat list \<Rightarrow> (nat \<Rightarrow> nat list) \<Rightarrow> nat \<Rightarrow> nat \<Rightarrow> nat list \<Rightarrow> nat set res" where
  "loop_body ns ch tail_node hd_node [] = Inr {}"
| "loop_body ns ch tail_node hd_node (p # ps) =
     ebind (reachable_without ns ch p tail_node hd_node) (\<lambda>b.
     ebind (loop_body ns ch tail_node hd_node ps) (\<lambda>r. Inr (if b then insert p r else r)))"

definition add_backedge :: "nat list \<Rightarrow> (nat \<Rightarrow> nat list) \<Rightarrow> nat \<Rightarrow> nat \<Rightarrow> (nat \<rightharpoonup> natural_loop) \<Rightarrow> (nat \<rightharpoonup> natural_loop) res" where
  "add_backedge ns ch node child loops =
     (let l = (case loops child of Some l \<Rightarrow> l | None \<Rightarrow> empty_loop)
      in ebind (loop_body ns ch node child ns) (\<lambda>body.
           Inr (loops(child \<mapsto> \<lparr>loop_nodes = loop_nodes l \<union> {child, node} \<union> body,
                                backedges = insert node (backedges l)\<rparr>))))"

fun find_backedges :: "nat list \<Rightarrow> (nat \<Rightarrow> nat list) \<Rightarrow> (nat \<Rightarrow> nat set) \<Rightarrow> (nat \<times> nat) list \<Rightarrow>
    (nat \<rightharpoonup> natural_loop) \<Rightarrow> (nat \<rightharpoonup> natural_loop) res" where
  "find_backedges ns ch D [] loops = Inr loops"
| "find_backedges ns ch D ((n, c) # es) loops =
     (if c \<notin> D n then find_backedges ns ch D es loops
      else ebind (add_backedge ns ch n c loops) (find_backedges ns ch D es))"

definition edges :: "nat list \<Rightarrow> (nat \<Rightarrow> nat list) \<Rightarrow> (nat \<times> nat) list" where
  "edges ns ch = concat (map (\<lambda>n. map (Pair n) (ch n)) ns)"

record relations =
  rel_parents :: "nat \<Rightarrow> nat list"
  dominators :: "nat \<Rightarrow> nat set"
  imdom :: "nat \<Rightarrow> nat option"
  imdominates :: "nat \<Rightarrow> nat list"
  postdominators :: "nat \<Rightarrow> nat set"
  impdom :: "nat \<Rightarrow> nat option"
  impdominates :: "nat \<Rightarrow> nat list"
  loops :: "nat \<rightharpoonup> natural_loop"

text \<open>
  \<open>compute_relations\<close>: the entry is the first node, the exit the last one.  The loops of an
  earlier call (\<open>ls0\<close>) stay with their nodes; everything else is computed afresh.
\<close>

definition compute_relations :: "nat list \<Rightarrow> (nat \<Rightarrow> int) \<Rightarrow> (nat \<Rightarrow> node_kind) \<Rightarrow> (nat \<rightharpoonup> natural_loop) \<Rightarrow> relations res" where
  "compute_relations ns idx kinds ls0 =
     (let ch = succs kinds; ps = parents_of ns ch
      in if ns = [] then Inl IndexError
         else ebind (py_assert (kinds (last ns) = TerminalNode)) (\<lambda>_.
           ebind (compute_dominators ns ps (hd ns)) (\<lambda>D.
           ebind (compute_dominators ns ch (last ns)) (\<lambda>PD.
           ebind (find_backedges ns ch D (edges ns ch) ls0) (\<lambda>ls.
             Inr \<lparr>rel_parents = ps, dominators = D,
                  imdom = immediate_dominator ns idx D, imdominates = immediately_dominates ns idx D,
                  postdominators = PD,
                  impdom = immediate_dominator ns idx PD, impdominates = immediately_dominates ns idx PD,
                  loops = ls\<rparr>)))))"

section \<open>Flooding from a set of nodes\<close>

text \<open>
  The search from a set of pending nodes that the source writes three times; \<open>pick\<close> is the
  element that \<open>queue.pop()\<close> returns.  Every node is taken at most once, so the number of nodes
  is enough fuel.
\<close>

fun flood :: "nat \<Rightarrow> (nat set \<Rightarrow> nat) \<Rightarrow> (nat \<Rightarrow> nat list) \<Rightarrow> nat set \<Rightarrow> nat set \<Rightarrow> nat set res" where
  "flood fuel pick nxt seen queue =
     (if queue = {} then Inr seen
      else case fuel of 0 \<Rightarrow> Inl OutOfFuel
      | Suc fuel' \<Rightarrow>
          (let n = pick queue; seen' = insert n seen
           in flood fuel' pick nxt seen' (queue - {n} \<union> (set (nxt n) - seen'))))"

declare flood.simps [simp del]

section \<open>Reducibility\<close>

text \<open>The forward edges into each node: its parents without the tails of its backedges.  Outside the
  graph the dictionary has no entry, and nothing can be removed from it.\<close>

definition incoming_edges :: "nat list \<Rightarrow> relations \<Rightarrow> nat \<Rightarrow> nat set" where
  "incoming_edges ns r n =
     (if n \<in> set ns then set (rel_parents r n) - (case loops r n of Some l \<Rightarrow> backedges l | None \<Rightarrow> {}) else {})"

text \<open>The loop over the children of one node of Kahn's algorithm; \<open>remove\<close> of an absent element is a \<open>KeyError\<close>.\<close>

fun kahn_children :: "relations \<Rightarrow> nat \<Rightarrow> nat list \<Rightarrow> (nat \<Rightarrow> nat set) \<Rightarrow> nat set \<Rightarrow> ((nat \<Rightarrow> nat set) \<times> nat set) res" where
  "kahn_children r n [] inc queue = Inr (inc, queue)"
| "kahn_children r n (s # ss) inc queue =
     (if (case loops r s of Some l \<Rightarrow> n \<in> backedges l | None \<Rightarrow> False) then kahn_children r n ss inc queue
      else if n \<notin> inc s then Inl KeyError
      else (let inc' = inc(s := inc s - {n})
            in kahn_children r n ss inc' (if inc' s = {} then insert s queue else queue)))"

text \<open>Each node enters the queue at most once, so again the number of nodes is enough fuel.\<close>

fun kahn :: "nat \<Rightarrow> (nat set \<Rightarrow> nat) \<Rightarrow> relations \<Rightarrow> (nat \<Rightarrow> nat list) \<Rightarrow> nat set \<Rightarrow> (nat \<Rightarrow> nat set) \<Rightarrow> nat set \<Rightarrow>
    (nat set \<times> (nat \<Rightarrow> nat set)) res" where
  "kahn fuel pick r ch seen inc queue =
     (if queue = {} then Inr (seen, inc)
      else case fuel of 0 \<Rightarrow> Inl OutOfFuel
      | Suc fuel' \<Rightarrow>
          (let n = pick queue
           in ebind (kahn_children r n (ch n) inc (queue - {n})) (\<lambda>(inc', queue').
                kahn fuel' pick r ch (insert n seen) inc' queue')))"

declare kahn.simps [simp del]

definition is_reducible :: "(nat set \<Rightarrow> nat) \<Rightarrow> nat list \<Rightarrow> (nat \<Rightarrow> node_kind) \<Rightarrow> relations \<Rightarrow> bool res" where
  "is_reducible pick ns kinds r =
     (let ch = succs kinds
      in if ns = [] then Inl IndexError
         else ebind (kahn (length ns) pick r ch {} (incoming_edges ns r) {hd ns}) (\<lambda>(seen, inc).
           if \<exists>n \<in> set ns. inc n \<noteq> {} then Inr False
           else if card seen \<noteq> length ns then Inr False
           else ebind (py_assert (kinds (last ns) = TerminalNode)) (\<lambda>_.
             ebind (flood (length ns) pick (rel_parents r) {} {last ns}) (\<lambda>seen'.
               Inr (card seen' = length ns)))))"

section \<open>Infinite loops\<close>

definition unterminated_nodes :: "nat list \<Rightarrow> (nat \<Rightarrow> node_kind) \<Rightarrow> nat set \<Rightarrow> nat list" where
  "unterminated_nodes ns kinds seen = filter (\<lambda>n. n \<notin> seen \<and> is_basic (kinds n)) ns"

definition set_fake_successor :: "node_kind \<Rightarrow> nat \<Rightarrow> node_kind" where
  "set_fake_successor k t = (case k of BasicNode s _ \<Rightarrow> BasicNode s (Some t) | _ \<Rightarrow> k)"

text \<open>
  Each round of the outer loop gives one more basic node an edge to the exit; the number of
  nodes bounds the rounds (the last one finds nothing to do).
\<close>

fun terminate_rounds :: "nat \<Rightarrow> (nat set \<Rightarrow> nat) \<Rightarrow> nat list \<Rightarrow> (nat \<Rightarrow> int) \<Rightarrow> (nat \<Rightarrow> node_kind) \<Rightarrow> relations \<Rightarrow>
    ((nat \<Rightarrow> node_kind) \<times> relations) res" where
  "terminate_rounds fuel pick ns idx kinds r =
     ebind (flood (length ns) pick (rel_parents r) {} {last ns}) (\<lambda>seen.
       (case unterminated_nodes ns kinds seen of
          [] \<Rightarrow> Inr (kinds, r)
        | u # us \<Rightarrow>
            (case fuel of 0 \<Rightarrow> Inl OutOfFuel
             | Suc fuel' \<Rightarrow>
                 (let n = last (u # us); kinds' = kinds(n := set_fake_successor (kinds n) (last ns))
                  in ebind (compute_relations ns idx kinds' (loops r)) (\<lambda>r'.
                       terminate_rounds fuel' pick ns idx kinds' r')))))"

declare terminate_rounds.simps [simp del]

definition terminate_infinite_loops :: "(nat set \<Rightarrow> nat) \<Rightarrow> nat list \<Rightarrow> (nat \<Rightarrow> int) \<Rightarrow> (nat \<Rightarrow> node_kind) \<Rightarrow> relations \<Rightarrow>
    ((nat \<Rightarrow> node_kind) \<times> relations) res" where
  "terminate_infinite_loops pick ns idx kinds r =
     (if ns = [] then Inl IndexError
      else ebind (py_assert (kinds (last ns) = TerminalNode)) (\<lambda>_.
        terminate_rounds (length ns) pick ns idx kinds r))"

end
