(* ===== verification/Flow_Dominators.thy ===== *)
theory Flow_Dominators
  imports Flow_Graph
begin

text \<open>
  Correctness of the graph algorithms: the iterated sets are the dominators defined by paths,
  the immediate dominator is the closest one, the search decides reachability, and the natural
  loops are what their definition says.
\<close>

section \<open>Paths and dominance\<close>

text \<open>The walks from \<open>e\<close> along edges given by their sources: \<open>ps n\<close> are the predecessors of \<open>n\<close>.\<close>

inductive walk :: "(nat \<Rightarrow> nat list) \<Rightarrow> nat \<Rightarrow> nat \<Rightarrow> nat list \<Rightarrow> bool" for ps e where
  start: "walk ps e e [e]"
| step: "walk ps e p xs \<Longrightarrow> p \<in> set (ps n) \<Longrightarrow> walk ps e n (xs @ [n])"

definition dominates :: "(nat \<Rightarrow> nat list) \<Rightarrow> nat \<Rightarrow> nat \<Rightarrow> nat \<Rightarrow> bool" where
  "dominates ps e d n \<longleftrightarrow> (\<forall>xs. walk ps e n xs \<longrightarrow> d \<in> set xs)"

definition closed_graph :: "nat list \<Rightarrow> (nat \<Rightarrow> nat list) \<Rightarrow> bool" where
  "closed_graph ns ps \<longleftrightarrow> (\<forall>n \<in> set ns. set (ps n) \<subseteq> set ns)"

lemma walk_last: "walk ps e n xs \<Longrightarrow> xs \<noteq> [] \<and> last xs = n"
  by (induction rule: walk.induct) auto

lemma walk_end_in: "walk ps e n xs \<Longrightarrow> n \<in> set xs"
  using walk_last last_in_set by metis

lemma walk_start_in: "walk ps e n xs \<Longrightarrow> e \<in> set xs"
  by (induction rule: walk.induct) auto

lemma dominates_refl: "dominates ps e n n"
  by (simp add: dominates_def walk_end_in)

lemma dominates_parent: "dominates ps e d n \<Longrightarrow> d \<noteq> n \<Longrightarrow> p \<in> set (ps n) \<Longrightarrow> dominates ps e d p"
  by (fastforce simp: dominates_def dest: walk.step)

lemma dominates_entry: "dominates ps e d e \<longleftrightarrow> d = e"
  by (auto simp: dominates_def intro: walk.start walk_end_in dest: spec [of _ "[e]"])

section \<open>The iteration\<close>

lemma fold_inter: "fold (\<lambda>p s. s \<inter> D p) ps s = s \<inter> (\<Inter>p \<in> set ps. D p)"
  by (induction ps arbitrary: s) auto

lemma dom_new_eq: "dom_new ps D n = insert n (D n \<inter> (\<Inter>p \<in> set (ps n). D p))"
  by (simp add: dom_new_def fold_inter)

definition dom_inv :: "nat list \<Rightarrow> (nat \<Rightarrow> nat list) \<Rightarrow> nat \<Rightarrow> (nat \<Rightarrow> nat set) \<Rightarrow> bool" where
  "dom_inv ns ps e D \<longleftrightarrow> D e = {e} \<and>
     (\<forall>n \<in> set ns. n \<in> D n \<and> D n \<subseteq> set ns \<and> (\<forall>d \<in> set ns. dominates ps e d n \<longrightarrow> d \<in> D n))"

lemma dom_inv_init: "e \<in> set ns \<Longrightarrow> dom_inv ns ps e (dom_init ns e)"
  by (auto simp: dom_inv_def dom_init_def dominates_entry)

lemma dom_inv_new:
  assumes inv: "dom_inv ns ps e D" and cl: "closed_graph ns ps" and n: "n \<in> set ns" "n \<noteq> e"
  shows "dom_new ps D n \<subseteq> D n" and "dom_inv ns ps e (D(n := D n \<inter> dom_new ps D n))"
proof -
  show sub: "dom_new ps D n \<subseteq> D n" using inv n by (auto simp: dom_new_eq dom_inv_def)
  have "d \<in> dom_new ps D n" if d: "d \<in> set ns" "dominates ps e d n" for d
  proof (cases "d = n")
    case False
    have "d \<in> D p" if "p \<in> set (ps n)" for p
    proof -
      have "p \<in> set ns" using cl n that by (auto simp: closed_graph_def)
      then show ?thesis using dominates_parent [OF d(2) False that] inv d(1) by (auto simp: dom_inv_def)
    qed
    then show ?thesis using inv n d by (auto simp: dom_new_eq dom_inv_def)
  qed (simp add: dom_new_eq)
  then show "dom_inv ns ps e (D(n := D n \<inter> dom_new ps D n))"
    using inv n sub by (auto simp: dom_inv_def dom_new_eq)
qed

text \<open>A round keeps the invariant, never trips the assertion, and reports no change only at a fixed point.\<close>

lemma dom_sweep_inv:
  assumes cl: "closed_graph all ps"
  shows "dom_inv all ps e D \<Longrightarrow> set ns \<subseteq> set all \<Longrightarrow>
    \<exists>D' c'. dom_sweep ps e ns D c = Inr (D', c') \<and> dom_inv all ps e D' \<and>
      (\<not> c' \<longrightarrow> D' = D \<and> \<not> c \<and> (\<forall>n \<in> set ns. n \<noteq> e \<longrightarrow> dom_new ps D n = D n))"
proof (induction ns arbitrary: D c)
  case (Cons n ns)
  show ?case
  proof (cases "n = e")
    case True
    then show ?thesis using Cons by simp
  next
    case ne: False
    have n: "n \<in> set all" using Cons.prems by simp
    note new = dom_inv_new [OF Cons.prems(1) cl n ne]
    have "D n \<subseteq> set all" using Cons.prems n by (auto simp: dom_inv_def)
    then have fin: "finite (D n)" by (rule finite_subset) simp
    show ?thesis
    proof (cases "card (dom_new ps D n) < card (D n)")
      case True
      obtain D' c' where "dom_sweep ps e ns (D(n := D n \<inter> dom_new ps D n)) True = Inr (D', c')"
        and "dom_inv all ps e D'" and "c'"
        using Cons.IH [OF new(2), of True] Cons.prems(2) by (metis insert_subset list.simps(15))
      then show ?thesis using True ne new(1) by (auto simp: Let_def)
    next
      case False
      then have "dom_new ps D n = D n" using new(1) fin by (metis card_seteq linorder_not_less)
      then show ?thesis using Cons.IH [OF Cons.prems(1), of c] Cons.prems False ne by (auto simp: Let_def)
    qed
  qed
qed simp

lemma fixed_point_dominates:
  assumes fp: "\<forall>n \<in> set ns. n \<noteq> e \<longrightarrow> dom_new ps D n = D n" and entry: "D e = {e}" and cl: "closed_graph ns ps"
    and w: "walk ps e n xs" and n: "n \<in> set ns" and d: "d \<in> D n"
  shows "d \<in> set xs"
  using w n d
proof (induction arbitrary: d rule: walk.induct)
  case (step p xs n)
  show ?case
  proof (cases "n = e \<or> d = n")
    case True
    then show ?thesis using step.prems entry by auto
  next
    case False
    with fp step.prems have "d \<in> dom_new ps D n" by blast
    then have "d \<in> D p" using False step.hyps(2) by (auto simp: dom_new_eq)
    then show ?thesis using step.IH step.prems(1) step.hyps(2) cl by (auto simp: closed_graph_def)
  qed
qed (use entry in auto)

lemma dom_loop_correct:
  assumes cl: "closed_graph ns ps"
  shows "dom_inv ns ps e D \<Longrightarrow>
    \<exists>D'. dom_loop ps e ns D = Inr D' \<and> (\<forall>n \<in> set ns. D' n = {d \<in> set ns. dominates ps e d n})"
proof (induction D rule: measure_induct_rule [of "dom_size ns"])
  case (less D)
  obtain D' c' where sw: "dom_sweep ps e ns D False = Inr (D', c')" and inv: "dom_inv ns ps e D'"
    and fp: "\<not> c' \<Longrightarrow> D' = D \<and> (\<forall>n \<in> set ns. n \<noteq> e \<longrightarrow> dom_new ps D n = D n)"
    using dom_sweep_inv [OF cl less.prems, of ns False] by auto
  show ?case
  proof (cases c')
    case True
    with dom_sweep_size [OF sw order_refl] have "dom_size ns D' < dom_size ns D" by simp
    from less.IH [OF this inv] True sw show ?thesis by (simp add: dom_loop.simps [of ps e ns D])
  next
    case False
    with fp have fix': "\<forall>n \<in> set ns. n \<noteq> e \<longrightarrow> dom_new ps D n = D n" and "D' = D" by auto
    have "D n = {d \<in> set ns. dominates ps e d n}" if n: "n \<in> set ns" for n
    proof
      show "D n \<subseteq> {d \<in> set ns. dominates ps e d n}"
        using fixed_point_dominates [OF fix' _ cl _ n] less.prems n by (auto simp: dom_inv_def dominates_def)
      show "{d \<in> set ns. dominates ps e d n} \<subseteq> D n"
        using less.prems n by (auto simp: dom_inv_def)
    qed
    with False sw \<open>D' = D\<close> show ?thesis by (simp add: dom_loop.simps [of ps e ns D])
  qed
qed

lemma compute_dominators_correct:
  assumes "closed_graph ns ps" and "e \<in> set ns"
  shows "\<exists>D. compute_dominators ns ps e = Inr D \<and> (\<forall>n \<in> set ns. D n = {d \<in> set ns. dominates ps e d n})"
  unfolding compute_dominators_def using dom_loop_correct [OF assms(1) dom_inv_init [OF assms(2)]] .

section \<open>The chain of dominators\<close>

lemma walk_snoc: "walk ps e n (ys @ [b]) \<Longrightarrow> ys \<noteq> [] \<Longrightarrow> b = n \<and> (\<exists>p. walk ps e p ys \<and> p \<in> set (ps n))"
  by (erule walk.cases) auto

lemma walk_prefix: "walk ps e n (xs @ b # ys) \<Longrightarrow> walk ps e b (xs @ [b])"
proof (induction ys arbitrary: n rule: rev_induct)
  case Nil
  then show ?case using walk_last by fastforce
next
  case (snoc y ys)
  then show ?case using walk_snoc [of ps e n "xs @ b # ys" y] by auto
qed

text \<open>The part of a walk up to the last visit of \<open>d\<close>, and the part after it.\<close>

lemma walk_split:
  assumes "walk ps e n xs" and "d \<in> set xs"
  shows "\<exists>as bs. xs = as @ bs \<and> walk ps e d as \<and> d \<notin> set bs"
proof -
  from split_list_last [OF assms(2)] obtain as bs where "xs = as @ d # bs" and "d \<notin> set bs" by blast
  with walk_prefix [of ps e n as d bs] assms(1) show ?thesis
    by (intro exI [of _ "as @ [d]"] exI [of _ bs]) simp
qed

lemma walk_replace:
  "walk ps e n (as @ bs) \<Longrightarrow> walk ps e d as \<Longrightarrow> walk ps e d cs \<Longrightarrow> walk ps e n (cs @ bs)"
proof (induction bs arbitrary: n rule: rev_induct)
  case Nil
  then show ?case using walk_last by (metis append_Nil2)
next
  case (snoc b bs)
  have "as @ bs \<noteq> []" using walk_last [OF snoc.prems(2)] by simp
  with walk_snoc [of ps e n "as @ bs" b] snoc.prems(1) obtain p where "b = n" and p: "walk ps e p (as @ bs)" "p \<in> set (ps n)"
    by auto
  have "walk ps e n ((cs @ bs) @ [n])" using walk.step [OF snoc.IH [OF p(1) snoc.prems(2,3)] p(2)] .
  with \<open>b = n\<close> show ?case by simp
qed

lemma dominates_trans: "dominates ps e a b \<Longrightarrow> dominates ps e b n \<Longrightarrow> dominates ps e a n"
  unfolding dominates_def by (metis UnCI set_append walk_split)

text \<open>Two dominators of a reachable node are comparable.\<close>

lemma dominators_chain:
  assumes a: "dominates ps e a n" and b: "dominates ps e b n" and w: "walk ps e n xs"
  shows "dominates ps e a b \<or> dominates ps e b a"
proof (rule ccontr)
  assume "\<not> ?thesis"
  then obtain ys zs where ys: "walk ps e b ys" "a \<notin> set ys" and zs: "walk ps e a zs" "b \<notin> set zs"
    by (auto simp: dominates_def)
  from a w have "a \<in> set xs" by (simp add: dominates_def)
  from walk_split [OF w this] obtain as cs where xs: "xs = as @ cs" and as: "walk ps e a as" "a \<notin> set cs" by blast
  have "walk ps e n (zs @ cs)" using walk_replace [OF w [unfolded xs] as(1) zs(1)] .
  with b zs(2) have bcs: "b \<in> set cs" by (auto simp: dominates_def)
  from split_list_last [OF bcs] obtain c1 c2 where cs: "cs = c1 @ b # c2" "b \<notin> set c2" by blast
  have w': "walk ps e n ((zs @ c1 @ [b]) @ c2)" using \<open>walk ps e n (zs @ cs)\<close> cs by simp
  then have "walk ps e b (zs @ c1 @ [b])" using walk_prefix [of ps e n "zs @ c1" b c2] by simp
  from walk_replace [OF w' this ys(1)] have "walk ps e n (ys @ c2)" .
  with a ys(2) as(2) cs(1) show False by (auto simp: dominates_def)
qed


definition strictly_dominates :: "(nat \<Rightarrow> nat list) \<Rightarrow> nat \<Rightarrow> nat \<Rightarrow> nat \<Rightarrow> bool" where
  "strictly_dominates ps e d n \<longleftrightarrow> dominates ps e d n \<and> d \<noteq> n"

lemma dominates_antisym:
  assumes ab: "dominates ps e a b" and ba: "dominates ps e b a" and w: "walk ps e a xs"
  shows "a = b"
proof (rule ccontr)
  assume ne: "a \<noteq> b"
  have "\<exists>ys. walk ps e a ys \<and> length ys < length xs" if "walk ps e a xs" for xs
  proof -
    from ba that have "b \<in> set xs" by (simp add: dominates_def)
    from walk_split [OF that this] obtain bs cs where 1: "xs = bs @ cs" "walk ps e b bs" "b \<notin> set cs" by blast
    from ab 1(2) have "a \<in> set bs" by (simp add: dominates_def)
    from walk_split [OF 1(2) this] obtain as ds where 2: "bs = as @ ds" "walk ps e a as" "a \<notin> set ds" by blast
    have "ds \<noteq> []" using 2 walk_last [OF 1(2)] walk_last [OF 2(2)] ne by auto
    with 1 2 show ?thesis by auto
  qed
  then have "\<not> walk ps e a xs" for xs
    by (induction xs rule: measure_induct_rule [of length]) blast
  with w show False by blast
qed

lemma best_by_in: "best_by k b xs \<in> insert b (set xs)"
  by (induction k b xs rule: best_by.induct) auto

lemma best_by_max: "x \<in> insert b (set xs) \<Longrightarrow> fst (k x) \<le> fst (k (best_by k b xs))"
proof (induction k b xs arbitrary: x rule: best_by.induct)
  case (2 k b y ys)
  show ?case
  proof (cases "key_less (k b) (k y)")
    case True
    then have "fst (k b) \<le> fst (k y)" by (auto simp: key_less_def)
    moreover have "fst (k y) \<le> fst (k (best_by k y ys))" using 2(1) [of y] True by simp
    ultimately show ?thesis using 2(1) [of x] 2(2) True by auto
  next
    case False
    then have "fst (k y) \<le> fst (k b)" by (auto simp: key_less_def)
    moreover have "fst (k b) \<le> fst (k (best_by k b ys))" using 2(1) [of b] False by simp
    ultimately show ?thesis using 2(1) [of x] 2(2) False by auto
  qed
qed simp

lemma immediate_dominator_closest:
  assumes D: "\<forall>n \<in> set ns. D n = {d \<in> set ns. dominates ps e d n}" and e: "e \<in> set ns"
    and n: "n \<in> set ns" "n \<noteq> e" and w: "walk ps e n xs"
  shows "\<exists>d. immediate_dominator ns idx D n = Some d \<and> strictly_dominates ps e d n \<and>
    (\<forall>a \<in> set ns. strictly_dominates ps e a n \<longrightarrow> dominates ps e a d)"
proof -
  let ?k = "\<lambda>d. (card (D d), idx d)"
  have "e \<in> D n" using D n(1) e walk_start_in by (auto simp: dominates_def)
  then have "e \<in> set (filter (\<lambda>d. d \<in> D n - {n}) ns)" using e n(2) by simp
  then obtain d ds where f: "filter (\<lambda>d. d \<in> D n - {n}) ns = d # ds" by (metis list.set_cases)
  define b where "b = best_by ?k d ds"
  have mem: "a \<in> insert d (set ds) \<longleftrightarrow> a \<in> set ns \<and> strictly_dominates ps e a n" for a
  proof -
    have "a \<in> insert d (set ds) \<longleftrightarrow> a \<in> set (filter (\<lambda>d. d \<in> D n - {n}) ns)" by (simp only: f list.set)
    also have "\<dots> \<longleftrightarrow> a \<in> set ns \<and> strictly_dominates ps e a n"
      using D n(1) by (auto simp: strictly_dominates_def)
    finally show ?thesis .
  qed
  have b: "b \<in> set ns" "strictly_dominates ps e b n"
    using best_by_in [of ?k d ds] mem unfolding b_def by blast+
  have "dominates ps e a b" if a: "a \<in> set ns" "strictly_dominates ps e a n" for a
  proof (rule ccontr)
    assume na: "\<not> dominates ps e a b"
    with dominators_chain [of ps e a n b xs] a b w have ba: "dominates ps e b a" by (auto simp: strictly_dominates_def)
    have "card (D a) \<le> card (D b)" using best_by_max [of a d ds ?k] mem a by (simp add: b_def)
    moreover have "D b \<subseteq> D a" using D a b ba dominates_trans by auto
    moreover have "finite (D a)" using D a by simp
    ultimately have "D b = D a" by (metis card_seteq)
    moreover have "a \<in> D a" using D a dominates_refl by auto
    ultimately show False using D b(1) na by auto
  qed
  with b show ?thesis using f by (auto simp: immediate_dominator_def b_def)
qed

end
