(* ===== verification/Flow_Loops.thy ===== *)
theory Flow_Loops
  imports Flow_Dominators
begin

text \<open>
  The depth-first search decides reachability with a node removed, and the natural loops found
  by \<open>compute_relations\<close> are those of the control-flow graph.
\<close>

section \<open>Search\<close>

inductive avoids :: "(nat \<Rightarrow> nat list) \<Rightarrow> nat \<Rightarrow> nat \<Rightarrow> nat \<Rightarrow> bool" for ch w s where
  start: "s \<noteq> w \<Longrightarrow> avoids ch w s s"
| step: "avoids ch w s p \<Longrightarrow> n \<in> set (ch p) \<Longrightarrow> n \<noteq> w \<Longrightarrow> avoids ch w s n"

lemma avoids_ne: "avoids ch w s n \<Longrightarrow> n \<noteq> w"
  by (induction rule: avoids.induct) auto

lemma avoids_trans: "avoids ch w p n \<Longrightarrow> avoids ch w s p \<Longrightarrow> avoids ch w s n"
  by (induction rule: avoids.induct) (auto intro: avoids.step)

lemma search_snoc:
  "search (Suc f) ch w seen (xs @ [n]) =
     (if n = w \<or> n \<in> seen then search f ch w seen xs else search f ch w (insert n seen) (xs @ ch n))"
proof (cases "xs @ [n]")
  case (Cons y ys)
  then have "last (y # ys) = n" "butlast (y # ys) = xs" by (metis last_snoc, metis butlast_snoc)
  then show ?thesis unfolding Cons by (simp add: Let_def)
qed simp

lemma search_result:
  "search f ch w seen st = Inr r \<Longrightarrow>
     (\<forall>x \<in> seen. \<forall>c \<in> set (ch x). c \<in> seen \<or> c = w \<or> c \<in> set st) \<Longrightarrow>
     seen \<subseteq> r \<and> set st - {w} \<subseteq> r \<and> (\<forall>x \<in> r. \<forall>c \<in> set (ch x). c \<in> r \<or> c = w) \<and>
     r \<subseteq> seen \<union> {n. \<exists>s \<in> set st. avoids ch w s n}"
proof (induction f arbitrary: seen st)
  case 0
  then show ?case by (cases st) auto
next
  case (Suc f)
  show ?case
  proof (cases st rule: rev_cases)
    case Nil
    then show ?thesis using Suc.prems by auto
  next
    case (snoc xs n)
    show ?thesis
    proof (cases "n = w \<or> n \<in> seen")
      case True
      with Suc.prems(1) snoc have r: "search f ch w seen xs = Inr r" by (simp add: search_snoc)
      have "\<forall>x \<in> seen. \<forall>c \<in> set (ch x). c \<in> seen \<or> c = w \<or> c \<in> set xs" using Suc.prems(2) snoc True by auto
      note IH = Suc.IH [OF r this]
      have "set st - {w} \<subseteq> insert n (set xs - {w}) - {w}" using snoc by auto
      then have "set st - {w} \<subseteq> r" using IH True by blast
      moreover have "r \<subseteq> seen \<union> {m. \<exists>s \<in> set st. avoids ch w s m}" using IH snoc by fastforce
      ultimately show ?thesis using IH by blast
    next
      case False
      with Suc.prems(1) snoc have r: "search f ch w (insert n seen) (xs @ ch n) = Inr r" by (simp add: search_snoc)
      have "\<forall>x \<in> insert n seen. \<forall>c \<in> set (ch x). c \<in> insert n seen \<or> c = w \<or> c \<in> set (xs @ ch n)"
        using Suc.prems(2) snoc by auto
      note IH = Suc.IH [OF r this]
      have "avoids ch w n m" if "s \<in> set (ch n)" "avoids ch w s m" for s m
      proof -
        have "s \<noteq> w" using that(2) by (induction rule: avoids.induct) auto
        then have "avoids ch w n s" using False that(1) avoids.start avoids.step by blast
        then show ?thesis using that(2) avoids_trans by blast
      qed
      then have step: "s \<in> set (ch n) \<Longrightarrow> avoids ch w s m \<Longrightarrow> avoids ch w n m" for s m .
      have own: "avoids ch w n n" using False by (intro avoids.start) simp
      have "r \<subseteq> seen \<union> {m. \<exists>s \<in> set st. avoids ch w s m}"
      proof
        fix m assume "m \<in> r"
        with IH consider "m = n" | "m \<in> seen" | s where "s \<in> set xs" "avoids ch w s m"
          | s where "s \<in> set (ch n)" "avoids ch w s m" by auto
        then show "m \<in> seen \<union> {m. \<exists>s \<in> set st. avoids ch w s m}"
          using own step snoc by cases auto
      qed
      moreover have "seen \<subseteq> r" "n \<in> r" "set xs - {w} \<subseteq> r" using IH by auto
      moreover have "set st - {w} \<subseteq> insert n (set xs - {w})" using snoc by auto
      ultimately show ?thesis using IH by blast
    qed
  qed
qed

definition pending_edges :: "nat list \<Rightarrow> (nat \<Rightarrow> nat list) \<Rightarrow> nat set \<Rightarrow> nat" where
  "pending_edges ns ch seen = (\<Sum>n \<in> set ns - seen. length (ch n))"

lemma pending_edges_insert:
  "n \<in> set ns \<Longrightarrow> n \<notin> seen \<Longrightarrow> pending_edges ns ch seen = length (ch n) + pending_edges ns ch (insert n seen)"
proof -
  assume n: "n \<in> set ns" "n \<notin> seen"
  have eq: "set ns - seen = insert n (set ns - insert n seen)" using n by blast
  show ?thesis unfolding pending_edges_def by (subst eq) (rule sum.insert, simp_all)
qed

lemma pending_le_edge_count: "pending_edges ns ch {} \<le> edge_count ns ch"
proof (induction ns)
  case (Cons n ns)
  have "pending_edges (n # ns) ch {} \<le> length (ch n) + pending_edges ns ch {}"
    by (cases "n \<in> set ns") (simp_all add: pending_edges_def insert_absorb)
  with Cons show ?case by (simp add: edge_count_def)
qed (simp add: pending_edges_def edge_count_def)

lemma search_enough_fuel:
  assumes cl: "closed_graph ns ch"
  shows "set st \<subseteq> set ns \<Longrightarrow> length st + pending_edges ns ch seen \<le> f \<Longrightarrow> \<exists>r. search f ch w seen st = Inr r"
proof (induction f arbitrary: seen st)
  case (Suc f)
  show ?case
  proof (cases st rule: rev_cases)
    case (snoc xs n)
    show ?thesis
    proof (cases "n = w \<or> n \<in> seen")
      case True
      then show ?thesis using Suc snoc by (simp add: search_snoc)
    next
      case False
      have n: "n \<in> set ns" using Suc.prems snoc by simp
      have "set (ch n) \<subseteq> set ns" using cl n by (auto simp: closed_graph_def)
      moreover have "length (xs @ ch n) + pending_edges ns ch (insert n seen) \<le> f"
        using Suc.prems(2) snoc pending_edges_insert [OF n, of seen ch] False by simp
      ultimately show ?thesis using Suc.IH [of "xs @ ch n" "insert n seen"] Suc.prems(1) snoc False by (simp add: search_snoc)
    qed
  qed simp
qed simp

lemma reachable_without_correct:
  assumes "closed_graph ns ch" and "s \<in> set ns"
  shows "reachable_without ns ch s e w = Inr (avoids ch w s e)"
proof -
  have "length [s] + pending_edges ns ch {} \<le> Suc (edge_count ns ch)" using pending_le_edge_count [of ns ch] by simp
  with search_enough_fuel [OF assms(1), of "[s]" "{}" "Suc (edge_count ns ch)" w] assms(2)
  obtain r where r: "search (Suc (edge_count ns ch)) ch w {} [s] = Inr r" by auto
  note res = search_result [OF r]
  have "x \<in> r" if "avoids ch w s x" for x
    using that by (induction rule: avoids.induct) (use res in auto)
  then have "e \<in> r \<longleftrightarrow> avoids ch w s e" using res by auto
  with r show ?thesis by (simp add: reachable_without_def)
qed

section \<open>Natural loops\<close>

lemma loop_body_correct:
  assumes "closed_graph ns ch" and "set ps \<subseteq> set ns"
  shows "loop_body ns ch t h ps = Inr {p \<in> set ps. avoids ch h p t}"
  using assms(2) by (induction ps) (auto simp: reachable_without_correct [OF assms(1)])

text \<open>What the loops of a set of edges are, given the dominator sets.\<close>

definition loop_tails :: "(nat \<Rightarrow> nat set) \<Rightarrow> (nat \<times> nat) list \<Rightarrow> nat \<Rightarrow> nat set" where
  "loop_tails D es h = {n. (n, h) \<in> set es \<and> h \<in> D n}"

definition loop_spec :: "nat list \<Rightarrow> (nat \<Rightarrow> nat list) \<Rightarrow> (nat \<Rightarrow> nat set) \<Rightarrow> (nat \<times> nat) list \<Rightarrow> nat \<Rightarrow> natural_loop option" where
  "loop_spec ns ch D es h =
     (let ts = loop_tails D es h
      in if ts = {} then None
         else Some \<lparr>loop_nodes = insert h (ts \<union> {p \<in> set ns. \<exists>t \<in> ts. avoids ch h p t}), backedges = ts\<rparr>)"

lemma find_backedges_correct:
  assumes cl: "closed_graph ns ch"
  shows "ls = loop_spec ns ch D done_es \<Longrightarrow>
    find_backedges ns ch D es ls = Inr (loop_spec ns ch D (done_es @ es))"
proof (induction es arbitrary: ls done_es)
  case (Cons ed es)
  obtain n c where ed: "ed = (n, c)" by (cases ed)
  show ?case
  proof (cases "c \<in> D n")
    case False
    then have "loop_tails D (done_es @ [ed]) h = loop_tails D done_es h" for h by (auto simp: loop_tails_def ed)
    then have "ls = loop_spec ns ch D (done_es @ [ed])" using Cons.prems by (simp add: loop_spec_def fun_eq_iff)
    from Cons.IH [OF this] False show ?thesis by (simp add: ed)
  next
    case True
    have "add_backedge ns ch n c ls = Inr (loop_spec ns ch D (done_es @ [ed]))"
    proof -
      have other: "loop_tails D (done_es @ [ed]) h = loop_tails D done_es h" if "h \<noteq> c" for h
        using that by (auto simp: loop_tails_def ed)
      have this_one: "loop_tails D (done_es @ [ed]) c = insert n (loop_tails D done_es c)"
        using True by (auto simp: loop_tails_def ed)
      show ?thesis
        unfolding add_backedge_def loop_body_correct [OF cl order_refl] Cons.prems
        by (auto simp: Let_def loop_spec_def other this_one empty_loop_def fun_eq_iff)
    qed
    from Cons.IH [OF refl, of "done_es @ [ed]"] this True show ?thesis by (simp add: ed)
  qed
qed simp

end
