(* ===== verification/Flow_Exit.thy ===== *)
theory Flow_Exit
  imports Flow_Loops
begin

text \<open>
  Floods compute reachability; the relations of a graph are its dominators, postdominators and
  natural loops; and the fictive edges let every basic node reach the exit.
\<close>

section \<open>Floods\<close>

definition picks :: "(nat set \<Rightarrow> nat) \<Rightarrow> bool" where
  "picks pick \<longleftrightarrow> (\<forall>S. finite S \<longrightarrow> S \<noteq> {} \<longrightarrow> pick S \<in> S)"

abbreviation reaches :: "(nat \<Rightarrow> nat list) \<Rightarrow> nat \<Rightarrow> nat \<Rightarrow> bool" where
  "reaches nxt \<equiv> (\<lambda>a b. b \<in> set (nxt a))\<^sup>*\<^sup>*"

lemma picks_Min: "picks Min"
  by (simp add: picks_def)

lemma reaches_closed:
  assumes "reaches nxt a b" and "a \<in> S" and "\<And>x. x \<in> S \<Longrightarrow> set (nxt x) \<subseteq> S"
  shows "b \<in> S"
  using assms(1,2) by (induction rule: rtranclp_induct) (use assms(3) in blast)+

lemma flood_result:
  assumes pk: "picks pick"
  shows "flood f pick nxt seen queue = Inr r \<Longrightarrow> finite queue \<Longrightarrow> (\<forall>x \<in> seen. set (nxt x) \<subseteq> seen \<union> queue) \<Longrightarrow>
    r = seen \<union> {x. \<exists>q \<in> queue. reaches nxt q x}"
proof (induction f arbitrary: seen queue)
  case 0
  then show ?case by (subst (asm) flood.simps) (auto split: if_splits)
next
  case (Suc f)
  show ?case
  proof (cases "queue = {}")
    case True
    then show ?thesis using Suc.prems(1) by (subst (asm) flood.simps) auto
  next
    case False
    let ?n = "pick queue" let ?seen = "insert (pick queue) seen"
    let ?queue = "queue - {?n} \<union> (set (nxt ?n) - ?seen)"
    have n: "?n \<in> queue" using pk False Suc.prems(2) by (simp add: picks_def)
    have r: "flood f pick nxt ?seen ?queue = Inr r" using Suc.prems(1) False by (subst (asm) flood.simps) (simp add: Let_def)
    have "\<forall>x \<in> ?seen. set (nxt x) \<subseteq> ?seen \<union> ?queue" using Suc.prems(3) by blast
    from Suc.IH [OF r _ this] Suc.prems(2) have eq: "r = ?seen \<union> {x. \<exists>q \<in> ?queue. reaches nxt q x}" by simp
    have closed: "set (nxt x) \<subseteq> r" if "x \<in> r" for x
    proof (cases "x \<in> ?seen")
      case True
      then have "set (nxt x) \<subseteq> ?seen \<union> ?queue" using Suc.prems(3) by blast
      then show ?thesis unfolding eq by blast
    next
      case False
      with that obtain q where "q \<in> ?queue" "reaches nxt q x" unfolding eq by blast
      then have "reaches nxt q c" if "c \<in> set (nxt x)" for c using that rtranclp.rtrancl_into_rtrancl [of _ q x c] by blast
      with \<open>q \<in> ?queue\<close> show ?thesis unfolding eq by blast
    qed
    have "queue \<subseteq> r" unfolding eq by blast
    then have "x \<in> r" if "q \<in> queue" "reaches nxt q x" for q x
      using reaches_closed [OF that(2), of r] closed that(1) by blast
    then have "{x. \<exists>q \<in> queue. reaches nxt q x} \<subseteq> r" by blast
    moreover have "r \<subseteq> seen \<union> {x. \<exists>q \<in> queue. reaches nxt q x}"
    proof
      fix x assume "x \<in> r"
      then consider "x \<in> seen" | "x = ?n" | q where "q \<in> queue" "reaches nxt q x"
        | q where "q \<in> set (nxt ?n)" "reaches nxt q x" unfolding eq by blast
      then show "x \<in> seen \<union> {x. \<exists>q \<in> queue. reaches nxt q x}"
        using n by cases (auto intro: converse_rtranclp_into_rtranclp)
    qed
    moreover have "seen \<subseteq> r" unfolding eq by blast
    ultimately show ?thesis by blast
  qed
qed

lemma flood_enough_fuel:
  assumes pk: "picks pick" and cl: "closed_graph ns nxt"
  shows "queue \<subseteq> set ns \<Longrightarrow> card (set ns - seen) + card (queue \<inter> seen) \<le> f \<Longrightarrow> \<exists>r. flood f pick nxt seen queue = Inr r"
proof (induction f arbitrary: seen queue)
  case 0
  have fin: "finite queue" using 0(1) finite_subset by blast
  then have "queue \<subseteq> seen" "queue \<inter> seen = {}" using 0 by auto
  then show ?case by (subst flood.simps) auto
next
  case (Suc f)
  show ?case
  proof (cases "queue = {}")
    case False
    let ?n = "pick queue" let ?seen = "insert (pick queue) seen"
    let ?queue = "queue - {?n} \<union> (set (nxt ?n) - ?seen)"
    have fin: "finite queue" using Suc.prems(1) finite_subset by blast
    have n: "?n \<in> queue" using pk False fin by (simp add: picks_def)
    have q: "?queue \<subseteq> set ns" using Suc.prems(1) cl n by (auto simp: closed_graph_def)
    have "?queue \<inter> ?seen = (queue \<inter> seen) - {?n}" by blast
    moreover have "set ns - ?seen = (set ns - seen) - {?n}" by blast
    moreover have "?n \<in> queue \<inter> seen \<or> ?n \<in> set ns - seen" using n Suc.prems(1) by blast
    ultimately have "card (set ns - ?seen) + card (?queue \<inter> ?seen) < card (set ns - seen) + card (queue \<inter> seen)"
      using fin by (metis (no_types, lifting) Diff_empty Diff_insert0 add.commute add_less_le_mono card_Diff1_le card_Diff1_less finite_Diff finite_Int finite_set)
    with Suc.prems(2) have "card (set ns - ?seen) + card (?queue \<inter> ?seen) \<le> f" by simp
    from Suc.IH [OF q this] show ?thesis using False by (subst flood.simps) (simp add: Let_def)
  qed (subst flood.simps, simp)
qed

text \<open>The two floods of the whole graph: from the exit against the edges, and from the entry along them.\<close>

lemma flood_from:
  assumes "picks pick" and "closed_graph ns nxt" and "s \<in> set ns"
  shows "flood (length ns) pick nxt {} {s} = Inr {x. reaches nxt s x}"
proof -
  have "card (set ns - {}) + card ({s} \<inter> {}) \<le> length ns" by (simp add: card_length)
  from flood_enough_fuel [OF assms(1,2) _ this] assms(3) obtain r where r: "flood (length ns) pick nxt {} {s} = Inr r" by auto
  with flood_result [OF assms(1) r] show ?thesis by simp
qed

section \<open>Relations\<close>

lemma set_parents_of: "set (parents_of ns ch c) = {n \<in> set ns. c \<in> set (ch n)}"
  by (auto simp: parents_of_def)

lemma closed_parents_of: "closed_graph ns (parents_of ns ch)"
  by (auto simp: closed_graph_def set_parents_of)

lemma find_backedges_total: "closed_graph ns ch \<Longrightarrow> \<exists>ls'. find_backedges ns ch D es ls = Inr ls'"
  by (induction es arbitrary: ls) (auto simp: add_backedge_def loop_body_correct Let_def)

definition flow_nodes :: "nat list \<Rightarrow> (nat \<Rightarrow> node_kind) \<Rightarrow> bool" where
  "flow_nodes ns kinds \<longleftrightarrow> ns \<noteq> [] \<and> kinds (last ns) = TerminalNode \<and> closed_graph ns (succs kinds) \<and>
     (\<forall>n \<in> set ns. \<forall>s f. kinds n = BasicNode s (Some f) \<longrightarrow> f = last ns)"

definition relations_of :: "nat list \<Rightarrow> (nat \<Rightarrow> int) \<Rightarrow> (nat \<Rightarrow> node_kind) \<Rightarrow> relations \<Rightarrow> bool" where
  "relations_of ns idx kinds r \<longleftrightarrow>
     rel_parents r = parents_of ns (succs kinds) \<and>
     (\<forall>n \<in> set ns. dominators r n = {d \<in> set ns. dominates (parents_of ns (succs kinds)) (hd ns) d n}) \<and>
     (\<forall>n \<in> set ns. postdominators r n = {d \<in> set ns. dominates (succs kinds) (last ns) d n}) \<and>
     imdom r = immediate_dominator ns idx (dominators r) \<and> imdominates r = immediately_dominates ns idx (dominators r) \<and>
     impdom r = immediate_dominator ns idx (postdominators r) \<and> impdominates r = immediately_dominates ns idx (postdominators r)"

lemma compute_relations_correct:
  assumes "flow_nodes ns kinds"
  shows "\<exists>r. compute_relations ns idx kinds ls = Inr r \<and> relations_of ns idx kinds r \<and>
    find_backedges ns (succs kinds) (dominators r) (edges ns (succs kinds)) ls = Inr (loops r)"
proof -
  let ?ch = "succs kinds" let ?ps = "parents_of ns ?ch"
  from assms have ns: "ns \<noteq> []" "kinds (last ns) = TerminalNode" and cl: "closed_graph ns ?ch"
    by (auto simp: flow_nodes_def)
  obtain D where D: "compute_dominators ns ?ps (hd ns) = Inr D" "\<forall>n \<in> set ns. D n = {d \<in> set ns. dominates ?ps (hd ns) d n}"
    using compute_dominators_correct [OF closed_parents_of, of "hd ns" ns ?ch] ns by auto
  obtain P where P: "compute_dominators ns ?ch (last ns) = Inr P" "\<forall>n \<in> set ns. P n = {d \<in> set ns. dominates ?ch (last ns) d n}"
    using compute_dominators_correct [OF cl, of "last ns"] ns by auto
  obtain l where "find_backedges ns ?ch D (edges ns ?ch) ls = Inr l" using find_backedges_total [OF cl] by blast
  with D P ns show ?thesis by (simp add: compute_relations_def Let_def relations_of_def)
qed

section \<open>Infinite loops\<close>

lemma reaches_reverse: "reaches (parents_of ns ch) t x \<Longrightarrow> reaches ch x t"
  by (induction rule: rtranclp_induct) (auto simp: set_parents_of intro: converse_rtranclp_into_rtranclp)

lemma reaches_mono: "reaches ch a b \<Longrightarrow> (\<And>x. set (ch x) \<subseteq> set (ch' x)) \<Longrightarrow> reaches ch' a b"
  by (rule rtranclp_mono [THEN predicate2D, rotated]) auto

definition stuck :: "nat list \<Rightarrow> (nat \<Rightarrow> node_kind) \<Rightarrow> nat set" where
  "stuck ns kinds = {n \<in> set ns. is_basic (kinds n) \<and> \<not> reaches (parents_of ns (succs kinds)) (last ns) n}"

definition with_exits :: "nat \<Rightarrow> (nat \<Rightarrow> node_kind) \<Rightarrow> (nat \<Rightarrow> node_kind) \<Rightarrow> bool" where
  "with_exits t kinds kinds' \<longleftrightarrow>
     (\<forall>n. kinds' n = kinds n \<or> is_basic (kinds n) \<and> kinds' n = set_fake_successor (kinds n) t)"

lemma is_basic_fake [simp]: "is_basic (set_fake_successor k t) = is_basic k"
  by (auto simp: is_basic_def set_fake_successor_def split: node_kind.splits)

lemma set_fake_twice [simp]: "set_fake_successor (set_fake_successor k t) t = set_fake_successor k t"
  by (auto simp: set_fake_successor_def split: node_kind.splits)

lemma children_fake: "set (children (set_fake_successor k t)) \<subseteq> insert t (set (children k))"
  by (auto simp: set_fake_successor_def children_def split: node_kind.splits option.splits)

lemma with_exits_trans: "with_exits t k1 k2 \<Longrightarrow> with_exits t k2 k3 \<Longrightarrow> with_exits t k1 k3"
  unfolding with_exits_def by (metis is_basic_fake set_fake_twice)

lemma reaches_parents_iff:
  assumes "closed_graph ns ch" and "n \<in> set ns"
  shows "reaches (parents_of ns ch) t n \<longleftrightarrow> reaches ch n t"
proof
  assume "reaches ch n t"
  then show "reaches (parents_of ns ch) t n" using assms(2)
  proof (induction rule: converse_rtranclp_induct)
    case (step y z)
    then have "z \<in> set ns" using assms(1) by (auto simp: closed_graph_def)
    with step show ?case by (auto simp: set_parents_of intro: rtranclp.rtrancl_into_rtrancl)
  qed simp
qed (rule reaches_reverse)

lemma exit_added:
  assumes fl: "flow_nodes ns kinds" and n: "n \<in> stuck ns kinds"
    and k: "kinds' = kinds(n := set_fake_successor (kinds n) (last ns))"
  shows "flow_nodes ns kinds'" and "stuck ns kinds' \<subset> stuck ns kinds" and "with_exits (last ns) kinds kinds'"
proof -
  let ?ch = "succs kinds" and ?ch' = "succs kinds'" and ?t = "last ns"
  have t: "?t \<in> set ns" and cl: "closed_graph ns ?ch" and nt: "n \<in> set ns" "is_basic (kinds n)"
    using fl n by (auto simp: flow_nodes_def stuck_def)
  have nofake: "kinds n = BasicNode s f \<Longrightarrow> f = None" for s f
  proof (rule ccontr)
    assume bn: "kinds n = BasicNode s f" "f \<noteq> None"
    then have "?t \<in> set (?ch n)" using fl nt(1) by (auto simp: flow_nodes_def succs_def children_def)
    then have "reaches ?ch n ?t" by blast
    with n cl nt show False by (simp add: stuck_def reaches_parents_iff)
  qed
  have sub: "set (?ch x) \<subseteq> set (?ch' x)" for x
    using nofake nt(2) by (auto simp: k set_fake_successor_def succs_def children_def is_basic_def split: node_kind.splits)
  have new: "?t \<in> set (?ch' n)"
    using nt(2) by (auto simp: k set_fake_successor_def succs_def children_def is_basic_def split: node_kind.splits)
  have cl': "closed_graph ns ?ch'"
    using cl t children_fake [of "kinds n" ?t] by (auto simp: closed_graph_def k succs_def)
  have "n \<noteq> ?t" using fl nt(2) by (auto simp: flow_nodes_def is_basic_def)
  then show "flow_nodes ns kinds'" using fl cl'
    by (auto simp: flow_nodes_def k set_fake_successor_def split: node_kind.splits)
  show "with_exits ?t kinds kinds'" using nt(2) by (simp add: with_exits_def k)
  have "stuck ns kinds' \<subseteq> stuck ns kinds"
  proof
    fix x assume x: "x \<in> stuck ns kinds'"
    then have "x \<in> set ns" "is_basic (kinds x)" by (auto simp: stuck_def k split: if_splits)
    moreover have "\<not> reaches ?ch' x ?t" using x reaches_parents_iff [OF cl', of x ?t] by (simp add: stuck_def)
    then have "\<not> reaches ?ch x ?t" using reaches_mono [of ?ch x ?t ?ch'] sub by blast
    ultimately show "x \<in> stuck ns kinds" using cl by (simp add: stuck_def reaches_parents_iff)
  qed
  moreover have "reaches ?ch' n ?t" using new by blast
  then have "n \<notin> stuck ns kinds'" using cl' nt(1) by (simp add: stuck_def reaches_parents_iff)
  ultimately show "stuck ns kinds' \<subset> stuck ns kinds" using n by blast
qed

lemma set_unterminated:
  assumes "flow_nodes ns kinds"
  shows "set (unterminated_nodes ns kinds {x. reaches (parents_of ns (succs kinds)) (last ns) x}) = stuck ns kinds"
  by (auto simp: unterminated_nodes_def stuck_def)

lemma terminate_rounds_correct:
  assumes pk: "picks pick"
  shows "flow_nodes ns kinds \<Longrightarrow> rel_parents r = parents_of ns (succs kinds) \<Longrightarrow> card (stuck ns kinds) \<le> f \<Longrightarrow>
    \<exists>kinds' r'. terminate_rounds f pick ns idx kinds r = Inr (kinds', r') \<and> flow_nodes ns kinds' \<and>
      stuck ns kinds' = {} \<and> with_exits (last ns) kinds kinds' \<and> rel_parents r' = parents_of ns (succs kinds')"
proof (induction f arbitrary: kinds r rule: less_induct)
  case (less f)
  let ?un = "unterminated_nodes ns kinds {x. reaches (parents_of ns (succs kinds)) (last ns) x}"
  have fin: "finite (stuck ns kinds)" by (simp add: stuck_def)
  have seen: "flood (length ns) pick (rel_parents r) {} {last ns} = Inr {x. reaches (parents_of ns (succs kinds)) (last ns) x}"
    using flood_from [OF pk closed_parents_of] less.prems(1,2) by (simp add: flow_nodes_def)
  note un = set_unterminated [OF less.prems(1)]
  show ?case
  proof (cases ?un)
    case Nil
    then show ?thesis using seen less.prems un
      by (subst terminate_rounds.simps) (simp add: with_exits_def)
  next
    case (Cons u us)
    define n where "n = last ?un"
    define k where "k = kinds(n := set_fake_successor (kinds n) (last ns))"
    have "?un \<noteq> []" using Cons by simp
    then have n: "n \<in> stuck ns kinds" using last_in_set [of ?un] unfolding un n_def by simp
    note added = exit_added [OF less.prems(1) n k_def]
    obtain r' where r': "compute_relations ns idx k (loops r) = Inr r'" "rel_parents r' = parents_of ns (succs k)"
      using compute_relations_correct [OF added(1), of idx "loops r"] unfolding relations_of_def by blast
    have "card (stuck ns k) < card (stuck ns kinds)" by (rule psubset_card_mono [OF fin added(2)])
    with less.prems(3) obtain f' where f: "f = Suc f'" "card (stuck ns k) \<le> f'" by (cases f) auto
    have "f' < f" using f(1) by simp
    from less.IH [OF this added(1) r'(2) f(2)] obtain k2 r2 where
      "terminate_rounds f' pick ns idx k r' = Inr (k2, r2)" "flow_nodes ns k2" "stuck ns k2 = {}"
      "with_exits (last ns) k k2" "rel_parents r2 = parents_of ns (succs k2)" by blast
    moreover from this(4) have "with_exits (last ns) kinds k2" by (rule with_exits_trans [OF added(3)])
    moreover have "terminate_rounds f pick ns idx kinds r = terminate_rounds f' pick ns idx k r'"
      using seen r'(1) f(1) Cons by (subst terminate_rounds.simps) (simp add: Let_def n_def k_def)
    ultimately show ?thesis by auto
  qed
qed

lemma terminate_infinite_loops_reach_exit:
  assumes "picks pick" and "flow_nodes ns kinds" and "rel_parents r = parents_of ns (succs kinds)"
  shows "\<exists>kinds' r'. terminate_infinite_loops pick ns idx kinds r = Inr (kinds', r') \<and> flow_nodes ns kinds' \<and>
    with_exits (last ns) kinds kinds' \<and>
    (\<forall>n \<in> set ns. is_basic (kinds n) \<longrightarrow> reaches (succs kinds') n (last ns))"
proof -
  have "card (stuck ns kinds) \<le> length ns"
    by (rule le_trans [OF card_mono [of "set ns"] card_length]) (auto simp: stuck_def)
  from terminate_rounds_correct [OF assms this, of idx] obtain k r' where
    t: "terminate_rounds (length ns) pick ns idx kinds r = Inr (k, r')" "flow_nodes ns k" "stuck ns k = {}" "with_exits (last ns) kinds k"
    by blast
  have "is_basic (k n) = is_basic (kinds n)" for n using t(4) unfolding with_exits_def by (metis is_basic_fake)
  moreover have "reaches (succs k) n (last ns)" if "n \<in> set ns" "is_basic (k n)" for n
    using t(3) that reaches_reverse [of ns "succs k"] unfolding stuck_def by blast
  ultimately have "\<forall>n \<in> set ns. is_basic (kinds n) \<longrightarrow> reaches (succs k) n (last ns)" by blast
  with t assms(2) show ?thesis
    unfolding terminate_infinite_loops_def flow_nodes_def by (simp add: py_assert_def)
qed

section \<open>Steps of a search\<close>

lemma reach_expand:
  "insert n seen \<union> {x. \<exists>s \<in> set (xs @ nxt n). reaches nxt s x} = seen \<union> {x. \<exists>s \<in> set (xs @ [n]). reaches nxt s x}"
proof -
  have "reaches nxt n x \<longleftrightarrow> x = n \<or> (\<exists>s \<in> set (nxt n). reaches nxt s x)" for x
    by (auto elim: converse_rtranclpE intro: converse_rtranclp_into_rtranclp)
  then show ?thesis by auto
qed

lemma reach_drop_seen:
  assumes "\<forall>x \<in> seen. set (nxt x) \<subseteq> seen \<union> set xs" and "n \<in> seen"
  shows "seen \<union> {x. \<exists>s \<in> set (xs @ [n]). reaches nxt s x} = seen \<union> {x. \<exists>s \<in> set xs. reaches nxt s x}"
proof -
  let ?S = "seen \<union> {x. \<exists>s \<in> set xs. reaches nxt s x}"
  have "set (nxt x) \<subseteq> ?S" if "x \<in> ?S" for x
  proof (cases "x \<in> seen")
    case True
    then have "set (nxt x) \<subseteq> seen \<union> set xs" using assms(1) by blast
    then show ?thesis by blast
  next
    case False
    with that obtain s where s: "s \<in> set xs" "reaches nxt s x" by blast
    then have "reaches nxt s c" if "c \<in> set (nxt x)" for c using that rtranclp.rtrancl_into_rtrancl [of _ s x c] by blast
    with s(1) show ?thesis by blast
  qed
  then have "x \<in> ?S" if "reaches nxt n x" for x using reaches_closed [OF that, of ?S] assms(2) by blast
  then show ?thesis by auto
qed

end
