(* ===== verification/Flow_Refs.thy ===== *)
theory Flow_Refs
  imports Flow_Exit Instruction "HOL-Library.AList"
begin

text \<open>
  Model of the use/definition information of \<open>m2c/m2c/flow_graph.py\<close>: references, reference
  sets, the dictionaries from locations to reference sets, the two dictionaries of a
  \<open>FlowGraph\<close> and the traversal that fills them (\<open>nodes_to_flowgraph\<close>).

  An \<open>InstrRef\<close> is its identity; a block holds its references with the instructions they stand
  for.  Dictionaries are association lists in insertion order.
\<close>

section \<open>References\<close>

datatype reference =
    PrologueRef location
  | EpilogueRef location
  | InstrRef nat

type_synonym instr_ref = "nat \<times> instruction"

text \<open>\<open>RefSet\<close>: a list without repetitions.\<close>

type_synonym ref_set = "reference list"

definition get_unique :: "ref_set \<Rightarrow> reference option" where
  "get_unique rs = (if length rs = 1 then Some (hd rs) else None)"

definition ref_add :: "ref_set \<Rightarrow> reference \<Rightarrow> ref_set" where
  "ref_add rs x = (if x \<notin> set rs then rs @ [x] else rs)"

fun ref_update :: "ref_set \<Rightarrow> ref_set \<Rightarrow> ref_set" where
  "ref_update rs [] = rs"
| "ref_update rs (x # xs) = ref_update (ref_add rs x) xs"

text \<open>\<open>list.remove\<close>: the first occurrence, or a \<open>ValueError\<close>.\<close>

definition ref_remove :: "ref_set \<Rightarrow> reference \<Rightarrow> ref_set res" where
  "ref_remove rs x = (if x \<in> set rs then Inr (remove1 x rs) else Inl ValueError)"

definition ref_eq :: "ref_set \<Rightarrow> ref_set \<Rightarrow> bool" where
  "ref_eq xs ys \<longleftrightarrow> length xs = length ys \<and> (\<forall>x \<in> set xs. x \<in> set ys)"

section \<open>Dictionaries of references\<close>

type_synonym loc_refs = "(location \<times> ref_set) list"

definition loc_get :: "loc_refs \<Rightarrow> location \<Rightarrow> ref_set" where
  "loc_get d loc = (case map_of d loc of Some rs \<Rightarrow> rs | None \<Rightarrow> [])"

definition loc_contains :: "loc_refs \<Rightarrow> location \<Rightarrow> bool" where
  "loc_contains d loc \<longleftrightarrow> loc_get d loc \<noteq> []"

definition loc_add :: "loc_refs \<Rightarrow> location \<Rightarrow> reference \<Rightarrow> loc_refs" where
  "loc_add d loc x = AList.update loc (if \<not> loc_contains d loc then [x] else ref_add (loc_get d loc) x) d"

definition loc_remove :: "loc_refs \<Rightarrow> location \<Rightarrow> loc_refs" where
  "loc_remove d loc = AList.delete loc d"

definition loc_is_empty :: "loc_refs \<Rightarrow> bool" where
  "loc_is_empty d \<longleftrightarrow> (\<forall>(loc, rs) \<in> set d. rs = [])"

type_synonym ref_uses = "(reference \<times> loc_refs) list"

text \<open>Reading a \<open>defaultdict\<close>: a missing key reads as an empty dictionary (and is inserted).\<close>

definition uses_get :: "ref_uses \<Rightarrow> reference \<Rightarrow> loc_refs" where
  "uses_get d x = (case map_of d x of Some l \<Rightarrow> l | None \<Rightarrow> [])"

record flow_graph =
  instr_inputs :: ref_uses
  instr_uses :: ref_uses

definition empty_flow :: flow_graph where
  "empty_flow = \<lparr>instr_inputs = [], instr_uses = []\<rparr>"

definition add_instruction_use :: "reference \<Rightarrow> location \<Rightarrow> reference \<Rightarrow> flow_graph \<Rightarrow> flow_graph" where
  "add_instruction_use use loc src g =
     (let i = instr_inputs g; u = instr_uses g
      in \<lparr>instr_inputs = AList.update use (loc_add (uses_get i use) loc src) i,
          instr_uses = AList.update src (loc_add (uses_get u src) loc use) u\<rparr>)"

fun clear_uses :: "reference \<Rightarrow> location \<Rightarrow> ref_set \<Rightarrow> ref_uses \<Rightarrow> ref_uses res" where
  "clear_uses x loc [] u = Inr u"
| "clear_uses x loc (s # ss) u =
     ebind (ref_remove (loc_get (uses_get u s) loc) x) (\<lambda>rs.
       clear_uses x loc ss (AList.update s (AList.update loc rs (uses_get u s)) u))"

fun clear_inputs :: "reference \<Rightarrow> loc_refs \<Rightarrow> ref_uses \<Rightarrow> ref_uses res" where
  "clear_inputs x [] u = Inr u"
| "clear_inputs x ((loc, ss) # ls) u = ebind (clear_uses x loc ss u) (clear_inputs x ls)"

definition clear_instruction_inputs :: "reference \<Rightarrow> flow_graph \<Rightarrow> flow_graph res" where
  "clear_instruction_inputs x g =
     ebind (clear_inputs x (uses_get (instr_inputs g) x) (instr_uses g)) (\<lambda>u.
       Inr \<lparr>instr_inputs = AList.delete x (instr_inputs g), instr_uses = u\<rparr>)"

text \<open>\<open>validate_instruction_graph\<close>: recompute the uses from the inputs and compare.\<close>

definition use_add :: "ref_uses \<Rightarrow> reference \<Rightarrow> location \<Rightarrow> reference \<Rightarrow> ref_uses" where
  "use_add u dep loc x = AList.update dep (loc_add (uses_get u dep) loc x) u"

definition recompute_uses :: "ref_uses \<Rightarrow> ref_uses" where
  "recompute_uses i =
     fold (\<lambda>(x, d) u. fold (\<lambda>(loc, deps) u. fold (\<lambda>dep u. use_add u dep loc x) deps u) d u) i []"

definition validate_instruction_graph :: "flow_graph \<Rightarrow> unit res" where
  "validate_instruction_graph g =
     py_assert (\<forall>(x, d) \<in> set (recompute_uses (instr_inputs g)). \<forall>(loc, deps) \<in> set d.
       ref_eq deps (loc_get (uses_get (instr_uses g) x) loc))"

section \<open>Sources of a location\<close>

datatype touch = Writes nat | Clobbers | Untouched

text \<open>The last instruction of a block that writes or clobbers the location, searched backwards.\<close>

fun last_touch :: "location \<Rightarrow> instr_ref list \<Rightarrow> touch" where
  "last_touch loc [] = Untouched"
| "last_touch loc ((i, ins) # rs) =
     (if loc \<in> set (outputs ins) then Writes i
      else if loc \<in> set (clobbers ins) then Clobbers
      else last_touch loc rs)"

text \<open>
  \<open>phi_loc_sources\<close>: the search backwards from the parents of a node to its immediate
  dominator \<open>d\<close>.  The fuel counts the pops of the stack.
\<close>

fun phi_search :: "nat \<Rightarrow> (nat \<Rightarrow> nat list) \<Rightarrow> (nat \<Rightarrow> instr_ref list) \<Rightarrow> location \<Rightarrow> nat \<Rightarrow> ref_set \<Rightarrow>
    nat set \<Rightarrow> nat list \<Rightarrow> ref_set \<Rightarrow> ref_set res" where
  "phi_search fuel ps refs loc d imdom_srcs seen [] sources = Inr sources"
| "phi_search 0 ps refs loc d imdom_srcs seen (x # xs) sources = Inl OutOfFuel"
| "phi_search (Suc fuel) ps refs loc d imdom_srcs seen (x # xs) sources =
     (let n = last (x # xs); rest = butlast (x # xs)
      in if n \<in> seen then phi_search fuel ps refs loc d imdom_srcs seen rest sources
         else if n = d then
           (if imdom_srcs = [] then Inr []
            else phi_search fuel ps refs loc d imdom_srcs (insert n seen) rest (ref_update sources imdom_srcs))
         else (case last_touch loc (rev (refs n)) of
             Writes i \<Rightarrow> phi_search fuel ps refs loc d imdom_srcs (insert n seen) rest (ref_add sources (InstrRef i))
           | Clobbers \<Rightarrow> Inr []
           | Untouched \<Rightarrow> phi_search fuel ps refs loc d imdom_srcs (insert n seen) (rest @ ps n) sources))"

definition phi_loc_sources :: "nat list \<Rightarrow> relations \<Rightarrow> (nat \<Rightarrow> instr_ref list) \<Rightarrow> nat \<Rightarrow> location \<Rightarrow> ref_set \<Rightarrow> ref_set res" where
  "phi_loc_sources ns r refs n loc imdom_srcs =
     (case imdom r n of None \<Rightarrow> Inl AssertionError
      | Some d \<Rightarrow>
          phi_search (length (rel_parents r n) + edge_count ns (rel_parents r)) (rel_parents r) refs loc d imdom_srcs
            {} (rel_parents r n) [])"

text \<open>
  \<open>locs_clobbered_until_dominator\<close>: the locations written or clobbered between a node and its
  immediate dominator.  The source iterates over a set of locations; the model keeps them in
  the order in which they are found, which only affects the order of keys in a dictionary
  that is never enumerated.
\<close>

definition touched_locs :: "instr_ref list \<Rightarrow> location list" where
  "touched_locs rs = concat (map (\<lambda>(i, ins). outputs ins @ clobbers ins) rs)"

definition loc_union :: "location list \<Rightarrow> location list \<Rightarrow> location list" where
  "loc_union xs ys = fold (\<lambda>y acc. if y \<in> set acc then acc else acc @ [y]) ys xs"

fun clobber_search :: "nat \<Rightarrow> (nat \<Rightarrow> nat list) \<Rightarrow> (nat \<Rightarrow> instr_ref list) \<Rightarrow> nat set \<Rightarrow> nat list \<Rightarrow> location list \<Rightarrow> location list res" where
  "clobber_search fuel ps refs seen [] acc = Inr acc"
| "clobber_search 0 ps refs seen (x # xs) acc = Inl OutOfFuel"
| "clobber_search (Suc fuel) ps refs seen (x # xs) acc =
     (let n = last (x # xs); rest = butlast (x # xs)
      in if n \<in> seen then clobber_search fuel ps refs seen rest acc
         else clobber_search fuel ps refs (insert n seen) (rest @ ps n) (loc_union acc (touched_locs (refs n))))"

definition locs_clobbered_until_dominator :: "nat list \<Rightarrow> relations \<Rightarrow> (nat \<Rightarrow> instr_ref list) \<Rightarrow> nat \<Rightarrow> location list res" where
  "locs_clobbered_until_dominator ns r refs n =
     (case imdom r n of None \<Rightarrow> Inl AssertionError
      | Some d \<Rightarrow>
          clobber_search (length (rel_parents r n) + edge_count ns (rel_parents r)) (rel_parents r) refs
            {d} (rel_parents r n) [])"

section \<open>Filling the dictionaries\<close>

definition add_use_sources :: "reference \<Rightarrow> location \<Rightarrow> loc_refs \<Rightarrow> flow_graph \<Rightarrow> flow_graph" where
  "add_use_sources use loc srcs g = fold (\<lambda>src. add_instruction_use use loc src) (loc_get srcs loc) g"

type_synonym missing_regs = "(register \<times> nat) list"

text \<open>One input of an instruction; a register that is read with no source is reported.\<close>

definition process_input :: "arch_asm \<Rightarrow> instr_ref \<Rightarrow> loc_refs \<Rightarrow> location \<Rightarrow> flow_graph \<times> missing_regs \<Rightarrow> flow_graph \<times> missing_regs" where
  "process_input arch x srcs inp s =
     (case x of (i, ins) \<Rightarrow> (case s of (g, missing) \<Rightarrow>
        (add_use_sources (InstrRef i) inp srcs g,
         (case inp of
            RegLoc reg \<Rightarrow>
              if loc_get srcs inp = [] \<and> (function_target ins = None \<or> reg \<notin> set (argument_regs arch))
              then missing @ [(reg, i)] else missing
          | StackLocation _ _ \<Rightarrow> missing))))"

definition loc_discard :: "location \<Rightarrow> loc_refs \<Rightarrow> loc_refs" where
  "loc_discard c d = (if loc_contains d c then loc_remove d c else d)"

definition advance_sources :: "instr_ref \<Rightarrow> loc_refs \<Rightarrow> loc_refs" where
  "advance_sources x srcs = (case x of (i, ins) \<Rightarrow>
     fold (\<lambda>out d. loc_add d out (InstrRef i)) (outputs ins)
       (fold loc_discard (clobbers ins @ outputs ins) srcs))"

fun process_instrs :: "arch_asm \<Rightarrow> instr_ref list \<Rightarrow> loc_refs \<Rightarrow> flow_graph \<times> missing_regs \<Rightarrow> loc_refs \<times> flow_graph \<times> missing_regs" where
  "process_instrs arch [] srcs s = (srcs, s)"
| "process_instrs arch (x # xs) srcs s =
     process_instrs arch xs (advance_sources x srcs) (fold (process_input arch x srcs) (inputs (snd x)) s)"

text \<open>The dictionary for a node that the current one immediately dominates.\<close>

fun child_sources :: "nat list \<Rightarrow> relations \<Rightarrow> (nat \<Rightarrow> instr_ref list) \<Rightarrow> nat \<Rightarrow> loc_refs \<Rightarrow> location list \<Rightarrow> loc_refs \<Rightarrow> loc_refs res" where
  "child_sources ns r refs c srcs [] d = Inr d"
| "child_sources ns r refs c srcs (loc # locs) d =
     ebind (phi_loc_sources ns r refs c loc (loc_get srcs loc)) (\<lambda>phi.
       child_sources ns r refs c srcs locs
         (if phi \<noteq> [] then AList.update loc phi d
          else if loc_contains d loc then loc_remove d loc else d))"

definition epilogue_uses :: "arch_asm \<Rightarrow> loc_refs \<Rightarrow> flow_graph \<Rightarrow> flow_graph" where
  "epilogue_uses arch srcs g =
     fold (\<lambda>reg. add_use_sources (EpilogueRef (RegLoc reg)) (RegLoc reg) srcs) (all_return_regs arch) g"

text \<open>
  The recursion follows the tree of immediate dominators, whose depth is at most the number of
  nodes; the fuel bounds that depth.
\<close>

primrec process_node :: "nat \<Rightarrow> arch_asm \<Rightarrow> nat list \<Rightarrow> (nat \<Rightarrow> node_kind) \<Rightarrow> relations \<Rightarrow> (nat \<Rightarrow> instr_ref list) \<Rightarrow>
    nat \<Rightarrow> loc_refs \<Rightarrow> flow_graph \<times> missing_regs \<Rightarrow> (flow_graph \<times> missing_regs) res" where
  "process_node 0 arch ns kinds r refs n srcs s = Inl OutOfFuel"
| "process_node (Suc f) arch ns kinds r refs n srcs s =
     (case process_instrs arch (refs n) srcs s of (srcs', g, missing) \<Rightarrow>
        ebind (if kinds n = TerminalNode
               then ebind (py_assert (refs n = [])) (\<lambda>_. Inr (epilogue_uses arch srcs' g, missing))
               else Inr (g, missing))
          (efold (\<lambda>c s'.
             ebind (locs_clobbered_until_dominator ns r refs c) (\<lambda>locs.
             ebind (child_sources ns r refs c srcs' locs srcs') (\<lambda>d.
               process_node f arch ns kinds r refs c d s'))) (imdominates r n)))"

definition entry_sources :: "arch_asm \<Rightarrow> loc_refs" where
  "entry_sources arch = fold (\<lambda>reg. AList.update (RegLoc reg) [PrologueRef (RegLoc reg)]) (all_regs arch) []"

definition nodes_to_flowgraph :: "arch_asm \<Rightarrow> nat list \<Rightarrow> (nat \<Rightarrow> node_kind) \<Rightarrow> relations \<Rightarrow> (nat \<Rightarrow> instr_ref list) \<Rightarrow>
    (flow_graph \<times> missing_regs) res" where
  "nodes_to_flowgraph arch ns kinds r refs =
     (if ns = [] then Inl IndexError
      else process_node (length ns) arch ns kinds r refs (hd ns) (entry_sources arch) (empty_flow, []))"

end
