(* ===== verification/Flow_Blocks.thy ===== *)
theory Flow_Blocks
  imports Asm_Pattern Flow_Refs
begin

text \<open>
  Model of the first half of \<open>m2c/m2c/flow_graph.py\<close>: blocks and their builder, the
  normalisation of MIPS branch-likely instructions, the removal of unused labels, and
  \<open>build_blocks\<close>.

  Instructions are objects with an identity; \<open>arch.parse\<close> and \<open>clone\<close> take the next free one
  from a counter that the functions thread through.
\<close>

section \<open>Blocks\<close>

record block =
  blk_index :: int
  blk_label :: "label option"
  approx_label_name :: string
  blk_instrs :: "instruction list"
  is_safeguard :: bool

text \<open>The references of a block: one per instruction, with the identity of the instruction it was made for.\<close>

definition instruction_refs :: "block \<Rightarrow> instr_ref list" where
  "instruction_refs b = map (\<lambda>i. (ins_id i, i)) (blk_instrs b)"

fun clone_all :: "nat \<Rightarrow> instruction list \<Rightarrow> instruction list" where
  "clone_all n [] = []"
| "clone_all n (i # is) = clone n i # clone_all (Suc n) is"

definition clone_block :: "nat \<Rightarrow> block \<Rightarrow> block" where
  "clone_block n b = b\<lparr>blk_instrs := clone_all n (blk_instrs b)\<rparr>"

record block_builder =
  curr_index :: int
  curr_label :: "label option"
  last_label_name :: string
  label_counter :: nat
  curr_instructions :: "instruction list"
  bb_blocks :: "block list"

definition empty_builder :: block_builder where
  "empty_builder = \<lparr>curr_index = 0, curr_label = None, last_label_name = ''initial'', label_counter = 0,
     curr_instructions = [], bb_blocks = []\<rparr>"

definition new_block :: "block_builder \<Rightarrow> block_builder" where
  "new_block b =
     (if curr_instructions b = [] then b
      else b\<lparr>curr_index := curr_index b + 1, curr_label := None, label_counter := label_counter b + 1,
             curr_instructions := [],
             bb_blocks := bb_blocks b @
               [\<lparr>blk_index = curr_index b, blk_label = curr_label b,
                 approx_label_name = last_label_name b @
                   (if label_counter b > 0 then ''.'' @ py_str_int (int (label_counter b)) else []),
                 blk_instrs = curr_instructions b, is_safeguard = False\<rparr>]\<rparr>)"

definition add_instruction :: "instruction \<Rightarrow> block_builder \<Rightarrow> block_builder" where
  "add_instruction i b = b\<lparr>curr_instructions := curr_instructions b @ [i]\<rparr>"

definition set_label :: "label \<Rightarrow> block_builder \<Rightarrow> block_builder res" where
  "set_label l b =
     ebind (py_assert (curr_label b = None)) (\<lambda>_.
     ebind (str_label l) (\<lambda>n.
       Inr (b\<lparr>curr_label := Some l, last_label_name := n, label_counter := 0\<rparr>)))"

definition builder_is_empty :: "block_builder \<Rightarrow> bool" where
  "builder_is_empty b \<longleftrightarrow> bb_blocks b = [] \<and> curr_instructions b = []"

section \<open>Delay slots and likely branches\<close>

definition last_instruction :: "body_part list \<Rightarrow> instruction option" where
  "last_instruction body = fold (\<lambda>p l. case p of BInstr i \<Rightarrow> Some i | BLabel _ \<Rightarrow> l) body None"

definition verify_no_trailing_delay_slot :: "asm_function \<Rightarrow> unit res" where
  "verify_no_trailing_delay_slot f =
     (case last_instruction (fn_body f) of
        Some i \<Rightarrow> if has_delay_slot i then Inl DecompFailure else Inr ()
      | None \<Rightarrow> Inr ())"

definition mips_branch_inverses :: "(string \<times> string) list" where
  "mips_branch_inverses =
     [(''beq'', ''bne''), (''bne'', ''beq''), (''beqz'', ''bnez''), (''bnez'', ''beqz''),
      (''bgez'', ''bltz''), (''bgtz'', ''blez''), (''blez'', ''bgtz''), (''bltz'', ''bgez''),
      (''bc1t'', ''bc1f''), (''bc1f'', ''bc1t'')]"

definition invert_mips_branch_mnemonic :: "string \<Rightarrow> string res" where
  "invert_mips_branch_mnemonic m = (case map_of mips_branch_inverses m of Some x \<Rightarrow> Inr x | None \<Rightarrow> Inl KeyError)"

text \<open>The source strips dots and adds an underscore, and then does not use the result.\<close>

definition internal_label :: "string \<Rightarrow> string \<Rightarrow> string" where
  "internal_label base related = ''._m2c_'' @ related @ base"

definition parse_new :: "arch_asm \<Rightarrow> string \<Rightarrow> argument list \<Rightarrow> instruction_meta \<Rightarrow> nat \<Rightarrow> instruction res" where
  "parse_new arch m as mt n = ebind (arch_parse arch m as mt) (\<lambda>i. Inr (i\<lparr>ins_id := n\<rparr>))"

fun gcc_likely_loop :: "arch_asm \<Rightarrow> nat \<Rightarrow> body_part list \<Rightarrow> (body_part list \<times> nat) res" where
  "gcc_likely_loop arch n [] = Inr ([], n)"
| "gcc_likely_loop arch n (p # ps) =
     (let keep = ebind (gcc_likely_loop arch n ps) (\<lambda>(r, n'). Inr (p # r, n'))
      in (case (p, ps) of
            (BInstr i, BInstr d # BLabel l # _) \<Rightarrow>
              (case ins_jump i of
                 Some (JumpTo (JumpTarget t)) \<Rightarrow>
                   if is_branch_likely i \<and> t \<in> set (label_names l)
                   then ebind (invert_mips_branch_mnemonic (butlast (ins_mnemonic i))) (\<lambda>mn.
                        ebind (parse_new arch mn (ins_args i) (meta_derived (ins_meta i)) n) (\<lambda>b.
                        ebind (parse_new arch ''nop'' [] (meta_derived (ins_meta i)) (n + 1)) (\<lambda>nop.
                        ebind (gcc_likely_loop arch (n + 2) ps) (\<lambda>(r, n').
                          Inr (BInstr b # BInstr nop # r, n')))))
                   else keep
               | _ \<Rightarrow> keep)
          | _ \<Rightarrow> keep))"

definition normalize_gcc_likely_branches :: "arch_asm \<Rightarrow> asm_function \<Rightarrow> nat \<Rightarrow> (asm_function \<times> nat) res" where
  "normalize_gcc_likely_branches arch f n =
     ebind (gcc_likely_loop arch n (fn_body f)) (\<lambda>(b, n'). Inr ((bodyless_copy f)\<lparr>fn_body := b\<rparr>, n'))"

text \<open>What the first pass over the body remembers; instructions are keys by identity.\<close>

record ido_scan =
  seen_instrs :: "nat set"
  label_prev_instr :: "string \<rightharpoonup> instruction option"
  label_before_instr :: "nat \<rightharpoonup> string"
  instr_before_instr :: "nat \<rightharpoonup> instruction"
  prev_instr :: "instruction option"
  prev_label :: "label option"
  prev_item :: "body_part option"

definition empty_scan :: ido_scan where
  "empty_scan = \<lparr>seen_instrs = {}, label_prev_instr = Map.empty, label_before_instr = Map.empty,
     instr_before_instr = Map.empty, prev_instr = None, prev_label = None, prev_item = None\<rparr>"

definition scan_item :: "body_part \<Rightarrow> ido_scan \<Rightarrow> ido_scan res" where
  "scan_item p s = (case p of
     BInstr i \<Rightarrow>
       ebind (py_assert (ins_id i \<notin> seen_instrs s)) (\<lambda>_.
       ebind (case prev_label s of
                Some l \<Rightarrow> ebind (str_label l) (\<lambda>nm. Inr (s\<lparr>label_before_instr := (label_before_instr s)(ins_id i \<mapsto> nm), prev_label := None\<rparr>))
              | None \<Rightarrow> Inr s) (\<lambda>s1.
         let s2 = (case prev_item s of
                     Some (BInstr p) \<Rightarrow> s1\<lparr>instr_before_instr := (instr_before_instr s1)(ins_id i \<mapsto> p)\<rparr>
                   | _ \<Rightarrow> s1)
         in Inr (s2\<lparr>seen_instrs := insert (ins_id i) (seen_instrs s), prev_instr := Some i, prev_item := Some (BInstr i)\<rparr>)))
   | BLabel l \<Rightarrow>
       Inr (s\<lparr>label_prev_instr := fold (\<lambda>nm m. m(nm \<mapsto> prev_instr s)) (label_names l) (label_prev_instr s),
              prev_label := Some l, prev_instr := None, prev_item := Some (BLabel l)\<rparr>))"

record ido_state =
  ido_before :: "nat \<rightharpoonup> string"
  insert_label_before :: "nat \<rightharpoonup> string"
  ido_body :: "(body_part \<times> body_part) list"
  ido_next :: nat

definition keep_pair :: "body_part \<Rightarrow> body_part \<Rightarrow> ido_state \<Rightarrow> ido_state" where
  "keep_pair a b s = s\<lparr>ido_body := ido_body s @ [(a, a), (b, b)]\<rparr>"

text \<open>The pattern of the IDO compiler: retarget the branch one instruction back, and drop the delay slot.\<close>

definition ido_rewrite :: "arch_asm \<Rightarrow> instruction \<Rightarrow> instruction \<Rightarrow> instruction \<Rightarrow> string \<Rightarrow> ido_state \<Rightarrow> ido_state res" where
  "ido_rewrite arch i d before old_label s =
     (let s1 = (case ido_before s (ins_id before) of
                  Some _ \<Rightarrow> s
                | None \<Rightarrow>
                    (let new_label = internal_label ''before'' old_label
                     in s\<lparr>ido_before := (ido_before s)(ins_id before \<mapsto> new_label),
                          insert_label_before := (insert_label_before s)(ins_id before \<mapsto> new_label)\<rparr>));
          new_target = (case ido_before s1 (ins_id before) of Some t \<Rightarrow> t | None \<Rightarrow> []);
          mn = (if butlast (ins_mnemonic i) = [] then ''b'' else butlast (ins_mnemonic i));
          n = ido_next s
      in ebind (parse_new arch mn (butlast (ins_args i) @ [AsmGlobalSymbol new_target]) (meta_derived (ins_meta i)) n) (\<lambda>i'.
         ebind (parse_new arch ''nop'' [] (meta_derived (ins_meta i')) (n + 1)) (\<lambda>nop.
           Inr (s1\<lparr>ido_body := ido_body s @ [(BInstr i, BInstr i'), (BInstr d, BInstr nop)], ido_next := n + 2\<rparr>))))"

fun ido_loop :: "arch_asm \<Rightarrow> ido_scan \<Rightarrow> body_part list \<Rightarrow> ido_state \<Rightarrow> ido_state res" where
  "ido_loop arch sc [] s = Inr s"
| "ido_loop arch sc (BLabel l # ps) s = ido_loop arch sc ps (s\<lparr>ido_body := ido_body s @ [(BLabel l, BLabel l)]\<rparr>)"
| "ido_loop arch sc (BInstr i # ps) s =
     (if is_branch_likely i \<or> ins_mnemonic i = ''b''
      then (case ins_jump i of
              Some (JumpTo (JumpTarget old_label)) \<Rightarrow>
                (case label_prev_instr sc old_label of
                   None \<Rightarrow> Inl DecompFailure
                 | Some before_target \<Rightarrow>
                     (case ps of
                        [] \<Rightarrow> Inl StopIteration
                      | nxt # ps' \<Rightarrow>
                          (let before_before =
                             (case before_target of Some bt \<Rightarrow> instr_before_instr sc (ins_id bt) | None \<Rightarrow> None)
                           in if ins_mnemonic i = ''b'' \<and> (case before_before of Some bb \<Rightarrow> has_delay_slot bb | None \<Rightarrow> False)
                              then ido_loop arch sc ps' (keep_pair (BInstr i) nxt s)
                              else (case (nxt, before_target) of
                                  (BInstr d, Some bt) \<Rightarrow>
                                    if ins_id bt \<noteq> ins_id d \<and> str_instruction bt = str_instruction d \<and>
                                       (ins_mnemonic i \<noteq> ''b'' \<or> ins_mnemonic d \<noteq> ''nop'')
                                    then ebind (ido_rewrite arch i d bt old_label s) (ido_loop arch sc ps')
                                    else ido_loop arch sc ps' (keep_pair (BInstr i) nxt s)
                                | _ \<Rightarrow> ido_loop arch sc ps' (keep_pair (BInstr i) nxt s)))))
            | _ \<Rightarrow> Inl AssertionError)
      else ido_loop arch sc ps (s\<lparr>ido_body := ido_body s @ [(BInstr i, BInstr i)]\<rparr>))"

definition ido_emit :: "(nat \<rightharpoonup> string) \<Rightarrow> body_part \<times> body_part \<Rightarrow> asm_function \<Rightarrow> asm_function" where
  "ido_emit ins_before x f = (case x of (orig, new) \<Rightarrow>
     let f1 = (case orig of
                 BInstr i \<Rightarrow> (case ins_before (ins_id i) of Some l \<Rightarrow> fn_new_label l f | None \<Rightarrow> f)
               | BLabel _ \<Rightarrow> f)
     in f1\<lparr>fn_body := fn_body f1 @ [new]\<rparr>)"

definition normalize_ido_likely_branches :: "arch_asm \<Rightarrow> asm_function \<Rightarrow> nat \<Rightarrow> (asm_function \<times> nat) res" where
  "normalize_ido_likely_branches arch f n =
     ebind (efold scan_item (fn_body f) empty_scan) (\<lambda>sc.
     ebind (ido_loop arch sc (fn_body f)
              \<lparr>ido_before = label_before_instr sc, insert_label_before = Map.empty, ido_body = [], ido_next = n\<rparr>) (\<lambda>s.
       Inr (fold (ido_emit (insert_label_before s)) (ido_body s) (bodyless_copy f), ido_next s)))"

section \<open>Labels\<close>

definition instr_labels :: "instruction \<Rightarrow> string list" where
  "instr_labels i =
     (case ins_jump i of Some (JumpTo (JumpTarget t)) \<Rightarrow> [t] | _ \<Rightarrow> []) @
     (case function_target i of Some a \<Rightarrow> (case as_symbol a of Some s \<Rightarrow> [s] | None \<Rightarrow> []) | None \<Rightarrow> [])"

definition part_labels :: "asm_data \<Rightarrow> body_part \<Rightarrow> string list" where
  "part_labels d p = (case p of
     BLabel l \<Rightarrow> filter (\<lambda>nm. nm \<in> mentioned_labels d) (label_names l)
   | BInstr i \<Rightarrow> instr_labels i)"

definition labels_used :: "asm_data \<Rightarrow> body_part list \<Rightarrow> string list" where
  "labels_used d body = concat (map (part_labels d) body)"

definition flush_label :: "string list \<Rightarrow> body_part list" where
  "flush_label cur = (if cur = [] then [] else [BLabel (Label cur)])"

fun merge_labels :: "string set \<Rightarrow> string list \<Rightarrow> body_part list \<Rightarrow> body_part list" where
  "merge_labels used cur [] = flush_label cur"
| "merge_labels used cur (BLabel l # ps) = merge_labels used (cur @ filter (\<lambda>nm. nm \<in> used) (label_names l)) ps"
| "merge_labels used cur (BInstr i # ps) = flush_label cur @ BInstr i # merge_labels used [] ps"

definition minimize_labels :: "asm_data \<Rightarrow> asm_function \<Rightarrow> asm_function" where
  "minimize_labels d f = (bodyless_copy f)\<lparr>fn_body := merge_labels (set (labels_used d (fn_body f))) [] (fn_body f)\<rparr>"

section \<open>Building blocks\<close>

record build_state =
  bs_builder :: block_builder
  bs_next :: nat
  branch_likely_counts :: "string \<Rightarrow> nat"
  cond_return_target :: "string option"

definition label_step :: "label \<Rightarrow> build_state \<Rightarrow> build_state res" where
  "label_step l s = ebind (set_label l (new_block (bs_builder s))) (\<lambda>b. Inr (s\<lparr>bs_builder := b\<rparr>))"

text \<open>Calls of the builder in sequence.\<close>

datatype builder_call = AddInstr instruction | NewBlock | SetLabel label

definition apply_call :: "builder_call \<Rightarrow> block_builder \<Rightarrow> block_builder res" where
  "apply_call c b = (case c of
     AddInstr i \<Rightarrow> Inr (add_instruction i b) | NewBlock \<Rightarrow> Inr (new_block b) | SetLabel l \<Rightarrow> set_label l b)"

definition call_builder :: "builder_call list \<Rightarrow> build_state \<Rightarrow> build_state res" where
  "call_builder cs s = ebind (efold apply_call cs (bs_builder s)) (\<lambda>b. Inr (s\<lparr>bs_builder := b\<rparr>))"

text \<open>A label, or an instruction without a delay slot.\<close>

definition process_plain :: "body_part \<Rightarrow> build_state \<Rightarrow> build_state res" where
  "process_plain p s = (case p of
     BLabel l \<Rightarrow> label_step l s
   | BInstr i \<Rightarrow> ebind (call_builder [AddInstr i] s) (\<lambda>s'. ebind (py_assert (\<not> is_jump i)) (\<lambda>_. Inr s')))"

text \<open>
  The delay slot is also the target of a jump and cannot simply be executed twice: the jump goes
  through a copy of it.
\<close>

definition mips_split :: "arch_asm \<Rightarrow> instruction \<Rightarrow> label \<Rightarrow> instruction \<Rightarrow> build_state \<Rightarrow> build_state res" where
  "mips_split arch i l d s =
     (case ins_jump i of
        Some (JumpTo (JumpTarget t)) \<Rightarrow>
          (let n = bs_next s; mt = meta_derived (ins_meta i)
           in ebind (str_label l) (\<lambda>name.
              let temp = internal_label ''skip'' name
              in ebind (parse_new arch ''nop'' [] mt n) (\<lambda>nop.
                 ebind (parse_new arch (ins_mnemonic i) (butlast (ins_args i) @ [AsmGlobalSymbol temp]) (ins_meta i) (n + 1)) (\<lambda>jmp.
                 ebind (parse_new arch ''b'' [AsmGlobalSymbol name] mt (n + 2)) (\<lambda>skip.
                 ebind (parse_new arch ''b'' [AsmGlobalSymbol t] mt (n + 4)) (\<lambda>go.
                   call_builder
                     [AddInstr jmp, AddInstr nop, NewBlock, AddInstr skip, AddInstr (clone (n + 3) nop), NewBlock,
                      SetLabel (Label [temp]), AddInstr go, AddInstr (clone (n + 5) d), NewBlock,
                      SetLabel l, AddInstr d]
                     (s\<lparr>bs_next := n + 6\<rparr>)))))))
      | _ \<Rightarrow> Inl AssertionError)"

definition mips_likely :: "arch_asm \<Rightarrow> instruction \<Rightarrow> instruction \<Rightarrow> build_state \<Rightarrow> build_state res" where
  "mips_likely arch i d s =
     (case ins_jump i of
        Some (JumpTo (JumpTarget t)) \<Rightarrow>
          (let n = bs_next s; mt = meta_derived (ins_meta i); index = Suc (branch_likely_counts s t);
               temp = internal_label (''branchlikelyskip_'' @ py_str_int (int index)) t
           in ebind (invert_mips_branch_mnemonic (butlast (ins_mnemonic i))) (\<lambda>mn.
              ebind (parse_new arch mn (butlast (ins_args i) @ [AsmGlobalSymbol temp]) mt n) (\<lambda>branch_not.
              ebind (parse_new arch ''nop'' [] mt (n + 1)) (\<lambda>nop.
              ebind (parse_new arch ''b'' [AsmGlobalSymbol t] mt (n + 2)) (\<lambda>go.
                call_builder
                  [AddInstr branch_not, AddInstr nop, NewBlock, AddInstr d, AddInstr go, AddInstr (clone (n + 3) nop),
                   NewBlock, SetLabel (Label [temp]), AddInstr (clone (n + 4) nop)]
                  (s\<lparr>bs_next := n + 5, branch_likely_counts := (branch_likely_counts s)(t := index)\<rparr>))))))
      | _ \<Rightarrow> Inl AssertionError)"

text \<open>An instruction with its delay slot; \<open>after\<close> is processed once they are in place.\<close>

definition mips_delay :: "arch_asm \<Rightarrow> instruction \<Rightarrow> instruction \<Rightarrow> body_part list \<Rightarrow> build_state \<Rightarrow> build_state res" where
  "mips_delay arch i d after s =
     (if has_delay_slot d then Inl DecompFailure
      else ebind
        (if is_branch_likely i then mips_likely arch i d s
         else if function_target i \<noteq> None
         then (if 2 \<le> length (ins_args i) \<and> (case ins_args i ! 1 of Reg r \<Rightarrow> RegLoc r \<in> set (outputs d) | _ \<Rightarrow> False)
               then Inl DecompFailure
               else call_builder [AddInstr d, AddInstr i] s)
         else call_builder [AddInstr i, AddInstr d] s) (\<lambda>s1.
      ebind (if is_jump i then call_builder [NewBlock] s1 else Inr s1) (efold process_plain after)))"

text \<open>One item of the body with the items it takes from the iterator.\<close>

definition process_mips :: "arch_asm \<Rightarrow> body_part \<Rightarrow> body_part list \<Rightarrow> build_state \<Rightarrow> (body_part list \<times> build_state) res" where
  "process_mips arch p rest s = (case p of
     BLabel l \<Rightarrow> ebind (label_step l s) (\<lambda>s'. Inr (rest, s'))
   | BInstr i \<Rightarrow>
       if \<not> has_delay_slot i then ebind (process_plain p s) (\<lambda>s'. Inr (rest, s'))
       else (case rest of
           [] \<Rightarrow> Inl StopIteration
         | BInstr d # rest1 \<Rightarrow> ebind (mips_delay arch i d [] s) (\<lambda>s'. Inr (rest1, s'))
         | BLabel l # [] \<Rightarrow> Inl StopIteration
         | BLabel l # BLabel _ # _ \<Rightarrow> Inl AssertionError
         | BLabel l # BInstr d # rest2 \<Rightarrow>
             if is_branch_likely i \<or> function_target i \<noteq> None
             then ebind (str_label l) (\<lambda>_. Inl DecompFailure)
             else if (\<forall>x \<in> set (outputs d). x \<notin> set (inputs d)) \<and> \<not> is_store d
             then ebind (mips_delay arch i d [BLabel l, BInstr (clone (bs_next s) d)] (s\<lparr>bs_next := bs_next s + 1\<rparr>))
                    (\<lambda>s'. Inr (rest2, s'))
             else ebind (mips_split arch i l d s) (\<lambda>s'. Inr (rest2, s'))))"

text \<open>Conditional returns of PowerPC and ARM become branches to a return block at the end.\<close>

definition retarget :: "string \<Rightarrow> jump_target \<Rightarrow> jump_target" where
  "retarget r t = (if t = JumpTarget ''_m2c_ret'' then JumpTarget r else t)"

definition return_label :: "string option \<Rightarrow> string" where
  "return_label c = (case c of Some r \<Rightarrow> r | None \<Rightarrow> internal_label ''conditionalreturn'' [])"

definition retarget_table :: "instruction \<Rightarrow> build_state \<Rightarrow> instruction \<times> build_state" where
  "retarget_table i s =
     (case ins_jump i of
        Some (JumpTable ts) \<Rightarrow>
          if is_conditional i \<and> JumpTarget ''_m2c_ret'' \<in> set ts
          then (let r = return_label (cond_return_target s)
                in (i\<lparr>ins_jump := Some (JumpTable (map (retarget r) ts))\<rparr>, s\<lparr>cond_return_target := Some r\<rparr>))
          else (i, s)
      | _ \<Rightarrow> (i, s))"

definition process_no_delay_slots :: "arch_asm \<Rightarrow> body_part \<Rightarrow> build_state \<Rightarrow> build_state res" where
  "process_no_delay_slots arch p s = (case p of
     BLabel l \<Rightarrow> label_step l s
   | BInstr i0 \<Rightarrow>
       (case retarget_table i0 s of (i, s1) \<Rightarrow>
          if is_conditional i \<and> is_return i
          then (let r = return_label (cond_return_target s1); m = ins_mnemonic i
                in ebind (py_assert (drop (length m - 2) m = ''lr'')) (\<lambda>_.
                   ebind (parse_new arch (take (length m - 2) m) [AsmGlobalSymbol r] (meta_derived (ins_meta i)) (bs_next s1)) (\<lambda>b.
                     call_builder [AddInstr b, NewBlock] (s1\<lparr>cond_return_target := Some r, bs_next := bs_next s1 + 1\<rparr>))))
          else call_builder (AddInstr i # (if is_jump i then [NewBlock] else [])) s1))"

fun mips_loop :: "nat \<Rightarrow> arch_asm \<Rightarrow> body_part list \<Rightarrow> build_state \<Rightarrow> build_state res" where
  "mips_loop fuel arch [] s = Inr s"
| "mips_loop 0 arch (p # ps) s = Inl OutOfFuel"
| "mips_loop (Suc fuel) arch (p # ps) s = ebind (process_mips arch p ps s) (\<lambda>(rest, s'). mips_loop fuel arch rest s')"

definition process_body :: "arch_asm \<Rightarrow> body_part list \<Rightarrow> build_state \<Rightarrow> build_state res" where
  "process_body arch body s =
     (if arch_name arch = MIPS then mips_loop (length body) arch body s
      else efold (process_no_delay_slots arch) body s)"

fun number_from :: "nat \<Rightarrow> instruction list \<Rightarrow> instruction list" where
  "number_from n [] = []"
| "number_from n (i # is) = i\<lparr>ins_id := n\<rparr> # number_from (Suc n) is"

definition mark_safeguard :: "block list \<Rightarrow> block list" where
  "mark_safeguard bs = (if bs = [] then [] else butlast bs @ [(last bs)\<lparr>is_safeguard := True\<rparr>])"

text \<open>The end of a function: a return as a safeguard, and the block for conditional returns.\<close>

definition finish_blocks :: "arch_asm \<Rightarrow> bool \<Rightarrow> build_state \<Rightarrow> (block list \<times> nat) res" where
  "finish_blocks arch fragment s =
     (let b = bs_builder s; n = bs_next s; ret = missing_return arch
      in if builder_is_empty b then Inl DecompFailure
         else if fragment then Inr (bb_blocks (new_block b), n)
         else (let b1 = fold add_instruction (number_from n ret) b
               in ebind (py_assert (curr_instructions b1 \<noteq> [])) (\<lambda>_.
                  let b2 = new_block b1; b3 = b2\<lparr>bb_blocks := mark_safeguard (bb_blocks b2)\<rparr>
                  in (case cond_return_target s of
                        None \<Rightarrow> Inr (bb_blocks b3, n + length ret)
                      | Some r \<Rightarrow>
                          ebind (set_label (Label [r]) b3) (\<lambda>b4.
                            Inr (bb_blocks (new_block (fold add_instruction (number_from (n + length ret) ret) b4)),
                                 n + 2 * length ret))))))"

definition build_blocks :: "arch_asm \<Rightarrow> asm_pattern list \<Rightarrow> asm_data \<Rightarrow> bool \<Rightarrow> asm_function \<Rightarrow> nat \<Rightarrow> (block list \<times> nat) res" where
  "build_blocks arch pats d fragment f n =
     ebind (if arch_name arch = MIPS
            then ebind (verify_no_trailing_delay_slot f) (\<lambda>_.
                 ebind (normalize_gcc_likely_branches arch (minimize_labels d f) n) (\<lambda>(f1, n1).
                   normalize_ido_likely_branches arch f1 n1))
            else Inr (f, n)) (\<lambda>(f2, n2).
     ebind (simplify_patterns arch d pats (fn_body (minimize_labels d f2)) n2) (\<lambda>(body, n3).
       let f4 = minimize_labels d ((bodyless_copy f2)\<lparr>fn_body := body\<rparr>)
       in ebind (process_body arch (fn_body f4)
                  \<lparr>bs_builder = empty_builder, bs_next = n3, branch_likely_counts = (\<lambda>_. 0), cond_return_target = None\<rparr>)
            (finish_blocks arch fragment)))"

definition verify_no_duplicate_instructions :: "block list \<Rightarrow> unit res" where
  "verify_no_duplicate_instructions bs = py_assert (distinct (concat (map (\<lambda>b. map ins_id (blk_instrs b)) bs)))"

end
