(* ===== verification/Flow_Labels.thy ===== *)
theory Flow_Labels
  imports Flow_Blocks
begin

text \<open>
  Properties of \<open>minimize_labels\<close>: it keeps the instructions, and every label that is used stays
  where it was.
\<close>

section \<open>Instructions and label positions of a body\<close>

definition body_instrs :: "body_part list \<Rightarrow> instruction list" where
  "body_instrs body = concat (map (\<lambda>p. case p of BInstr i \<Rightarrow> [i] | BLabel _ \<Rightarrow> []) body)"

lemma body_instrs_simps [simp]:
  "body_instrs [] = []" "body_instrs (BInstr i # ps) = i # body_instrs ps" "body_instrs (BLabel l # ps) = body_instrs ps"
  "body_instrs (ps @ qs) = body_instrs ps @ body_instrs qs"
  by (simp_all add: body_instrs_def)

text \<open>The labels of a body, each with the number of instructions before it.\<close>

fun label_table :: "nat \<Rightarrow> body_part list \<Rightarrow> (string \<times> nat) list" where
  "label_table n [] = []"
| "label_table n (BLabel l # ps) = map (\<lambda>nm. (nm, n)) (label_names l) @ label_table n ps"
| "label_table n (BInstr i # ps) = label_table (Suc n) ps"

lemma label_table_append: "label_table n (ps @ qs) = label_table n ps @ label_table (n + length (body_instrs ps)) qs"
  by (induction n ps rule: label_table.induct) auto

lemma label_table_flush: "label_table n (flush_label cur) = map (\<lambda>nm. (nm, n)) cur"
  by (simp add: flush_label_def)

lemma body_instrs_flush: "body_instrs (flush_label cur) = []"
  by (simp add: flush_label_def)

lemmas flush_simps = label_table_flush body_instrs_flush label_table_append

text \<open>Two labels in a row.\<close>

fun merged :: "body_part list \<Rightarrow> bool" where
  "merged [] = True"
| "merged (BInstr i # ps) = merged ps"
| "merged (BLabel l # ps) = ((case ps of BLabel _ # _ \<Rightarrow> False | _ \<Rightarrow> True) \<and> merged ps)"

lemma merged_flush: "merged (BInstr i # ps) \<Longrightarrow> merged (flush_label cur @ BInstr i # ps)" "merged (flush_label cur)"
  by (simp_all add: flush_label_def)

section \<open>Merging\<close>

lemma merge_labels_instrs: "body_instrs (merge_labels used cur body) = body_instrs body"
  by (induction used cur body rule: merge_labels.induct) (simp_all add: flush_simps)

lemma merge_labels_table:
  "label_table n (merge_labels used cur body) =
   map (\<lambda>nm. (nm, n)) cur @ filter (\<lambda>(nm, k). nm \<in> used) (label_table n body)"
proof (induction used cur body arbitrary: n rule: merge_labels.induct)
  case (2 used cur l ps)
  have "filter (\<lambda>(nm, k). nm \<in> used) (map (\<lambda>nm. (nm, n)) (label_names l)) =
    map (\<lambda>nm. (nm, n)) (filter (\<lambda>nm. nm \<in> used) (label_names l))"
    by (simp add: filter_map o_def)
  with 2 show ?case by simp
qed (simp_all add: flush_simps)

lemma merge_labels_merged: "merged (merge_labels used cur body)"
  by (induction used cur body rule: merge_labels.induct) (simp_all add: merged_flush)

lemma merge_labels_nonempty: "BLabel l \<in> set (merge_labels used cur body) \<Longrightarrow> label_names l \<noteq> []"
  by (induction used cur body rule: merge_labels.induct) (auto simp: flush_label_def split: if_splits)

text \<open>A body without empty labels or labels in a row is left alone when every name is used.\<close>

lemma merge_labels_id:
  assumes "merged body" and "\<And>l. BLabel l \<in> set body \<Longrightarrow> label_names l \<noteq> [] \<and> set (label_names l) \<subseteq> used"
  shows "merge_labels used [] body = body"
  using assms
proof (induction body rule: merged.induct)
  case (2 i ps)
  then show ?case by (simp add: flush_label_def)
next
  case (3 l ps)
  have l: "label_names l \<noteq> []" "filter (\<lambda>nm. nm \<in> used) (label_names l) = label_names l"
    using "3.prems"(2) [of l] by (auto simp: filter_id_conv)
  moreover have "merge_labels used [] ps = ps" using 3 by simp
  ultimately show ?case using "3.prems"(1) by (cases l) (auto simp: flush_label_def split: list.splits body_part.splits)
qed (simp add: flush_label_def)

section \<open>Used labels\<close>

lemma labels_used_instrs: "i \<in> set (body_instrs body) \<Longrightarrow> set (instr_labels i) \<subseteq> set (labels_used d body)"
  by (force simp: labels_used_def body_instrs_def part_labels_def split: body_part.splits)

lemma labels_used_cases:
  "nm \<in> set (labels_used d body) \<longleftrightarrow>
   (nm \<in> mentioned_labels d \<and> nm \<in> fst ` set (label_table n body)) \<or> (\<exists>i \<in> set (body_instrs body). nm \<in> set (instr_labels i))"
  by (induction n body rule: label_table.induct) (auto simp: labels_used_def part_labels_def image_Un image_image)

lemma minimize_labels_body:
  "fn_body (minimize_labels d f) = merge_labels (set (labels_used d (fn_body f))) [] (fn_body f)"
  by (simp add: minimize_labels_def)

lemma labels_used_minimized: "set (labels_used d (fn_body (minimize_labels d f))) = set (labels_used d (fn_body f))"
proof (rule set_eqI)
  fix nm
  let ?U = "set (labels_used d (fn_body f))"
  have "nm \<in> fst ` set (filter (\<lambda>(nm, k). nm \<in> ?U) t) \<longleftrightarrow> nm \<in> ?U \<and> nm \<in> fst ` set t" for t :: "(string \<times> nat) list"
    by force
  then show "nm \<in> set (labels_used d (fn_body (minimize_labels d f))) \<longleftrightarrow> nm \<in> ?U"
    using labels_used_cases [of nm d "fn_body f" 0]
    unfolding minimize_labels_body labels_used_cases [of nm d "merge_labels ?U [] (fn_body f)" 0] merge_labels_instrs merge_labels_table
    by auto
qed

lemma label_table_names: "BLabel l \<in> set body \<Longrightarrow> nm \<in> set (label_names l) \<Longrightarrow> nm \<in> fst ` set (label_table n body)"
  by (induction n body rule: label_table.induct) (auto simp: image_Un image_image)

lemma minimize_labels_idem: "minimize_labels d (minimize_labels d f) = minimize_labels d f"
proof -
  let ?U = "set (labels_used d (fn_body f))"
  let ?b = "merge_labels ?U [] (fn_body f)"
  have names: "set (label_names l) \<subseteq> ?U" if "BLabel l \<in> set ?b" for l
  proof
    fix nm assume "nm \<in> set (label_names l)"
    from label_table_names [OF that this, of 0] show "nm \<in> ?U" by (auto simp: merge_labels_table)
  qed
  have "merge_labels ?U [] ?b = ?b"
    by (rule merge_labels_id [OF merge_labels_merged]) (use merge_labels_nonempty names in blast)
  then show ?thesis
    using labels_used_minimized [of d f] by (simp add: minimize_labels_def bodyless_copy_def)
qed

end
