(* ===== verification/Flow_Nodes.thy ===== *)
theory Flow_Nodes
  imports Flow_Blocks
begin

text \<open>
  Model of the second half of the construction in \<open>m2c/m2c/flow_graph.py\<close>: the nodes of a list
  of blocks (\<open>build_graph_from_block\<close>, \<open>build_nodes\<close>) and the duplication of early returns.

  A block is its position in the list of blocks; a node is the number of its creation, with the
  exit first.
\<close>

section \<open>Jump tables\<close>

text \<open>The symbols among the arguments of an instruction that look like the address of a jump table.\<close>

definition jtbl_prefixes :: "string list" where
  "jtbl_prefixes = [''jtbl'', ''jpt_'', ''lbl_'', ''jumptable_'']"

definition macro_jtbl :: "argument \<Rightarrow> string list" where
  "macro_jtbl a = (case a of
     Macro m x \<Rightarrow>
       (case as_symbol x of
          Some s \<Rightarrow> if m \<in> {''lo'', ''l''} \<and> (\<exists>p \<in> set jtbl_prefixes. py_startswith s p) then [s] else []
        | None \<Rightarrow> [])
   | _ \<Rightarrow> [])"

definition text_symbol :: "asm_data \<Rightarrow> string \<Rightarrow> string option" where
  "text_symbol d s = (case map_of (ad_values d) s of
     Some ent \<Rightarrow> (if is_text ent then (case de_data ent of x # _ \<Rightarrow> as_symbol_without_addend x | [] \<Rightarrow> None) else None)
   | None \<Rightarrow> None)"

text \<open>On ARM a literal-pool load names a word that holds the address of the table.\<close>

definition pool_jtbl :: "arch_asm \<Rightarrow> asm_data \<Rightarrow> instruction \<Rightarrow> argument \<Rightarrow> string list" where
  "pool_jtbl arch d i a = (case as_symbol a of
     Some s \<Rightarrow>
       if arch_mnemonic arch i = ''arm:ldr''
       then (case text_symbol d s of
               Some j \<Rightarrow> if text_symbol d j \<noteq> None then [j] else []
             | None \<Rightarrow> [])
       else []
   | None \<Rightarrow> [])"

definition arg_jtbls :: "arch_asm \<Rightarrow> asm_data \<Rightarrow> instruction \<Rightarrow> argument \<Rightarrow> string list" where
  "arg_jtbls arch d i a0 =
     (let a = (case a0 of AsmAddressMode base addend wb \<Rightarrow> addend | _ \<Rightarrow> a0)
      in macro_jtbl a @ pool_jtbl arch d i a)"

definition block_jtbls :: "arch_asm \<Rightarrow> asm_data \<Rightarrow> block \<Rightarrow> string list" where
  "block_jtbls arch d b = concat (map (\<lambda>i. concat (map (arg_jtbls arch d i) (ins_args i))) (blk_instrs b))"

text \<open>The first block, going back along the way the search came, with any candidates.\<close>

fun find_jtbls :: "arch_asm \<Rightarrow> asm_data \<Rightarrow> block list \<Rightarrow> string list" where
  "find_jtbls arch d [] = []"
| "find_jtbls arch d (b # bs) = (case block_jtbls arch d b of [] \<Rightarrow> find_jtbls arch d bs | js \<Rightarrow> js)"

definition the_jtbl :: "arch_asm \<Rightarrow> asm_data \<Rightarrow> block list \<Rightarrow> string res" where
  "the_jtbl arch d bs =
     (case remdups (find_jtbls arch d bs) of
        [j] \<Rightarrow> (if map_of (ad_values d) j = None then Inl DecompFailure else Inr j)
      | _ \<Rightarrow> Inl DecompFailure)"

fun jtbl_targets :: "asm_datum list \<Rightarrow> string list" where
  "jtbl_targets [] = []"
| "jtbl_targets (x # xs) = (case as_symbol_without_addend x of Some s \<Rightarrow> s # jtbl_targets xs | None \<Rightarrow> [])"

definition mark_jtbl :: "string \<Rightarrow> asm_data \<Rightarrow> asm_data" where
  "mark_jtbl j d = d\<lparr>ad_values := map (\<lambda>(k, e). (k, if k = j then e\<lparr>is_jtbl := True\<rparr> else e)) (ad_values d)\<rparr>"

section \<open>Nodes of blocks\<close>

record graph_state =
  gs_pos :: "nat list"
  gs_kinds :: "node_kind list"
  gs_goto :: "bool list"
  gs_data :: asm_data

definition find_node :: "graph_state \<Rightarrow> nat \<Rightarrow> nat option" where
  "find_node s k = find (\<lambda>n. gs_pos s ! n = k) [0..<length (gs_pos s)]"

definition find_block_by_label :: "block list \<Rightarrow> string \<Rightarrow> nat option" where
  "find_block_by_label bs l =
     find (\<lambda>k. case blk_label (bs ! k) of Some x \<Rightarrow> l \<in> set (label_names x) | None \<Rightarrow> False) [0..<length bs]"

definition target_block :: "block list \<Rightarrow> string \<Rightarrow> nat res" where
  "target_block bs l = (case find_block_by_label bs l of Some k \<Rightarrow> Inr k | None \<Rightarrow> Inl DecompFailure)"

text \<open>\<open>blocks[block.index + 1]\<close>; a negative index counts from the end.\<close>

definition next_block :: "block list \<Rightarrow> nat \<Rightarrow> nat res" where
  "next_block bs k =
     (let j = blk_index (bs ! k) + 1
      in if 0 \<le> j \<and> j < int (length bs) then Inr (nat j)
         else if j < 0 \<and> - int (length bs) \<le> j then Inr (nat (j + int (length bs)))
         else Inl IndexError)"

text \<open>A new node; its edges are filled in once its successors are known.\<close>

definition add_node :: "nat \<Rightarrow> node_kind \<Rightarrow> bool \<Rightarrow> graph_state \<Rightarrow> graph_state" where
  "add_node k kind goto s = s\<lparr>gs_pos := gs_pos s @ [k], gs_kinds := gs_kinds s @ [kind], gs_goto := gs_goto s @ [goto]\<rparr>"

definition set_kind :: "nat \<Rightarrow> node_kind \<Rightarrow> graph_state \<Rightarrow> graph_state" where
  "set_kind n kind s = s\<lparr>gs_kinds := (gs_kinds s)[n := kind]\<rparr>"

text \<open>
  The recursion visits a block once, so the number of blocks bounds its depth.  \<open>parents\<close> are
  the blocks on the way to this one, the last one first.
\<close>

primrec build_graph_from_block :: "nat \<Rightarrow> arch_asm \<Rightarrow> block list \<Rightarrow> nat \<Rightarrow> nat list \<Rightarrow> graph_state \<Rightarrow> (nat \<times> graph_state) res" where
  "build_graph_from_block 0 arch bs k parents s = Inl OutOfFuel"
| "build_graph_from_block (Suc f) arch bs k parents s =
     (case find_node s k of
        Some n \<Rightarrow> Inr (n, s)
      | None \<Rightarrow>
          (let new = length (gs_pos s);
               visit = (\<lambda>k' s'. build_graph_from_block f arch bs k' (k # parents) s');
               visit_case = (\<lambda>l (cs, s'). ebind (target_block bs l) (\<lambda>k'. ebind (visit k' s') (\<lambda>(c, s''). Inr (cs @ [c], s''))));
               switch = (\<lambda>ls s'. ebind (efold visit_case ls ([], add_node k (SwitchNode []) False s'))
                                   (\<lambda>(cs, s''). Inr (new, set_kind new (SwitchNode cs) s'')))
           in (case filter is_jump (blk_instrs (bs ! k)) of
                 [] \<Rightarrow>
                   ebind (next_block bs k) (\<lambda>k'.
                   ebind (visit k' (add_node k (BasicNode 0 None) False s)) (\<lambda>(c, s').
                     Inr (new, set_kind new (BasicNode c None) s')))
               | [j] \<Rightarrow>
                   if is_return j then Inr (new, add_node k (ReturnNode 0 0) False s)
                   else (case ins_jump j of
                       Some (JumpReg r) \<Rightarrow>
                         ebind (the_jtbl arch (gs_data s) (map (\<lambda>p. bs ! p) (k # parents))) (\<lambda>jt.
                           switch (case map_of (ad_values (gs_data s)) jt of Some e \<Rightarrow> jtbl_targets (de_data e) | None \<Rightarrow> [])
                             (s\<lparr>gs_data := mark_jtbl jt (gs_data s)\<rparr>))
                     | Some (JumpTable ts) \<Rightarrow> switch (map target ts) s
                     | Some (JumpTo t) \<Rightarrow>
                         ebind (target_block bs (target t)) (\<lambda>k1.
                           if \<not> is_conditional j
                           then ebind (visit k1 (add_node k (BasicNode 0 None) (emit_goto (ins_meta j)) s)) (\<lambda>(c, s').
                                  Inr (new, set_kind new (BasicNode c None) s'))
                           else ebind (next_block bs k) (\<lambda>k2.
                                ebind (visit k1 (add_node k (ConditionalNode 0 0) (emit_goto (ins_meta j)) s)) (\<lambda>(c1, s1).
                                ebind (visit k2 s1) (\<lambda>(c2, s2).
                                  Inr (new, set_kind new (ConditionalNode c1 c2) s2)))))
                     | None \<Rightarrow> Inl AssertionError)
               | _ \<Rightarrow> Inl AssertionError)))"

text \<open>The graph after the construction: its nodes in order, with their kinds, blocks and goto flags.\<close>

record node_graph =
  ng_order :: "nat list"
  ng_kind :: "nat \<Rightarrow> node_kind"
  ng_block :: "nat \<Rightarrow> block"
  ng_goto :: "nat \<Rightarrow> bool"
  ng_next :: nat

definition ng_index :: "node_graph \<Rightarrow> nat \<Rightarrow> int" where
  "ng_index g n = blk_index (ng_block g n)"

definition terminal_block :: block where
  "terminal_block = \<lparr>blk_index = -1, blk_label = None, approx_label_name = [], blk_instrs = [], is_safeguard = False\<rparr>"

text \<open>
  \<open>build_nodes\<close>: the exit is node 0.  In a fragment its block is also the last one of the list;
  otherwise no block is the exit's, and its position is beyond the list.
\<close>

definition build_nodes :: "arch_asm \<Rightarrow> bool \<Rightarrow> block list \<Rightarrow> asm_data \<Rightarrow> (node_graph \<times> asm_data) res" where
  "build_nodes arch fragment bs0 d =
     (let bs = (if fragment then bs0 @ [terminal_block] else bs0);
          s0 = \<lparr>gs_pos = [length bs0], gs_kinds = [TerminalNode], gs_goto = [False], gs_data = d\<rparr>
      in if bs = [] then Inl IndexError
         else ebind (build_graph_from_block (length bs + 1) arch bs 0 [] s0) (\<lambda>(_, s).
           let N = length (gs_pos s);
               blk = (\<lambda>n. if n = 0 then terminal_block else bs ! (gs_pos s ! n));
               top_index = Max ((\<lambda>n. blk_index (blk n)) ` {0..<N}) + 1;
               blk' = blk(0 := terminal_block\<lparr>blk_index := top_index\<rparr>);
               kind = (\<lambda>n. gs_kinds s ! n)
           in ebind (py_assert (filter (\<lambda>n. kind n = TerminalNode) [0..<N] = [0])) (\<lambda>_.
                Inr (\<lparr>ng_order = sort_key (\<lambda>n. blk_index (blk' n)) [0..<N], ng_kind = kind, ng_block = blk',
                      ng_goto = (\<lambda>n. gs_goto s ! n), ng_next = N\<rparr>, gs_data s))))"

section \<open>Early returns\<close>

definition is_trivial_return_block :: "arch_asm \<Rightarrow> block \<Rightarrow> bool" where
  "is_trivial_return_block arch b \<longleftrightarrow>
     (\<forall>i \<in> set (blk_instrs b). \<not> is_store i \<and> function_target i = None \<and>
        (\<forall>l \<in> set (inputs i @ outputs i). l \<notin> RegLoc ` set (all_return_regs arch)))"

definition is_return_node :: "node_kind \<Rightarrow> bool" where
  "is_return_node k = (case k of ReturnNode _ _ \<Rightarrow> True | _ \<Rightarrow> False)"

definition is_premature_return :: "arch_asm \<Rightarrow> node_graph \<Rightarrow> nat \<Rightarrow> nat \<Rightarrow> bool res" where
  "is_premature_return arch g n edge =
     (let ns = ng_order g; len = length ns
      in if len < 3 then Inr False
         else ebind (py_assert (ng_kind g (ns ! (len - 1)) = TerminalNode)) (\<lambda>_.
           Inr (is_return_node (ng_kind g edge) \<and> edge = ns ! (len - 2) \<and>
                is_trivial_return_block arch (ng_block g edge) \<and> is_basic (ng_kind g n) \<and> n \<noteq> ns ! (len - 3))))"

text \<open>One node of the loop: its edge to the shared return becomes an edge to a copy of its own.\<close>

record dup_state =
  du_graph :: node_graph
  du_extra :: "nat list"
  du_index :: nat
  du_next :: nat

definition dup_return :: "arch_asm \<Rightarrow> nat \<Rightarrow> dup_state \<Rightarrow> dup_state res" where
  "dup_return arch n s =
     (let g = du_graph s
      in (case ng_kind g n of
            BasicNode succ fake \<Rightarrow>
              if ng_goto g n then Inr s
              else ebind (is_premature_return arch g n succ) (\<lambda>b.
                if \<not> b then Inr s
                else (case ng_kind g succ of
                        ReturnNode _ t \<Rightarrow>
                          (let new = ng_next g; index = du_index s + 1; blk = ng_block g succ
                           in Inr (s\<lparr>du_graph := g\<lparr>ng_kind := (ng_kind g)(new := ReturnNode index t, n := BasicNode new fake),
                                                   ng_block := (ng_block g)(new := clone_block (du_next s) blk),
                                                   ng_goto := (ng_goto g)(new := False),
                                                   ng_next := new + 1\<rparr>,
                                      du_extra := du_extra s @ [new], du_index := index,
                                      du_next := du_next s + length (blk_instrs blk)\<rparr>))
                      | _ \<Rightarrow> Inl AssertionError))
          | _ \<Rightarrow> Inr s))"

definition duplicate_premature_returns :: "(nat set \<Rightarrow> nat) \<Rightarrow> arch_asm \<Rightarrow> node_graph \<Rightarrow> nat \<Rightarrow> (node_graph \<times> nat) res" where
  "duplicate_premature_returns pick arch g n =
     ebind (efold (dup_return arch) (ng_order g) \<lparr>du_graph = g, du_extra = [], du_index = 0, du_next = n\<rparr>) (\<lambda>s.
       let g1 = du_graph s; ns = sort_key (ng_index g1) (ng_order g1 @ du_extra s)
       in if ns = [] then Inl IndexError
          else ebind (flood (Suc (length ns)) pick (succs (ng_kind g1)) {m \<in> set ns. ng_kind g1 m = TerminalNode} {hd ns}) (\<lambda>seen.
            Inr (g1\<lparr>ng_order := filter (\<lambda>m. m \<in> seen) ns\<rparr>, du_next s)))"

end
