(* ===== verification/Flow_Reducible.thy ===== *)
theory Flow_Reducible
  imports Flow_Exit
begin

text \<open>
  The test for reducibility decides what its documentation says: the edges that are not
  backedges form an acyclic graph, every node is reachable from the entry, and the exit from
  every node.
\<close>

section \<open>Backedges\<close>

definition back_tails :: "relations \<Rightarrow> nat \<Rightarrow> nat set" where
  "back_tails r s = (case loops r s of Some l \<Rightarrow> backedges l | None \<Rightarrow> {})"

text \<open>The loops record exactly the edges whose target dominates their source.\<close>

definition loops_exact :: "nat list \<Rightarrow> (nat \<Rightarrow> nat list) \<Rightarrow> relations \<Rightarrow> bool" where
  "loops_exact ns ch r \<longleftrightarrow> (\<forall>s. back_tails r s = {n \<in> set ns. s \<in> set (ch n) \<and> s \<in> dominators r n})"

definition forward_edges :: "nat list \<Rightarrow> (nat \<Rightarrow> nat list) \<Rightarrow> (nat \<times> nat) set" where
  "forward_edges ns ch =
     {(p, s). p \<in> set ns \<and> s \<in> set (ch p) \<and> \<not> dominates (parents_of ns ch) (hd ns) s p}"

lemma set_edges: "set (edges ns ch) = {(n, c). n \<in> set ns \<and> c \<in> set (ch n)}"
  by (auto simp: edges_def)

lemma loops_exact_spec: "loops r = loop_spec ns ch (dominators r) (edges ns ch) \<Longrightarrow> loops_exact ns ch r"
  by (auto simp: loops_exact_def back_tails_def loop_spec_def loop_tails_def set_edges Let_def)

lemma incoming_forward:
  assumes rel: "relations_of ns idx kinds r" and ex: "loops_exact ns (succs kinds) r"
    and cl: "closed_graph ns (succs kinds)"
  shows "incoming_edges ns r s = {p. (p, s) \<in> forward_edges ns (succs kinds)}"
proof -
  have par: "rel_parents r = parents_of ns (succs kinds)" using rel by (simp add: relations_of_def)
  have D: "s \<in> dominators r p \<longleftrightarrow> dominates (parents_of ns (succs kinds)) (hd ns) s p" if "p \<in> set ns" "s \<in> set ns" for p
    using rel that by (auto simp: relations_of_def)
  show ?thesis
  proof (cases "s \<in> set ns")
    case True
    then have "incoming_edges ns r s = set (parents_of ns (succs kinds) s) - back_tails r s"
      using par by (simp add: incoming_edges_def back_tails_def)
    also have "\<dots> = {p. (p, s) \<in> forward_edges ns (succs kinds)}"
      using ex D True by (auto simp: loops_exact_def set_parents_of forward_edges_def)
    finally show ?thesis .
  next
    case False
    then show ?thesis using cl by (auto simp: incoming_edges_def forward_edges_def closed_graph_def)
  qed
qed

section \<open>Kahn's algorithm\<close>

lemma kahn_children_step:
  assumes "\<And>s. s \<in> set ss \<Longrightarrow> (n \<in> back_tails r s) = (n \<notin> F s)"
  shows "distinct ss \<Longrightarrow> (\<And>s. s \<in> set ss \<Longrightarrow> n \<in> F s \<Longrightarrow> n \<in> inc s) \<Longrightarrow>
    kahn_children r n ss inc queue =
      Inr (\<lambda>s. if s \<in> set ss \<and> n \<in> F s then inc s - {n} else inc s,
           queue \<union> {s \<in> set ss. n \<in> F s \<and> inc s - {n} = {}})"
  using assms
proof (induction ss arbitrary: inc queue)
  case (Cons s ss)
  have bk: "(case loops r s of Some l \<Rightarrow> n \<in> backedges l | None \<Rightarrow> False) = (n \<notin> F s)"
    using Cons.prems(3) [of s] by (auto simp: back_tails_def split: option.splits)
  show ?case
  proof (cases "n \<in> F s")
    case False
    have "kahn_children r n (s # ss) inc queue = kahn_children r n ss inc queue" using bk False by simp
    also have "\<dots> = Inr (\<lambda>s. if s \<in> set ss \<and> n \<in> F s then inc s - {n} else inc s,
           queue \<union> {s \<in> set ss. n \<in> F s \<and> inc s - {n} = {}})" using Cons by simp
    finally show ?thesis using False by (auto simp: fun_eq_iff)
  next
    case True
    let ?inc = "inc(s := inc s - {n})" let ?q = "if ?inc s = {} then insert s queue else queue"
    have "kahn_children r n (s # ss) inc queue = kahn_children r n ss ?inc ?q"
      using bk True Cons.prems(2) [of s] by (simp add: Let_def)
    also have "\<dots> = Inr (\<lambda>x. if x \<in> set ss \<and> n \<in> F x then ?inc x - {n} else ?inc x,
           ?q \<union> {x \<in> set ss. n \<in> F x \<and> ?inc x - {n} = {}})" using Cons by (intro Cons.IH) auto
    finally show ?thesis using True Cons.prems(1) by (auto simp: fun_eq_iff)
  qed
qed simp

definition kahn_inv :: "nat list \<Rightarrow> (nat \<Rightarrow> nat list) \<Rightarrow> (nat \<Rightarrow> nat set) \<Rightarrow> nat \<Rightarrow> nat set \<Rightarrow> (nat \<Rightarrow> nat set) \<Rightarrow> nat set \<Rightarrow> bool" where
  "kahn_inv ns ch F e seen inc queue \<longleftrightarrow>
     (\<forall>s. inc s = F s - seen) \<and> queue \<inter> seen = {} \<and> queue \<union> seen \<subseteq> set ns \<and> e \<in> queue \<union> seen \<and>
     (\<forall>s \<in> queue \<union> seen. F s \<subseteq> seen \<and> reaches ch e s) \<and>
     (\<forall>s. F s \<noteq> {} \<longrightarrow> F s \<subseteq> seen \<longrightarrow> s \<in> queue \<union> seen) \<and>
     acyclic {(p, s). p \<in> F s \<and> s \<in> seen}"

lemma acyclic_sink:
  assumes "acyclic r" and "n \<notin> Domain r" and "n \<notin> A"
  shows "acyclic (r \<union> A \<times> {n})"
proof (rule acyclicI, rule allI, rule notI)
  fix x assume "(x, x) \<in> (r \<union> A \<times> {n})\<^sup>+"
  moreover have "(a, b) \<in> (r \<union> A \<times> {n})\<^sup>+ \<Longrightarrow> (a, b) \<in> r\<^sup>+ \<or> b = n \<and> a \<noteq> n" for a b
  proof (induction rule: trancl_induct)
    case (base y)
    then show ?case using assms(3) by auto
  next
    case (step y z)
    have "a \<noteq> n"
      using step(1) by (rule converse_tranclE) (use assms(2,3) in auto)
    then show ?case using step assms(2) by (auto intro: trancl.trancl_into_trancl)
  qed
  ultimately show False using assms(1) by (auto simp: acyclic_def)
qed

lemma kahn_inv_step:
  assumes inv: "kahn_inv ns ch F e seen inc queue" and n: "n \<in> queue"
    and F: "\<And>p s. p \<in> F s \<longleftrightarrow> p \<in> set ns \<and> s \<in> set (ch p) \<and> (p, s) \<in> E" and cl: "closed_graph ns ch"
  shows "kahn_inv ns ch F e (insert n seen) (\<lambda>s. if s \<in> set (ch n) \<and> n \<in> F s then inc s - {n} else inc s)
    (queue - {n} \<union> {s \<in> set (ch n). n \<in> F s \<and> inc s - {n} = {}})"
    (is "kahn_inv ns ch F e ?seen ?inc ?queue")
proof -
  from inv have inc: "\<And>s. inc s = F s - seen" and dis: "queue \<inter> seen = {}" and sub: "queue \<union> seen \<subseteq> set ns"
    and fs: "\<And>s. s \<in> queue \<union> seen \<Longrightarrow> F s \<subseteq> seen \<and> reaches ch e s"
    and all: "\<And>s. F s \<noteq> {} \<Longrightarrow> F s \<subseteq> seen \<Longrightarrow> s \<in> queue \<union> seen"
    and ac: "acyclic {(p, s). p \<in> F s \<and> s \<in> seen}"
    by (auto simp: kahn_inv_def)
  have nn: "n \<in> set ns" "n \<notin> seen" using n sub dis by auto
  have q: "?queue = queue - {n} \<union> {s. n \<in> F s \<and> F s \<subseteq> ?seen}" using F nn inc by auto
  have "?inc s = F s - ?seen" for s using F [of n s] inc by auto
  moreover have "?queue \<inter> ?seen = {}"
  proof -
    have "s \<notin> ?seen" if "n \<in> F s" for s using fs [of s] n nn(2) that by auto
    then show ?thesis using dis unfolding q by auto
  qed
  moreover have "?queue \<union> ?seen \<subseteq> set ns" using sub n cl nn by (auto simp: closed_graph_def)
  moreover have "e \<in> ?queue \<union> ?seen" using inv by (auto simp: kahn_inv_def)
  moreover have "F s \<subseteq> ?seen \<and> reaches ch e s" if "s \<in> ?queue \<union> ?seen" for s
  proof (cases "s \<in> queue \<union> seen")
    case True
    then show ?thesis using fs by blast
  next
    case False
    then have s: "s \<in> set (ch n)" "F s \<subseteq> ?seen" using that n unfolding q by (auto simp: F)
    have "reaches ch e n" using fs n by blast
    then show ?thesis using s by (simp add: rtranclp.rtrancl_into_rtrancl)
  qed
  moreover have "s \<in> ?queue \<union> ?seen" if "F s \<noteq> {}" "F s \<subseteq> ?seen" for s
    using all [of s] that unfolding q by blast
  moreover have "acyclic {(p, s). p \<in> F s \<and> s \<in> ?seen}"
  proof -
    have "acyclic ({(p, s). p \<in> F s \<and> s \<in> seen} \<union> F n \<times> {n})"
      using fs n nn(2) by (intro acyclic_sink [OF ac]) blast+
    moreover have "{(p, s). p \<in> F s \<and> s \<in> ?seen} = {(p, s). p \<in> F s \<and> s \<in> seen} \<union> F n \<times> {n}" by auto
    ultimately show ?thesis by simp
  qed
  ultimately show ?thesis unfolding kahn_inv_def by (intro conjI allI ballI impI) (assumption | simp only: mem_Collect_eq)+
qed

lemma kahn_result:
  assumes pk: "picks pick" and cl: "closed_graph ns ch" and ds: "\<And>n. n \<in> set ns \<Longrightarrow> distinct (ch n)"
    and F: "\<And>p s. p \<in> F s \<longleftrightarrow> p \<in> set ns \<and> s \<in> set (ch p) \<and> (p, s) \<in> E"
    and bt: "\<And>n s. n \<in> set ns \<Longrightarrow> s \<in> set (ch n) \<Longrightarrow> (n \<in> back_tails r s) = (n \<notin> F s)"
  shows "kahn_inv ns ch F e seen inc queue \<Longrightarrow> card (set ns - seen) \<le> f \<Longrightarrow>
    \<exists>seen' inc'. kahn f pick r ch seen inc queue = Inr (seen', inc') \<and> kahn_inv ns ch F e seen' inc' {}"
proof (induction f arbitrary: seen inc queue)
  case 0
  then have "queue = {}" unfolding kahn_inv_def by auto
  with 0 show ?case by (subst kahn.simps) auto
next
  case (Suc f)
  show ?case
  proof (cases "queue = {}")
    case True
    then show ?thesis using Suc.prems(1) by (subst kahn.simps) auto
  next
    case False
    let ?n = "pick queue"
    let ?inc = "\<lambda>s. if s \<in> set (ch ?n) \<and> ?n \<in> F s then inc s - {?n} else inc s"
    let ?queue = "queue - {?n} \<union> {s \<in> set (ch ?n). ?n \<in> F s \<and> inc s - {?n} = {}}"
    have sub: "queue \<subseteq> set ns" using Suc.prems(1) by (simp add: kahn_inv_def)
    then have "finite queue" using finite_subset by blast
    then have n: "?n \<in> queue" using pk False by (simp add: picks_def)
    then have nn: "?n \<in> set ns" "?n \<notin> seen" using Suc.prems(1) by (auto simp: kahn_inv_def)
    have "kahn_children r ?n (ch ?n) inc (queue - {?n}) = Inr (?inc, ?queue)"
      by (rule kahn_children_step) (use bt nn ds Suc.prems(1) in \<open>auto simp: kahn_inv_def\<close>)
    then have "kahn (Suc f) pick r ch seen inc queue = kahn f pick r ch (insert ?n seen) ?inc ?queue"
      using False by (subst kahn.simps) (simp add: Let_def)
    moreover have "kahn_inv ns ch F e (insert ?n seen) ?inc ?queue" by (rule kahn_inv_step [OF Suc.prems(1) n F cl])
    moreover have "set ns - insert ?n seen = (set ns - seen) - {?n}" by blast
    then have "card (set ns - insert ?n seen) < card (set ns - seen)" using nn by (metis DiffI card_Diff1_less finite_Diff List.finite_set)
    then have "card (set ns - insert ?n seen) \<le> f" using Suc.prems(2) by simp
    ultimately show ?thesis using Suc.IH by simp
  qed
qed

section \<open>Reducible graphs\<close>

lemma walk_reaches: "walk (parents_of ns ch) e n xs \<Longrightarrow> reaches ch e n"
  by (induction rule: walk.induct) (auto simp: set_parents_of intro: rtranclp.rtrancl_into_rtrancl)

lemma reaches_walk:
  assumes "reaches ch e n" and "closed_graph ns ch" and "e \<in> set ns"
  shows "\<exists>xs. walk (parents_of ns ch) e n xs" and "n \<in> set ns"
proof -
  from assms(1) have "(\<exists>xs. walk (parents_of ns ch) e n xs) \<and> n \<in> set ns"
  proof (induction rule: rtranclp_induct)
    case (step y z)
    then have "y \<in> set (parents_of ns ch z)" "z \<in> set ns"
      using assms(2) by (auto simp: set_parents_of closed_graph_def)
    with step show ?case by (auto intro: walk.step)
  qed (use assms(3) in \<open>auto intro: walk.start\<close>)
  then show "\<exists>xs. walk (parents_of ns ch) e n xs" and "n \<in> set ns" by auto
qed

text \<open>A reachable node other than the entry has a forward edge into it: the last edge of a path that meets it once.\<close>

lemma forward_edge_exists:
  assumes "reaches ch (hd ns) s" and "s \<noteq> hd ns" and "closed_graph ns ch" and "ns \<noteq> []"
  shows "\<exists>p. (p, s) \<in> forward_edges ns ch"
proof -
  obtain xs where xs: "walk (parents_of ns ch) (hd ns) s xs" using reaches_walk [OF assms(1,3)] assms(4) by auto
  then obtain as bs where "xs = as @ s # bs" "s \<notin> set as" using walk_end_in split_list_first by metis
  with xs have w: "walk (parents_of ns ch) (hd ns) s (as @ [s])" using walk_prefix by metis
  moreover have "as \<noteq> []"
  proof
    assume "as = []"
    with walk_start_in [OF w] assms(2) show False by simp
  qed
  ultimately obtain p where p: "walk (parents_of ns ch) (hd ns) p as" "p \<in> set (parents_of ns ch s)"
    using walk_snoc by metis
  with \<open>s \<notin> set as\<close> have "(p, s) \<in> forward_edges ns ch"
    by (auto simp: forward_edges_def set_parents_of dominates_def)
  then show ?thesis ..
qed

lemma no_forward_into_entry: "(p, hd ns) \<notin> forward_edges ns ch"
  by (auto simp: forward_edges_def dominates_def dest: walk_start_in)

lemma finite_forward: "finite (forward_edges ns ch)"
proof (rule finite_subset)
  show "forward_edges ns ch \<subseteq> set (edges ns ch)" by (auto simp: forward_edges_def set_edges)
qed (rule List.finite_set)

lemma kahn_complete:
  assumes inv: "kahn_inv ns ch F (hd ns) seen inc {}" and F: "\<And>s. F s = {p. (p, s) \<in> forward_edges ns ch}"
    and ac: "acyclic (forward_edges ns ch)" and rc: "\<And>n. n \<in> set ns \<Longrightarrow> reaches ch (hd ns) n"
    and cl: "closed_graph ns ch" and ne: "ns \<noteq> []"
  shows "seen = set ns"
proof -
  have "wf (forward_edges ns ch)" by (rule finite_acyclic_wf [OF finite_forward ac])
  then have "s \<in> set ns \<longrightarrow> s \<in> seen" for s
  proof (induction s rule: wf_induct_rule)
    case (less s)
    show ?case
    proof
      assume s: "s \<in> set ns"
      show "s \<in> seen"
      proof (cases "s = hd ns")
        case True
        then show ?thesis using inv by (simp add: kahn_inv_def)
      next
        case False
        have "F s \<noteq> {}" using forward_edge_exists [OF rc [OF s] False cl ne] by (auto simp: F)
        moreover have "F s \<subseteq> seen" using less by (auto simp: F forward_edges_def)
        ultimately show ?thesis using inv by (auto simp: kahn_inv_def)
      qed
    qed
  qed
  moreover have "seen \<subseteq> set ns" using inv by (simp add: kahn_inv_def)
  ultimately show ?thesis by blast
qed

lemma card_eq_all: "distinct ns \<Longrightarrow> S \<subseteq> set ns \<Longrightarrow> card S = length ns \<longleftrightarrow> S = set ns"
  by (metis card_subset_eq distinct_card List.finite_set)

lemma kahn_decides:
  assumes inv: "kahn_inv ns ch F (hd ns) seen inc {}" and F: "\<And>s. F s = {p. (p, s) \<in> forward_edges ns ch}"
    and cl: "closed_graph ns ch" and ne: "ns \<noteq> []"
  shows "(\<forall>n \<in> set ns. inc n = {}) \<and> seen = set ns \<longleftrightarrow>
    acyclic (forward_edges ns ch) \<and> (\<forall>n \<in> set ns. reaches ch (hd ns) n)"
proof
  assume l: "(\<forall>n \<in> set ns. inc n = {}) \<and> seen = set ns"
  have "forward_edges ns ch = {(p, s). p \<in> F s \<and> s \<in> seen}"
    using l cl by (auto simp: F forward_edges_def closed_graph_def)
  moreover have "acyclic {(p, s). p \<in> F s \<and> s \<in> seen}" using inv by (simp add: kahn_inv_def)
  ultimately show "acyclic (forward_edges ns ch) \<and> (\<forall>n \<in> set ns. reaches ch (hd ns) n)"
    using inv l by (simp add: kahn_inv_def)
next
  assume "acyclic (forward_edges ns ch) \<and> (\<forall>n \<in> set ns. reaches ch (hd ns) n)"
  then have s: "seen = set ns" using kahn_complete [OF inv F _ _ cl ne] by simp
  have "inc n = F n - seen" for n using inv by (simp add: kahn_inv_def)
  then show "(\<forall>n \<in> set ns. inc n = {}) \<and> seen = set ns" using s by (auto simp: F forward_edges_def)
qed

lemma kahn_inv_init:
  assumes "\<And>s. F s = {p. (p, s) \<in> forward_edges ns ch}" and "ns \<noteq> []"
  shows "kahn_inv ns ch F (hd ns) {} F {hd ns}"
  using assms no_forward_into_entry [of _ ns ch] by (auto simp: kahn_inv_def acyclic_def)

lemma is_reducible_iff:
  assumes pk: "picks pick" and fl: "flow_nodes ns kinds" and ds: "distinct ns" and dc: "\<And>n. n \<in> set ns \<Longrightarrow> distinct (succs kinds n)"
    and rel: "relations_of ns idx kinds r" and ex: "loops_exact ns (succs kinds) r"
  shows "is_reducible pick ns kinds r =
    Inr (acyclic (forward_edges ns (succs kinds)) \<and> (\<forall>n \<in> set ns. reaches (succs kinds) (hd ns) n) \<and>
         (\<forall>n \<in> set ns. reaches (succs kinds) n (last ns)))"
proof -
  let ?ch = "succs kinds" let ?F = "incoming_edges ns r"
  have cl: "closed_graph ns ?ch" and ne: "ns \<noteq> []" and tm: "kinds (last ns) = TerminalNode" using fl by (auto simp: flow_nodes_def)
  have par: "rel_parents r = parents_of ns ?ch" using rel by (simp add: relations_of_def)
  note F = incoming_forward [OF rel ex cl]
  have bt: "(n \<in> back_tails r s) = (n \<notin> ?F s)" if "n \<in> set ns" "s \<in> set (?ch n)" for n s
  proof -
    have "s \<in> set ns" using that cl by (auto simp: closed_graph_def)
    then show ?thesis using that par by (simp add: incoming_edges_def back_tails_def set_parents_of)
  qed
  have Fin: "p \<in> ?F s \<longleftrightarrow> p \<in> set ns \<and> s \<in> set (?ch p) \<and> (p, s) \<in> forward_edges ns ?ch" for p s
    by (auto simp: F forward_edges_def)
  have "card (set ns - {}) \<le> length ns" by (simp add: card_length)
  from kahn_result [OF pk cl dc Fin bt kahn_inv_init [OF F ne] this]
  obtain seen inc where k: "kahn (length ns) pick r ?ch {} ?F {hd ns} = Inr (seen, inc)"
    and inv: "kahn_inv ns ?ch ?F (hd ns) seen inc {}" by blast
  have seen: "card seen = length ns \<longleftrightarrow> seen = set ns" using inv by (intro card_eq_all [OF ds]) (simp add: kahn_inv_def)
  let ?ex = "{x. reaches (parents_of ns ?ch) (last ns) x}"
  have fld: "flood (length ns) pick (rel_parents r) {} {last ns} = Inr ?ex"
    using flood_from [OF pk closed_parents_of, of "last ns" ns ?ch] par ne by simp
  have sub: "?ex \<subseteq> set ns" 
  proof
    fix x assume "x \<in> ?ex"
    then show "x \<in> set ns" using reaches_closed [of "parents_of ns ?ch" "last ns" x "set ns"] ne
      by (fastforce simp: closed_graph_def set_parents_of)
  qed
  have "card ?ex = length ns \<longleftrightarrow> (\<forall>n \<in> set ns. reaches ?ch n (last ns))"
    unfolding card_eq_all [OF ds sub] using sub reaches_parents_iff [OF cl] by blast
  with k fld tm ne show ?thesis using kahn_decides [OF inv F cl ne] seen
    unfolding is_reducible_def Let_def by (auto simp: py_assert_def)
qed

end
