(* ===== verification/Flow_Build.thy ===== *)
theory Flow_Build
  imports Flow_Nodes Flow_Reducible
begin

text \<open>
  The construction of the nodes: it ends, every edge stays inside the graph, the exit comes
  last, and every other node is reachable from the entry.
\<close>

section \<open>The state of the construction\<close>

definition gs_succs :: "graph_state \<Rightarrow> nat \<Rightarrow> nat list" where
  "gs_succs s n = (if n < length (gs_kinds s) then children (gs_kinds s ! n) else [])"

text \<open>Nodes and blocks correspond one to one, and only node 0 is an exit.\<close>

definition gs_wf :: "nat \<Rightarrow> graph_state \<Rightarrow> bool" where
  "gs_wf N s \<longleftrightarrow>
     length (gs_kinds s) = length (gs_pos s) \<and> gs_pos s \<noteq> [] \<and> distinct (gs_pos s) \<and> (\<forall>k \<in> set (gs_pos s). k \<le> N) \<and>
     gs_kinds s ! 0 = TerminalNode \<and>
     (\<forall>n < length (gs_pos s). n \<noteq> 0 \<longrightarrow> gs_kinds s ! n \<noteq> TerminalNode) \<and>
     (\<forall>n < length (gs_pos s). (\<forall>c \<in> set (children (gs_kinds s ! n)). c < length (gs_pos s)) \<and>
        (\<forall>a b. gs_kinds s ! n \<noteq> BasicNode a (Some b)))"

text \<open>One state extends another: old nodes are as they were.\<close>

definition extends :: "graph_state \<Rightarrow> graph_state \<Rightarrow> bool" where
  "extends s s' \<longleftrightarrow> (\<exists>ps ks. gs_pos s' = gs_pos s @ ps \<and> gs_kinds s' = gs_kinds s @ ks)"

lemma extends_refl: "extends s s"
  by (simp add: extends_def)

lemma extends_trans: "extends s s1 \<Longrightarrow> extends s1 s2 \<Longrightarrow> extends s s2"
  by (auto simp: extends_def)

lemma extends_length: "extends s s' \<Longrightarrow> length (gs_pos s) \<le> length (gs_pos s')"
  by (auto simp: extends_def)

lemma extends_succs: "extends s s' \<Longrightarrow> set (gs_succs s n) \<subseteq> set (gs_succs s' n)"
  by (auto simp: extends_def gs_succs_def nth_append split: if_splits)

lemma extends_add_node: "extends s (add_node k kind b s)"
  by (simp add: extends_def add_node_def)

lemma extends_data: "extends s (s\<lparr>gs_data := d\<rparr>)"
  by (simp add: extends_def)

lemma extends_set_kind:
  assumes "extends (add_node k kind b s) s'" and "length (gs_kinds s) = length (gs_pos s)"
  shows "extends s (set_kind (length (gs_pos s)) kind' s')"
proof -
  from assms obtain ps ks where "gs_pos s' = gs_pos s @ k # ps" "gs_kinds s' = gs_kinds s @ kind # ks"
    by (auto simp: extends_def add_node_def)
  with assms(2) show ?thesis
    by (auto simp: extends_def set_kind_def list_update_append intro!: exI [of _ "kind' # ks"])
qed

lemma gs_wf_data: "gs_wf N (s\<lparr>gs_data := d\<rparr>) = gs_wf N s"
  by (simp add: gs_wf_def)

lemma gs_wf_add_node:
  assumes "gs_wf N s" and "find_node s k = None" and "k \<le> N" and "kind \<noteq> TerminalNode"
    and "\<And>c. c \<in> set (children kind) \<Longrightarrow> c = 0" and "\<And>a b. kind \<noteq> BasicNode a (Some b)"
  shows "gs_wf N (add_node k kind b s)"
proof -
  have new: "k \<notin> set (gs_pos s)"
  proof
    assume "k \<in> set (gs_pos s)"
    then obtain n where "n < length (gs_pos s)" "gs_pos s ! n = k" by (metis in_set_conv_nth)
    with assms(2) show False by (auto simp: find_node_def find_None_iff)
  qed
  then show ?thesis using assms(1,3-6)
    by (auto simp: gs_wf_def add_node_def nth_append less_Suc_eq split: if_splits)
qed

lemma gs_wf_set_kind:
  assumes "gs_wf N s" and "n < length (gs_pos s)" and "n \<noteq> 0" and "kind \<noteq> TerminalNode"
    and "\<And>c. c \<in> set (children kind) \<Longrightarrow> c < length (gs_pos s)" and "\<And>a b. kind \<noteq> BasicNode a (Some b)"
  shows "gs_wf N (set_kind n kind s)"
  using assms by (auto simp: gs_wf_def set_kind_def nth_list_update)

lemma find_node_Some: "find_node s k = Some n \<Longrightarrow> n < length (gs_pos s) \<and> gs_pos s ! n = k"
  by (auto simp: find_node_def find_Some_iff)

section \<open>Reachability of new nodes\<close>

text \<open>A node whose edges are still to be filled in only leads to the exit: no path to another node uses it.\<close>

lemma reaches_unfilled:
  assumes "reaches ch c m" and "m \<noteq> 0" and "ch 0 = []" and "set (ch x) \<subseteq> {0}" and "\<And>y. y \<noteq> x \<Longrightarrow> set (ch y) \<subseteq> set (ch' y)"
  shows "reaches ch' c m"
  using assms(1)
proof (induction rule: converse_rtranclp_induct)
  case (step y z)
  have "y \<noteq> x"
  proof
    assume "y = x"
    then have "z = 0" using step(1) assms(4) by auto
    then show False using step(2) assms(2,3) by (auto elim: converse_rtranclpE)
  qed
  then have "z \<in> set (ch' y)" using step(1) assms(5) by blast
  with step(3) show ?case by (rule converse_rtranclp_into_rtranclp [rotated])
qed simp

text \<open>The outcome of a visit from state \<open>s\<close>: the node of the block and the state with everything below it.\<close>

definition visited :: "nat \<Rightarrow> graph_state \<Rightarrow> nat list \<Rightarrow> graph_state \<Rightarrow> bool" where
  "visited N s cs s' \<longleftrightarrow> gs_wf N s' \<and> extends s s' \<and> (\<forall>c \<in> set cs. c < length (gs_pos s')) \<and>
     (\<forall>m. length (gs_pos s) \<le> m \<longrightarrow> m < length (gs_pos s') \<longrightarrow> (\<exists>c \<in> set cs. reaches (gs_succs s') c m))"

lemma visited_start: "gs_wf N s \<Longrightarrow> visited N s [] s"
  by (simp add: visited_def extends_refl)

lemma visited_step:
  assumes "visited N s cs s1" and "visited N s1 [c] s2"
  shows "visited N s (cs @ [c]) s2"
proof -
  from assms have ex: "extends s s2" "extends s1 s2" and wf: "gs_wf N s2" and le: "length (gs_pos s1) \<le> length (gs_pos s2)"
    by (auto simp: visited_def intro: extends_trans extends_length)
  have "\<forall>x \<in> set (cs @ [c]). x < length (gs_pos s2)" using assms le by (auto simp: visited_def)
  moreover have "\<exists>x \<in> set (cs @ [c]). reaches (gs_succs s2) x m" if m: "length (gs_pos s) \<le> m" "m < length (gs_pos s2)" for m
  proof (cases "m < length (gs_pos s1)")
    case True
    then obtain x where x: "x \<in> set cs" "reaches (gs_succs s1) x m" using assms(1) m(1) by (auto simp: visited_def)
    have "reaches (gs_succs s2) x m" by (rule reaches_mono [OF x(2)]) (rule extends_succs [OF ex(2)])
    with x(1) show ?thesis by auto
  next
    case False
    then show ?thesis using assms(2) m(2) by (auto simp: visited_def)
  qed
  ultimately show ?thesis using ex(1) wf by (simp add: visited_def)
qed

lemma visited_node:
  assumes wf: "gs_wf N s" and v: "visited N (add_node k kind b s) cs s2"
    and ph: "set (children kind) \<subseteq> {0}" and cs: "set (children kind') = set cs" and nt: "kind' \<noteq> TerminalNode"
    and nf: "\<And>x y. kind' \<noteq> BasicNode x (Some y)"
  shows "visited N s [length (gs_pos s)] (set_kind (length (gs_pos s)) kind' s2) \<and>
    gs_pos (set_kind (length (gs_pos s)) kind' s2) ! length (gs_pos s) = k"
proof -
  let ?new = "length (gs_pos s)" let ?s3 = "set_kind ?new kind' s2"
  have len: "length (gs_kinds s) = ?new" "gs_pos s \<noteq> []" using wf by (simp_all add: gs_wf_def)
  have ex: "extends (add_node k kind b s) s2" and wf2: "gs_wf N s2" using v by (simp_all add: visited_def)
  have pos: "gs_pos ?s3 = gs_pos s2" by (simp add: set_kind_def)
  have new: "?new < length (gs_pos s2)" "?new \<noteq> 0" using extends_length [OF ex] len(2) by (simp_all add: add_node_def)
  have len2: "length (gs_kinds s2) = length (gs_pos s2)" using wf2 by (simp add: gs_wf_def)
  have wf3: "gs_wf N ?s3" using v cs by (intro gs_wf_set_kind [OF wf2 new nt _ nf]) (auto simp: visited_def)
  have kind: "gs_kinds s2 ! ?new = kind" using ex len by (auto simp: extends_def add_node_def nth_append)
  have ch0: "gs_succs s2 0 = []" using wf2 len2 by (simp add: gs_succs_def gs_wf_def children_def)
  have chn: "set (gs_succs s2 ?new) \<subseteq> {0}" using ph kind by (auto simp: gs_succs_def)
  have other: "set (gs_succs s2 y) \<subseteq> set (gs_succs ?s3 y)" if "y \<noteq> ?new" for y
    using that by (simp add: gs_succs_def set_kind_def)
  have own: "set (gs_succs ?s3 ?new) = set cs" using new len2 cs by (simp add: gs_succs_def set_kind_def)
  have "reaches (gs_succs ?s3) ?new m" if m: "?new \<le> m" "m < length (gs_pos s2)" for m
  proof (cases "m = ?new")
    case False
    then have "length (gs_pos (add_node k kind b s)) \<le> m" using m by (simp add: add_node_def)
    then obtain c where c: "c \<in> set cs" "reaches (gs_succs s2) c m" using v m(2) by (auto simp: visited_def)
    have "m \<noteq> 0" using m(1) len(2) by (cases "gs_pos s") auto
    have "reaches (gs_succs ?s3) c m" by (rule reaches_unfilled [OF c(2) \<open>m \<noteq> 0\<close> ch0 chn other])
    moreover have "c \<in> set (gs_succs ?s3 ?new)" using c(1) own by simp
    ultimately show ?thesis by (rule converse_rtranclp_into_rtranclp [rotated])
  qed simp
  with wf3 extends_set_kind [OF ex len(1)] new pos have "visited N s [?new] ?s3" by (auto simp: visited_def)
  moreover have "gs_pos s2 ! ?new = k" using ex by (auto simp: extends_def add_node_def nth_append)
  ultimately show ?thesis using pos by simp
qed

lemma target_block_less: "target_block bs l = Inr k \<Longrightarrow> k < length bs"
  by (auto simp: target_block_def find_block_by_label_def find_Some_iff split: option.splits)

lemma next_block_less: "next_block bs k = Inr k' \<Longrightarrow> k' < length bs"
  by (auto simp: next_block_def Let_def split: if_splits)

lemma set_dedup: "set (dedup seen xs) = set xs - seen"
  by (induction seen xs rule: dedup.induct) auto

lemma children_simps [simp]:
  "children (BasicNode c None) = [c]" "set (children (ConditionalNode a b)) = {a, b}"
  "set (children (SwitchNode cs)) = set cs" "children (ReturnNode i t) = [t]" "children TerminalNode = []"
  by (auto simp: children_def set_dedup)

text \<open>The lemma for a switch: its cases are visited one after the other.\<close>

lemma visit_cases:
  assumes v: "\<And>k s c s'. gs_wf N s \<Longrightarrow> k < length bs \<Longrightarrow> visit k s = Inr (c, s') \<Longrightarrow> visited N s [c] s'"
    and wf: "gs_wf N s1"
    and r: "efold (\<lambda>l (cs, s'). ebind (target_block bs l) (\<lambda>k'. ebind (visit k' s') (\<lambda>(c, s''). Inr (cs @ [c], s'')))) ls ([], s1) = Inr (cs, s2)"
  shows "visited N s1 cs s2"
proof -
  have "(\<lambda>(cs, s'). visited N s1 cs s') (cs, s2)"
  proof (rule efold_Inr_inv [OF r])
    show "(\<lambda>(cs, s'). visited N s1 cs s') ([], s1)" using wf by (simp add: visited_start)
    fix l p q
    assume "(\<lambda>(cs, s'). visited N s1 cs s') p"
      and "(\<lambda>(cs, s'). ebind (target_block bs l) (\<lambda>k'. ebind (visit k' s') (\<lambda>(c, s''). Inr (cs @ [c], s'')))) p = Inr q"
    then show "(\<lambda>(cs, s'). visited N s1 cs s') q"
    proof (cases p)
      case (Pair cs s')
      with \<open>(\<lambda>(cs, s'). ebind _ _) p = Inr q\<close> obtain k' c s'' where
        *: "target_block bs l = Inr k'" "visit k' s' = Inr (c, s'')" "q = (cs @ [c], s'')" by auto
      have vis: "visited N s1 cs s'" using \<open>(\<lambda>(cs, s'). visited N s1 cs s') p\<close> Pair by simp
      then have "visited N s' [c] s''" by (intro v [OF _ target_block_less [OF *(1)] *(2)]) (simp add: visited_def)
      then show ?thesis using visited_step [OF vis] *(3) by simp
    qed
  qed
  then show ?thesis by simp
qed

definition built :: "nat \<Rightarrow> graph_state \<Rightarrow> nat \<Rightarrow> nat \<Rightarrow> graph_state \<Rightarrow> bool" where
  "built N s k c s' \<longleftrightarrow> visited N s [c] s' \<and> gs_pos s' ! c = k"

lemma build_graph_built:
  assumes N: "length bs \<le> N + 1"
  shows "gs_wf N s \<Longrightarrow> k < length bs \<Longrightarrow> build_graph_from_block f arch bs k parents s = Inr (c, s') \<Longrightarrow>
    built N s k c s'"
proof (induction f arbitrary: k parents s c s')
  case (Suc f)
  have kN: "k \<le> N" using Suc.prems(2) N by simp
  show ?case
  proof (cases "find_node s k")
    case (Some n)
    then show ?thesis using Suc.prems find_node_Some [OF Some] by (auto simp: built_def visited_def extends_refl)
  next
    case None
    let ?new = "length (gs_pos s)"
    let ?visit = "\<lambda>k' s'. build_graph_from_block f arch bs k' (k # parents) s'"
    let ?fold = "efold (\<lambda>l (cs, s'). ebind (target_block bs l) (\<lambda>k'. ebind (?visit k' s') (\<lambda>(c, s''). Inr (cs @ [c], s''))))"
    note IH = Suc.IH [unfolded built_def, THEN conjunct1]
    have add: "gs_wf N (add_node k kind b s)"
      if "kind \<noteq> TerminalNode" "\<And>c. c \<in> set (children kind) \<Longrightarrow> c = 0" "\<And>x y. kind \<noteq> BasicNode x (Some y)" for kind b
      by (rule gs_wf_add_node [OF Suc.prems(1) None kN that])
    have basic: "built N s k ?new (set_kind ?new (BasicNode c' None) s2)"
      if "?visit k' (add_node k (BasicNode 0 None) b s) = Inr (c', s2)" "k' < length bs" for k' b c' s2
    unfolding built_def proof (rule visited_node [OF Suc.prems(1)])
      show "visited N (add_node k (BasicNode 0 None) b s) [c'] s2" by (rule IH [OF _ that(2,1)]) (rule add, simp_all)
    qed simp_all
    have cond: "built N s k ?new (set_kind ?new (ConditionalNode c1 c2) s3)"
      if "?visit k1 (add_node k (ConditionalNode 0 0) b s) = Inr (c1, s2)" "?visit k2 s2 = Inr (c2, s3)"
        "k1 < length bs" "k2 < length bs" for k1 k2 b c1 c2 s2 s3
    unfolding built_def proof (rule visited_node [OF Suc.prems(1)])
      have 1: "visited N (add_node k (ConditionalNode 0 0) b s) [c1] s2" by (rule IH [OF _ that(3,1)]) (rule add, simp_all)
      then have "visited N s2 [c2] s3" by (intro IH [OF _ that(4,2)]) (simp add: visited_def)
      from visited_step [OF 1 this] show "visited N (add_node k (ConditionalNode 0 0) b s) [c1, c2] s3" by simp
    qed simp_all
    have switch: "built N s k ?new (set_kind ?new (SwitchNode cs) s2)"
      if "?fold ls ([], add_node k (SwitchNode []) b s0) = Inr (cs, s2)" "s0 = s \<or> (\<exists>d. s0 = s\<lparr>gs_data := d\<rparr>)" for ls b cs s0 s2
    unfolding built_def proof (rule visited_node [OF Suc.prems(1)])
      have "gs_wf N (add_node k (SwitchNode []) b s)" by (rule add) simp_all
      moreover have "gs_pos (add_node k (SwitchNode []) b s0) = gs_pos (add_node k (SwitchNode []) b s)"
        "gs_kinds (add_node k (SwitchNode []) b s0) = gs_kinds (add_node k (SwitchNode []) b s)"
        using that(2) by (auto simp: add_node_def)
      ultimately have wf: "gs_wf N (add_node k (SwitchNode []) b s0)"
        and same: "visited N (add_node k (SwitchNode []) b s0) cs s2 = visited N (add_node k (SwitchNode []) b s) cs s2"
        by (simp_all add: gs_wf_def visited_def extends_def)
      show "visited N (add_node k (SwitchNode []) b s) cs s2"
        unfolding same [symmetric] by (rule visit_cases [OF _ wf that(1)]) (rule IH)
    qed simp_all
    have ret: "built N s k ?new (add_node k (ReturnNode 0 0) False s)"
    proof -
      have len: "length (gs_pos (add_node k (ReturnNode 0 0) False s)) = Suc ?new" by (simp add: add_node_def)
      have "reaches (gs_succs (add_node k (ReturnNode 0 0) False s)) ?new m" if "?new \<le> m" "m < Suc ?new" for m
        using that by (simp add: le_antisym less_Suc_eq_le)
      then show ?thesis using add [of "ReturnNode 0 0" False] unfolding built_def visited_def len
        by (simp add: extends_add_node) (simp add: add_node_def)
    qed
    show ?thesis using Suc.prems(3) None
      by (auto simp: Let_def split: list.splits if_splits option.splits jump_kind.splits
          intro!: basic cond switch ret dest: target_block_less next_block_less)
  qed
qed simp

section \<open>The construction ends\<close>

lemma gs_wf_bound: "gs_wf N s \<Longrightarrow> length (gs_pos s) \<le> N + 1"
proof -
  assume "gs_wf N s"
  then have "distinct (gs_pos s)" "set (gs_pos s) \<subseteq> {..N}" by (auto simp: gs_wf_def)
  then show ?thesis using card_mono [of "{..N}" "set (gs_pos s)"] by (simp add: distinct_card)
qed

lemma no_fuel_lookups: "no_fuel (target_block bs l)" "no_fuel (next_block bs k)" "no_fuel (the_jtbl arch d ps)"
  by (auto simp: target_block_def next_block_def the_jtbl_def Let_def no_fuel_def split: option.splits list.splits)

lemma build_graph_no_fuel:
  assumes N: "length bs \<le> N + 1"
  shows "gs_wf N s \<Longrightarrow> k < length bs \<Longrightarrow> N + 1 < f + length (gs_pos s) \<Longrightarrow>
    no_fuel (build_graph_from_block f arch bs k parents s)"
proof (induction f arbitrary: k parents s)
  case 0
  then show ?case using gs_wf_bound [of N s] by simp
next
  case (Suc f)
  have kN: "k \<le> N" using Suc.prems(2) N by simp
  let ?visit = "\<lambda>k' s'. build_graph_from_block f arch bs k' (k # parents) s'"
  let ?step = "\<lambda>l (cs :: nat list, s'). ebind (target_block bs l) (\<lambda>k'. ebind (?visit k' s') (\<lambda>(c, s''). Inr (cs @ [c], s'')))"
  define ok where "ok s1 \<longleftrightarrow> gs_wf N s1 \<and> N + 1 < f + length (gs_pos s1)" for s1
  have step: "no_fuel (?visit k' s1)" "\<And>c s2. ?visit k' s1 = Inr (c, s2) \<Longrightarrow> ok s2" if "ok s1" "k' < length bs" for k' s1
  proof -
    show "no_fuel (?visit k' s1)" using that by (intro Suc.IH) (auto simp: ok_def)
    fix c s2 assume "?visit k' s1 = Inr (c, s2)"
    then have "visited N s1 [c] s2" using that by (intro build_graph_built [OF N, unfolded built_def, THEN conjunct1]) (auto simp: ok_def)
    then have "gs_wf N s2" "length (gs_pos s1) \<le> length (gs_pos s2)" by (auto simp: visited_def extends_length)
    then show "ok s2" using that(1) by (simp add: ok_def)
  qed
  show ?case
  proof (cases "find_node s k")
    case None
    have ok0: "ok (add_node k kind b s)"
      if "kind \<noteq> TerminalNode" "\<And>c. c \<in> set (children kind) \<Longrightarrow> c = 0" "\<And>x y. kind \<noteq> BasicNode x (Some y)" for kind b
      using gs_wf_add_node [OF Suc.prems(1) None kN that, of b] Suc.prems(3) by (simp add: ok_def add_node_def)
    have basic: "no_fuel (ebind (?visit k' (add_node k (BasicNode 0 None) b s)) (\<lambda>(c, s'). Inr (g c s')))" if "k' < length bs" for k' b and g :: "nat \<Rightarrow> graph_state \<Rightarrow> nat \<times> graph_state"
      by (rule no_fuel_ebind) (rule step(1) [OF ok0 that], auto)
    have cond: "no_fuel (ebind (?visit k1 (add_node k (ConditionalNode 0 0) b s)) (\<lambda>(c1, s1). ebind (?visit k2 s1) (\<lambda>(c2, s2). Inr (g c1 c2 s2))))"
      if kk: "k1 < length bs" "k2 < length bs" for k1 k2 b and g :: "nat \<Rightarrow> nat \<Rightarrow> graph_state \<Rightarrow> nat \<times> graph_state"
    proof (rule no_fuel_ebind)
      have o: "ok (add_node k (ConditionalNode 0 0) b s)" by (rule ok0) simp_all
      show "no_fuel (?visit k1 (add_node k (ConditionalNode 0 0) b s))" by (rule step(1) [OF o kk(1)])
      fix p assume "?visit k1 (add_node k (ConditionalNode 0 0) b s) = Inr p"
      then obtain c1 s1 where p: "p = (c1, s1)" "ok s1" using step(2) [OF o kk(1)] by (cases p) auto
      show "no_fuel ((\<lambda>(c1, s1). ebind (?visit k2 s1) (\<lambda>(c2, s2). Inr (g c1 c2 s2))) p)"
        unfolding p(1) split_conv by (rule no_fuel_ebind) (rule step(1) [OF p(2) kk(2)], auto)
    qed
    have switch: "no_fuel (ebind (efold ?step ls ([], add_node k (SwitchNode []) b s0)) (\<lambda>(cs, s''). Inr (g cs s'')))"
      if "s0 = s \<or> (\<exists>d. s0 = s\<lparr>gs_data := d\<rparr>)" for ls b s0 and g :: "nat list \<Rightarrow> graph_state \<Rightarrow> nat \<times> graph_state"
    proof (rule no_fuel_ebind)
      have "ok (add_node k (SwitchNode []) b s)" by (rule ok0) simp_all
      then have "ok (add_node k (SwitchNode []) b s0)" using that by (auto simp: ok_def gs_wf_def add_node_def)
      then show "no_fuel (efold ?step ls ([], add_node k (SwitchNode []) b s0))"
      proof (intro no_fuel_efold [where I = "\<lambda>(cs, s'). ok s'"])
        fix l and p q :: "nat list \<times> graph_state" assume p: "case p of (cs, s') \<Rightarrow> ok s'"
        show "no_fuel (?step l p)"
          using p by (auto split: prod.splits intro!: no_fuel_ebind no_fuel_lookups step(1) dest: target_block_less)
        show "case q of (cs, s') \<Rightarrow> ok s'" if "?step l p = Inr q"
          using p that step(2) by (auto split: prod.splits dest!: target_block_less)
      qed simp
    qed (auto split: prod.splits)
    show ?thesis using None
      by (auto simp: Let_def split: list.splits if_splits option.splits jump_kind.splits
          intro!: no_fuel_ebind no_fuel_lookups basic cond switch dest: target_block_less next_block_less)
  qed simp
qed

section \<open>The sorted graph\<close>

lemma sort_key_ends:
  fixes f :: "'a \<Rightarrow> int"
  assumes "x \<in> set xs"
  shows "(\<And>y. y \<in> set xs \<Longrightarrow> y \<noteq> x \<Longrightarrow> f y < f x) \<Longrightarrow> last (sort_key f xs) = x"
    and "(\<And>y. y \<in> set xs \<Longrightarrow> y \<noteq> x \<Longrightarrow> f x < f y) \<Longrightarrow> hd (sort_key f xs) = x"
proof -
  let ?ys = "sort_key f xs"
  have ne: "?ys \<noteq> []" and so: "sorted (map f ?ys)" and mem: "set ?ys = set xs" using assms by (auto simp flip: set_empty)
  obtain i where i: "i < length ?ys" "?ys ! i = x" using assms mem by (metis in_set_conv_nth)
  have "map f ?ys ! i \<le> map f ?ys ! (length ?ys - 1)" using so i(1) by (intro sorted_nth_mono) auto
  then have le: "f x \<le> f (last ?ys)" using i ne by (simp add: last_conv_nth)
  have "map f ?ys ! 0 \<le> map f ?ys ! i" using so i(1) by (intro sorted_nth_mono) auto
  moreover have "0 < length ?ys" using i(1) by (rule le_less_trans [rotated]) simp
  ultimately have ge: "f (hd ?ys) \<le> f x" using i ne by (simp add: hd_conv_nth)
  show "last ?ys = x" if "\<And>y. y \<in> set xs \<Longrightarrow> y \<noteq> x \<Longrightarrow> f y < f x"
    using that [of "last ?ys"] le last_in_set [OF ne] mem by force
  show "hd ?ys = x" if "\<And>y. y \<in> set xs \<Longrightarrow> y \<noteq> x \<Longrightarrow> f x < f y"
    using that [of "hd ?ys"] ge hd_in_set [OF ne] mem by force
qed

text \<open>The blocks as \<open>build_blocks\<close> numbers them.\<close>

definition numbered :: "block list \<Rightarrow> bool" where
  "numbered bs \<longleftrightarrow> bs \<noteq> [] \<and> (\<forall>k < length bs. blk_index (bs ! k) = int k)"

lemma build_nodes_no_fuel:
  assumes "numbered bs"
  shows "no_fuel (build_nodes arch fragment bs d)"
proof -
  let ?bs = "if fragment then bs @ [terminal_block] else bs"
  let ?s0 = "\<lparr>gs_pos = [length bs], gs_kinds = [TerminalNode], gs_goto = [False], gs_data = d\<rparr>"
  have "gs_wf (length bs) ?s0" by (simp add: gs_wf_def)
  then have "no_fuel (build_graph_from_block (length ?bs + 1) arch ?bs 0 [] ?s0)"
    using assms by (intro build_graph_no_fuel [of _ "length bs"]) (auto simp: numbered_def)
  then show ?thesis unfolding build_nodes_def Let_def
    by (auto intro!: no_fuel_ebind split: prod.splits if_splits)
qed

text \<open>A graph as \<open>build_nodes\<close> delivers it.\<close>

definition node_graph_wf :: "node_graph \<Rightarrow> bool" where
  "node_graph_wf g \<longleftrightarrow>
     flow_nodes (ng_order g) (ng_kind g) \<and> distinct (ng_order g) \<and> set (ng_order g) = {..<ng_next g} \<and>
     last (ng_order g) = 0 \<and> hd (ng_order g) \<noteq> 0 \<and>
     (\<forall>n \<in> set (ng_order g). n \<noteq> 0 \<longrightarrow> ng_kind g n \<noteq> TerminalNode \<and> ng_index g n < ng_index g 0) \<and>
     (\<forall>n \<in> set (ng_order g). n \<noteq> hd (ng_order g) \<longrightarrow> ng_index g (hd (ng_order g)) < ng_index g n) \<and>
     (\<forall>n \<in> set (ng_order g). \<forall>a b. ng_kind g n \<noteq> BasicNode a (Some b))"

lemma build_nodes_graph:
  assumes num: "numbered bs" and r: "build_nodes arch fragment bs d = Inr (g, d')"
  shows "node_graph_wf g \<and> ng_block g (hd (ng_order g)) = bs ! 0 \<and>
    (\<forall>n \<in> set (ng_order g). n \<noteq> 0 \<longrightarrow> reaches (succs (ng_kind g)) (hd (ng_order g)) n \<and> (\<exists>k < length bs. ng_block g n = bs ! k))"
proof -
  define L where "L = (if fragment then bs @ [terminal_block] else bs)"
  let ?s0 = "\<lparr>gs_pos = [length bs], gs_kinds = [TerminalNode], gs_goto = [False], gs_data = d\<rparr>"
  have ne: "bs \<noteq> []" using num by (simp add: numbered_def)
  have L: "L \<noteq> []" "length L \<le> length bs + 1" "0 < length L" "L ! 0 = bs ! 0" using ne by (auto simp: L_def nth_append)
  from r L(1) obtain c s where b: "build_graph_from_block (length L + 1) arch L 0 [] ?s0 = Inr (c, s)"
    unfolding build_nodes_def Let_def L_def [symmetric] by (auto split: prod.splits)
  let ?N = "length (gs_pos s)"
  let ?blk = "\<lambda>n. if n = 0 then terminal_block else L ! (gs_pos s ! n)"
  let ?top = "Max ((\<lambda>n. blk_index (?blk n)) ` {0..<?N}) + 1"
  define blk where "blk = ?blk(0 := terminal_block\<lparr>blk_index := ?top\<rparr>)"
  have g: "ng_order g = sort_key (\<lambda>n. blk_index (blk n)) [0..<?N]" "ng_kind g = (\<lambda>n. gs_kinds s ! n)" "ng_block g = blk" "ng_next g = ?N"
    using r b L(1) unfolding build_nodes_def Let_def L_def [symmetric] blk_def by (auto split: prod.splits)
  have "gs_wf (length bs) ?s0" by (simp add: gs_wf_def)
  from build_graph_built [OF L(2) this L(3) b] have v: "visited (length bs) ?s0 [c] s" and pc: "gs_pos s ! c = 0" by (auto simp: built_def)
  then have wf: "gs_wf (length bs) s" and cN: "c < ?N" and ex: "extends ?s0 s"
    and reach: "\<And>m. 1 \<le> m \<Longrightarrow> m < ?N \<Longrightarrow> reaches (gs_succs s) c m" by (auto simp: visited_def)
  have p0: "gs_pos s ! 0 = length bs" using ex by (auto simp: extends_def)
  then have c0: "c \<noteq> 0" using pc ne by (intro notI) simp
  have len: "length (gs_kinds s) = ?N" and dis: "distinct (gs_pos s)" and le: "\<And>n. n < ?N \<Longrightarrow> gs_pos s ! n \<le> length bs"
    using wf by (auto simp: gs_wf_def)
  have posn: "gs_pos s ! n < length bs" if "n < ?N" "n \<noteq> 0" for n
  proof -
    have "gs_pos s ! n \<noteq> gs_pos s ! 0" using dis that nth_eq_iff_index_eq [of "gs_pos s" n 0] by (metis gr_zeroI less_trans)
    then show ?thesis using le [OF that(1)] p0 by simp
  qed
  have blkn: "blk n = bs ! (gs_pos s ! n)" if "n < ?N" "n \<noteq> 0" for n
    using posn [OF that] that by (simp add: blk_def L_def nth_append)
  have idx: "blk_index (blk n) = int (gs_pos s ! n)" if "n < ?N" "n \<noteq> 0" for n
    using blkn [OF that] posn [OF that] num by (simp add: numbered_def)
  have top: "blk_index (blk n) < blk_index (blk 0)" if "n \<in> set [0..<?N]" "n \<noteq> 0" for n
  proof -
    have "blk_index (?blk n) \<le> Max ((\<lambda>n. blk_index (?blk n)) ` {0..<?N})" using that by (intro Max_ge imageI) simp_all
    then show ?thesis using that by (simp add: blk_def)
  qed
  have zero: "0 \<in> set [0..<?N]" using cN by (cases "gs_pos s") simp_all
  have last0: "last (ng_order g) = 0" unfolding g(1) by (rule sort_key_ends(1) [OF zero]) (rule top)
  have low: "blk_index (blk c) < blk_index (blk n)" if "n \<in> set [0..<?N]" "n \<noteq> c" for n
  proof (cases "n = 0")
    case True
    then show ?thesis using top [of c] cN c0 by simp
  next
    case False
    have "gs_pos s ! n \<noteq> gs_pos s ! c" using dis that cN by (simp add: nth_eq_iff_index_eq)
    then show ?thesis using idx [OF cN c0] idx [of n] that False pc by simp
  qed
  have hdc: "hd (ng_order g) = c" unfolding g(1) by (rule sort_key_ends(2)) (use cN low in auto)
  have set: "set (ng_order g) = {..<?N}" by (auto simp: g(1))
  have succ: "succs (ng_kind g) n = gs_succs s n" if "n < ?N" for n
    using that len by (simp add: g(2) succs_def gs_succs_def)
  have kinds: "gs_kinds s ! 0 = TerminalNode" "\<And>n. n < ?N \<Longrightarrow> n \<noteq> 0 \<Longrightarrow> gs_kinds s ! n \<noteq> TerminalNode"
    "\<And>n. n < ?N \<Longrightarrow> set (children (gs_kinds s ! n)) \<subseteq> {..<?N}" "\<And>n a b. n < ?N \<Longrightarrow> gs_kinds s ! n \<noteq> BasicNode a (Some b)"
  proof -
    show "gs_kinds s ! 0 = TerminalNode" using wf by (simp add: gs_wf_def)
    fix n assume "n < ?N"
    then have "\<forall>c \<in> set (children (gs_kinds s ! n)). c < ?N" "\<forall>a b. gs_kinds s ! n \<noteq> BasicNode a (Some b)"
      and "n \<noteq> 0 \<Longrightarrow> gs_kinds s ! n \<noteq> TerminalNode" using wf unfolding gs_wf_def by blast+
    then show "n \<noteq> 0 \<Longrightarrow> gs_kinds s ! n \<noteq> TerminalNode" "set (children (gs_kinds s ! n)) \<subseteq> {..<?N}"
      "gs_kinds s ! n \<noteq> BasicNode a (Some b)" for a b by auto
  qed
  have closed: "closed_graph (ng_order g) (succs (ng_kind g))"
    using kinds(3) unfolding closed_graph_def set by (simp add: g(2) succs_def)
  have "c \<in> set (ng_order g)" using cN unfolding set by simp
  then have "ng_order g \<noteq> []" by (metis empty_iff list.set(1))
  then have flow: "flow_nodes (ng_order g) (ng_kind g)"
    using closed kinds(1,4) last0 set unfolding flow_nodes_def by (auto simp: g(2))
  have rch: "reaches (succs (ng_kind g)) c n" if "n < ?N" "n \<noteq> 0" for n
  proof (rule reaches_mono)
    show "reaches (gs_succs s) c n" using reach that by simp
    show "set (gs_succs s x) \<subseteq> set (succs (ng_kind g) x)" for x using succ [of x] len by (cases "x < ?N") (auto simp: gs_succs_def)
  qed
  have "distinct (ng_order g)" by (simp add: g(1))
  moreover have "\<forall>n \<in> set (ng_order g). n \<noteq> 0 \<longrightarrow> ng_kind g n \<noteq> TerminalNode \<and> ng_index g n < ng_index g 0"
    using kinds(2) top unfolding set ng_index_def g(2,3) by simp
  moreover have "\<forall>n \<in> set (ng_order g). n \<noteq> c \<longrightarrow> ng_index g c < ng_index g n"
    using low unfolding set ng_index_def g(3) by simp
  moreover have "\<forall>n \<in> set (ng_order g). \<forall>a b. ng_kind g n \<noteq> BasicNode a (Some b)" using kinds(4) by (simp add: set g(2))
  moreover have "set (ng_order g) = {..<ng_next g}" unfolding set g(4) ..
  ultimately have "node_graph_wf g" using flow last0 hdc c0 unfolding node_graph_wf_def by blast
  moreover have "ng_block g c = bs ! 0" using blkn [OF cN c0] pc by (simp add: g(3))
  moreover have "\<forall>n \<in> set (ng_order g). n \<noteq> 0 \<longrightarrow> reaches (succs (ng_kind g)) c n \<and> (\<exists>k < length bs. ng_block g n = bs ! k)"
    using rch blkn posn unfolding set g(3) by blast
  ultimately show ?thesis using hdc by simp
qed

end
