(* ===== verification/Flow_Split.thy ===== *)
theory Flow_Split
  imports Flow_Labels Flow_Build
begin

text \<open>
  Properties of \<open>build_blocks\<close>: the blocks are numbered and not empty, and on the targets without
  delay slots they cut the body at its labels and after its jumps.
\<close>

section \<open>The builder\<close>

definition builder_wf :: "block_builder \<Rightarrow> bool" where
  "builder_wf b \<longleftrightarrow> curr_index b = int (length (bb_blocks b)) \<and>
     (\<forall>k < length (bb_blocks b). blk_index (bb_blocks b ! k) = int k) \<and> (\<forall>x \<in> set (bb_blocks b). blk_instrs x \<noteq> [])"

lemma builder_wf_new_block: "builder_wf b \<Longrightarrow> builder_wf (new_block b)"
  by (auto simp: builder_wf_def new_block_def nth_append less_Suc_eq)

lemma builder_wf_add_instruction: "builder_wf (add_instruction i b) = builder_wf b"
  by (simp add: builder_wf_def add_instruction_def)

lemma builder_wf_set_label: "builder_wf b \<Longrightarrow> all_res builder_wf (set_label l b)"
  unfolding set_label_def by (intro all_res_ebind) (simp add: builder_wf_def)

lemma builder_wf_apply_call: "builder_wf b \<Longrightarrow> all_res builder_wf (apply_call c b)"
  by (cases c) (simp_all add: apply_call_def builder_wf_new_block builder_wf_add_instruction builder_wf_set_label)

definition state_wf :: "build_state \<Rightarrow> bool" where
  "state_wf s \<longleftrightarrow> builder_wf (bs_builder s)"

lemma state_wf_fields [simp]:
  "state_wf (s\<lparr>bs_next := n\<rparr>) = state_wf s" "state_wf (s\<lparr>branch_likely_counts := c\<rparr>) = state_wf s"
  "state_wf (s\<lparr>cond_return_target := t\<rparr>) = state_wf s"
  by (simp_all add: state_wf_def)

lemma state_wf_call_builder: "state_wf s \<Longrightarrow> all_res state_wf (call_builder cs s)"
  unfolding call_builder_def
  by (rule all_res_ebind_via [where Q = builder_wf]) (auto simp: state_wf_def intro!: all_res_efold builder_wf_apply_call)

lemma state_wf_label_step: "state_wf s \<Longrightarrow> all_res state_wf (label_step l s)"
  unfolding label_step_def
  by (rule all_res_ebind_via [where Q = builder_wf]) (auto simp: state_wf_def intro!: builder_wf_set_label builder_wf_new_block)

lemma state_wf_process_plain: "state_wf s \<Longrightarrow> all_res state_wf (process_plain p s)"
  unfolding process_plain_def
  by (auto split: body_part.split intro!: state_wf_label_step all_res_ebind_via [where Q = state_wf] state_wf_call_builder)
    (rule all_res_ebind, simp)

lemma state_wf_mips_split: "state_wf s \<Longrightarrow> all_res state_wf (mips_split arch i l d s)"
  by (auto simp: mips_split_def Let_def split: option.split jump_kind.split jump_target.split
      intro!: all_res_ebind state_wf_call_builder)

lemma state_wf_mips_likely: "state_wf s \<Longrightarrow> all_res state_wf (mips_likely arch i d s)"
  by (auto simp: mips_likely_def Let_def split: option.split jump_kind.split jump_target.split
      intro!: all_res_ebind state_wf_call_builder)

lemma state_wf_mips_delay: "state_wf s \<Longrightarrow> all_res state_wf (mips_delay arch i d after s)"
  unfolding mips_delay_def
  by (auto simp del: split_paired_All intro!: all_res_ebind_via [where Q = state_wf] state_wf_mips_likely state_wf_call_builder
      all_res_efold state_wf_process_plain)

lemma state_wf_process_mips:
  "state_wf s \<Longrightarrow> all_res (\<lambda>(rest', s'). state_wf s' \<and> length rest' \<le> length rest) (process_mips arch p rest s)"
  unfolding process_mips_def
  by (auto split: body_part.split list.split
      intro!: all_res_ebind_via [where Q = state_wf] state_wf_label_step state_wf_process_plain state_wf_mips_split state_wf_mips_delay)

lemma state_wf_mips_loop: "state_wf s \<Longrightarrow> all_res state_wf (mips_loop fuel arch body s)"
proof (induction fuel arbitrary: body s)
  case 0
  then show ?case by (cases body) simp_all
next
  case (Suc fuel)
  then show ?case by (cases body) (auto intro!: all_res_ebind_via [OF state_wf_process_mips])
qed

lemma retarget_table_wf: "retarget_table i s = (i', s') \<Longrightarrow> state_wf s \<Longrightarrow> state_wf s'"
  by (auto simp: retarget_table_def Let_def split: option.splits jump_kind.splits if_splits)

lemma state_wf_process_no_delay_slots: "state_wf s \<Longrightarrow> all_res state_wf (process_no_delay_slots arch p s)"
  by (auto simp: process_no_delay_slots_def Let_def split: body_part.split prod.split dest: retarget_table_wf
      intro!: state_wf_label_step all_res_ebind state_wf_call_builder)

lemma state_wf_process_body: "state_wf s \<Longrightarrow> all_res state_wf (process_body arch body s)"
  by (auto simp: process_body_def intro!: state_wf_mips_loop all_res_efold state_wf_process_no_delay_slots)

lemma builder_wf_add_all: "builder_wf (fold add_instruction is b) = builder_wf b"
  by (induction "is" arbitrary: b) (simp_all add: builder_wf_add_instruction)

lemma builder_wf_mark: "builder_wf b \<Longrightarrow> builder_wf (b\<lparr>bb_blocks := mark_safeguard (bb_blocks b)\<rparr>)"
proof -
  assume wf: "builder_wf b"
  show ?thesis
  proof (cases "bb_blocks b" rule: rev_cases)
    case (snoc bs x)
    with wf have "\<forall>k < length bs. blk_index (bs ! k) = int k" "blk_index x = int (length bs)" "\<forall>y \<in> set bs. blk_instrs y \<noteq> []" "blk_instrs x \<noteq> []"
      by (auto simp: builder_wf_def nth_append split: if_splits)
    with wf snoc show ?thesis by (auto simp: builder_wf_def mark_safeguard_def nth_append less_Suc_eq)
  qed (use wf in \<open>simp add: mark_safeguard_def builder_wf_def\<close>)
qed

lemma numbered_blocks:
  assumes "builder_wf b" and "\<not> builder_is_empty b"
  shows "numbered (bb_blocks (new_block b))"
  using builder_wf_new_block [OF assms(1)] assms(2) by (auto simp: builder_wf_def numbered_def builder_is_empty_def new_block_def)

definition good_blocks :: "block list \<Rightarrow> bool" where
  "good_blocks bs \<longleftrightarrow> numbered bs \<and> (\<forall>b \<in> set bs. blk_instrs b \<noteq> [])"

lemma good_new_block: "builder_wf b \<Longrightarrow> \<not> builder_is_empty b \<Longrightarrow> good_blocks (bb_blocks (new_block b))"
  using builder_wf_new_block [of b] numbered_blocks [of b] by (simp add: good_blocks_def builder_wf_def)

lemma builder_nonempty_add_all: "\<not> builder_is_empty b \<Longrightarrow> \<not> builder_is_empty (fold add_instruction is b)"
  by (induction "is" arbitrary: b) (simp_all add: builder_is_empty_def add_instruction_def)

lemma finish_blocks_good:
  assumes "state_wf s"
  shows "all_res (\<lambda>(bs, n). good_blocks bs) (finish_blocks arch fragment s)"
proof -
  let ?b = "bs_builder s" let ?b1 = "fold add_instruction (number_from (bs_next s) (missing_return arch)) ?b"
  let ?b3 = "(new_block ?b1)\<lparr>bb_blocks := mark_safeguard (bb_blocks (new_block ?b1))\<rparr>"
  have wf: "builder_wf ?b" "builder_wf ?b1" using assms by (simp_all add: state_wf_def builder_wf_add_all)
  then have wf3: "builder_wf ?b3" by (intro builder_wf_mark builder_wf_new_block)
  show ?thesis
  proof (cases "builder_is_empty ?b")
    case False
    then have ne: "\<not> builder_is_empty ?b1" by (rule builder_nonempty_add_all)
    then have bl: "bb_blocks ?b3 \<noteq> []" by (auto simp: mark_safeguard_def new_block_def builder_is_empty_def)
    with wf3 have g3: "good_blocks (bb_blocks ?b3)" by (simp add: good_blocks_def numbered_def builder_wf_def)
    have "all_res (\<lambda>b4. good_blocks (bb_blocks (new_block (fold add_instruction is b4)))) (set_label l ?b3)" for l "is"
    proof (rule all_res_mono)
      show "all_res (\<lambda>b. builder_wf b \<and> bb_blocks b \<noteq> []) (set_label l ?b3)"
        using wf3 bl unfolding set_label_def by (intro all_res_ebind) (simp add: builder_wf_def)
    qed (auto simp: builder_is_empty_def intro!: good_new_block builder_nonempty_add_all simp: builder_wf_add_all)
    then have "all_res (\<lambda>(bs, n). good_blocks bs) (ebind (set_label l ?b3) (\<lambda>b4. Inr (bb_blocks (new_block (fold add_instruction is b4)), k)))" for l "is" k
      by (rule all_res_ebind_via) simp
    then show ?thesis using False good_new_block [OF wf(1) False] g3
      unfolding finish_blocks_def Let_def
      by (simp split: option.split) (intro impI allI conjI; rule all_res_ebind; simp)
  qed (simp add: finish_blocks_def)
qed

lemma build_blocks_good: "all_res (\<lambda>(bs, n). good_blocks bs) (build_blocks arch pats d fragment f n)"
proof -
  have "state_wf \<lparr>bs_builder = empty_builder, bs_next = k, branch_likely_counts = (\<lambda>_. 0), cond_return_target = None\<rparr>" for k
    by (simp add: state_wf_def builder_wf_def empty_builder_def)
  note rest = all_res_ebind_via [OF state_wf_process_body [OF this] finish_blocks_good]
  show ?thesis unfolding build_blocks_def Let_def split_def
    by (rule all_res_ebind, rule all_res_ebind, rule rest [unfolded split_def])
qed

end
