(* ===== verification/Flow_Layout.thy ===== *)
theory Flow_Layout
  imports Flow_Split
begin

text \<open>
  What the blocks hold on the targets without delay slots: the instructions of the body in their
  order, cut after every jump and at every label, with the conditional returns made branches to
  a block of their own.
\<close>

section \<open>Specification\<close>

definition ret_label :: string where
  "ret_label = internal_label ''conditionalreturn'' []"

definition has_ret_case :: "instruction \<Rightarrow> bool" where
  "has_ret_case i = (case ins_jump i of Some (JumpTable ts) \<Rightarrow> is_conditional i \<and> JumpTarget ''_m2c_ret'' \<in> set ts | _ \<Rightarrow> False)"

definition lower_table :: "instruction \<Rightarrow> instruction" where
  "lower_table i = (case ins_jump i of
     Some (JumpTable ts) \<Rightarrow> if has_ret_case i then i\<lparr>ins_jump := Some (JumpTable (map (retarget ret_label) ts))\<rparr> else i
   | _ \<Rightarrow> i)"

text \<open>The instruction that a block gets for one of the body.\<close>

definition lowered :: "arch_asm \<Rightarrow> instruction \<Rightarrow> instruction \<Rightarrow> bool" where
  "lowered arch i j \<longleftrightarrow>
     (if is_conditional i \<and> is_return i
      then \<exists>k m. ins_mnemonic i = m @ ''lr'' \<and> parse_new arch m [AsmGlobalSymbol ret_label] (meta_derived (ins_meta i)) k = Inr j
      else j = lower_table i)"

text \<open>Whether the function needs the block for conditional returns.\<close>

definition conditional_return :: "instruction \<Rightarrow> bool" where
  "conditional_return i \<longleftrightarrow> is_conditional i \<and> is_return i \<or> has_ret_case i"

definition block_names :: "block \<Rightarrow> string list" where
  "block_names b = (case blk_label b of Some l \<Rightarrow> label_names l | None \<Rightarrow> [])"

fun block_table :: "nat \<Rightarrow> block list \<Rightarrow> (string \<times> nat) list" where
  "block_table n [] = []"
| "block_table n (b # bs) = map (\<lambda>nm. (nm, n)) (block_names b) @ block_table (n + length (blk_instrs b)) bs"

definition block_code :: "block list \<Rightarrow> instruction list" where
  "block_code bs = concat (map blk_instrs bs)"

definition cut_at_jumps :: "block list \<Rightarrow> bool" where
  "cut_at_jumps bs \<longleftrightarrow> (\<forall>b \<in> set bs. \<forall>i \<in> set (butlast (blk_instrs b)). \<not> is_jump i)"

lemma block_table_append: "block_table n (bs @ cs) = block_table n bs @ block_table (n + length (block_code bs)) cs"
  by (induction n bs rule: block_table.induct) (simp_all add: block_code_def add.assoc)

lemma block_code_append [simp]: "block_code (bs @ cs) = block_code bs @ block_code cs" "block_code [] = []" "block_code [b] = blk_instrs b"
  by (simp_all add: block_code_def)

section \<open>The state of the builder\<close>

definition code_of :: "block_builder \<Rightarrow> instruction list" where
  "code_of b = block_code (bb_blocks b) @ curr_instructions b"

definition table_of :: "block_builder \<Rightarrow> (string \<times> nat) list" where
  "table_of b = block_table 0 (bb_blocks b) @
     (case curr_label b of Some l \<Rightarrow> map (\<lambda>nm. (nm, length (block_code (bb_blocks b)))) (label_names l) | None \<Rightarrow> [])"

definition cut :: "block_builder \<Rightarrow> bool" where
  "cut b \<longleftrightarrow> cut_at_jumps (bb_blocks b) \<and> (\<forall>i \<in> set (curr_instructions b). \<not> is_jump i)"

lemma new_block_layout [simp]:
  "code_of (new_block b) = code_of b" "curr_instructions (new_block b) = []" "bb_blocks b = [] \<Longrightarrow> curr_instructions b = [] \<Longrightarrow> bb_blocks (new_block b) = []"
  by (auto simp: code_of_def new_block_def)

lemma new_block_table: "table_of (new_block b) = table_of b"
  by (auto simp: table_of_def new_block_def block_table_append block_names_def split: option.split)

lemma new_block_cut: "cut_at_jumps (bb_blocks b) \<Longrightarrow> \<forall>i \<in> set (butlast (curr_instructions b)). \<not> is_jump i \<Longrightarrow> cut (new_block b)"
  by (auto simp: cut_def cut_at_jumps_def new_block_def)

lemma add_instruction_layout [simp]:
  "code_of (add_instruction i b) = code_of b @ [i]" "table_of (add_instruction i b) = table_of b" "bb_blocks (add_instruction i b) = bb_blocks b"
  "curr_instructions (add_instruction i b) = curr_instructions b @ [i]"
  by (simp_all add: code_of_def table_of_def add_instruction_def split: option.split)

lemma set_label_layout:
  assumes "set_label l b = Inr b'" and "curr_instructions b = []"
  shows "code_of b' = code_of b" and "table_of b' = table_of b @ map (\<lambda>nm. (nm, length (code_of b))) (label_names l)"
    and "bb_blocks b' = bb_blocks b" and "curr_instructions b' = []" and "curr_label b' = Some l"
  using assms by (auto simp: set_label_def code_of_def table_of_def py_assert_def split: if_splits)

section \<open>One item\<close>

definition laid_out :: "arch_asm \<Rightarrow> body_part list \<Rightarrow> build_state \<Rightarrow> bool" where
  "laid_out arch ps s \<longleftrightarrow> (let b = bs_builder s in
     list_all2 (lowered arch) (body_instrs ps) (code_of b) \<and> table_of b = label_table 0 ps \<and> cut b \<and>
     cond_return_target s = (if \<exists>i \<in> set (body_instrs ps). conditional_return i then Some ret_label else None))"

lemma laid_out_start:
  "laid_out arch [] \<lparr>bs_builder = empty_builder, bs_next = n, branch_likely_counts = c, cond_return_target = None\<rparr>"
  by (simp add: laid_out_def empty_builder_def code_of_def table_of_def cut_def cut_at_jumps_def)

lemma label_step_layout:
  assumes "label_step l s = Inr s'" and inv: "laid_out arch ps s"
  shows "laid_out arch (ps @ [BLabel l]) s'"
proof -
  let ?b = "bs_builder s"
  obtain b where b: "set_label l (new_block ?b) = Inr b" and s': "s' = s\<lparr>bs_builder := b\<rparr>"
    using assms(1) by (auto simp: label_step_def)
  note lay = set_label_layout [OF b]
  have "cut (new_block ?b)" using inv by (intro new_block_cut) (auto simp: laid_out_def Let_def cut_def dest: in_set_butlastD)
  then have "cut b" using lay by (simp add: cut_def)
  moreover have "length (code_of ?b) = length (body_instrs ps)"
    using inv by (auto simp: laid_out_def Let_def dest: list_all2_lengthD)
  ultimately show ?thesis using inv lay
    by (simp add: laid_out_def s' Let_def new_block_table label_table_append)
qed

lemma retarget_table_layout:
  assumes "retarget_table i s = (i', s')" and "cond_return_target s \<in> {None, Some ret_label}"
  shows "i' = lower_table i" and "bs_builder s' = bs_builder s" and "bs_next s' = bs_next s"
    and "cond_return_target s' = (if has_ret_case i then Some ret_label else cond_return_target s)"
  using assms by (auto simp: retarget_table_def lower_table_def has_ret_case_def return_label_def ret_label_def Let_def
      split: option.splits jump_kind.splits if_splits)

lemma lower_table_fields [simp]:
  "is_conditional (lower_table i) = is_conditional i" "is_return (lower_table i) = is_return i"
  "ins_mnemonic (lower_table i) = ins_mnemonic i" "ins_meta (lower_table i) = ins_meta i"
  by (auto simp: lower_table_def split: option.split jump_kind.split)

lemma cut_add:
  assumes "cut b"
  shows "\<not> is_jump i \<Longrightarrow> cut (add_instruction i b)" and "cut (new_block (add_instruction i b))"
proof -
  show "\<not> is_jump i \<Longrightarrow> cut (add_instruction i b)" using assms by (auto simp: cut_def)
  show "cut (new_block (add_instruction i b))" by (rule new_block_cut) (use assms in \<open>auto simp: cut_def\<close>)
qed

lemma instruction_layout:
  assumes "process_no_delay_slots arch (BInstr i) s = Inr s'" and inv: "laid_out arch ps s"
  shows "laid_out arch (ps @ [BInstr i]) s'"
proof -
  have ct: "cond_return_target s \<in> {None, Some ret_label}" using inv by (auto simp: laid_out_def Let_def)
  obtain i' s1 where r: "retarget_table i s = (i', s1)" by fastforce
  note lay = retarget_table_layout [OF r ct]
  have rl: "return_label (cond_return_target s1) = ret_label"
    using ct by (auto simp: lay(4) return_label_def ret_label_def split: option.split if_splits)
  let ?b = "bs_builder s"
  have cutb: "cut ?b" using inv by (simp add: laid_out_def Let_def)
  show ?thesis
  proof (cases "is_conditional i \<and> is_return i")
    case True
    let ?m = "ins_mnemonic i"
    from assms(1) True obtain j where lr: "drop (length ?m - 2) ?m = ''lr''"
      and j: "parse_new arch (take (length ?m - 2) ?m) [AsmGlobalSymbol ret_label] (meta_derived (ins_meta i)) (bs_next s1) = Inr j"
      and s': "s' = s1\<lparr>cond_return_target := Some ret_label, bs_next := bs_next s1 + 1, bs_builder := new_block (add_instruction j ?b)\<rparr>"
      by (auto simp: process_no_delay_slots_def r lay Let_def rl [unfolded lay(4)] call_builder_def apply_call_def py_assert_def split: if_splits)
    have "?m = take (length ?m - 2) ?m @ ''lr''" using lr by (metis append_take_drop_id)
    with j True have "lowered arch i j" unfolding lowered_def by auto
    then show ?thesis using inv cutb True
      by (auto simp: laid_out_def s' Let_def new_block_table label_table_append cut_add conditional_return_def intro!: list_all2_appendI)
  next
    case False
    then have s': "s' = s1\<lparr>bs_builder := (if is_jump i' then new_block (add_instruction i' ?b) else add_instruction i' ?b)\<rparr>"
      using assms(1) by (auto simp: process_no_delay_slots_def r lay Let_def call_builder_def apply_call_def split: if_splits)
    have "lowered arch i i'" using False by (auto simp: lowered_def lay)
    then show ?thesis using inv cutb False
      by (auto simp: laid_out_def s' Let_def new_block_table label_table_append cut_add conditional_return_def lay(4) intro!: list_all2_appendI)
  qed
qed

lemma process_item_layout:
  "process_no_delay_slots arch p s = Inr s' \<Longrightarrow> laid_out arch ps s \<Longrightarrow> laid_out arch (ps @ [p]) s'"
  by (cases p) (auto simp: instruction_layout, simp add: process_no_delay_slots_def label_step_layout)

lemma efold_layout:
  "efold (process_no_delay_slots arch) ps s = Inr s' \<Longrightarrow> laid_out arch [] s \<Longrightarrow> laid_out arch ps s'"
  by (rule efold_prefix [where I = "laid_out arch"]) (auto intro: process_item_layout)

section \<open>The end of the function\<close>

lemma add_all_layout [simp]:
  "code_of (fold add_instruction is b) = code_of b @ is" "table_of (fold add_instruction is b) = table_of b"
  "bb_blocks (fold add_instruction is b) = bb_blocks b" "curr_instructions (fold add_instruction is b) = curr_instructions b @ is"
  by (induction "is" arbitrary: b) simp_all

lemma mark_safeguard_layout [simp]:
  "block_code (mark_safeguard bs) = block_code bs" "cut_at_jumps (mark_safeguard bs) = cut_at_jumps bs"
  "block_table n (mark_safeguard bs) = block_table n bs"
  by (cases bs rule: rev_cases; auto simp: mark_safeguard_def cut_at_jumps_def block_table_append block_names_def)+

lemma number_from_fields: "map ins_jump (number_from n is) = map ins_jump is" "number_from n is = [] \<longleftrightarrow> is = []"
  by (induction n "is" rule: number_from.induct) simp_all

lemma length_number_from [simp]: "length (number_from n is) = length is"
  by (induction n "is" rule: number_from.induct) simp_all

text \<open>A return sequence: not empty, and only its last instruction jumps.\<close>

definition return_sequence :: "instruction list \<Rightarrow> bool" where
  "return_sequence is \<longleftrightarrow> is \<noteq> [] \<and> (\<forall>i \<in> set (butlast is). \<not> is_jump i)"

lemma return_sequence_number: "return_sequence is \<Longrightarrow> return_sequence (number_from n is)"
proof -
  have "set (map is_jump (butlast (number_from n is))) = set (map is_jump (butlast is))"
    by (induction n "is" rule: number_from.induct) (auto simp: is_jump_def number_from_fields)
  then have "(\<forall>i \<in> set (butlast (number_from n is)). \<not> is_jump i) \<longleftrightarrow> (\<forall>i \<in> set (butlast is). \<not> is_jump i)"
    by (auto simp: set_eq_iff image_iff)
  then show "return_sequence is \<Longrightarrow> return_sequence (number_from n is)" by (simp add: return_sequence_def number_from_fields)
qed

lemma closed_table: "curr_label b = None \<Longrightarrow> table_of b = block_table 0 (bb_blocks b)"
  by (simp add: table_of_def)

lemma new_block_label: "curr_instructions b \<noteq> [] \<Longrightarrow> curr_label (new_block b) = None"
  by (simp add: new_block_def)

lemma add_return_layout:
  assumes "cut b" and "return_sequence is"
  defines "b' \<equiv> new_block (fold add_instruction is b)"
  shows "cut b'" "block_code (bb_blocks b') = code_of b @ is" "block_table 0 (bb_blocks b') = table_of b"
    "curr_label b' = None" "curr_instructions b' = []"
proof -
  have ne: "curr_instructions (fold add_instruction is b) \<noteq> []" using assms(2) by (simp add: return_sequence_def)
  show "cut b'" unfolding b'_def
    by (rule new_block_cut) (use assms(1,2) in \<open>auto simp: cut_def return_sequence_def butlast_append\<close>)
  show l: "curr_label b' = None" and c: "curr_instructions b' = []" unfolding b'_def using new_block_label [OF ne] by simp_all
  have "code_of b' = code_of b @ is" by (simp add: b'_def)
  then show "block_code (bb_blocks b') = code_of b @ is" by (simp add: code_of_def c)
  have "table_of b' = table_of b" by (simp add: b'_def new_block_table)
  then show "block_table 0 (bb_blocks b') = table_of b" by (simp add: closed_table l)
qed

lemma finish_blocks_layout:
  assumes "finish_blocks arch False s = Inr (bs, m)" and inv: "laid_out arch ps s" and ret: "return_sequence (missing_return arch)"
  defines "cond \<equiv> \<exists>i \<in> set (body_instrs ps). conditional_return i" and "len \<equiv> length (body_instrs ps)"
    and "tail \<equiv> missing_return arch"
  shows "\<exists>code a b. block_code bs = code @ number_from a tail @ (if cond then number_from b tail else []) \<and>
    list_all2 (lowered arch) (body_instrs ps) code \<and> cut_at_jumps bs \<and>
    block_table 0 bs = label_table 0 ps @ (if cond then [(ret_label, len + length tail)] else [])"
proof -
  let ?b = "bs_builder s" let ?n = "bs_next s"
  define b2 where "b2 = new_block (fold add_instruction (number_from ?n tail) ?b)"
  define b3 where "b3 = b2\<lparr>bb_blocks := mark_safeguard (bb_blocks b2)\<rparr>"
  have code: "list_all2 (lowered arch) (body_instrs ps) (code_of ?b)" and tab: "table_of ?b = label_table 0 ps" and cutb: "cut ?b"
    and ct: "cond_return_target s = (if cond then Some ret_label else None)" using inv by (simp_all add: laid_out_def Let_def cond_def)
  have len: "length (code_of ?b) = len" using list_all2_lengthD [OF code] by (simp add: len_def)
  note L = add_return_layout [OF cutb return_sequence_number [OF ret, of ?n], folded tail_def, folded b2_def]
  have L3: "cut b3" "code_of b3 = code_of ?b @ number_from ?n tail" "table_of b3 = table_of ?b" "curr_instructions b3 = []"
    "block_code (bb_blocks b3) = code_of ?b @ number_from ?n tail" "block_table 0 (bb_blocks b3) = table_of ?b"
    using L by (simp_all add: b3_def cut_def code_of_def table_of_def)
  show ?thesis
  proof (cases cond)
    case False
    then have "bs = bb_blocks b3" using assms(1) ct by (auto simp: finish_blocks_def Let_def b2_def b3_def tail_def split: if_splits)
    then show ?thesis using False L3 code tab by (auto simp: cut_def)
  next
    case True
    then obtain b4 where b4: "set_label (Label [ret_label]) b3 = Inr b4"
      and bs: "bs = bb_blocks (new_block (fold add_instruction (number_from (?n + length tail) tail) b4))"
      using assms(1) ct by (auto simp: finish_blocks_def Let_def b2_def b3_def tail_def split: if_splits)
    note S = set_label_layout [OF b4 L3(4)]
    have "cut b4" using L3(1) S(3,4) by (simp add: cut_def)
    note R = add_return_layout [OF this return_sequence_number [OF ret, of "?n + length tail"], folded tail_def, folded bs]
    show ?thesis using True code tab len R S L3 by (auto simp: cut_def bs)
  qed
qed

end
