(* ===== verification/Flow_Returns.thy ===== *)
theory Flow_Returns
  imports Flow_Build
begin

text \<open>
  The duplication of early returns unfolds the graph: every node of the result behaves like one
  of the original, and the result is again a graph with the exit last and all other nodes
  reachable.
\<close>

text \<open>Blocks with the same instructions, up to their identities and origin.\<close>

definition same_code :: "block \<Rightarrow> block \<Rightarrow> bool" where
  "same_code b c \<longleftrightarrow> blk_index b = blk_index c \<and>
     map (\<lambda>i. (ins_mnemonic i, ins_args i, inputs i, outputs i, clobbers i)) (blk_instrs b) =
     map (\<lambda>i. (ins_mnemonic i, ins_args i, inputs i, outputs i, clobbers i)) (blk_instrs c)"

lemma same_code_refl: "same_code b b"
  by (simp add: same_code_def)

lemma same_code_clone: "same_code (clone_block n b) b"
proof -
  have "map (\<lambda>i. (ins_mnemonic i, ins_args i, inputs i, outputs i, clobbers i)) (clone_all n is) =
    map (\<lambda>i. (ins_mnemonic i, ins_args i, inputs i, outputs i, clobbers i)) is" for "is"
    by (induction n "is" rule: clone_all.induct) (simp_all add: clone_def)
  then show ?thesis by (simp add: same_code_def clone_block_def)
qed

text \<open>The loop keeps: original nodes stand for themselves, new ones for the shared return.\<close>

definition ret_node :: "node_graph \<Rightarrow> nat" where
  "ret_node g = ng_order g ! (length (ng_order g) - 2)"

definition orig :: "node_graph \<Rightarrow> nat \<Rightarrow> nat" where
  "orig g n = (if n < ng_next g then n else ret_node g)"

definition dup_inv :: "node_graph \<Rightarrow> dup_state \<Rightarrow> bool" where
  "dup_inv g s \<longleftrightarrow> (let h = du_graph s in
     ng_order h = ng_order g \<and> du_extra s = [ng_next g..<ng_next h] \<and> ng_next g \<le> ng_next h \<and>
     (ng_next g < ng_next h \<longrightarrow> 3 \<le> length (ng_order g)) \<and>
     (\<forall>n < ng_next h. map (orig g) (succs (ng_kind h) n) = succs (ng_kind g) (orig g n) \<and>
        (\<forall>c \<in> set (succs (ng_kind h) n). c < ng_next h) \<and>
        same_code (ng_block h n) (ng_block g (orig g n)) \<and>
        (ng_kind h n = TerminalNode \<longleftrightarrow> n = 0) \<and> is_return_node (ng_kind h n) = is_return_node (ng_kind g (orig g n)) \<and>
        (\<forall>a b. ng_kind h n \<noteq> BasicNode a (Some b))))"

lemma node_graph_wfD:
  assumes "node_graph_wf g"
  shows "ng_order g \<noteq> []" and "ng_kind g 0 = TerminalNode" and "closed_graph (ng_order g) (succs (ng_kind g))"
    and "distinct (ng_order g)" and "set (ng_order g) = {..<ng_next g}" and "last (ng_order g) = 0" and "hd (ng_order g) \<noteq> 0"
    and "0 < ng_next g" and "n < ng_next g \<Longrightarrow> n \<noteq> 0 \<Longrightarrow> ng_kind g n \<noteq> TerminalNode"
    and "n < ng_next g \<Longrightarrow> n \<noteq> 0 \<Longrightarrow> ng_index g n < ng_index g 0"
    and "n < ng_next g \<Longrightarrow> n \<noteq> hd (ng_order g) \<Longrightarrow> ng_index g (hd (ng_order g)) < ng_index g n"
    and "n < ng_next g \<Longrightarrow> ng_kind g n \<noteq> BasicNode a (Some b)"
    and "n < ng_next g \<Longrightarrow> c \<in> set (succs (ng_kind g) n) \<Longrightarrow> c < ng_next g"
proof -
  show ne: "ng_order g \<noteq> []" and cl: "closed_graph (ng_order g) (succs (ng_kind g))" and "distinct (ng_order g)"
    and set: "set (ng_order g) = {..<ng_next g}" and last: "last (ng_order g) = 0" and "hd (ng_order g) \<noteq> 0"
    using assms unfolding node_graph_wf_def flow_nodes_def by blast+
  have "ng_kind g (last (ng_order g)) = TerminalNode" using assms unfolding node_graph_wf_def flow_nodes_def by blast
  then show "ng_kind g 0 = TerminalNode" using last by simp
  have "0 \<in> set (ng_order g)" using last_in_set [OF ne] last by simp
  then show "0 < ng_next g" unfolding set by simp
  have mem: "n \<in> set (ng_order g)" if "n < ng_next g" for n using that unfolding set by simp
  show "n < ng_next g \<Longrightarrow> n \<noteq> 0 \<Longrightarrow> ng_kind g n \<noteq> TerminalNode"
    and "n < ng_next g \<Longrightarrow> n \<noteq> 0 \<Longrightarrow> ng_index g n < ng_index g 0"
    and "n < ng_next g \<Longrightarrow> n \<noteq> hd (ng_order g) \<Longrightarrow> ng_index g (hd (ng_order g)) < ng_index g n"
    and "n < ng_next g \<Longrightarrow> ng_kind g n \<noteq> BasicNode a (Some b)"
    using assms mem unfolding node_graph_wf_def by blast+
  show "n < ng_next g \<Longrightarrow> c \<in> set (succs (ng_kind g) n) \<Longrightarrow> c < ng_next g"
    using cl mem [of n] unfolding closed_graph_def set by blast
qed

lemma dup_inv_init:
  assumes "node_graph_wf g"
  shows "dup_inv g \<lparr>du_graph = g, du_extra = [], du_index = 0, du_next = n\<rparr>"
proof -
  note D = node_graph_wfD [OF assms]
  have "map (orig g) (succs (ng_kind g) m) = succs (ng_kind g) m" if "m < ng_next g" for m
    using D(13) [OF that] by (intro map_idI) (simp add: orig_def)
  moreover have "ng_kind g m = TerminalNode \<longleftrightarrow> m = 0" if "m < ng_next g" for m using D(2,9) that by metis
  ultimately show ?thesis using D(12,13) by (simp add: dup_inv_def orig_def same_code_refl)
qed

lemma ret_node_mem:
  assumes "node_graph_wf g" and "3 \<le> length (ng_order g)"
  shows "ret_node g < ng_next g" and "ret_node g \<noteq> hd (ng_order g)" and "ret_node g \<noteq> 0"
proof -
  have d: "distinct (ng_order g)" and s: "set (ng_order g) = {..<ng_next g}" and l: "last (ng_order g) = 0" and ne: "ng_order g \<noteq> []"
    using node_graph_wfD [OF assms(1)] by blast+
  let ?k = "length (ng_order g) - 2"
  have k: "?k < length (ng_order g)" "?k \<noteq> 0" "?k \<noteq> length (ng_order g) - 1" using assms(2) by auto
  then have "ret_node g \<in> set (ng_order g)" unfolding ret_node_def using nth_mem by blast
  then show "ret_node g < ng_next g" unfolding s by simp
  have "ng_order g ! ?k \<noteq> ng_order g ! 0" using d k ne nth_eq_iff_index_eq [of "ng_order g" ?k 0] by simp
  then show "ret_node g \<noteq> hd (ng_order g)" using ne by (simp add: ret_node_def hd_conv_nth)
  have "ng_order g ! ?k \<noteq> ng_order g ! (length (ng_order g) - 1)"
    using d k ne nth_eq_iff_index_eq [of "ng_order g" ?k "length (ng_order g) - 1"] by simp
  then show "ret_node g \<noteq> 0" using l ne by (simp add: ret_node_def last_conv_nth)
qed

lemma dup_return_step:
  assumes wf: "node_graph_wf g" and inv: "dup_inv g s" and n: "n \<in> set (ng_order g)"
  shows "\<exists>s'. dup_return arch n s = Inr s' \<and> dup_inv g s'"
proof -
  let ?h = "du_graph s"
  have ord: "ng_order ?h = ng_order g" and ext: "du_extra s = [ng_next g..<ng_next ?h]" and le: "ng_next g \<le> ng_next ?h"
    using inv by (auto simp: dup_inv_def Let_def)
  have each: "map (orig g) (succs (ng_kind ?h) m) = succs (ng_kind g) (orig g m)"
      "\<forall>c \<in> set (succs (ng_kind ?h) m). c < ng_next ?h" "same_code (ng_block ?h m) (ng_block g (orig g m))"
      "ng_kind ?h m = TerminalNode \<longleftrightarrow> m = 0" "is_return_node (ng_kind ?h m) = is_return_node (ng_kind g (orig g m))"
      "ng_kind ?h m \<noteq> BasicNode a (Some b)" if "m < ng_next ?h" for m a b
    using inv that unfolding dup_inv_def Let_def by blast+
  have ng: "n < ng_next g" using n unfolding node_graph_wfD(5) [OF wf] by simp
  then have nh: "n < ng_next ?h" and on: "orig g n = n" using le by (auto simp: orig_def)
  have trm: "ng_kind ?h (ng_order g ! (length (ng_order g) - 1)) = TerminalNode" if "3 \<le> length (ng_order g)"
  proof -
    have "ng_order g \<noteq> []" using that by auto
    then have "ng_order g ! (length (ng_order g) - 1) = 0" using node_graph_wfD(6) [OF wf] by (simp add: last_conv_nth)
    then show ?thesis using each(4) [of 0] ng le by simp
  qed
  then obtain b where b: "\<And>succ. is_premature_return arch ?h n succ = Inr (b succ)"
    and bt: "\<And>succ. b succ \<Longrightarrow> 3 \<le> length (ng_order g) \<and> is_return_node (ng_kind ?h succ) \<and> succ = ret_node g"
    by (rule_tac that [of "\<lambda>succ. 3 \<le> length (ng_order g) \<and> is_return_node (ng_kind ?h succ) \<and> succ = ret_node g \<and>
          is_trivial_return_block arch (ng_block ?h succ) \<and> is_basic (ng_kind ?h n) \<and> n \<noteq> ng_order g ! (length (ng_order g) - 3)"])
      (auto simp: is_premature_return_def Let_def ord ret_node_def)
  show ?thesis
  proof (cases "ng_kind ?h n")
    case (BasicNode succ fake)
    show ?thesis
    proof (cases "ng_goto ?h n \<or> \<not> b succ")
      case True
      then show ?thesis using BasicNode b inv by (auto simp: dup_return_def Let_def)
    next
      case False
      then have bs: "b succ" by simp
      then have ret: "succ = ret_node g" "3 \<le> length (ng_order g)" "is_return_node (ng_kind ?h succ)" using bt by auto
      then obtain i t where rk: "ng_kind ?h succ = ReturnNode i t" by (auto simp: is_return_node_def split: node_kind.splits)
      note rm = ret_node_mem [OF wf ret(2)]
      have rh: "succ < ng_next ?h" and os: "orig g succ = succ" using rm(1) le ret(1) by (auto simp: orig_def)
      let ?new = "ng_next ?h"
      let ?kind = "(ng_kind ?h)(?new := ReturnNode (du_index s + 1) t, n := BasicNode ?new fake)"
      let ?blk = "(ng_block ?h)(?new := clone_block (du_next s) (ng_block ?h succ))"
      let ?s = "s\<lparr>du_graph := ?h\<lparr>ng_kind := ?kind, ng_block := ?blk, ng_goto := (ng_goto ?h)(?new := False), ng_next := ?new + 1\<rparr>,
                  du_extra := du_extra s @ [?new], du_index := du_index s + 1,
                  du_next := du_next s + length (blk_instrs (ng_block ?h succ))\<rparr>"
      have fake: "fake = None" using each(6) [OF nh] BasicNode by (cases fake) auto
      have onew: "orig g ?new = ret_node g" using le by (simp add: orig_def)
      have t: "t < ?new" using each(2) [OF rh] rk by (simp add: succs_def)
      have succn: "succs (ng_kind g) n = [ret_node g]"
        using each(1) [OF nh] BasicNode fake on os ret(1) by (simp add: succs_def)
      have succr: "succs (ng_kind g) (ret_node g) = [orig g t]"
        using each(1) [OF rh] rk os ret(1) by (simp add: succs_def)
      have rg: "is_return_node (ng_kind g (ret_node g))" using each(5) [OF rh] os ret(1,3) by simp
      have nb: "\<not> is_return_node (ng_kind g n)" using each(5) [OF nh] BasicNode on by (simp add: is_return_node_def)
      have all: "map (orig g) (succs ?kind m) = succs (ng_kind g) (orig g m)" "\<forall>c \<in> set (succs ?kind m). c < ?new + 1"
        "same_code (?blk m) (ng_block g (orig g m))" "?kind m = TerminalNode \<longleftrightarrow> m = 0"
        "is_return_node (?kind m) = is_return_node (ng_kind g (orig g m))" "?kind m \<noteq> BasicNode x (Some y)"
        if m: "m < ?new + 1" for m x y
      proof -
        consider (new) "m = ?new" | (n) "m = n" "m \<noteq> ?new" | (old) "m \<noteq> n" "m \<noteq> ?new" "m < ?new" using m by linarith
        then have "map (orig g) (succs ?kind m) = succs (ng_kind g) (orig g m) \<and> (\<forall>c \<in> set (succs ?kind m). c < ?new + 1) \<and>
          same_code (?blk m) (ng_block g (orig g m)) \<and> (?kind m = TerminalNode \<longleftrightarrow> m = 0) \<and>
          is_return_node (?kind m) = is_return_node (ng_kind g (orig g m)) \<and> ?kind m \<noteq> BasicNode x (Some y)"
        proof cases
          case new
          have "same_code (clone_block (du_next s) (ng_block ?h succ)) (ng_block g (ret_node g))"
            using same_code_clone [of "du_next s" "ng_block ?h succ"] each(3) [OF rh] os ret(1) by (simp add: same_code_def)
          with new show ?thesis using onew succr t rg nh by (simp add: succs_def is_return_node_def)
        next
          case n
          have "n \<noteq> 0" using each(4) [OF nh] BasicNode by auto
          then show ?thesis using n on onew succn fake nb each(3) [OF nh] by (simp add: succs_def is_return_node_def)
        next
          case old
          then show ?thesis using each [OF old(3)] by (auto simp: succs_def less_Suc_eq)
        qed
        then show "map (orig g) (succs ?kind m) = succs (ng_kind g) (orig g m)" "\<forall>c \<in> set (succs ?kind m). c < ?new + 1"
          "same_code (?blk m) (ng_block g (orig g m))" "?kind m = TerminalNode \<longleftrightarrow> m = 0"
          "is_return_node (?kind m) = is_return_node (ng_kind g (orig g m))" "?kind m \<noteq> BasicNode x (Some y)" by blast+
      qed
      have "dup_inv g ?s" using ord ext le ret(2) all unfolding dup_inv_def Let_def by simp
      moreover have "dup_return arch n s = Inr ?s" using BasicNode False b bs rk by (simp add: dup_return_def Let_def)
      ultimately show ?thesis by blast
    qed
  qed (use inv in \<open>simp_all add: dup_return_def Let_def\<close>)
qed

section \<open>The whole pass\<close>

lemma filter_ends:
  assumes "xs \<noteq> []"
  shows "P (last xs) \<Longrightarrow> last (filter P xs) = last xs" and "P (hd xs) \<Longrightarrow> hd (filter P xs) = hd xs"
  using assms by (cases xs rule: rev_cases, simp_all, cases xs, simp_all)

lemma duplicate_premature_returns_result:
  assumes pk: "picks pick" and wf: "node_graph_wf g"
  shows "\<exists>h m. duplicate_premature_returns pick arch g n = Inr (h, m) \<and>
    flow_nodes (ng_order h) (ng_kind h) \<and> distinct (ng_order h) \<and>
    hd (ng_order h) = hd (ng_order g) \<and> last (ng_order h) = last (ng_order g) \<and>
    (\<forall>k \<in> set (ng_order h). k = last (ng_order h) \<or> reaches (succs (ng_kind h)) (hd (ng_order h)) k) \<and>
    (\<forall>k \<in> set (ng_order h). orig g k \<in> set (ng_order g) \<and> (k \<in> set (ng_order g) \<longrightarrow> orig g k = k) \<and>
       map (orig g) (succs (ng_kind h) k) = succs (ng_kind g) (orig g k) \<and>
       same_code (ng_block h k) (ng_block g (orig g k)) \<and>
       is_return_node (ng_kind h k) = is_return_node (ng_kind g (orig g k)))"
proof -
  note D = node_graph_wfD [OF wf]
  let ?s0 = "\<lparr>du_graph = g, du_extra = [], du_index = 0, du_next = n\<rparr>"
  obtain s where s: "efold (dup_return arch) (ng_order g) ?s0 = Inr s" and inv: "dup_inv g s"
  proof -
    have "\<exists>s. efold (dup_return arch) (ng_order g) ?s0 = Inr s \<and> dup_inv g s"
      by (rule efold_inv) (rule dup_return_step [OF wf], assumption+, rule dup_inv_init [OF wf])
    then show thesis using that by (elim exE conjE)
  qed
  define h where "h = du_graph s"
  have ord: "ng_order h = ng_order g" and ext: "du_extra s = [ng_next g..<ng_next h]" and le: "ng_next g \<le> ng_next h"
    and three: "ng_next g < ng_next h \<Longrightarrow> 3 \<le> length (ng_order g)"
    using inv by (simp_all add: dup_inv_def Let_def h_def)
  have each: "map (orig g) (succs (ng_kind h) m) = succs (ng_kind g) (orig g m)"
      "\<And>c. c \<in> set (succs (ng_kind h) m) \<Longrightarrow> c < ng_next h" "same_code (ng_block h m) (ng_block g (orig g m))"
      "ng_kind h m = TerminalNode \<longleftrightarrow> m = 0" "is_return_node (ng_kind h m) = is_return_node (ng_kind g (orig g m))"
      "ng_kind h m \<noteq> BasicNode a (Some b)" if "m < ng_next h" for m a b
    using inv that unfolding dup_inv_def Let_def h_def by blast+
  let ?xs = "ng_order g @ du_extra s" let ?f = "ng_index h" let ?ns = "sort_key (ng_index h) ?xs"
  have set: "set ?xs = {..<ng_next h}" unfolding set_append D(5) ext using le by auto
  have dis: "distinct ?xs" unfolding distinct_append D(5) ext using D(4) by auto
  have idx: "ng_index h m = ng_index g (orig g m)" if "m < ng_next h" for m using each(3) [OF that] by (simp add: ng_index_def same_code_def)
  have h0: "0 < ng_next h" using D(8) le by simp
  have hm: "hd (ng_order g) < ng_next g" using hd_in_set [OF D(1)] unfolding D(5) by simp
  have o0: "orig g 0 = 0" and oh: "orig g (hd (ng_order g)) = hd (ng_order g)" using D(8) hm by (auto simp: orig_def)
  have onz: "orig g m < ng_next g \<and> (m \<noteq> 0 \<longrightarrow> orig g m \<noteq> 0) \<and> (m \<noteq> hd (ng_order g) \<longrightarrow> orig g m \<noteq> hd (ng_order g))" if "m < ng_next h" for m
    using ret_node_mem [OF wf three] that by (cases "m < ng_next g") (auto simp: orig_def)
  have last: "last ?ns = 0"
  proof (rule sort_key_ends(1))
    show "0 \<in> set ?xs" unfolding set using h0 by simp
    fix y assume "y \<in> set ?xs" "y \<noteq> 0"
    then have "y < ng_next h" unfolding set by simp
    then show "ng_index h y < ng_index h 0" using idx [of y] idx [OF h0] o0 onz [of y] \<open>y \<noteq> 0\<close> D(10) by simp
  qed
  have hd: "hd ?ns = hd (ng_order g)"
  proof (rule sort_key_ends(2))
    show "hd (ng_order g) \<in> set ?xs" using hd_in_set [OF D(1)] by simp
    fix y assume "y \<in> set ?xs" "y \<noteq> hd (ng_order g)"
    then have "y < ng_next h" unfolding set by simp
    moreover have "hd (ng_order g) < ng_next h" using hm le by simp
    ultimately show "ng_index h (hd (ng_order g)) < ng_index h y" using idx oh onz [of y] \<open>y \<noteq> hd (ng_order g)\<close> D(11) by simp
  qed
  have "length ?ns \<noteq> 0" using D(1) unfolding length_sort length_append length_0_conv [symmetric] by linarith
  then have ne: "?ns \<noteq> []" unfolding length_0_conv .
  have "set ?ns = {..<ng_next h}" unfolding set_sort by (rule set)
  note ns = ne this
  have cl: "closed_graph ?ns (succs (ng_kind h))" unfolding closed_graph_def ns(2) using each(2) by auto
  have t0: "{m \<in> set ?ns. ng_kind h m = TerminalNode} = {0}" unfolding ns(2) using each(4) h0 by auto
  have c0: "succs (ng_kind h) 0 = []" using each(4) [OF h0] by (simp add: succs_def)
  have "card (set ?ns - {0}) + card ({hd ?ns} \<inter> {0}) \<le> Suc (length ?ns)"
  proof -
    have "card (set ?ns - {0}) \<le> length ?ns" using card_mono [of "set ?ns" "set ?ns - {0}"] card_length [of ?ns] by simp
    moreover have "card ({hd ?ns} \<inter> {0}) \<le> 1" using card_mono [of "{hd ?ns}" "{hd ?ns} \<inter> {0}"] by simp
    ultimately show ?thesis by simp
  qed
  moreover have "{hd ?ns} \<subseteq> set ?ns" using hd_in_set [OF ns(1)] by simp
  ultimately obtain seen where fl: "flood (Suc (length ?ns)) pick (succs (ng_kind h)) {0} {hd ?ns} = Inr seen"
    using flood_enough_fuel [OF pk cl] by blast
  have "\<forall>x \<in> {0}. set (succs (ng_kind h) x) \<subseteq> {0} \<union> {hd ?ns}" using c0 by simp
  from flood_result [OF pk fl _ this] have seen: "seen = insert 0 {x. reaches (succs (ng_kind h)) (hd ?ns) x}" by simp
  define os where "os = filter (\<lambda>m. m \<in> seen) ?ns"
  let ?h = "h\<lparr>ng_order := os\<rparr>"
  have res: "duplicate_premature_returns pick arch g n = Inr (?h, du_next s)"
    using s fl ns(1) t0 ord unfolding duplicate_premature_returns_def h_def [symmetric] by (simp add: h_def [symmetric] Let_def os_def)
  have mem: "k \<in> set os \<longleftrightarrow> k < ng_next h \<and> k \<in> seen" for k unfolding os_def set_filter ns(2) by auto
  have hdo: "hd os = hd (ng_order g)" unfolding os_def using filter_ends(2) [OF ns(1)] hd seen by simp
  have lasto: "last os = 0" unfolding os_def using filter_ends(1) [OF ns(1)] last seen by simp
  have "closed_graph os (succs (ng_kind h))"
    unfolding closed_graph_def
  proof (intro ballI subsetI)
    fix k c assume k: "k \<in> set os" and c: "c \<in> set (succs (ng_kind h) k)"
    have "k \<noteq> 0"
    proof
      assume "k = 0"
      with c c0 show False by simp
    qed
    then have "reaches (succs (ng_kind h)) (hd ?ns) k" using k unfolding mem seen by simp
    then have "reaches (succs (ng_kind h)) (hd ?ns) c" using c by (rule rtranclp.rtrancl_into_rtrancl)
    then show "c \<in> set os" using each(2) [OF _ c] k unfolding mem seen by simp
  qed
  moreover have "0 \<in> set os" unfolding mem seen using h0 by simp
  then have "os \<noteq> []" by (metis empty_iff list.set(1))
  ultimately have flow: "flow_nodes os (ng_kind h)"
    unfolding flow_nodes_def lasto using each(4) [OF h0] each(6) mem by blast
  have "orig g k \<in> set (ng_order g) \<and> (k \<in> set (ng_order g) \<longrightarrow> orig g k = k) \<and>
       map (orig g) (succs (ng_kind h) k) = succs (ng_kind g) (orig g k) \<and>
       same_code (ng_block h k) (ng_block g (orig g k)) \<and>
       is_return_node (ng_kind h k) = is_return_node (ng_kind g (orig g k))" if "k \<in> set os" for k
  proof -
    have k: "k < ng_next h" using that mem by blast
    have "k \<in> set (ng_order g) \<longrightarrow> orig g k = k" unfolding D(5) by (simp add: orig_def)
    moreover have "orig g k \<in> set (ng_order g)" unfolding D(5) using onz [OF k] by simp
    ultimately show ?thesis using each(1,3,5) [OF k] by blast
  qed
  moreover have "distinct os" unfolding os_def using dis by simp
  moreover have "\<forall>k \<in> set os. k = last os \<or> reaches (succs (ng_kind h)) (hd os) k" unfolding lasto hdo using mem seen hd by auto
  ultimately have fin: "flow_nodes os (ng_kind h) \<and> distinct os \<and> hd os = hd (ng_order g) \<and> last os = last (ng_order g) \<and>
    (\<forall>k \<in> set os. k = last os \<or> reaches (succs (ng_kind h)) (hd os) k) \<and>
    (\<forall>k \<in> set os. orig g k \<in> set (ng_order g) \<and> (k \<in> set (ng_order g) \<longrightarrow> orig g k = k) \<and>
       map (orig g) (succs (ng_kind h) k) = succs (ng_kind g) (orig g k) \<and>
       same_code (ng_block h k) (ng_block g (orig g k)) \<and>
       is_return_node (ng_kind h k) = is_return_node (ng_kind g (orig g k)))"
    using flow hdo lasto D(6) by (intro conjI ballI) (assumption | simp)+
  have sel: "ng_order ?h = os" "ng_kind ?h = ng_kind h" "ng_block ?h = ng_block h" by simp_all
  show ?thesis by (rule exI [of _ ?h], rule exI [of _ "du_next s"], rule conjI [OF res], unfold sel, rule fin)
qed

end
