(* ===== verification/Flow_Copies.thy ===== *)
theory Flow_Copies
  imports Flow_Returns
begin

text \<open>
  What the duplication of early returns achieves: every basic node that jumped to the shared
  return early gets a return of its own, and no other edge changes.
\<close>

text \<open>A node whose edge to the shared return is to be redirected.\<close>

definition premature :: "arch_asm \<Rightarrow> node_graph \<Rightarrow> nat \<Rightarrow> bool" where
  "premature arch g n \<longleftrightarrow> \<not> ng_goto g n \<and>
     (case ng_kind g n of BasicNode succ _ \<Rightarrow> is_premature_return arch g n succ = Inr True | _ \<Rightarrow> False)"

definition has_copy :: "node_graph \<Rightarrow> node_graph \<Rightarrow> nat \<Rightarrow> bool" where
  "has_copy g h n \<longleftrightarrow> (\<exists>c. ng_kind h n = BasicNode c None \<and> ng_next g \<le> c \<and> c < ng_next h \<and>
     (\<forall>n' < ng_next g. ng_kind h n' = BasicNode c None \<longrightarrow> n' = n))"

definition copied :: "arch_asm \<Rightarrow> node_graph \<Rightarrow> nat list \<Rightarrow> node_graph \<Rightarrow> bool" where
  "copied arch g ps h \<longleftrightarrow> ng_order h = ng_order g \<and> ng_next g \<le> ng_next h \<and>
     (\<forall>n < ng_next g. ng_block h n = ng_block g n \<and> ng_goto h n = ng_goto g n \<and>
        (if n \<in> set ps \<and> premature arch g n then has_copy g h n else ng_kind h n = ng_kind g n))"

lemma copiedD:
  assumes "copied arch g ps h" and "n < ng_next g"
  shows "ng_block h n = ng_block g n" and "ng_goto h n = ng_goto g n"
    and "n \<in> set ps \<Longrightarrow> premature arch g n \<Longrightarrow> has_copy g h n"
    and "n \<notin> set ps \<or> \<not> premature arch g n \<Longrightarrow> ng_kind h n = ng_kind g n"
proof -
  have "ng_block h n = ng_block g n \<and> ng_goto h n = ng_goto g n \<and>
    (if n \<in> set ps \<and> premature arch g n then has_copy g h n else ng_kind h n = ng_kind g n)"
    using assms unfolding copied_def by blast
  then show "ng_block h n = ng_block g n" "ng_goto h n = ng_goto g n"
    "n \<in> set ps \<Longrightarrow> premature arch g n \<Longrightarrow> has_copy g h n"
    "n \<notin> set ps \<or> \<not> premature arch g n \<Longrightarrow> ng_kind h n = ng_kind g n" by (simp_all split: if_splits)
qed

lemma copied_BasicNode:
  assumes "copied arch g ps h" and "n < ng_next g" and "ng_kind h n = BasicNode c None"
  shows "ng_kind g n = BasicNode c None \<or> c < ng_next h"
  using copiedD(3,4) [OF assms(1,2)] assms(3) by (cases "n \<in> set ps \<and> premature arch g n") (auto simp: has_copy_def)

lemma copied_is_basic:
  assumes "copied arch g ps h" and "n < ng_next g" and "is_basic (ng_kind g n)"
  shows "is_basic (ng_kind h n)"
proof (cases "n \<in> set ps \<and> premature arch g n")
  case True
  then obtain c where "ng_kind h n = BasicNode c None" using copiedD(3) [OF assms(1,2)] by (auto simp: has_copy_def)
  then show ?thesis by (simp add: is_basic_def)
next
  case False
  then show ?thesis using copiedD(4) [OF assms(1,2)] assms(3) by simp
qed

lemma premature_cong:
  assumes "ng_order h = ng_order g" and "ng_kind h n = ng_kind g n" and "ng_kind h succ = ng_kind g succ"
    and "ng_kind h (ng_order g ! (length (ng_order g) - 1)) = ng_kind g (ng_order g ! (length (ng_order g) - 1))"
    and "ng_block h succ = ng_block g succ"
  shows "is_premature_return arch h n succ = is_premature_return arch g n succ"
  using assms by (simp add: is_premature_return_def Let_def)

lemma copied_kind:
  assumes "copied arch g ps h" and "n < ng_next g" and "\<not> is_basic (ng_kind g n)"
  shows "ng_kind h n = ng_kind g n"
proof -
  have "\<not> premature arch g n" using assms(3) by (auto simp: premature_def is_basic_def split: node_kind.splits)
  then show ?thesis using copiedD(4) [OF assms(1,2)] by simp
qed

lemma copied_premature_return:
  assumes wf: "node_graph_wf g" and cp: "copied arch g ps h" and n: "n < ng_next g" "n \<notin> set ps"
    and k: "ng_kind g n = BasicNode succ None"
  shows "is_premature_return arch h n succ = is_premature_return arch g n succ"
proof -
  have succ: "succ < ng_next g" using node_graph_wfD(13) [OF wf n(1), of succ] k by (simp add: succs_def)
  have ord: "ng_order h = ng_order g" and blk: "ng_block h succ = ng_block g succ" and kn: "ng_kind h n = ng_kind g n"
    using cp copiedD(1) [OF cp succ] copiedD(4) [OF cp n(1)] n(2) by (simp_all add: copied_def)
  have "ng_order g ! (length (ng_order g) - 1) = 0"
    using node_graph_wfD(1,6) [OF wf] by (simp add: last_conv_nth)
  moreover have "ng_kind h 0 = ng_kind g 0"
    using copied_kind [OF cp node_graph_wfD(8) [OF wf]] node_graph_wfD(2) [OF wf] by (simp add: is_basic_def)
  ultimately have t: "ng_kind h (ng_order g ! (length (ng_order g) - 1)) = ng_kind g (ng_order g ! (length (ng_order g) - 1))" by simp
  show ?thesis
  proof (cases "is_basic (ng_kind g succ)")
    case True
    then have "is_basic (ng_kind h succ)" by (rule copied_is_basic [OF cp succ])
    with True have "\<not> is_return_node (ng_kind g succ)" "\<not> is_return_node (ng_kind h succ)"
      by (auto simp: is_return_node_def is_basic_def split: node_kind.splits)
    then show ?thesis using ord t by (simp add: is_premature_return_def Let_def)
  next
    case False
    then show ?thesis using premature_cong [OF ord kn copied_kind [OF cp succ] t blk] by simp
  qed
qed

lemma copied_keep:
  assumes "copied arch g ps h" and "\<not> premature arch g n"
  shows "copied arch g (ps @ [n]) h"
  using assms by (auto simp: copied_def)

lemma copied_step:
  assumes wf: "node_graph_wf g" and cp: "copied arch g ps (du_graph s)" and n: "n \<in> set (ng_order g)" "n \<notin> set ps"
    and r: "dup_return arch n s = Inr s'"
  shows "copied arch g (ps @ [n]) (du_graph s')"
proof -
  let ?h = "du_graph s"
  have ng: "n < ng_next g" using n(1) unfolding node_graph_wfD(5) [OF wf] by simp
  have kn: "ng_kind ?h n = ng_kind g n" and gt: "ng_goto ?h n = ng_goto g n" and le: "ng_next g \<le> ng_next ?h"
    using cp copiedD(2,4) [OF cp ng] n(2) by (simp_all add: copied_def)
  show ?thesis
  proof (cases "premature arch g n")
    case False
    have "s' = s"
    proof (cases "ng_kind g n")
      case (BasicNode succ fake)
      then have "fake = None" using node_graph_wfD(12) [OF wf ng] by (cases fake) auto
      with BasicNode have "is_premature_return arch ?h n succ = is_premature_return arch g n succ"
        using copied_premature_return [OF wf cp ng n(2)] by simp
      then show ?thesis using False r kn gt BasicNode
        by (auto simp: dup_return_def premature_def Let_def split: node_kind.splits if_splits)
    qed (use r kn in \<open>simp_all add: dup_return_def Let_def\<close>)
    then show ?thesis using copied_keep [OF cp False] by simp
  next
    case True
    then obtain succ fake where k: "ng_kind g n = BasicNode succ fake" and p: "is_premature_return arch g n succ = Inr True" "\<not> ng_goto g n"
      by (auto simp: premature_def split: node_kind.splits)
    have fake: "fake = None" using node_graph_wfD(12) [OF wf ng] k by (cases fake) auto
    let ?new = "ng_next ?h"
    have kh: "ng_kind ?h n = BasicNode succ None" and pm: "is_premature_return arch ?h n succ = Inr True" and gh: "\<not> ng_goto ?h n"
      using kn gt k fake p copied_premature_return [OF wf cp ng n(2) k [unfolded fake]] by simp_all
    obtain i t where rk: "ng_kind ?h succ = ReturnNode i t"
      using r by (cases "ng_kind ?h succ") (simp_all add: dup_return_def Let_def kh pm gh)
    have g': "ng_kind (du_graph s') = (ng_kind ?h)(?new := ReturnNode (du_index s + 1) t, n := BasicNode ?new None)"
      "ng_next (du_graph s') = ?new + 1" "ng_order (du_graph s') = ng_order ?h"
      "\<And>m. m \<noteq> ?new \<Longrightarrow> ng_block (du_graph s') m = ng_block ?h m \<and> ng_goto (du_graph s') m = ng_goto ?h m"
      using r by (simp_all add: dup_return_def Let_def kh pm gh rk) auto
    have copy: "has_copy g (du_graph s') m" if "has_copy g ?h m" "m \<noteq> n" "m < ng_next g" for m
    proof -
      from that(1) obtain c where c: "ng_kind ?h m = BasicNode c None" "ng_next g \<le> c" "c < ?new"
        "\<forall>n' < ng_next g. ng_kind ?h n' = BasicNode c None \<longrightarrow> n' = m" unfolding has_copy_def by (elim exE conjE)
      show ?thesis unfolding has_copy_def
      proof (intro exI [of _ c] conjI allI impI)
        show "ng_kind (du_graph s') m = BasicNode c None" "ng_next g \<le> c" "c < ng_next (du_graph s')"
          using c(1,2,3) that(2,3) le by (simp_all add: g')
        fix n' assume n': "n' < ng_next g" and e: "ng_kind (du_graph s') n' = BasicNode c None"
        have "n' \<noteq> ?new" using n' le by simp
        moreover have "n' \<noteq> n" using e c(3) by (auto simp: g')
        ultimately have "ng_kind ?h n' = BasicNode c None" using e by (simp add: g')
        then show "n' = m" using c(4) n' by blast
      qed
    qed
    have fresh: "ng_kind ?h m \<noteq> BasicNode ?new None" if m: "m < ng_next g" for m
    proof
      assume b: "ng_kind ?h m = BasicNode ?new None"
      then have "ng_kind g m = BasicNode ?new None" using copied_BasicNode [OF cp m] by auto
      then have "?new < ng_next g" using node_graph_wfD(13) [OF wf m, of ?new] by (simp add: succs_def)
      with le show False by simp
    qed
    have new: "has_copy g (du_graph s') n" using ng le fresh by (auto simp: has_copy_def g')
    show ?thesis unfolding copied_def
    proof (intro conjI allI impI)
      show "ng_order (du_graph s') = ng_order g" "ng_next g \<le> ng_next (du_graph s')" using cp g' le by (simp_all add: copied_def)
      fix m assume m: "m < ng_next g"
      then have "m \<noteq> ?new" using le by simp
      then show "ng_block (du_graph s') m = ng_block g m" "ng_goto (du_graph s') m = ng_goto g m"
        using g'(4) copiedD(1,2) [OF cp m] by simp_all
      show "if m \<in> set (ps @ [n]) \<and> premature arch g m then has_copy g (du_graph s') m else ng_kind (du_graph s') m = ng_kind g m"
      proof (cases "m = n")
        case False
        then show ?thesis using copiedD(3,4) [OF cp m] copy [OF _ False m] \<open>m \<noteq> ?new\<close> by (auto simp: g')
      qed (use True new in simp)
    qed
  qed
qed

lemma duplicate_premature_returns_copies:
  assumes wf: "node_graph_wf g" and r: "duplicate_premature_returns pick arch g n = Inr (h, m)"
  shows "k < ng_next g \<Longrightarrow> if premature arch g k then has_copy g h k else ng_kind h k = ng_kind g k"
proof -
  assume k: "k < ng_next g"
  let ?s0 = "\<lparr>du_graph = g, du_extra = [], du_index = 0, du_next = n\<rparr>"
  from r obtain s where s: "efold (dup_return arch) (ng_order g) ?s0 = Inr s"
    and h: "ng_kind h = ng_kind (du_graph s)" "ng_next h = ng_next (du_graph s)"
    unfolding duplicate_premature_returns_def Let_def by (auto split: if_splits)
  have "copied arch g (ng_order g) (du_graph s)"
  proof (rule efold_prefix [OF s, where I = "\<lambda>ps s. copied arch g ps (du_graph s)"])
    show "copied arch g [] (du_graph ?s0)" by (simp add: copied_def)
    fix ps q rest s s'
    assume o: "ng_order g = ps @ q # rest" and cp: "copied arch g ps (du_graph s)" and r: "dup_return arch q s = Inr s'"
    have "q \<in> set (ng_order g)" "q \<notin> set ps" using node_graph_wfD(4) [OF wf] unfolding o by simp_all
    then show "copied arch g (ps @ [q]) (du_graph s')" using cp r by (intro copied_step [OF wf])
  qed
  moreover have "k \<in> set (ng_order g)" using k unfolding node_graph_wfD(5) [OF wf] by simp
  ultimately have "if premature arch g k then has_copy g (du_graph s) k else ng_kind (du_graph s) k = ng_kind g k"
    using copiedD(3,4) [OF _ k] by simp
  then show ?thesis unfolding has_copy_def h .
qed

end
