(* ===== verification/Flow_Sources.thy ===== *)
theory Flow_Sources
  imports Flow_Refs Flow_Reducible
begin

text \<open>
  The inputs recorded for an instruction are exactly its reaching definitions: a location has
  sources iff it is defined on every path from the entry, and then the sources are the last
  definitions along those paths.
\<close>

section \<open>Operations on reference sets and dictionaries\<close>

named_theorems ref_simps

lemma set_ref_add [ref_simps]: "set (ref_add rs x) = insert x (set rs)"
  by (auto simp: ref_add_def)

lemma set_ref_update [ref_simps]: "set (ref_update rs xs) = set rs \<union> set xs"
  by (induction xs arbitrary: rs) (auto simp: ref_simps)

lemma distinct_ref_add [ref_simps]: "distinct (ref_add rs x) = distinct rs"
  by (auto simp: ref_add_def)

lemma loc_get_add [ref_simps]: "loc_get (loc_add d l x) l' = (if l' = l then ref_add (loc_get d l) x else loc_get d l')"
  by (auto simp: loc_add_def loc_get_def loc_contains_def update_conv ref_add_def split: option.splits)

lemma loc_get_remove [ref_simps]: "loc_get (loc_remove d l) l' = (if l' = l then [] else loc_get d l')"
  by (simp add: loc_get_def loc_remove_def delete_conv)

lemma loc_get_update [ref_simps]: "loc_get (AList.update l rs d) l' = (if l' = l then rs else loc_get d l')"
  by (simp add: loc_get_def update_conv)

lemma loc_get_discard [ref_simps]: "loc_get (loc_discard l d) l' = (if l' = l then [] else loc_get d l')"
  by (auto simp: loc_discard_def loc_contains_def ref_simps)

lemma loc_get_discards: "loc_get (fold loc_discard ls d) l = (if l \<in> set ls then [] else loc_get d l)"
  by (induction ls arbitrary: d) (auto simp: ref_simps)

lemma loc_get_adds:
  "loc_get (fold (\<lambda>out d. loc_add d out x) ls d) l = (if l \<in> set ls then ref_add (loc_get d l) x else loc_get d l)"
  by (induction ls arbitrary: d) (auto simp: ref_simps ref_add_def)

lemma loc_get_advance:
  "loc_get (advance_sources (i, ins) d) l =
     (if l \<in> set (outputs ins) then [InstrRef i] else if l \<in> set (clobbers ins) then [] else loc_get d l)"
  by (auto simp: advance_sources_def loc_get_adds loc_get_discards ref_add_def simp flip: fold_append)

lemma loc_get_entry: "loc_get (entry_sources arch) l =
    (case l of RegLoc reg \<Rightarrow> if reg \<in> set (all_regs arch) then [PrologueRef l] else [] | StackLocation _ _ \<Rightarrow> [])"
proof -
  have "loc_get (fold (\<lambda>reg. AList.update (RegLoc reg) [PrologueRef (RegLoc reg)]) regs d) l =
    (case l of RegLoc reg \<Rightarrow> if reg \<in> set regs then [PrologueRef l] else loc_get d l | StackLocation _ _ \<Rightarrow> loc_get d l)" for regs d
    by (induction regs arbitrary: d) (auto simp: ref_simps split: location.splits)
  then show ?thesis by (simp add: entry_sources_def loc_get_def split: location.splits)
qed

section \<open>Reaching definitions\<close>

text \<open>The definition of a location after a block, given the one before it.\<close>

fun flow_block :: "location \<Rightarrow> instr_ref list \<Rightarrow> reference option \<Rightarrow> reference option" where
  "flow_block loc [] v = v"
| "flow_block loc ((i, ins) # rs) v =
     flow_block loc rs (if loc \<in> set (outputs ins) then Some (InstrRef i)
                        else if loc \<in> set (clobbers ins) then None else v)"

definition initial_def :: "arch_asm \<Rightarrow> location \<Rightarrow> reference option" where
  "initial_def arch loc = (case loc of
     RegLoc reg \<Rightarrow> if reg \<in> set (all_regs arch) then Some (PrologueRef loc) else None
   | StackLocation _ _ \<Rightarrow> None)"

definition flow_path :: "arch_asm \<Rightarrow> (nat \<Rightarrow> instr_ref list) \<Rightarrow> location \<Rightarrow> nat list \<Rightarrow> reference option" where
  "flow_path arch refs loc xs = fold (\<lambda>n. flow_block loc (refs n)) xs (initial_def arch loc)"

text \<open>The definitions that reach the start of a node, one for each path from the entry to it.\<close>

definition reaching :: "arch_asm \<Rightarrow> (nat \<Rightarrow> instr_ref list) \<Rightarrow> (nat \<Rightarrow> nat list) \<Rightarrow> nat \<Rightarrow> nat \<Rightarrow> location \<Rightarrow> reference option set" where
  "reaching arch refs ps e n loc = {flow_path arch refs loc (butlast xs) | xs. walk ps e n xs}"

text \<open>The sources of a location: the definitions, unless it is undefined on some path.\<close>

definition srcs_match :: "ref_set \<Rightarrow> reference option set \<Rightarrow> bool" where
  "srcs_match rs V \<longleftrightarrow> (if None \<in> V then rs = [] else Some ` set rs = V)"

lemma last_touch_append:
  "last_touch loc (as @ bs) = (case last_touch loc as of Untouched \<Rightarrow> last_touch loc bs | t \<Rightarrow> t)"
  by (induction loc as rule: last_touch.induct) auto

lemma flow_block_touch:
  "flow_block loc rs v = (case last_touch loc (rev rs) of Writes i \<Rightarrow> Some (InstrRef i) | Clobbers \<Rightarrow> None | Untouched \<Rightarrow> v)"
  by (induction loc rs v rule: flow_block.induct) (auto simp: last_touch_append split: touch.splits)

lemma flow_block_append: "flow_block loc (as @ bs) v = flow_block loc bs (flow_block loc as v)"
  by (induction loc as v rule: flow_block.induct) auto

lemma flow_path_snoc: "flow_path arch refs loc (xs @ [n]) = flow_block loc (refs n) (flow_path arch refs loc xs)"
  by (simp add: flow_path_def)

lemma reaching_entry:
  assumes "ps e = []" shows "reaching arch refs ps e e loc = {initial_def arch loc}"
proof -
  have "walk ps e e xs \<longleftrightarrow> xs = [e]" for xs
    using assms by (auto elim: walk.cases intro: walk.start)
  then show ?thesis by (auto simp: reaching_def flow_path_def)
qed

lemma reaching_parents:
  assumes "n \<noteq> e"
  shows "reaching arch refs ps e n loc = (\<Union>p \<in> set (ps n). flow_block loc (refs p) ` reaching arch refs ps e p loc)"
proof (intro equalityI subsetI)
  fix v assume "v \<in> reaching arch refs ps e n loc"
  then obtain xs where v: "v = flow_path arch refs loc (butlast xs)" and w: "walk ps e n xs" by (auto simp: reaching_def)
  from w assms obtain p ys where ys: "walk ps e p ys" "p \<in> set (ps n)" "xs = ys @ [n]" by (cases rule: walk.cases) auto
  then have "ys = butlast ys @ [p]" using walk_last append_butlast_last_id by metis
  then have "v = flow_block loc (refs p) (flow_path arch refs loc (butlast ys))"
    using v ys(3) flow_path_snoc by (metis butlast_snoc)
  then show "v \<in> (\<Union>p \<in> set (ps n). flow_block loc (refs p) ` reaching arch refs ps e p loc)"
    using ys by (auto simp: reaching_def)
next
  fix v assume "v \<in> (\<Union>p \<in> set (ps n). flow_block loc (refs p) ` reaching arch refs ps e p loc)"
  then obtain p ys where p: "p \<in> set (ps n)" "walk ps e p ys" "v = flow_block loc (refs p) (flow_path arch refs loc (butlast ys))"
    by (auto simp: reaching_def)
  then have "ys = butlast ys @ [p]" using walk_last append_butlast_last_id by metis
  then have "v = flow_path arch refs loc ys" using p(3) flow_path_snoc by metis
  then show "v \<in> reaching arch refs ps e n loc"
    using walk.step [OF p(2,1)] by (auto simp: reaching_def intro!: exI [of _ "ys @ [n]"])
qed

end
