(* ===== verification/Flow_Phi.thy ===== *)
theory Flow_Phi
  imports Flow_Sources
begin

text \<open>
  The two searches backwards from a node to its immediate dominator, and the sources they give
  the node: exactly the definitions that reach it.
\<close>

section \<open>The search for sources\<close>

definition phi_next :: "(nat \<Rightarrow> nat list) \<Rightarrow> (nat \<Rightarrow> instr_ref list) \<Rightarrow> location \<Rightarrow> nat \<Rightarrow> nat \<Rightarrow> nat list" where
  "phi_next ps refs loc d n = (if n \<noteq> d \<and> last_touch loc (rev (refs n)) = Untouched then ps n else [])"

text \<open>What one node contributes to the sources; \<open>None\<close> when the location is not always set.\<close>

definition phi_part :: "(nat \<Rightarrow> instr_ref list) \<Rightarrow> location \<Rightarrow> nat \<Rightarrow> ref_set \<Rightarrow> nat \<Rightarrow> reference set option" where
  "phi_part refs loc d imdom_srcs n =
     (if n = d then (if imdom_srcs = [] then None else Some (set imdom_srcs))
      else (case last_touch loc (rev (refs n)) of Writes i \<Rightarrow> Some {InstrRef i} | Clobbers \<Rightarrow> None | Untouched \<Rightarrow> Some {}))"

definition phi_add :: "(nat \<Rightarrow> instr_ref list) \<Rightarrow> location \<Rightarrow> nat \<Rightarrow> ref_set \<Rightarrow> nat \<Rightarrow> ref_set \<Rightarrow> ref_set" where
  "phi_add refs loc d imdom_srcs n sources =
     (if n = d then ref_update sources imdom_srcs
      else (case last_touch loc (rev (refs n)) of Writes i \<Rightarrow> ref_add sources (InstrRef i) | _ \<Rightarrow> sources))"

lemma phi_search_snoc:
  "phi_search (Suc f) ps refs loc d is seen (xs @ [n]) sources =
     (if n \<in> seen then phi_search f ps refs loc d is seen xs sources
      else if phi_part refs loc d is n = None then Inr []
      else phi_search f ps refs loc d is (insert n seen) (xs @ phi_next ps refs loc d n) (phi_add refs loc d is n sources))"
proof (cases "xs @ [n]")
  case (Cons y ys)
  then have "last (y # ys) = n" "butlast (y # ys) = xs" by (metis last_snoc, metis butlast_snoc)
  then show ?thesis unfolding Cons
    by (simp add: Let_def phi_part_def phi_next_def phi_add_def split: touch.splits)
qed simp

lemma set_phi_add:
  "phi_part refs loc d is n = Some S \<Longrightarrow> set (phi_add refs loc d is n sources) = S \<union> set sources"
  by (auto simp: phi_part_def phi_add_def ref_simps split: if_splits touch.splits)

lemma phi_search_result:
  "phi_search f ps refs loc d is seen st sources = Inr rs \<Longrightarrow>
   (\<forall>x \<in> seen. set (phi_next ps refs loc d x) \<subseteq> seen \<union> set st) \<Longrightarrow>
   (\<forall>x \<in> seen. phi_part refs loc d is x \<noteq> None) \<Longrightarrow>
   set sources = (\<Union>x \<in> seen. the (phi_part refs loc d is x)) \<Longrightarrow>
   (let R = seen \<union> {x. \<exists>s \<in> set st. reaches (phi_next ps refs loc d) s x}
    in if \<exists>x \<in> R. phi_part refs loc d is x = None then rs = []
       else set rs = (\<Union>x \<in> R. the (phi_part refs loc d is x)))"
proof (induction f arbitrary: seen st sources)
  case 0
  then show ?case by (cases st) auto
next
  case (Suc f)
  let ?nx = "phi_next ps refs loc d" let ?part = "phi_part refs loc d is"
  show ?case
  proof (cases st rule: rev_cases)
    case Nil
    then show ?thesis using Suc.prems by auto
  next
    case (snoc xs n)
    show ?thesis
    proof (cases "n \<in> seen")
      case True
      with Suc.prems(1) snoc have r: "phi_search f ps refs loc d is seen xs sources = Inr rs" by (simp add: phi_search_snoc)
      have cl: "\<forall>x \<in> seen. set (?nx x) \<subseteq> seen \<union> set xs" using Suc.prems(2) snoc True by auto
      have "seen \<union> {x. \<exists>s \<in> set st. reaches ?nx s x} = seen \<union> {x. \<exists>s \<in> set xs. reaches ?nx s x}"
        unfolding snoc by (rule reach_drop_seen [OF cl True])
      with Suc.IH [OF r cl Suc.prems(3,4)] show ?thesis by simp
    next
      case False
      show ?thesis
      proof (cases "?part n")
        case None
        with Suc.prems(1) snoc False have "rs = []" by (simp add: phi_search_snoc)
        moreover have "\<exists>x \<in> seen \<union> {x. \<exists>s \<in> set st. reaches ?nx s x}. ?part x = None"
          using None snoc by (intro bexI [of _ n]) auto
        ultimately show ?thesis by (simp add: Let_def)
      next
        case (Some S)
        let ?sr = "phi_add refs loc d is n sources"
        have r: "phi_search f ps refs loc d is (insert n seen) (xs @ ?nx n) ?sr = Inr rs"
          using Suc.prems(1) snoc False Some by (simp add: phi_search_snoc)
        have cl: "\<forall>x \<in> insert n seen. set (?nx x) \<subseteq> insert n seen \<union> set (xs @ ?nx n)"
          using Suc.prems(2) snoc by auto
        have "set ?sr = (\<Union>x \<in> insert n seen. the (?part x))" using set_phi_add [OF Some] Suc.prems(4) Some by simp
        moreover have "\<forall>x \<in> insert n seen. ?part x \<noteq> None" using Suc.prems(3) Some by simp
        moreover have "insert n seen \<union> {x. \<exists>s \<in> set (xs @ ?nx n). reaches ?nx s x} = seen \<union> {x. \<exists>s \<in> set st. reaches ?nx s x}"
          unfolding snoc by (rule reach_expand)
        ultimately show ?thesis using Suc.IH [OF r cl] by simp
      qed
    qed
  qed
qed

lemma phi_search_enough_fuel:
  assumes cl: "closed_graph ns ps"
  shows "set st \<subseteq> set ns \<Longrightarrow> length st + pending_edges ns ps seen \<le> f \<Longrightarrow>
    \<exists>rs. phi_search f ps refs loc d is seen st sources = Inr rs"
proof (induction f arbitrary: seen st sources)
  case (Suc f)
  show ?case
  proof (cases st rule: rev_cases)
    case (snoc xs n)
    have n: "n \<in> set ns" using Suc.prems snoc by simp
    show ?thesis
    proof (cases "n \<in> seen \<or> phi_part refs loc d is n = None")
      case True
      then show ?thesis using Suc snoc by (auto simp: phi_search_snoc)
    next
      case False
      let ?st = "xs @ phi_next ps refs loc d n"
      have "set ?st \<subseteq> set ns" using cl n Suc.prems(1) snoc by (auto simp: closed_graph_def phi_next_def)
      moreover have "length ?st + pending_edges ns ps (insert n seen) \<le> f"
        using Suc.prems(2) snoc pending_edges_insert [OF n, of seen ps] False by (simp add: phi_next_def)
      ultimately show ?thesis using Suc.IH [of ?st "insert n seen"] snoc False by (simp add: phi_search_snoc)
    qed
  qed simp
qed simp

section \<open>The search for clobbered locations\<close>

lemma clobber_search_snoc:
  "clobber_search (Suc f) ps refs seen (xs @ [n]) acc =
     (if n \<in> seen then clobber_search f ps refs seen xs acc
      else clobber_search f ps refs (insert n seen) (xs @ ps n) (loc_union acc (touched_locs (refs n))))"
proof (cases "xs @ [n]")
  case (Cons y ys)
  then have "last (y # ys) = n" "butlast (y # ys) = xs" by (metis last_snoc, metis butlast_snoc)
  then show ?thesis unfolding Cons by (simp add: Let_def split del: if_split)
qed simp

lemma set_loc_union: "set (loc_union xs ys) = set xs \<union> set ys"
  unfolding loc_union_def by (induction ys arbitrary: xs) auto

lemma clobber_search_result:
  "clobber_search f ps refs seen st acc = Inr locs \<Longrightarrow>
   (\<forall>x \<in> seen - {d}. set (ps x) \<subseteq> seen \<union> set st) \<Longrightarrow> d \<in> seen \<Longrightarrow>
   (\<forall>x \<in> seen - {d}. set (touched_locs (refs x)) \<subseteq> set acc) \<Longrightarrow>
   \<exists>S. seen \<subseteq> S \<and> set st \<subseteq> S \<and> (\<forall>x \<in> S - {d}. set (ps x) \<subseteq> S \<and> set (touched_locs (refs x)) \<subseteq> set locs)"
proof (induction f arbitrary: seen st acc)
  case 0
  then have "st = []" "locs = acc" by (cases st, simp_all)+
  with 0 have "seen \<subseteq> seen \<and> set st \<subseteq> seen \<and> (\<forall>x \<in> seen - {d}. set (ps x) \<subseteq> seen \<and> set (touched_locs (refs x)) \<subseteq> set locs)" by simp
  then show ?case ..
next
  case (Suc f)
  show ?case
  proof (cases st rule: rev_cases)
    case Nil
    with Suc.prems(1) have "locs = acc" by simp
    with Nil Suc.prems have "seen \<subseteq> seen \<and> set st \<subseteq> seen \<and> (\<forall>x \<in> seen - {d}. set (ps x) \<subseteq> seen \<and> set (touched_locs (refs x)) \<subseteq> set locs)" by simp
    then show ?thesis ..
  next
    case (snoc xs n)
    show ?thesis
    proof (cases "n \<in> seen")
      case True
      with Suc.prems(1) snoc have r: "clobber_search f ps refs seen xs acc = Inr locs" by (simp add: clobber_search_snoc)
      have "\<forall>x \<in> seen - {d}. set (ps x) \<subseteq> seen \<union> set xs" using Suc.prems(2) snoc True by auto
      from Suc.IH [OF r this Suc.prems(3,4)] obtain S where S: "seen \<subseteq> S" "set xs \<subseteq> S"
        "\<forall>x \<in> S - {d}. set (ps x) \<subseteq> S \<and> set (touched_locs (refs x)) \<subseteq> set locs" by blast
      then have "set st \<subseteq> S" using True snoc by auto
      with S show ?thesis by blast
    next
      case False
      let ?acc = "loc_union acc (touched_locs (refs n))"
      have r: "clobber_search f ps refs (insert n seen) (xs @ ps n) ?acc = Inr locs"
        using Suc.prems(1) snoc False by (simp add: clobber_search_snoc)
      have "\<forall>x \<in> insert n seen - {d}. set (ps x) \<subseteq> insert n seen \<union> set (xs @ ps n)" using Suc.prems(2) snoc by auto
      moreover have "\<forall>x \<in> insert n seen - {d}. set (touched_locs (refs x)) \<subseteq> set ?acc"
        using Suc.prems(4) by (auto simp: set_loc_union)
      ultimately obtain S where S: "insert n seen \<subseteq> S" "set (xs @ ps n) \<subseteq> S"
        "\<forall>x \<in> S - {d}. set (ps x) \<subseteq> S \<and> set (touched_locs (refs x)) \<subseteq> set locs"
        using Suc.IH [OF r _ insertI2 [OF Suc.prems(3)]] by blast
      then have "seen \<subseteq> S" "set st \<subseteq> S" using snoc by auto
      with S(3) show ?thesis by blast
    qed
  qed
qed

lemma clobber_search_enough_fuel:
  assumes cl: "closed_graph ns ps"
  shows "set st \<subseteq> set ns \<Longrightarrow> length st + pending_edges ns ps seen \<le> f \<Longrightarrow>
    \<exists>locs. clobber_search f ps refs seen st acc = Inr locs"
proof (induction f arbitrary: seen st acc)
  case (Suc f)
  show ?case
  proof (cases st rule: rev_cases)
    case (snoc xs n)
    have n: "n \<in> set ns" using Suc.prems snoc by simp
    show ?thesis
    proof (cases "n \<in> seen")
      case True
      then show ?thesis using Suc snoc by (auto simp: clobber_search_snoc)
    next
      case False
      have "set (xs @ ps n) \<subseteq> set ns" using cl n Suc.prems(1) snoc by (auto simp: closed_graph_def)
      moreover have "length (xs @ ps n) + pending_edges ns ps (insert n seen) \<le> f"
        using Suc.prems(2) snoc pending_edges_insert [OF n, of seen ps] False by simp
      ultimately show ?thesis using Suc.IH [of "xs @ ps n" "insert n seen"] snoc False by (simp add: clobber_search_snoc)
    qed
  qed simp
qed simp

lemma last_touch_untouched: "loc \<notin> set (touched_locs rs) \<Longrightarrow> last_touch loc rs = Untouched"
  by (induction loc rs rule: last_touch.induct) (auto simp: touched_locs_def)

lemma pending_mono: "pending_edges ns ps seen \<le> edge_count ns ps"
proof (rule le_trans)
  show "pending_edges ns ps seen \<le> pending_edges ns ps {}"
    unfolding pending_edges_def by (rule sum_mono2) auto
qed (rule pending_le_edge_count)

end
