(* ===== verification/Flow_Exact.thy ===== *)
theory Flow_Exact
  imports Flow_Phi
begin

text \<open>
  From the searches to the sources of a node: with the sources at the end of the immediate
  dominator exact, those that the source code computes for the node are exact as well.
\<close>

definition phi_vals :: "(nat \<Rightarrow> instr_ref list) \<Rightarrow> location \<Rightarrow> nat \<Rightarrow> reference option set \<Rightarrow> nat \<Rightarrow> reference option set" where
  "phi_vals refs loc d V x =
     (if x = d then V
      else (case last_touch loc (rev (refs x)) of Writes i \<Rightarrow> {Some (InstrRef i)} | Clobbers \<Rightarrow> {None} | Untouched \<Rightarrow> {}))"

definition phi_nodes :: "(nat \<Rightarrow> nat list) \<Rightarrow> (nat \<Rightarrow> instr_ref list) \<Rightarrow> location \<Rightarrow> nat \<Rightarrow> nat \<Rightarrow> nat set" where
  "phi_nodes ps refs loc d c = {x. \<exists>s \<in> set (ps c). reaches (phi_next ps refs loc d) s x}"

definition end_vals :: "arch_asm \<Rightarrow> (nat \<Rightarrow> instr_ref list) \<Rightarrow> (nat \<Rightarrow> nat list) \<Rightarrow> nat \<Rightarrow> location \<Rightarrow> nat \<Rightarrow> reference option set" where
  "end_vals arch refs ps e loc n = flow_block loc (refs n) ` reaching arch refs ps e n loc"

text \<open>Every node with a successor is reachable from the entry.\<close>

definition live_parents :: "(nat \<Rightarrow> nat list) \<Rightarrow> nat \<Rightarrow> bool" where
  "live_parents ps e \<longleftrightarrow> (\<forall>n. \<forall>p \<in> set (ps n). \<exists>xs. walk ps e p xs)"

lemma end_vals_touch:
  "end_vals arch refs ps e loc n = (case last_touch loc (rev (refs n)) of
     Writes i \<Rightarrow> (if reaching arch refs ps e n loc = {} then {} else {Some (InstrRef i)})
   | Clobbers \<Rightarrow> (if reaching arch refs ps e n loc = {} then {} else {None})
   | Untouched \<Rightarrow> reaching arch refs ps e n loc)"
  by (auto simp: end_vals_def flow_block_touch split: touch.splits)

lemma phi_step_parent:
  assumes "x \<in> phi_nodes ps refs loc d c"
  shows "\<exists>n. x \<in> set (ps n)"
proof -
  from assms obtain s where s: "s \<in> set (ps c)" "reaches (phi_next ps refs loc d) s x" by (auto simp: phi_nodes_def)
  from s(2) show ?thesis
    by (cases rule: rtranclp.cases) (use s(1) in \<open>auto simp: phi_next_def split: if_splits\<close>)
qed

lemma phi_nodes_dominated:
  assumes dom: "dominates ps e d c" and ne: "d \<noteq> c" and x: "x \<in> phi_nodes ps refs loc d c"
  shows "dominates ps e d x"
proof -
  from x obtain s where s: "s \<in> set (ps c)" "reaches (phi_next ps refs loc d) s x" by (auto simp: phi_nodes_def)
  from s(2) show ?thesis
  proof (induction rule: rtranclp_induct)
    case base
    then show ?case by (rule dominates_parent [OF dom ne s(1)])
  next
    case (step y z)
    then have "d \<noteq> y" "z \<in> set (ps y)" by (auto simp: phi_next_def split: if_splits)
    then show ?case using step.IH dominates_parent by blast
  qed
qed

lemma reaching_phi:
  assumes dom: "dominates ps e d c" and ne: "d \<noteq> c" and ce: "c \<noteq> e" and live: "live_parents ps e"
  shows "reaching arch refs ps e c loc =
    (\<Union>x \<in> phi_nodes ps refs loc d c. phi_vals refs loc d (end_vals arch refs ps e loc d) x)" (is "_ = ?U")
proof (intro equalityI subsetI)
  fix v assume "v \<in> ?U"
  then obtain x where x: "x \<in> phi_nodes ps refs loc d c" and v: "v \<in> phi_vals refs loc d (end_vals arch refs ps e loc d) x" by auto
  have "reaching arch refs ps e x loc \<noteq> {}"
    using phi_step_parent [OF x] live by (auto simp: live_parents_def reaching_def)
  then have "v \<in> end_vals arch refs ps e loc x"
    using v by (auto simp: phi_vals_def end_vals_touch split: if_splits touch.splits)
  moreover have "end_vals arch refs ps e loc x \<subseteq> reaching arch refs ps e c loc"
  proof -
    from x obtain s where s: "s \<in> set (ps c)" "reaches (phi_next ps refs loc d) s x" by (auto simp: phi_nodes_def)
    from s(2) show ?thesis
    proof (induction rule: rtranclp_induct)
      case base
      then show ?case using s(1) unfolding reaching_parents [OF ce] end_vals_def by blast
    next
      case (step y z)
      then have y: "last_touch loc (rev (refs y)) = Untouched" "d \<noteq> y" "z \<in> set (ps y)" by (auto simp: phi_next_def split: if_splits)
      have "y \<in> phi_nodes ps refs loc d c" using s(1) step(1) by (auto simp: phi_nodes_def)
      then have "y \<noteq> e" using phi_nodes_dominated [OF dom ne] y(2) dominates_entry by metis
      then have "end_vals arch refs ps e loc z \<subseteq> reaching arch refs ps e y loc"
        using y(3) unfolding reaching_parents [OF \<open>y \<noteq> e\<close>] end_vals_def by blast
      also have "\<dots> = end_vals arch refs ps e loc y" using y(1) by (simp add: end_vals_touch)
      finally show ?case using step.IH by blast
    qed
  qed
  ultimately show "v \<in> reaching arch refs ps e c loc" by blast
next
  have main: "flow_path arch refs loc ys \<in> ?U" if "walk ps e p ys" "p \<in> phi_nodes ps refs loc d c" for p ys
    using that
  proof (induction rule: walk.induct)
    case start
    then have "dominates ps e d e" using phi_nodes_dominated [OF dom ne] by blast
    then have "e = d" using dominates_entry by metis
    have "flow_path arch refs loc [e] = flow_block loc (refs e) (flow_path arch refs loc (butlast [e]))" by (simp add: flow_path_def)
    moreover have "flow_path arch refs loc (butlast [e]) \<in> reaching arch refs ps e e loc"
      unfolding reaching_def using walk.start by blast
    ultimately have "flow_path arch refs loc [e] \<in> phi_vals refs loc d (end_vals arch refs ps e loc d) e"
      using \<open>e = d\<close> by (simp add: phi_vals_def end_vals_def)
    with start show ?case by blast
  next
    case (step p xs n)
    have w: "walk ps e n (xs @ [n])" by (rule walk.step [OF step(1,2)])
    have val: "flow_path arch refs loc (xs @ [n]) = flow_block loc (refs n) (flow_path arch refs loc xs)" by (rule flow_path_snoc)
    have rn: "flow_path arch refs loc xs \<in> reaching arch refs ps e n loc"
      unfolding reaching_def using w by (auto intro!: exI [of _ "xs @ [n]"])
    show ?case
    proof (cases "n \<noteq> d \<and> last_touch loc (rev (refs n)) = Untouched")
      case True
      then have "p \<in> phi_nodes ps refs loc d c"
        using step(2,4) by (auto simp: phi_nodes_def phi_next_def intro: rtranclp.rtrancl_into_rtrancl)
      with step.IH True val show ?thesis by (simp add: flow_block_touch)
    next
      case False
      then have "flow_path arch refs loc (xs @ [n]) \<in> phi_vals refs loc d (end_vals arch refs ps e loc d) n"
        using rn by (auto simp: val phi_vals_def end_vals_def flow_block_touch split: touch.splits)
      with step(4) show ?thesis by blast
    qed
  qed
  fix v assume "v \<in> reaching arch refs ps e c loc"
  then obtain p ys where p: "p \<in> set (ps c)" "walk ps e p ys" "v = flow_block loc (refs p) (flow_path arch refs loc (butlast ys))"
    unfolding reaching_parents [OF ce] by (auto simp: reaching_def)
  have "ys = butlast ys @ [p]" using walk_last [OF p(2)] append_butlast_last_id by metis
  then have "v = flow_path arch refs loc ys" using p(3) flow_path_snoc by metis
  moreover have "p \<in> phi_nodes ps refs loc d c" using p(1) by (auto simp: phi_nodes_def)
  ultimately show "v \<in> ?U" using main [OF p(2)] by simp
qed

lemma phi_loc_sources_exact:
  assumes ps: "rel_parents r = ps" "closed_graph ns ps" "c \<in> set ns" and im: "imdom r c = Some d"
    and dom: "dominates ps e d c" "d \<noteq> c" "c \<noteq> e" and live: "live_parents ps e"
    and m: "srcs_match is (end_vals arch refs ps e loc d)"
  shows "\<exists>rs. phi_loc_sources ns r refs c loc is = Inr rs \<and> srcs_match rs (reaching arch refs ps e c loc)"
proof -
  let ?V = "end_vals arch refs ps e loc d" and ?R = "phi_nodes ps refs loc d c"
  let ?part = "phi_part refs loc d is" and ?vals = "phi_vals refs loc d ?V"
  let ?f = "length (ps c) + edge_count ns ps"
  have "set (ps c) \<subseteq> set ns" using ps by (auto simp: closed_graph_def)
  then obtain rs where rs: "phi_search ?f ps refs loc d is {} (ps c) [] = Inr rs"
    using phi_search_enough_fuel [OF ps(2), of "ps c" "{}" ?f refs loc d "is" "[]"] pending_mono [of ns ps "{}"] by auto
  from phi_search_result [OF rs] have res: "if \<exists>x \<in> ?R. ?part x = None then rs = [] else set rs = (\<Union>x \<in> ?R. the (?part x))"
    by (simp add: Let_def phi_nodes_def)
  have part: "if ?part x = None then None \<in> ?vals x else ?vals x = Some ` the (?part x)" if x: "x \<in> ?R" for x
  proof -
    have "?V \<noteq> {}" if "x = d"
      using phi_step_parent [OF x] live that by (auto simp: live_parents_def reaching_def end_vals_def)
    then show ?thesis using m by (auto simp: phi_part_def phi_vals_def srcs_match_def split: if_splits touch.splits)
  qed
  have nd: "is = [] \<or> None \<notin> ?V" using m by (auto simp: srcs_match_def split: if_splits)
  have none: "?part x \<noteq> None \<Longrightarrow> None \<notin> ?vals x" if "x \<in> ?R" for x
    using part [OF that] by auto
  have "srcs_match rs (\<Union>x \<in> ?R. ?vals x)"
  proof (cases "\<exists>x \<in> ?R. ?part x = None")
    case True
    with part have "None \<in> (\<Union>x \<in> ?R. ?vals x)" by fastforce
    with True res show ?thesis by (simp add: srcs_match_def)
  next
    case False
    then have "(\<Union>x \<in> ?R. ?vals x) = (\<Union>x \<in> ?R. Some ` the (?part x))" using part by (intro SUP_cong) auto
    also have "\<dots> = Some ` set rs" using res False by auto
    finally show ?thesis by (auto simp: srcs_match_def)
  qed
  moreover have "phi_loc_sources ns r refs c loc is = Inr rs" using rs im ps(1) by (simp add: phi_loc_sources_def)
  ultimately show ?thesis using reaching_phi [OF dom live] by simp
qed

lemma locs_clobbered_covers:
  assumes ps: "rel_parents r = ps" "closed_graph ns ps" "c \<in> set ns" and im: "imdom r c = Some d"
  shows "\<exists>locs. locs_clobbered_until_dominator ns r refs c = Inr locs \<and>
    (\<forall>loc. loc \<notin> set locs \<longrightarrow> (\<forall>x \<in> phi_nodes ps refs loc d c. x = d \<or> last_touch loc (rev (refs x)) = Untouched))"
proof -
  let ?f = "length (ps c) + edge_count ns ps"
  have "set (ps c) \<subseteq> set ns" using ps by (auto simp: closed_graph_def)
  then obtain locs where l: "clobber_search ?f ps refs {d} (ps c) [] = Inr locs"
    using clobber_search_enough_fuel [OF ps(2), of "ps c" "{d}" ?f refs "[]"] pending_mono [of ns ps "{d}"] by auto
  from clobber_search_result [OF l, of d] obtain S where S: "set (ps c) \<subseteq> S"
    "\<forall>x \<in> S - {d}. set (ps x) \<subseteq> S \<and> set (touched_locs (refs x)) \<subseteq> set locs" by auto
  have "x \<in> S" if "x \<in> phi_nodes ps refs loc d c" for x loc
  proof -
    from that obtain s where s: "s \<in> set (ps c)" "reaches (phi_next ps refs loc d) s x" by (auto simp: phi_nodes_def)
    have "set (phi_next ps refs loc d y) \<subseteq> S" if "y \<in> S" for y using S(2) that by (auto simp: phi_next_def)
    then show ?thesis using reaches_closed [OF s(2)] s(1) S(1) by blast
  qed
  moreover have "set (touched_locs (rev rs)) = set (touched_locs rs)" for rs by (simp add: touched_locs_def rev_map [symmetric])
  ultimately have "x = d \<or> last_touch loc (rev (refs x)) = Untouched" if "loc \<notin> set locs" "x \<in> phi_nodes ps refs loc d c" for x loc
    using S(2) that last_touch_untouched [of loc "rev (refs x)"] by blast
  moreover have "locs_clobbered_until_dominator ns r refs c = Inr locs"
    using l im ps(1) by (simp add: locs_clobbered_until_dominator_def)
  ultimately show ?thesis by blast
qed

lemma child_sources_get:
  assumes "\<And>l. l \<in> set locs \<Longrightarrow> \<exists>rs. phi_loc_sources ns r refs c l (loc_get srcs l) = Inr rs"
  shows "\<exists>d'. child_sources ns r refs c srcs locs d = Inr d' \<and>
    (\<forall>l. if l \<in> set locs then phi_loc_sources ns r refs c l (loc_get srcs l) = Inr (loc_get d' l)
         else loc_get d' l = loc_get d l)"
  using assms
proof (induction locs arbitrary: d)
  case (Cons a locs)
  obtain rs where rs: "phi_loc_sources ns r refs c a (loc_get srcs a) = Inr rs" using Cons.prems [of a] by auto
  let ?d = "if rs \<noteq> [] then AList.update a rs d else if loc_contains d a then loc_remove d a else d"
  have upd: "loc_get ?d l = (if l = a then rs else loc_get d l)" for l
    by (auto simp: ref_simps loc_contains_def)
  have "\<exists>d'. child_sources ns r refs c srcs locs ?d = Inr d' \<and>
    (\<forall>l. if l \<in> set locs then phi_loc_sources ns r refs c l (loc_get srcs l) = Inr (loc_get d' l)
         else loc_get d' l = loc_get ?d l)" by (rule Cons.IH) (simp add: Cons.prems)
  then obtain d' where d': "child_sources ns r refs c srcs locs ?d = Inr d'"
    "\<And>l. if l \<in> set locs then phi_loc_sources ns r refs c l (loc_get srcs l) = Inr (loc_get d' l)
         else loc_get d' l = loc_get ?d l" by blast
  have "if l \<in> set (a # locs) then phi_loc_sources ns r refs c l (loc_get srcs l) = Inr (loc_get d' l)
         else loc_get d' l = loc_get d l" for l
    using d'(2) [of l] rs unfolding upd by (auto split: if_splits)
  moreover have "child_sources ns r refs c srcs (a # locs) d = Inr d'" using rs d'(1) by simp
  ultimately show ?case by blast
qed simp

lemma child_sources_exact:
  assumes ps: "rel_parents r = ps" "closed_graph ns ps" "c \<in> set ns" and im: "imdom r c = Some d"
    and dom: "dominates ps e d c" "d \<noteq> c" "c \<noteq> e" and live: "live_parents ps e" and wc: "\<exists>xs. walk ps e c xs"
    and m: "\<And>loc. srcs_match (loc_get srcs loc) (end_vals arch refs ps e loc d)"
  shows "\<exists>locs d'. locs_clobbered_until_dominator ns r refs c = Inr locs \<and>
    child_sources ns r refs c srcs locs srcs = Inr d' \<and>
    (\<forall>loc. srcs_match (loc_get d' loc) (reaching arch refs ps e c loc))"
proof -
  obtain locs where l: "locs_clobbered_until_dominator ns r refs c = Inr locs" and
    cov: "\<And>loc x. loc \<notin> set locs \<Longrightarrow> x \<in> phi_nodes ps refs loc d c \<Longrightarrow> x = d \<or> last_touch loc (rev (refs x)) = Untouched"
    using locs_clobbered_covers [OF ps im] by blast
  note phi = phi_loc_sources_exact [OF ps im dom live m]
  then obtain d' where d': "child_sources ns r refs c srcs locs srcs = Inr d'"
    "\<And>l. if l \<in> set locs then phi_loc_sources ns r refs c l (loc_get srcs l) = Inr (loc_get d' l)
         else loc_get d' l = loc_get srcs l"
    using child_sources_get [of locs ns r refs c srcs srcs] by blast
  have "srcs_match (loc_get d' loc) (reaching arch refs ps e c loc)" for loc
  proof (cases "loc \<in> set locs")
    case True
    then show ?thesis using d'(2) [of loc] phi [of loc] by auto
  next
    case False
    let ?V = "end_vals arch refs ps e loc d"
    have vals: "phi_vals refs loc d ?V x = (if x = d then ?V else {})" if "x \<in> phi_nodes ps refs loc d c" for x
      using cov [OF False that] by (auto simp: phi_vals_def)
    have "reaching arch refs ps e c loc \<noteq> {}" using wc by (auto simp: reaching_def)
    then have "d \<in> phi_nodes ps refs loc d c"
      using vals unfolding reaching_phi [OF dom live] by (auto split: if_splits)
    then have "reaching arch refs ps e c loc = ?V"
      using vals unfolding reaching_phi [OF dom live] by (auto split: if_splits)
    then show ?thesis using d'(2) [of loc] False m by simp
  qed
  with l d'(1) show ?thesis by blast
qed

end
