(* ===== verification/Flow_Uses.thy ===== *)
theory Flow_Uses
  imports Flow_Exact
begin

text \<open>
  The two dictionaries of a flow graph: they always describe the same dependencies, and after
  \<open>nodes_to_flowgraph\<close> the inputs of every instruction are its reaching definitions.
\<close>

section \<open>Inputs and uses mirror each other\<close>

definition inputs_of :: "flow_graph \<Rightarrow> reference \<Rightarrow> location \<Rightarrow> ref_set" where
  "inputs_of g u l = loc_get (uses_get (instr_inputs g) u) l"

definition uses_of :: "flow_graph \<Rightarrow> reference \<Rightarrow> location \<Rightarrow> ref_set" where
  "uses_of g s l = loc_get (uses_get (instr_uses g) s) l"

text \<open>Dictionaries have each key once and reference sets each element once.\<close>

definition uses_wf :: "ref_uses \<Rightarrow> bool" where
  "uses_wf d \<longleftrightarrow> distinct (map fst d) \<and>
     (\<forall>x. distinct (map fst (uses_get d x)) \<and> (\<forall>l. distinct (loc_get (uses_get d x) l)))"

definition flow_wf :: "flow_graph \<Rightarrow> bool" where
  "flow_wf g \<longleftrightarrow> uses_wf (instr_inputs g) \<and> uses_wf (instr_uses g) \<and>
     (\<forall>u l s. s \<in> set (inputs_of g u l) \<longleftrightarrow> u \<in> set (uses_of g s l))"

lemma loc_get_Cons: "loc_get ((l, ss) # d) l' = (if l' = l then ss else loc_get d l')"
  by (simp add: loc_get_def)

lemma uses_get_update [ref_simps]: "uses_get (AList.update k v d) k' = (if k' = k then v else uses_get d k')"
  by (simp add: uses_get_def update_conv)

lemma uses_get_delete [ref_simps]: "uses_get (AList.delete k d) k' = (if k' = k then [] else uses_get d k')"
  by (simp add: uses_get_def delete_conv)

lemma inputs_of_add [ref_simps]:
  "inputs_of (add_instruction_use u l s g) u' l' = (if u' = u \<and> l' = l then ref_add (inputs_of g u l) s else inputs_of g u' l')"
  by (simp add: inputs_of_def add_instruction_use_def Let_def ref_simps)

lemma uses_of_add [ref_simps]:
  "uses_of (add_instruction_use u l s g) s' l' = (if s' = s \<and> l' = l then ref_add (uses_of g s l) u else uses_of g s' l')"
  by (simp add: uses_of_def add_instruction_use_def Let_def ref_simps)

lemma distinct_loc_add: "distinct (map fst d) \<Longrightarrow> distinct (map fst (loc_add d l x))"
  by (simp add: loc_add_def distinct_update)

lemma uses_wf_update:
  assumes "uses_wf d" and "distinct (map fst v)" and "\<And>l. distinct (loc_get v l)"
  shows "uses_wf (AList.update k v d)"
  using assms by (auto simp: uses_wf_def ref_simps distinct_update)

lemma uses_wf_loc_add: "uses_wf d \<Longrightarrow> uses_wf (AList.update k (loc_add (uses_get d k) l x) d)"
  by (rule uses_wf_update) (auto simp: uses_wf_def distinct_loc_add ref_simps)

lemma flow_wf_add: "flow_wf g \<Longrightarrow> flow_wf (add_instruction_use u l s g)"
proof -
  assume wf: "flow_wf g"
  then have "uses_wf (instr_inputs (add_instruction_use u l s g))" "uses_wf (instr_uses (add_instruction_use u l s g))"
    by (simp_all add: add_instruction_use_def Let_def uses_wf_loc_add flow_wf_def)
  then show ?thesis using wf by (simp add: flow_wf_def ref_simps)
qed

lemma flow_wf_empty: "flow_wf empty_flow"
  by (simp add: flow_wf_def empty_flow_def uses_wf_def inputs_of_def uses_of_def uses_get_def loc_get_def)

section \<open>Clearing the inputs of an instruction\<close>

definition uses_at :: "ref_uses \<Rightarrow> reference \<Rightarrow> location \<Rightarrow> ref_set" where
  "uses_at u s l = loc_get (uses_get u s) l"

lemma clear_uses_result:
  "uses_wf u \<Longrightarrow> distinct ss \<Longrightarrow> (\<And>s. s \<in> set ss \<Longrightarrow> x \<in> set (uses_at u s loc)) \<Longrightarrow>
   \<exists>u'. clear_uses x loc ss u = Inr u' \<and> uses_wf u' \<and>
     (\<forall>s l. set (uses_at u' s l) = (if l = loc \<and> s \<in> set ss then set (uses_at u s l) - {x} else set (uses_at u s l)))"
proof (induction ss arbitrary: u)
  case (Cons s ss)
  let ?rs = "remove1 x (uses_at u s loc)"
  let ?u = "AList.update s (AList.update loc ?rs (uses_get u s)) u"
  have dis: "distinct (uses_at u s loc)" using Cons.prems(1) by (simp add: uses_wf_def uses_at_def)
  have step: "clear_uses x loc (s # ss) u = clear_uses x loc ss ?u"
    using Cons.prems(3) [of s] by (simp add: ref_remove_def uses_at_def)
  have wf: "uses_wf ?u"
    by (rule uses_wf_update [OF Cons.prems(1)])
      (use Cons.prems(1) dis in \<open>auto simp: uses_wf_def ref_simps distinct_update\<close>)
  have at: "uses_at ?u s' l = (if s' = s \<and> l = loc then ?rs else uses_at u s' l)" for s' l
    by (simp add: uses_at_def ref_simps)
  have "x \<in> set (uses_at ?u s' loc)" if "s' \<in> set ss" for s'
    using Cons.prems(2,3) that by (auto simp: at)
  from Cons.IH [OF wf _ this] Cons.prems(2) obtain u' where u': "clear_uses x loc ss ?u = Inr u'" "uses_wf u'"
    "\<And>s' l. set (uses_at u' s' l) = (if l = loc \<and> s' \<in> set ss then set (uses_at ?u s' l) - {x} else set (uses_at ?u s' l))" by auto
  have "set (uses_at u' s' l) = (if l = loc \<and> s' \<in> set (s # ss) then set (uses_at u s' l) - {x} else set (uses_at u s' l))" for s' l
    using u'(3) [of s' l] dis Cons.prems(2) by (auto simp: at)
  with u'(1,2) step show ?case by auto
qed (simp add: uses_at_def)

lemma clear_inputs_result:
  "uses_wf u \<Longrightarrow> distinct (map fst d) \<Longrightarrow> (\<And>l ss. (l, ss) \<in> set d \<Longrightarrow> distinct ss) \<Longrightarrow>
   (\<And>l ss s. (l, ss) \<in> set d \<Longrightarrow> s \<in> set ss \<Longrightarrow> x \<in> set (uses_at u s l)) \<Longrightarrow>
   \<exists>u'. clear_inputs x d u = Inr u' \<and> uses_wf u' \<and>
     (\<forall>s l. set (uses_at u' s l) = (if s \<in> set (loc_get d l) then set (uses_at u s l) - {x} else set (uses_at u s l)))"
proof (induction d arbitrary: u)
  case (Cons a d)
  obtain loc ss where a: "a = (loc, ss)" by (cases a)
  obtain u1 where u1: "clear_uses x loc ss u = Inr u1" "uses_wf u1"
    "\<And>s l. set (uses_at u1 s l) = (if l = loc \<and> s \<in> set ss then set (uses_at u s l) - {x} else set (uses_at u s l))"
    using clear_uses_result [OF Cons.prems(1), of ss x loc] Cons.prems(3,4) unfolding a by (metis list.set_intros(1))
  have notin: "l \<noteq> loc" if "(l, ts) \<in> set d" for l ts using Cons.prems(2) that by (force simp: a)
  have "distinct (map fst d)" using Cons.prems(2) by simp
  moreover have "distinct ts" if "(l, ts) \<in> set d" for l ts using Cons.prems(3) [of l ts] that by simp
  moreover have "x \<in> set (uses_at u1 s l)" if "(l, ts) \<in> set d" "s \<in> set ts" for l ts s
    using Cons.prems(4) [of l ts s] notin [OF that(1)] that u1(3) by simp
  ultimately obtain u' where u': "clear_inputs x d u1 = Inr u'" "uses_wf u'"
    "\<And>s l. set (uses_at u' s l) = (if s \<in> set (loc_get d l) then set (uses_at u1 s l) - {x} else set (uses_at u1 s l))"
    using Cons.IH [OF u1(2)] by metis
  have "loc_get d loc = []" using notin [of loc] by (auto simp: loc_get_def split: option.splits dest: map_of_SomeD)
  then have "set (uses_at u' s l) = (if s \<in> set (loc_get (a # d) l) then set (uses_at u s l) - {x} else set (uses_at u s l))" for s l
    using u'(3) [of s l] u1(3) [of s l] by (cases "l = loc") (simp_all add: a loc_get_Cons)
  with u'(1,2) u1(1) show ?case by (auto simp: a)
qed (simp add: uses_at_def loc_get_def)

lemma clear_instruction_inputs_result:
  assumes wf: "flow_wf g"
  shows "\<exists>g'. clear_instruction_inputs x g = Inr g' \<and> flow_wf g' \<and>
    (\<forall>u l. inputs_of g' u l = (if u = x then [] else inputs_of g u l)) \<and>
    (\<forall>s l. set (uses_of g' s l) = set (uses_of g s l) - {x})"
proof -
  let ?d = "uses_get (instr_inputs g) x"
  have dd: "distinct (map fst ?d)" and iw: "uses_wf (instr_inputs g)" and uw: "uses_wf (instr_uses g)"
    and mirror: "\<And>u l s. s \<in> set (inputs_of g u l) \<longleftrightarrow> u \<in> set (uses_of g s l)"
    using wf by (auto simp: flow_wf_def uses_wf_def)
  have entry: "loc_get ?d l = ss" if "(l, ss) \<in> set ?d" for l ss
    using dd that by (simp add: loc_get_def)
  have "distinct ss" if "(l, ss) \<in> set ?d" for l ss using entry [OF that] iw by (auto simp: uses_wf_def)
  moreover have "x \<in> set (uses_at (instr_uses g) s l)" if "(l, ss) \<in> set ?d" "s \<in> set ss" for l ss s
    using entry [OF that(1)] that(2) mirror [of s x l] by (simp add: inputs_of_def uses_of_def uses_at_def)
  ultimately obtain u' where u': "clear_inputs x ?d (instr_uses g) = Inr u'" "uses_wf u'"
    "\<And>s l. set (uses_at u' s l) = (if s \<in> set (loc_get ?d l) then set (uses_at (instr_uses g) s l) - {x} else set (uses_at (instr_uses g) s l))"
    using clear_inputs_result [OF uw dd, of x] by metis
  let ?g = "\<lparr>instr_inputs = AList.delete x (instr_inputs g), instr_uses = u'\<rparr>"
  have inp: "inputs_of ?g u l = (if u = x then [] else inputs_of g u l)" for u l
    by (simp add: inputs_of_def ref_simps loc_get_def)
  have use: "set (uses_of ?g s l) = set (uses_of g s l) - {x}" for s l
    using u'(3) [of s l] mirror [of s x l] by (auto simp: uses_of_def uses_at_def inputs_of_def)
  have "uses_wf (instr_inputs ?g)" using iw by (auto simp: uses_wf_def ref_simps distinct_delete loc_get_def)
  then have "flow_wf ?g" using u'(2) inp use mirror by (auto simp: flow_wf_def)
  moreover have "clear_instruction_inputs x g = Inr ?g" using u'(1) by (simp add: clear_instruction_inputs_def)
  ultimately show ?thesis using inp use by blast
qed

section \<open>Validation\<close>

lemma use_add_at [ref_simps]:
  "uses_at (use_add u dep loc x) s l = (if s = dep \<and> l = loc then ref_add (uses_at u s l) x else uses_at u s l)"
  by (simp add: uses_at_def use_add_def ref_simps)

lemma use_add_wf: "uses_wf u \<Longrightarrow> uses_wf (use_add u dep loc x)"
  by (simp add: use_add_def uses_wf_loc_add)

lemma recompute_deps:
  "uses_wf u \<Longrightarrow> uses_wf (fold (\<lambda>dep u. use_add u dep loc x) deps u) \<and>
   (\<forall>s l. set (uses_at (fold (\<lambda>dep u. use_add u dep loc x) deps u) s l) =
          set (uses_at u s l) \<union> {y. y = x \<and> l = loc \<and> s \<in> set deps})"
proof (induction deps arbitrary: u)
  case (Cons dep deps)
  from Cons.IH [OF use_add_wf [OF Cons.prems]] show ?case by (auto simp: ref_simps)
qed simp

lemma recompute_locs:
  fixes x d
  defines "f \<equiv> fold (\<lambda>(loc, deps) u. fold (\<lambda>dep u. use_add u dep loc x) deps u) d"
  shows "uses_wf u \<Longrightarrow> uses_wf (f u) \<and>
   (\<forall>s l. set (uses_at (f u) s l) = set (uses_at u s l) \<union> {y. y = x \<and> (\<exists>deps. (l, deps) \<in> set d \<and> s \<in> set deps)})"
  unfolding f_def
proof (induction d arbitrary: u)
  case (Cons a d)
  obtain loc deps where a: "a = (loc, deps)" by (cases a)
  note one = recompute_deps [OF Cons.prems, of loc x deps]
  from Cons.IH [OF conjunct1 [OF one]] one show ?case by (auto simp: a)
qed simp

lemma recompute_all:
  fixes i
  defines "f \<equiv> fold (\<lambda>(x, d) u. fold (\<lambda>(loc, deps) u. fold (\<lambda>dep u. use_add u dep loc x) deps u) d u) i"
  shows "uses_wf u \<Longrightarrow> uses_wf (f u) \<and>
   (\<forall>s l. set (uses_at (f u) s l) =
      set (uses_at u s l) \<union> {x. \<exists>d deps. (x, d) \<in> set i \<and> (l, deps) \<in> set d \<and> s \<in> set deps})"
  unfolding f_def
proof (induction i arbitrary: u)
  case (Cons a i)
  obtain x d where a: "a = (x, d)" by (cases a)
  note one = recompute_locs [OF Cons.prems, of x d]
  from Cons.IH [OF conjunct1 [OF one]] one show ?case by (auto simp: a)
qed simp

lemma recompute_uses_at:
  assumes "uses_wf i"
  shows "uses_wf (recompute_uses i)"
    and "set (uses_at (recompute_uses i) s l) = {x. s \<in> set (uses_at i x l)}"
proof -
  have "uses_wf []" by (simp add: uses_wf_def uses_get_def loc_get_def)
  note all = recompute_all [OF this, of i, folded recompute_uses_def]
  then show "uses_wf (recompute_uses i)" by blast
  have "(\<exists>d deps. (x, d) \<in> set i \<and> (l, deps) \<in> set d \<and> s \<in> set deps) \<longleftrightarrow> s \<in> set (uses_at i x l)" for x
  proof
    assume "\<exists>d deps. (x, d) \<in> set i \<and> (l, deps) \<in> set d \<and> s \<in> set deps"
    then obtain d deps where d: "(x, d) \<in> set i" "(l, deps) \<in> set d" "s \<in> set deps" by blast
    from assms d(1) have "uses_get i x = d" by (simp add: uses_wf_def uses_get_def)
    moreover from this assms have "distinct (map fst d)" by (auto simp: uses_wf_def)
    with d(2) have "loc_get d l = deps" by (simp add: loc_get_def)
    ultimately show "s \<in> set (uses_at i x l)" using d(3) by (simp add: uses_at_def)
  next
    assume "s \<in> set (uses_at i x l)"
    then obtain deps where dp: "map_of (uses_get i x) l = Some deps" "s \<in> set deps"
      by (cases "map_of (uses_get i x) l") (simp_all add: uses_at_def loc_get_def)
    then obtain d where "map_of i x = Some d" "map_of d l = Some deps" by (cases "map_of i x") (simp_all add: uses_get_def)
    with dp(2) show "\<exists>d deps. (x, d) \<in> set i \<and> (l, deps) \<in> set d \<and> s \<in> set deps" by (auto dest: map_of_SomeD)
  qed
  moreover have "uses_at [] s l = []" by (simp add: uses_at_def uses_get_def loc_get_def)
  ultimately show "set (uses_at (recompute_uses i) s l) = {x. s \<in> set (uses_at i x l)}" using all by simp
qed

lemma ref_eq_sets: "distinct xs \<Longrightarrow> distinct ys \<Longrightarrow> set xs = set ys \<Longrightarrow> ref_eq xs ys"
  by (auto simp: ref_eq_def simp flip: distinct_card)

lemma validate_wf:
  assumes "flow_wf g"
  shows "validate_instruction_graph g = Inr ()"
proof -
  let ?u = "recompute_uses (instr_inputs g)"
  have iw: "uses_wf (instr_inputs g)" "uses_wf (instr_uses g)" using assms by (auto simp: flow_wf_def)
  note re = recompute_uses_at [OF iw(1)]
  have "ref_eq deps (loc_get (uses_get (instr_uses g) x) loc)" if "(x, d) \<in> set ?u" "(loc, deps) \<in> set d" for x d loc deps
  proof -
    have "uses_get ?u x = d" using re(1) that(1) by (simp add: uses_wf_def uses_get_def)
    moreover from this have "distinct (map fst d)" using re(1) by (auto simp: uses_wf_def)
    with that(2) have "loc_get d loc = deps" by (simp add: loc_get_def)
    ultimately have deps: "deps = uses_at ?u x loc" by (simp add: uses_at_def)
    have "set deps = set (uses_of g x loc)"
      unfolding deps re(2) using assms by (simp add: flow_wf_def inputs_of_def uses_at_def)
    moreover have "distinct deps" "distinct (uses_of g x loc)"
      using re(1) iw(2) unfolding deps by (auto simp: uses_wf_def uses_at_def uses_of_def)
    ultimately show ?thesis using ref_eq_sets by (simp add: uses_of_def)
  qed
  then show ?thesis by (auto simp: validate_instruction_graph_def py_assert_def)
qed

end
