(* ===== verification/Flow_Reaching.thy ===== *)
theory Flow_Reaching
  imports Flow_Uses
begin

text \<open>
  \<open>nodes_to_flowgraph\<close> returns on every graph whose nodes are reachable, and the dependencies it
  records are exactly the reaching definitions.
\<close>

section \<open>Recorded dependencies\<close>

definition triples :: "flow_graph \<Rightarrow> (reference \<times> location \<times> reference) set" where
  "triples g = {(u, l, s). s \<in> set (inputs_of g u l)}"

definition defs_at :: "reference \<Rightarrow> location \<Rightarrow> reference option set \<Rightarrow> (reference \<times> location \<times> reference) set" where
  "defs_at u l V = (if None \<in> V then {} else {(u, l, s) | s. Some s \<in> V})"

lemma triples_add: "triples (add_instruction_use u l s g) = insert (u, l, s) (triples g)"
  by (auto simp: triples_def ref_simps split: if_splits)

lemma triples_empty: "triples empty_flow = {}"
  by (simp add: triples_def inputs_of_def empty_flow_def uses_get_def loc_get_def)

lemma match_set: "srcs_match rs V \<Longrightarrow> set rs = (if None \<in> V then {} else {s. Some s \<in> V})"
  by (auto simp: srcs_match_def split: if_splits)

lemma match_of_members:
  assumes "\<And>s. s \<in> set rs \<longleftrightarrow> None \<notin> V \<and> Some s \<in> V"
  shows "srcs_match rs V"
proof (cases "None \<in> V")
  case True
  then have "set rs = {}" by (intro equals0I) (simp add: assms)
  with True show ?thesis unfolding srcs_match_def by simp
next
  case False
  have "v \<in> Some ` set rs \<longleftrightarrow> v \<in> V" for v using assms False by (cases v) auto
  then have "Some ` set rs = V" by blast
  with False show ?thesis unfolding srcs_match_def by simp
qed

lemma add_use_sources_wf: "flow_wf g \<Longrightarrow> flow_wf (add_use_sources u l srcs g)"
proof -
  have "flow_wf g \<Longrightarrow> flow_wf (fold (\<lambda>src. add_instruction_use u l src) ss g)" for ss
    by (induction ss arbitrary: g) (auto simp: flow_wf_add)
  then show "flow_wf g \<Longrightarrow> flow_wf (add_use_sources u l srcs g)" by (simp add: add_use_sources_def)
qed

lemma triples_add_use_sources:
  assumes "srcs_match (loc_get srcs l) V"
  shows "triples (add_use_sources u l srcs g) = triples g \<union> defs_at u l V"
proof -
  have "triples (fold (\<lambda>src. add_instruction_use u l src) ss g) = triples g \<union> {(u, l, s) | s. s \<in> set ss}" for ss
    by (induction ss arbitrary: g) (auto simp: triples_add)
  then show ?thesis using match_set [OF assms] by (auto simp: add_use_sources_def defs_at_def)
qed

lemma process_inputs_result:
  assumes "\<And>l. srcs_match (loc_get srcs l) (V l)" and "flow_wf g"
  shows "\<exists>g' m'. fold (process_input arch (i, ins) srcs) ls (g, m) = (g', m') \<and> flow_wf g' \<and>
    triples g' = triples g \<union> (\<Union>l \<in> set ls. defs_at (InstrRef i) l (V l))"
  using assms(2)
proof (induction ls arbitrary: g m)
  case (Cons l ls)
  obtain m1 where m1: "process_input arch (i, ins) srcs l (g, m) = (add_use_sources (InstrRef i) l srcs g, m1)"
    by (simp add: process_input_def)
  from Cons.IH [OF add_use_sources_wf [OF Cons.prems], of "InstrRef i" l srcs m1] m1
    triples_add_use_sources [OF assms(1), of "InstrRef i" l g]
  show ?case by (auto simp del: fold_simps simp: fold_simps)
qed simp

definition instr_triples :: "(location \<Rightarrow> reference option set) \<Rightarrow> instr_ref list \<Rightarrow> instr_ref list \<Rightarrow> (reference \<times> location \<times> reference) set" where
  "instr_triples W pre xs = {t. \<exists>mid i ins post l. xs = mid @ (i, ins) # post \<and> l \<in> set (inputs ins) \<and>
     t \<in> defs_at (InstrRef i) l (flow_block l (pre @ mid) ` W l)}"

lemma instr_triplesI:
  "xs = mid @ (i, ins) # post \<Longrightarrow> l \<in> set (inputs ins) \<Longrightarrow>
   t \<in> defs_at (InstrRef i) l (flow_block l (pre @ mid) ` W l) \<Longrightarrow> t \<in> instr_triples W pre xs"
  unfolding instr_triples_def by blast

lemma defs_at_iff [simp]: "(u, l, s) \<in> defs_at u' l' V \<longleftrightarrow> u = u' \<and> l = l' \<and> None \<notin> V \<and> Some s \<in> V"
  by (auto simp: defs_at_def)

lemma instr_triplesD:
  assumes "(InstrRef i, l, s) \<in> instr_triples W pre xs"
  obtains mid ins post where "xs = mid @ (i, ins) # post" "None \<notin> flow_block l (pre @ mid) ` W l" "Some s \<in> flow_block l (pre @ mid) ` W l"
proof -
  from assms obtain mid j jns post k where "xs = mid @ (j, jns) # post"
    "(InstrRef i, l, s) \<in> defs_at (InstrRef j) k (flow_block k (pre @ mid) ` W k)" unfolding instr_triples_def by blast
  with that show ?thesis unfolding defs_at_iff by blast
qed

lemma instr_triples_Nil [simp]: "instr_triples W pre [] = {}"
  by (auto simp: instr_triples_def)

lemma instr_triples_Cons:
  "instr_triples W pre ((i, ins) # xs) =
     (\<Union>l \<in> set (inputs ins). defs_at (InstrRef i) l (flow_block l pre ` W l)) \<union> instr_triples W (pre @ [(i, ins)]) xs"
proof (intro equalityI subsetI)
  fix t assume "t \<in> instr_triples W pre ((i, ins) # xs)"
  then obtain mid j jns post l where *: "(i, ins) # xs = mid @ (j, jns) # post" "l \<in> set (inputs jns)"
    "t \<in> defs_at (InstrRef j) l (flow_block l (pre @ mid) ` W l)" by (auto simp: instr_triples_def)
  show "t \<in> (\<Union>l \<in> set (inputs ins). defs_at (InstrRef i) l (flow_block l pre ` W l)) \<union> instr_triples W (pre @ [(i, ins)]) xs"
  proof (cases mid)
    case Nil
    with * show ?thesis by auto
  next
    case (Cons b mid')
    with * have "xs = mid' @ (j, jns) # post" "pre @ mid = (pre @ [(i, ins)]) @ mid'" by auto
    with *(2,3) have "t \<in> instr_triples W (pre @ [(i, ins)]) xs" by (intro instr_triplesI [of _ mid' j jns post l]) simp_all
    then show ?thesis by blast
  qed
next
  fix t assume "t \<in> (\<Union>l \<in> set (inputs ins). defs_at (InstrRef i) l (flow_block l pre ` W l)) \<union> instr_triples W (pre @ [(i, ins)]) xs"
  then consider l where "l \<in> set (inputs ins)" "t \<in> defs_at (InstrRef i) l (flow_block l pre ` W l)"
    | "t \<in> instr_triples W (pre @ [(i, ins)]) xs" by blast
  then show "t \<in> instr_triples W pre ((i, ins) # xs)"
  proof cases
    case 1
    then show ?thesis by (intro instr_triplesI [of _ "[]" i ins xs l]) simp_all
  next
    case 2
    then obtain mid j jns post l where "xs = mid @ (j, jns) # post" "l \<in> set (inputs jns)"
      "t \<in> defs_at (InstrRef j) l (flow_block l ((pre @ [(i, ins)]) @ mid) ` W l)" by (auto simp: instr_triples_def)
    then show ?thesis by (intro instr_triplesI [of _ "(i, ins) # mid" j jns post l]) simp_all
  qed
qed

lemma advance_match:
  assumes "srcs_match (loc_get srcs l) (flow_block l pre ` W)" and "W \<noteq> {}"
  shows "srcs_match (loc_get (advance_sources (i, ins) srcs) l) (flow_block l (pre @ [(i, ins)]) ` W)"
proof -
  have "flow_block l (pre @ [(i, ins)]) ` W = (\<lambda>v. if l \<in> set (outputs ins) then Some (InstrRef i)
      else if l \<in> set (clobbers ins) then None else v) ` (flow_block l pre ` W)"
    by (simp add: flow_block_append image_image)
  then show ?thesis using assms by (auto simp: loc_get_advance srcs_match_def image_constant_conv)
qed

lemma process_instrs_result:
  assumes W: "\<And>l. W l \<noteq> {}"
  shows "(\<And>l. srcs_match (loc_get srcs l) (flow_block l pre ` W l)) \<Longrightarrow> flow_wf g \<Longrightarrow>
    \<exists>srcs' g' m'. process_instrs arch xs srcs (g, m) = (srcs', g', m') \<and> flow_wf g' \<and>
      (\<forall>l. srcs_match (loc_get srcs' l) (flow_block l (pre @ xs) ` W l)) \<and>
      triples g' = triples g \<union> instr_triples W pre xs"
proof (induction xs arbitrary: srcs pre g m)
  case (Cons x xs)
  obtain i ins where x: "x = (i, ins)" by (cases x)
  obtain g1 m1 where g1: "fold (process_input arch (i, ins) srcs) (inputs ins) (g, m) = (g1, m1)" "flow_wf g1"
    "triples g1 = triples g \<union> (\<Union>l \<in> set (inputs ins). defs_at (InstrRef i) l (flow_block l pre ` W l))"
    using process_inputs_result [OF Cons.prems] by blast
  have "srcs_match (loc_get (advance_sources (i, ins) srcs) l) (flow_block l (pre @ [(i, ins)]) ` W l)" for l
    by (rule advance_match [OF Cons.prems(1) W])
  from Cons.IH [OF this g1(2), of m1] obtain srcs' g' m' where
    r: "process_instrs arch xs (advance_sources (i, ins) srcs) (g1, m1) = (srcs', g', m')" "flow_wf g'"
    "\<forall>l. srcs_match (loc_get srcs' l) (flow_block l ((pre @ [(i, ins)]) @ xs) ` W l)"
    "triples g' = triples g1 \<union> instr_triples W (pre @ [(i, ins)]) xs" by blast
  have "process_instrs arch (x # xs) srcs (g, m) = (srcs', g', m')" using g1(1) r(1) by (simp add: x)
  moreover have "triples g' = triples g \<union> instr_triples W pre (x # xs)"
    using g1(3) r(4) by (simp add: x instr_triples_Cons Un_assoc)
  moreover have "\<forall>l. srcs_match (loc_get srcs' l) (flow_block l (pre @ x # xs) ` W l)" using r(3) by (simp add: x)
  ultimately show ?case using r(2) by blast
qed simp

section \<open>The dominator tree\<close>

text \<open>
  What the traversal relies on: the relations of the graph, an entry without parents, every node
  reachable from it, and no instructions in the exit.
\<close>

definition analysed :: "nat list \<Rightarrow> (nat \<Rightarrow> int) \<Rightarrow> (nat \<Rightarrow> node_kind) \<Rightarrow> relations \<Rightarrow> (nat \<Rightarrow> instr_ref list) \<Rightarrow> bool" where
  "analysed ns idx kinds r refs \<longleftrightarrow>
     flow_nodes ns kinds \<and> relations_of ns idx kinds r \<and> rel_parents r (hd ns) = [] \<and>
     (\<forall>n \<in> set ns. reaches (succs kinds) (hd ns) n) \<and> (\<forall>n \<in> set ns. kinds n = TerminalNode \<longrightarrow> refs n = [])"

definition subtree :: "nat list \<Rightarrow> relations \<Rightarrow> nat \<Rightarrow> nat set" where
  "subtree ns r n = {m \<in> set ns. dominates (rel_parents r) (hd ns) n m}"

lemma analysed_facts:
  assumes "analysed ns idx kinds r refs"
  shows "rel_parents r = parents_of ns (succs kinds)" and "closed_graph ns (rel_parents r)" and "hd ns \<in> set ns"
    and "n \<in> set ns \<Longrightarrow> \<exists>xs. walk (rel_parents r) (hd ns) n xs"
    and "live_parents (rel_parents r) (hd ns)"
    and "n \<in> set ns \<Longrightarrow> dominators r n = {d \<in> set ns. dominates (rel_parents r) (hd ns) d n}"
    and "imdom r = immediate_dominator ns idx (dominators r)"
    and "set (imdominates r n) = {c \<in> set ns. imdom r c = Some n}"
proof -
  from assms have fl: "flow_nodes ns kinds" and rel: "relations_of ns idx kinds r" by (auto simp: analysed_def)
  then show par: "rel_parents r = parents_of ns (succs kinds)" by (simp add: relations_of_def)
  show "closed_graph ns (rel_parents r)" unfolding par by (rule closed_parents_of)
  show e: "hd ns \<in> set ns" using fl by (simp add: flow_nodes_def)
  have cl: "closed_graph ns (succs kinds)" using fl by (simp add: flow_nodes_def)
  show w: "\<exists>xs. walk (rel_parents r) (hd ns) n xs" if "n \<in> set ns" for n
    unfolding par using assms that reaches_walk(1) [OF _ cl e] by (simp add: analysed_def)
  show "live_parents (rel_parents r) (hd ns)"
    unfolding live_parents_def using w by (auto simp: par set_parents_of)
  show "n \<in> set ns \<Longrightarrow> dominators r n = {d \<in> set ns. dominates (rel_parents r) (hd ns) d n}"
    unfolding par using rel by (simp add: relations_of_def)
  show "imdom r = immediate_dominator ns idx (dominators r)" using rel by (simp add: relations_of_def)
  then show "set (imdominates r n) = {c \<in> set ns. imdom r c = Some n}"
    using rel by (simp add: relations_of_def immediately_dominates_def)
qed

lemma immediate_dominator_in:
  assumes "immediate_dominator ns idx D n = Some d" shows "d \<in> set ns \<and> d \<in> D n - {n}"
proof (cases "filter (\<lambda>d. d \<in> D n - {n}) ns")
  case (Cons a as)
  then have "d = best_by (\<lambda>d. (card (D d), idx d)) a as" using assms by (simp add: immediate_dominator_def)
  then have "d \<in> set (filter (\<lambda>d. d \<in> D n - {n}) ns)" unfolding Cons using best_by_in by simp
  then show ?thesis by simp
qed (use assms in \<open>simp add: immediate_dominator_def\<close>)

lemma imdom_closest:
  assumes an: "analysed ns idx kinds r refs" and n: "n \<in> set ns" "n \<noteq> hd ns"
  shows "\<exists>d. imdom r n = Some d \<and> d \<in> set ns \<and> strictly_dominates (rel_parents r) (hd ns) d n \<and>
    (\<forall>a \<in> set ns. strictly_dominates (rel_parents r) (hd ns) a n \<longrightarrow> dominates (rel_parents r) (hd ns) a d)"
proof -
  note f = analysed_facts [OF an]
  obtain xs where w: "walk (rel_parents r) (hd ns) n xs" using f(4) [OF n(1)] by blast
  have D: "\<forall>n \<in> set ns. dominators r n = {d \<in> set ns. dominates (rel_parents r) (hd ns) d n}" using f(6) by blast
  from immediate_dominator_closest [OF D f(3) n w, of idx] obtain d where
    d: "immediate_dominator ns idx (dominators r) n = Some d" "strictly_dominates (rel_parents r) (hd ns) d n"
    "\<forall>a \<in> set ns. strictly_dominates (rel_parents r) (hd ns) a n \<longrightarrow> dominates (rel_parents r) (hd ns) a d" by blast
  with immediate_dominator_in [OF d(1)] show ?thesis using f(7) by auto
qed

lemma dominators_grow:
  assumes an: "analysed ns idx kinds r refs" and n: "n \<in> set ns" and d: "strictly_dominates (rel_parents r) (hd ns) d n"
    "d \<in> set ns"
  shows "card (dominators r d) < card (dominators r n)"
proof (rule psubset_card_mono)
  note f = analysed_facts [OF an]
  show "finite (dominators r n)" using f(6) [OF n] by simp
  obtain xs where w: "walk (rel_parents r) (hd ns) n xs" using f(4) [OF n] by blast
  have "dominators r d \<subseteq> dominators r n"
    unfolding f(6) [OF n] f(6) [OF d(2)] using d(1) dominates_trans by (auto simp: strictly_dominates_def)
  moreover have "n \<in> dominators r n" unfolding f(6) [OF n] using n dominates_refl by simp
  moreover have "n \<notin> dominators r d"
  proof
    assume "n \<in> dominators r d"
    then have "dominates (rel_parents r) (hd ns) n d" unfolding f(6) [OF d(2)] by simp
    then show False using dominates_antisym [OF _ _ w] d(1) by (auto simp: strictly_dominates_def)
  qed
  ultimately show "dominators r d \<subset> dominators r n" by blast
qed

lemma subtree_step:
  assumes an: "analysed ns idx kinds r refs" and n: "n \<in> set ns"
  shows "subtree ns r n = insert n (\<Union>c \<in> set (imdominates r n). subtree ns r c)"
proof (intro equalityI subsetI)
  note f = analysed_facts [OF an]
  let ?dom = "dominates (rel_parents r) (hd ns)"
  fix m assume "m \<in> subtree ns r n"
  then have "m \<in> set ns" "?dom n m" by (auto simp: subtree_def)
  then show "m \<in> insert n (\<Union>c \<in> set (imdominates r n). subtree ns r c)"
  proof (induction m rule: measure_induct_rule [of "\<lambda>m. card (dominators r m)"])
    case (less m)
    show ?case
    proof (cases "m = n")
      case False
      then have sd: "strictly_dominates (rel_parents r) (hd ns) n m" using less.prems by (auto simp: strictly_dominates_def)
      then have "m \<noteq> hd ns" using dominates_entry by (metis strictly_dominates_def)
      from imdom_closest [OF an less.prems(1) this] obtain d where d: "imdom r m = Some d" "d \<in> set ns"
        "strictly_dominates (rel_parents r) (hd ns) d m" "?dom n d" using sd n by blast
      show ?thesis
      proof (cases "d = n")
        case True
        then have "m \<in> set (imdominates r n)" using d(1) less.prems(1) by (simp add: f(8))
        moreover have "m \<in> subtree ns r m" using less.prems(1) dominates_refl by (simp add: subtree_def)
        ultimately show ?thesis by blast
      next
        case False
        with less.IH [OF dominators_grow [OF an less.prems(1) d(3,2)] d(2,4)] obtain c where
          c: "c \<in> set (imdominates r n)" "d \<in> subtree ns r c" by auto
        then have "m \<in> subtree ns r c" using d(3) less.prems(1) dominates_trans by (auto simp: subtree_def strictly_dominates_def)
        with c(1) show ?thesis by blast
      qed
    qed simp
  qed
next
  note f = analysed_facts [OF an]
  fix m assume "m \<in> insert n (\<Union>c \<in> set (imdominates r n). subtree ns r c)"
  then consider "m = n" | c where "c \<in> set (imdominates r n)" "m \<in> subtree ns r c" by blast
  then show "m \<in> subtree ns r n"
  proof cases
    case 1
    then show ?thesis using n dominates_refl by (simp add: subtree_def)
  next
    case 2
    then have c: "c \<in> set ns" "imdom r c = Some n" by (auto simp: f(8))
    have "dominates (rel_parents r) (hd ns) n c"
    proof -
      have "n \<in> dominators r c - {c}" using c(2) unfolding f(7) by (rule immediate_dominator_in [THEN conjunct2])
      then show ?thesis using f(6) [OF c(1)] by simp
    qed
    with 2(2) show ?thesis using dominates_trans by (auto simp: subtree_def)
  qed
qed

section \<open>The traversal\<close>

definition node_triples :: "arch_asm \<Rightarrow> (nat \<Rightarrow> node_kind) \<Rightarrow> (nat \<Rightarrow> instr_ref list) \<Rightarrow> (nat \<Rightarrow> nat list) \<Rightarrow> nat \<Rightarrow> nat \<Rightarrow>
    (reference \<times> location \<times> reference) set" where
  "node_triples arch kinds refs ps e n =
     instr_triples (reaching arch refs ps e n) [] (refs n) \<union>
     (if kinds n = TerminalNode
      then (\<Union>reg \<in> set (all_return_regs arch).
              defs_at (EpilogueRef (RegLoc reg)) (RegLoc reg) (end_vals arch refs ps e (RegLoc reg) n))
      else {})"

lemma efold_union:
  assumes step: "\<And>c s. c \<in> set cs \<Longrightarrow> ok s \<Longrightarrow> \<exists>s'. f c s = Inr s' \<and> ok s' \<and> T s' = T s \<union> A c"
  shows "ok s \<Longrightarrow> \<exists>s'. efold f cs s = Inr s' \<and> ok s' \<and> T s' = T s \<union> (\<Union>c \<in> set cs. A c)"
  using step
proof (induction cs arbitrary: s)
  case (Cons c cs)
  obtain s1 where s1: "f c s = Inr s1" "ok s1" "T s1 = T s \<union> A c" using Cons.prems by (meson list.set_intros(1))
  from Cons.IH [OF s1(2)] Cons.prems(2) obtain s2 where "efold f cs s1 = Inr s2" "ok s2" "T s2 = T s1 \<union> (\<Union>c \<in> set cs. A c)"
    by (meson list.set_intros(2))
  with s1 show ?case by (simp add: Un_assoc)
qed simp

lemma epilogue_uses_result:
  assumes m: "\<And>l. srcs_match (loc_get srcs l) (V l)" and wf: "flow_wf g"
  shows "flow_wf (epilogue_uses arch srcs g)"
    and "triples (epilogue_uses arch srcs g) =
      triples g \<union> (\<Union>reg \<in> set (all_return_regs arch). defs_at (EpilogueRef (RegLoc reg)) (RegLoc reg) (V (RegLoc reg)))"
proof -
  let ?f = "fold (\<lambda>reg. add_use_sources (EpilogueRef (RegLoc reg)) (RegLoc reg) srcs)"
  have "flow_wf (?f regs g) \<and> triples (?f regs g) =
      triples g \<union> (\<Union>reg \<in> set regs. defs_at (EpilogueRef (RegLoc reg)) (RegLoc reg) (V (RegLoc reg)))" for regs
    using wf
  proof (induction regs arbitrary: g)
    case (Cons reg regs)
    from Cons.IH [OF add_use_sources_wf [OF Cons.prems, of "EpilogueRef (RegLoc reg)" "RegLoc reg" srcs]]
    show ?case by (simp add: triples_add_use_sources [OF m] Un_assoc)
  qed simp
  then show "flow_wf (epilogue_uses arch srcs g)" and "triples (epilogue_uses arch srcs g) =
      triples g \<union> (\<Union>reg \<in> set (all_return_regs arch). defs_at (EpilogueRef (RegLoc reg)) (RegLoc reg) (V (RegLoc reg)))"
    by (simp_all add: epilogue_uses_def)
qed

lemma process_child:
  assumes an: "analysed ns idx kinds r refs" and c: "c \<in> set (imdominates r n)"
    and m: "\<And>l. srcs_match (loc_get srcs l) (end_vals arch refs (rel_parents r) (hd ns) l n)"
  shows "\<exists>locs d. locs_clobbered_until_dominator ns r refs c = Inr locs \<and> child_sources ns r refs c srcs locs srcs = Inr d \<and>
    (\<forall>l. srcs_match (loc_get d l) (reaching arch refs (rel_parents r) (hd ns) c l)) \<and> c \<in> set ns \<and>
    card (dominators r n) < card (dominators r c)"
proof -
  note f = analysed_facts [OF an]
  have cn: "c \<in> set ns" "imdom r c = Some n" using c by (auto simp: f(8))
  have "n \<in> set ns \<and> n \<in> dominators r c - {c}" using cn(2) unfolding f(7) by (rule immediate_dominator_in)
  then have n: "n \<in> set ns" "dominates (rel_parents r) (hd ns) n c" "n \<noteq> c" using f(6) [OF cn(1)] by auto
  then have "c \<noteq> hd ns" using dominates_entry by metis
  from child_sources_exact [OF refl f(2) cn n(2,3) this f(5) f(4) [OF cn(1)] m]
    dominators_grow [OF an cn(1) _ n(1)] n cn(1)
  show ?thesis by (auto simp: strictly_dominates_def)
qed

lemma process_node_result:
  assumes an: "analysed ns idx kinds r refs"
  shows "n \<in> set ns \<Longrightarrow> (\<And>l. srcs_match (loc_get srcs l) (reaching arch refs (rel_parents r) (hd ns) n l)) \<Longrightarrow> flow_wf g \<Longrightarrow>
    length ns < f + card (dominators r n) \<Longrightarrow>
    \<exists>s'. process_node f arch ns kinds r refs n srcs (g, m) = Inr s' \<and> flow_wf (fst s') \<and>
      triples (fst s') = triples g \<union> (\<Union>k \<in> subtree ns r n. node_triples arch kinds refs (rel_parents r) (hd ns) k)"
proof (induction f arbitrary: n srcs g m)
  case 0
  have "card (dominators r n) \<le> card (set ns)"
    using analysed_facts(6) [OF an 0(1)] by (intro card_mono) auto
  with 0(4) card_length [of ns] show ?case by simp
next
  case (Suc f)
  let ?ps = "rel_parents r" and ?e = "hd ns"
  let ?T = "node_triples arch kinds refs ?ps ?e"
  note facts = analysed_facts [OF an]
  have W: "reaching arch refs ?ps ?e n l \<noteq> {}" for l using facts(4) [OF Suc.prems(1)] by (auto simp: reaching_def)
  have m0: "srcs_match (loc_get srcs l) (flow_block l [] ` reaching arch refs ?ps ?e n l)" for l using Suc.prems(2) by simp
  from process_instrs_result [OF W m0 Suc.prems(3), of arch "refs n" m] obtain srcs' g1 m1 where
    p: "process_instrs arch (refs n) srcs (g, m) = (srcs', g1, m1)" "flow_wf g1"
    "\<And>l. srcs_match (loc_get srcs' l) (end_vals arch refs ?ps ?e l n)"
    "triples g1 = triples g \<union> instr_triples (reaching arch refs ?ps ?e n) [] (refs n)"
    by (auto simp: end_vals_def)
  define g2 where "g2 = (if kinds n = TerminalNode then epilogue_uses arch srcs' g1 else g1)"
  have "kinds n = TerminalNode \<Longrightarrow> refs n = []" using an Suc.prems(1) by (simp add: analysed_def)
  then have pre: "(if kinds n = TerminalNode
      then ebind (py_assert (refs n = [])) (\<lambda>_. Inr (epilogue_uses arch srcs' g1, m1)) else Inr (g1, m1)) = Inr (g2, m1)"
    by (simp add: g2_def)
  have g2: "flow_wf g2" "triples g2 = triples g \<union> ?T n"
    using epilogue_uses_result [OF p(3,2), of arch] p(2,4) by (auto simp: g2_def node_triples_def)
  let ?step = "\<lambda>c s'. ebind (locs_clobbered_until_dominator ns r refs c) (\<lambda>locs.
      ebind (child_sources ns r refs c srcs' locs srcs') (\<lambda>d. process_node f arch ns kinds r refs c d s'))"
  have step: "\<exists>s'. ?step c s = Inr s' \<and> flow_wf (fst s') \<and> triples (fst s') = triples (fst s) \<union> (\<Union>k \<in> subtree ns r c. ?T k)"
    if c: "c \<in> set (imdominates r n)" and s: "flow_wf (fst s)" for c s
  proof -
    obtain locs d where d: "locs_clobbered_until_dominator ns r refs c = Inr locs"
      "child_sources ns r refs c srcs' locs srcs' = Inr d"
      "\<And>l. srcs_match (loc_get d l) (reaching arch refs ?ps ?e c l)" "c \<in> set ns"
      "card (dominators r n) < card (dominators r c)" using process_child [OF an c p(3)] by blast
    have "length ns < f + card (dominators r c)" using Suc.prems(4) d(5) by simp
    from Suc.IH [OF d(4,3) s this, of "snd s"] d(1,2) show ?thesis by simp
  qed
  have "\<exists>s'. efold ?step (imdominates r n) (g2, m1) = Inr s' \<and> flow_wf (fst s') \<and>
    triples (fst s') = triples (fst (g2, m1)) \<union> (\<Union>c \<in> set (imdominates r n). \<Union>k \<in> subtree ns r c. ?T k)"
    by (rule efold_union [where ok = "\<lambda>s. flow_wf (fst s)"]) (use step g2(1) in simp_all)
  then obtain s' where s': "efold ?step (imdominates r n) (g2, m1) = Inr s'" "flow_wf (fst s')"
    "triples (fst s') = triples g2 \<union> (\<Union>c \<in> set (imdominates r n). \<Union>k \<in> subtree ns r c. ?T k)" by auto
  have "process_node (Suc f) arch ns kinds r refs n srcs (g, m) = Inr s'" using p(1) pre s'(1) by simp
  moreover have "triples (fst s') = triples g \<union> (\<Union>k \<in> subtree ns r n. ?T k)"
    unfolding subtree_step [OF an Suc.prems(1)] using s'(3) g2(2) by auto
  ultimately show ?case using s'(2) by blast
qed

definition refs_distinct :: "nat list \<Rightarrow> (nat \<Rightarrow> instr_ref list) \<Rightarrow> bool" where
  "refs_distinct ns refs \<longleftrightarrow> (\<forall>n \<in> set ns. distinct (map fst (refs n))) \<and>
     (\<forall>n \<in> set ns. \<forall>m \<in> set ns. n \<noteq> m \<longrightarrow> fst ` set (refs n) \<inter> fst ` set (refs m) = {})"

lemma refs_position:
  assumes d: "refs_distinct ns refs" and "n \<in> set ns" "k \<in> set ns"
    and n: "refs n = pre @ (i, ins) # post" and k: "refs k = mid @ (i, jns) # post'"
  shows "k = n \<and> mid = pre \<and> jns = ins"
proof -
  have "i \<in> fst ` set (refs n)" "i \<in> fst ` set (refs k)" unfolding n k by force+
  then have kn: "k = n" using d assms(2,3) unfolding refs_distinct_def by blast
  let ?p = "map fst pre" and ?m = "map fst mid"
  have eq: "?p @ i # map fst post = ?m @ i # map fst post'" using arg_cong [OF n, of "map fst"] arg_cong [OF k, of "map fst"] kn by simp
  have "distinct (map fst (refs n))" using d assms(2) by (simp add: refs_distinct_def)
  then have "distinct (?p @ i # map fst post)" unfolding n by simp
  then have "i \<notin> set ?p" "i \<notin> set (map fst post)" by simp_all
  then have "?p = ?m" using eq append_Cons_eq_iff [of i ?p "map fst post" ?m "map fst post'"] by blast
  then have "length pre = length mid" using map_eq_imp_length_eq by blast
  with n k kn show ?thesis by simp
qed

lemma entry_match:
  assumes "ps e = []"
  shows "srcs_match (loc_get (entry_sources arch) l) (reaching arch refs ps e e l)"
  unfolding reaching_entry [of ps e, OF assms] by (auto simp: loc_get_entry initial_def_def srcs_match_def split: location.splits)

lemma nodes_to_flowgraph_triples:
  assumes an: "analysed ns idx kinds r refs"
  shows "\<exists>g m. nodes_to_flowgraph arch ns kinds r refs = Inr (g, m) \<and> flow_wf g \<and>
    triples g = (\<Union>k \<in> set ns. node_triples arch kinds refs (rel_parents r) (hd ns) k)"
proof -
  note f = analysed_facts [OF an]
  have ne: "ns \<noteq> []" and ent: "rel_parents r (hd ns) = []" using an by (auto simp: analysed_def flow_nodes_def)
  have "hd ns \<in> dominators r (hd ns)" using f(6) [OF f(3)] f(3) dominates_refl by simp
  moreover have "finite (dominators r (hd ns))" using f(6) [OF f(3)] by simp
  ultimately have "0 < card (dominators r (hd ns))" by (auto simp: card_gt_0_iff)
  then have fuel: "length ns < length ns + card (dominators r (hd ns))" by simp
  have m: "srcs_match (loc_get (entry_sources arch) l) (reaching arch refs (rel_parents r) (hd ns) (hd ns) l)" for l
    by (rule entry_match) (rule ent)
  from process_node_result [OF an f(3) m flow_wf_empty fuel, of "[]"] obtain s' where
    s': "process_node (length ns) arch ns kinds r refs (hd ns) (entry_sources arch) (empty_flow, []) = Inr s'" "flow_wf (fst s')"
    "triples (fst s') = (\<Union>k \<in> subtree ns r (hd ns). node_triples arch kinds refs (rel_parents r) (hd ns) k)"
    by (auto simp: triples_empty)
  moreover have "subtree ns r (hd ns) = set ns" using walk_start_in by (auto simp: subtree_def dominates_def)
  ultimately show ?thesis using ne by (cases s') (simp add: nodes_to_flowgraph_def)
qed

lemma inputs_are_reaching:
  assumes an: "analysed ns idx kinds r refs" and rd: "refs_distinct ns refs"
  shows "\<exists>g m. nodes_to_flowgraph arch ns kinds r refs = Inr (g, m) \<and> flow_wf g \<and>
    (\<forall>n \<in> set ns. \<forall>pre i ins post l. refs n = pre @ (i, ins) # post \<longrightarrow> l \<in> set (inputs ins) \<longrightarrow>
       srcs_match (inputs_of g (InstrRef i) l) (flow_block l pre ` reaching arch refs (rel_parents r) (hd ns) n l))"
proof -
  obtain g m where g: "nodes_to_flowgraph arch ns kinds r refs = Inr (g, m)" "flow_wf g"
    and t: "triples g = (\<Union>k \<in> set ns. node_triples arch kinds refs (rel_parents r) (hd ns) k)"
    using nodes_to_flowgraph_triples [OF an, of arch] by (elim exE conjE)
  have match: "srcs_match (inputs_of g (InstrRef i) l) (flow_block l pre ` reaching arch refs (rel_parents r) (hd ns) n l)" (is "srcs_match ?rs ?V")
    if n: "n \<in> set ns" and pos: "refs n = pre @ (i, ins) # post" and l: "l \<in> set (inputs ins)" for n pre i ins post l
  proof -
    have mem: "s \<in> set ?rs \<longleftrightarrow> None \<notin> ?V \<and> Some s \<in> ?V" for s
    proof
      assume "s \<in> set ?rs"
      then have "(InstrRef i, l, s) \<in> triples g" by (simp add: triples_def)
      then obtain k where k: "k \<in> set ns" "(InstrRef i, l, s) \<in> node_triples arch kinds refs (rel_parents r) (hd ns) k" unfolding t by (rule UN_E)
      then have "(InstrRef i, l, s) \<in> instr_triples (reaching arch refs (rel_parents r) (hd ns) k) [] (refs k)"
        by (simp add: node_triples_def split: if_splits)
      then show "None \<notin> ?V \<and> Some s \<in> ?V"
        proof (rule instr_triplesD)
        fix mid ins' post'
        assume *: "refs k = mid @ (i, ins') # post'" "None \<notin> flow_block l ([] @ mid) ` reaching arch refs (rel_parents r) (hd ns) k l"
          "Some s \<in> flow_block l ([] @ mid) ` reaching arch refs (rel_parents r) (hd ns) k l"
        from refs_position [OF rd n k(1) pos *(1)] have "k = n" "mid = pre" by simp_all
        with *(2,3) show ?thesis by (simp only: append_Nil simp_thms)
      qed
    next
      assume "None \<notin> ?V \<and> Some s \<in> ?V"
      then have "(InstrRef i, l, s) \<in> instr_triples (reaching arch refs (rel_parents r) (hd ns) n) [] (refs n)"
        by (intro instr_triplesI [OF pos l]) simp
      then have "(InstrRef i, l, s) \<in> node_triples arch kinds refs (rel_parents r) (hd ns) n" unfolding node_triples_def by (rule UnI1)
      then have "(InstrRef i, l, s) \<in> triples g" unfolding t by (rule UN_I [OF n])
      then show "s \<in> set ?rs" by (simp add: triples_def)
    qed
    show ?thesis by (rule match_of_members [OF mem])
  qed
  show ?thesis by (intro exI [of _ g] exI [of _ m] conjI ballI allI impI) (fact g(1), fact g(2), rule match)
qed

end
