(* ===== verification/Flow_Props.thy ===== *)
theory Flow_Props
  imports Flow_Reaching Ppc_Arch
begin

text \<open>The properties of the flow graph, over the operations of \<open>flow_graph.py\<close>, with concrete graphs.\<close>

section \<open>A sample graph\<close>

text \<open>A loop with its test at the top, followed by a return; the entry leads into it.\<close>

definition sample_kinds :: "nat \<Rightarrow> node_kind" where
  "sample_kinds n = (if n = 0 then BasicNode 1 None else if n = 1 then ConditionalNode 3 2
     else if n = 2 then BasicNode 1 None else if n = 3 then ReturnNode 0 4 else TerminalNode)"

definition sample_nodes :: "nat list" where
  "sample_nodes = [0, 1, 2, 3, 4]"

text \<open>Two nodes that jump to each other, and an exit that nothing reaches.\<close>

definition spin_kinds :: "nat \<Rightarrow> node_kind" where
  "spin_kinds n = (if n = 0 then BasicNode 1 None else if n = 1 then BasicNode 0 None else TerminalNode)"

lemma succs_sample:
  "succs sample_kinds 0 = [1]" "succs sample_kinds 1 = [3, 2]" "succs sample_kinds 2 = [1]"
  "succs sample_kinds 3 = [4]" "succs sample_kinds 4 = []"
  by (simp_all add: succs_def children_def sample_kinds_def)

lemma sample_flow: "flow_nodes sample_nodes sample_kinds"
proof -
  have "closed_graph sample_nodes (succs sample_kinds)"
    using succs_sample by (simp add: closed_graph_def sample_nodes_def)
  moreover have "\<forall>n \<in> set sample_nodes. \<forall>s f. sample_kinds n = BasicNode s (Some f) \<longrightarrow> f = last sample_nodes" by (simp add: sample_kinds_def)
  moreover have "sample_kinds (last sample_nodes) = TerminalNode" by (simp add: sample_kinds_def sample_nodes_def)
  ultimately show ?thesis by (simp add: flow_nodes_def sample_nodes_def)
qed

lemma spin_flow: "flow_nodes [0, 1, 2] spin_kinds"
proof -
  have "closed_graph [0, 1, 2] (succs spin_kinds)" by (simp add: closed_graph_def succs_def children_def spin_kinds_def)
  moreover have "\<forall>n \<in> set [0, 1, 2::nat]. \<forall>s f. spin_kinds n = BasicNode s (Some f) \<longrightarrow> f = last [0, 1, 2::nat]" by (simp add: spin_kinds_def)
  moreover have "spin_kinds (last [0, 1, 2::nat]) = TerminalNode" by (simp add: spin_kinds_def)
  ultimately show ?thesis by (simp add: flow_nodes_def)
qed

section \<open>Relations\<close>

lemma distinct_dedup: "distinct (dedup seen xs) \<and> set (dedup seen xs) = set xs - seen"
  by (induction seen xs rule: dedup.induct) auto

lemma distinct_succs:
  assumes "\<And>s f. kinds n = BasicNode s (Some f) \<Longrightarrow> s \<noteq> f"
  shows "distinct (succs kinds n)"
  using assms by (auto simp: succs_def children_def distinct_dedup split: node_kind.splits option.splits)

text \<open>
  C9: \<open>compute_relations\<close> always returns on a graph whose last node is the exit and whose edges
  stay in the graph; the dominators of a node are the nodes on every path from the entry to it,
  its postdominators those on every path from it to the exit, and a reachable node other than
  the entry gets as immediate dominator the one that all others dominate.
\<close>

theorem compute_relations_dominance:
  assumes "flow_nodes ns kinds"
  shows "\<exists>r. compute_relations ns idx kinds ls = Inr r \<and>
    (\<forall>n \<in> set ns. dominators r n = {d \<in> set ns. dominates (parents_of ns (succs kinds)) (hd ns) d n}) \<and>
    (\<forall>n \<in> set ns. postdominators r n = {d \<in> set ns. dominates (succs kinds) (last ns) d n}) \<and>
    (\<forall>n \<in> set ns. reaches (succs kinds) (hd ns) n \<longrightarrow> n \<noteq> hd ns \<longrightarrow>
       (\<exists>d. imdom r n = Some d \<and> strictly_dominates (parents_of ns (succs kinds)) (hd ns) d n \<and>
          (\<forall>a \<in> set ns. strictly_dominates (parents_of ns (succs kinds)) (hd ns) a n \<longrightarrow>
             dominates (parents_of ns (succs kinds)) (hd ns) a d)))"
proof -
  let ?ps = "parents_of ns (succs kinds)"
  obtain r where r: "compute_relations ns idx kinds ls = Inr r" "relations_of ns idx kinds r"
    using compute_relations_correct [OF assms, of idx ls] by blast
  have cl: "closed_graph ns (succs kinds)" and e: "hd ns \<in> set ns" using assms by (simp_all add: flow_nodes_def)
  have D: "\<forall>n \<in> set ns. dominators r n = {d \<in> set ns. dominates ?ps (hd ns) d n}" using r(2) by (simp add: relations_of_def)
  have im: "imdom r = immediate_dominator ns idx (dominators r)" using r(2) by (simp add: relations_of_def)
  have "\<exists>d. imdom r n = Some d \<and> strictly_dominates ?ps (hd ns) d n \<and>
      (\<forall>a \<in> set ns. strictly_dominates ?ps (hd ns) a n \<longrightarrow> dominates ?ps (hd ns) a d)"
    if "n \<in> set ns" "reaches (succs kinds) (hd ns) n" "n \<noteq> hd ns" for n
    using immediate_dominator_closest [OF D e that(1,3)] reaches_walk(1) [OF that(2) cl e] unfolding im by blast
  moreover have "\<forall>n \<in> set ns. postdominators r n = {d \<in> set ns. dominates (succs kinds) (last ns) d n}"
    using r(2) by (simp add: relations_of_def)
  ultimately show ?thesis using r(1) D by blast
qed

theorem compute_relations_dominance_witness:
  "flow_nodes sample_nodes sample_kinds \<and> (\<exists>r. compute_relations sample_nodes int sample_kinds Map.empty = Inr r \<and>
    (\<forall>n \<in> set sample_nodes. dominators r n =
       {d \<in> set sample_nodes. dominates (parents_of sample_nodes (succs sample_kinds)) (hd sample_nodes) d n}))"
  using compute_relations_dominance [OF sample_flow, of int Map.empty] sample_flow by blast

text \<open>
  C20: the loops that \<open>compute_relations\<close> attaches to their heads are the natural loops: the
  backedges into a head are the edges from nodes it dominates, the body of the loop is the head
  with every node that reaches the tail of such an edge without passing the head, and a node
  that heads no such edge gets no loop.
\<close>

theorem compute_relations_loops:
  assumes "flow_nodes ns kinds"
  shows "\<exists>r. compute_relations ns idx kinds Map.empty = Inr r \<and>
    (\<forall>h \<in> set ns.
       let tails = {t \<in> set ns. h \<in> set (succs kinds t) \<and> dominates (parents_of ns (succs kinds)) (hd ns) h t}
       in if tails = {} then loops r h = None
          else loops r h = Some \<lparr>loop_nodes = insert h (tails \<union> {p \<in> set ns. \<exists>t \<in> tails. avoids (succs kinds) h p t}),
                                 backedges = tails\<rparr>)"
proof -
  let ?ch = "succs kinds"
  have cl: "closed_graph ns ?ch" using assms by (simp add: flow_nodes_def)
  obtain r where r: "compute_relations ns idx kinds Map.empty = Inr r" "relations_of ns idx kinds r"
    "find_backedges ns ?ch (dominators r) (edges ns ?ch) Map.empty = Inr (loops r)"
    using compute_relations_correct [OF assms, of idx Map.empty] by blast
  have "Map.empty = loop_spec ns ?ch (dominators r) []" by (simp add: loop_spec_def loop_tails_def fun_eq_iff)
  from find_backedges_correct [OF cl this, of "edges ns ?ch"] r(3)
  have ls: "loops r = loop_spec ns ?ch (dominators r) (edges ns ?ch)" by simp
  have tails: "loop_tails (dominators r) (edges ns ?ch) h =
      {t \<in> set ns. h \<in> set (?ch t) \<and> dominates (parents_of ns ?ch) (hd ns) h t}" if "h \<in> set ns" for h
    using r(2) that by (auto simp: loop_tails_def set_edges relations_of_def)
  show ?thesis
  proof (rule exI [of _ r], intro conjI ballI)
    fix h assume "h \<in> set ns"
    then show "let tails = {t \<in> set ns. h \<in> set (?ch t) \<and> dominates (parents_of ns ?ch) (hd ns) h t}
       in if tails = {} then loops r h = None
          else loops r h = Some \<lparr>loop_nodes = insert h (tails \<union> {p \<in> set ns. \<exists>t \<in> tails. avoids ?ch h p t}), backedges = tails\<rparr>"
      unfolding ls loop_spec_def tails [OF \<open>h \<in> set ns\<close>] Let_def by simp
  qed (rule r(1))
qed

theorem compute_relations_loops_witness:
  "flow_nodes sample_nodes sample_kinds \<and> (\<exists>r. compute_relations sample_nodes int sample_kinds Map.empty = Inr r)"
  using compute_relations_loops [OF sample_flow, of int] sample_flow by blast

section \<open>Exit and reducibility\<close>

text \<open>
  C5: after \<open>terminate_infinite_loops\<close> every basic node can reach the exit, whatever element
  each \<open>pop\<close> of a set returns; the loop ends, and it only adds fictive edges from basic nodes to
  the exit.
\<close>

theorem every_basic_node_reaches_exit:
  assumes "picks pick" and "flow_nodes ns kinds" and "compute_relations ns idx kinds ls = Inr r"
  shows "\<exists>kinds' r'. terminate_infinite_loops pick ns idx kinds r = Inr (kinds', r') \<and>
    (\<forall>n \<in> set ns. is_basic (kinds n) \<longrightarrow> reaches (succs kinds') n (last ns)) \<and>
    (\<forall>n. kinds' n = kinds n \<or> is_basic (kinds n) \<and> kinds' n = set_fake_successor (kinds n) (last ns))"
proof -
  have "rel_parents r = parents_of ns (succs kinds)"
    using compute_relations_correct [OF assms(2), of idx ls] assms(3) by (auto simp: relations_of_def)
  from terminate_infinite_loops_reach_exit [OF assms(1,2) this, of idx]
  show ?thesis unfolding with_exits_def by blast
qed

theorem every_basic_node_reaches_exit_witness:
  "\<exists>r kinds' r'. compute_relations [0, 1, 2] int spin_kinds Map.empty = Inr r \<and>
     terminate_infinite_loops Min [0, 1, 2] int spin_kinds r = Inr (kinds', r') \<and> reaches (succs kinds') 0 2"
proof -
  obtain r where r: "compute_relations [0, 1, 2] int spin_kinds Map.empty = Inr r"
    using compute_relations_correct [OF spin_flow, of int Map.empty] by blast
  from every_basic_node_reaches_exit [OF picks_Min spin_flow r] obtain k r' where
    k: "terminate_infinite_loops Min [0, 1, 2] int spin_kinds r = Inr (k, r')"
    "\<forall>n \<in> set [0, 1, 2]. is_basic (spin_kinds n) \<longrightarrow> reaches (succs k) n (last [0, 1, 2])" by blast
  have "is_basic (spin_kinds 0)" by (simp add: is_basic_def spin_kinds_def)
  with k(2) have "reaches (succs k) 0 2" by simp
  with r k(1) show ?thesis by blast
qed

text \<open>
  C11: \<open>is_reducible\<close> answers whether the graph is reducible in the sense of its documentation:
  the edges whose target does not dominate their source form an acyclic graph, all nodes are
  reachable from the entry, and all reach the exit.  The answer does not depend on the order in
  which sets are popped, and the dictionary of incoming edges never misses a key.
\<close>

theorem is_reducible_decides:
  assumes "picks pick" and "flow_nodes ns kinds" and "distinct ns"
    and "\<And>n s f. n \<in> set ns \<Longrightarrow> kinds n = BasicNode s (Some f) \<Longrightarrow> s \<noteq> f"
    and "compute_relations ns idx kinds Map.empty = Inr r"
  shows "is_reducible pick ns kinds r =
    Inr (acyclic {(p, s). p \<in> set ns \<and> s \<in> set (succs kinds p) \<and> \<not> dominates (parents_of ns (succs kinds)) (hd ns) s p} \<and>
         (\<forall>n \<in> set ns. reaches (succs kinds) (hd ns) n) \<and> (\<forall>n \<in> set ns. reaches (succs kinds) n (last ns)))"
proof -
  let ?ch = "succs kinds"
  have cl: "closed_graph ns ?ch" using assms(2) by (simp add: flow_nodes_def)
  obtain r': "relations_of ns idx kinds r" "find_backedges ns ?ch (dominators r) (edges ns ?ch) Map.empty = Inr (loops r)"
    using compute_relations_correct [OF assms(2), of idx Map.empty] assms(5) by auto
  have "Map.empty = loop_spec ns ?ch (dominators r) []" by (simp add: loop_spec_def loop_tails_def fun_eq_iff)
  from find_backedges_correct [OF cl this, of "edges ns ?ch"] r'(2)
  have "loops r = loop_spec ns ?ch (dominators r) (edges ns ?ch)" by simp
  then have ex: "loops_exact ns ?ch r" by (rule loops_exact_spec)
  have "distinct (?ch n)" if "n \<in> set ns" for n using assms(4) [OF that] by (rule distinct_succs)
  from is_reducible_iff [OF assms(1-3) this r'(1) ex] show ?thesis unfolding forward_edges_def .
qed

theorem is_reducible_decides_witness:
  "\<exists>r. compute_relations sample_nodes int sample_kinds Map.empty = Inr r \<and> (\<exists>b. is_reducible Min sample_nodes sample_kinds r = Inr b)"
proof -
  obtain r where r: "compute_relations sample_nodes int sample_kinds Map.empty = Inr r"
    using compute_relations_correct [OF sample_flow, of int Map.empty] by blast
  have "distinct sample_nodes" by (simp add: sample_nodes_def)
  moreover have "s \<noteq> f" if "sample_kinds n = BasicNode s (Some f)" for n s f
    using that by (simp add: sample_kinds_def split: if_splits)
  ultimately show ?thesis using is_reducible_decides [OF picks_Min sample_flow _ _ r] r by blast
qed

section \<open>Definitions and uses\<close>

text \<open>
  C33: the dictionaries of inputs and uses stay each other's mirror image under the operations
  that change them; clearing the inputs of an instruction never fails, removes exactly its
  dependencies, and the validation of the source accepts every such graph.
\<close>

theorem inputs_mirror_uses:
  assumes "flow_wf g"
  shows "flow_wf (add_instruction_use u l s g) \<and> s \<in> set (inputs_of (add_instruction_use u l s g) u l) \<and>
    validate_instruction_graph g = Inr () \<and>
    (\<exists>g'. clear_instruction_inputs x g = Inr g' \<and> flow_wf g' \<and>
       (\<forall>u l. inputs_of g' u l = (if u = x then [] else inputs_of g u l)) \<and>
       (\<forall>s l. set (uses_of g' s l) = set (uses_of g s l) - {x}))"
  using flow_wf_add [OF assms] clear_instruction_inputs_result [OF assms] validate_wf [OF assms]
  by (simp add: ref_simps)

theorem inputs_mirror_uses_witness:
  "\<exists>g'. clear_instruction_inputs (InstrRef 1) (add_instruction_use (InstrRef 1) (StackLocation 0 None) (InstrRef 0) empty_flow) = Inr g' \<and>
     flow_wf g'"
  using inputs_mirror_uses [OF flow_wf_add [OF flow_wf_empty], of "InstrRef 1" "StackLocation 0 None" "InstrRef 0" _ _ _ "InstrRef 1"]
  by blast

text \<open>What the traversal for uses relies on, over the graph itself.\<close>

definition traversable :: "nat list \<Rightarrow> (nat \<Rightarrow> node_kind) \<Rightarrow> (nat \<Rightarrow> instr_ref list) \<Rightarrow> bool" where
  "traversable ns kinds refs \<longleftrightarrow>
     flow_nodes ns kinds \<and> (\<forall>n \<in> set ns. hd ns \<notin> set (succs kinds n)) \<and>
     (\<forall>n \<in> set ns. reaches (succs kinds) (hd ns) n) \<and>
     (\<forall>n \<in> set ns. kinds n = TerminalNode \<longrightarrow> refs n = []) \<and> refs_distinct ns refs"

text \<open>
  C1: \<open>nodes_to_flowgraph\<close> returns on every graph whose nodes are reachable from an entry with
  no edges into it, and the sources it records for an input of an instruction are exactly its
  reaching definitions: none if some path from the entry leaves the location undefined or
  clobbered there, otherwise the last definitions along all the paths.
\<close>

theorem inputs_are_reaching_definitions:
  assumes "traversable ns kinds refs" and "compute_relations ns idx kinds ls = Inr r"
  shows "\<exists>g m. nodes_to_flowgraph arch ns kinds r refs = Inr (g, m) \<and> flow_wf g \<and>
    (\<forall>n \<in> set ns. \<forall>pre i ins post l. refs n = pre @ (i, ins) # post \<longrightarrow> l \<in> set (inputs ins) \<longrightarrow>
       (let V = flow_block l pre ` reaching arch refs (parents_of ns (succs kinds)) (hd ns) n l
        in if None \<in> V then inputs_of g (InstrRef i) l = [] else Some ` set (inputs_of g (InstrRef i) l) = V))"
proof -
  have fl: "flow_nodes ns kinds" and rd: "refs_distinct ns refs" using assms(1) by (auto simp: traversable_def)
  have rel: "relations_of ns idx kinds r" using compute_relations_correct [OF fl, of idx ls] assms(2) by auto
  then have par: "rel_parents r = parents_of ns (succs kinds)" by (simp add: relations_of_def)
  have "set (rel_parents r (hd ns)) = {}" using assms(1) by (simp add: traversable_def par set_parents_of)
  then have "analysed ns idx kinds r refs" using assms(1) rel by (simp add: analysed_def traversable_def)
  from inputs_are_reaching [OF this rd, of arch] show ?thesis unfolding srcs_match_def par Let_def .
qed

text \<open>A register initialised before the loop and incremented in it.\<close>

definition sample_instr :: "nat \<Rightarrow> string \<Rightarrow> location list \<Rightarrow> location list \<Rightarrow> instruction" where
  "sample_instr i mn is os = plain_instruction i mn [] meta_missing is [] os"

definition counter_reg :: location where
  "counter_reg = RegLoc (Register ''r3'')"

definition sample_refs :: "nat \<Rightarrow> instr_ref list" where
  "sample_refs n = (if n = 0 then [(10, sample_instr 0 ''li'' [] [counter_reg])]
     else if n = 2 then [(11, sample_instr 1 ''addi'' [counter_reg] [counter_reg])] else [])"

lemma sample_traversable: "traversable sample_nodes sample_kinds sample_refs"
proof -
  let ?R = "reaches (succs sample_kinds)"
  have r0: "?R 0 0" by simp
  have r1: "?R 0 1" using rtranclp.rtrancl_into_rtrancl [OF r0] succs_sample by simp
  have r2: "?R 0 2" using rtranclp.rtrancl_into_rtrancl [OF r1] succs_sample by simp
  have r3: "?R 0 3" using rtranclp.rtrancl_into_rtrancl [OF r1] succs_sample by simp
  have r4: "?R 0 4" using rtranclp.rtrancl_into_rtrancl [OF r3] succs_sample by simp
  have "\<forall>n \<in> set sample_nodes. ?R (hd sample_nodes) n" using r0 r1 r2 r3 r4 by (simp add: sample_nodes_def)
  moreover have "refs_distinct sample_nodes sample_refs" by (simp add: refs_distinct_def sample_nodes_def sample_refs_def)
  moreover have "\<forall>n \<in> set sample_nodes. hd sample_nodes \<notin> set (succs sample_kinds n)"
    using succs_sample by (simp add: sample_nodes_def)
  moreover have "\<forall>n \<in> set sample_nodes. sample_kinds n = TerminalNode \<longrightarrow> sample_refs n = []"
    by (simp add: sample_nodes_def sample_kinds_def sample_refs_def)
  ultimately show ?thesis using sample_flow by (simp add: traversable_def)
qed

theorem inputs_are_reaching_definitions_witness:
  "\<exists>r g m. compute_relations sample_nodes int sample_kinds Map.empty = Inr r \<and>
     nodes_to_flowgraph ppc_arch sample_nodes sample_kinds r sample_refs = Inr (g, m) \<and> flow_wf g \<and>
     (let V = flow_block counter_reg [] `
                reaching ppc_arch sample_refs (parents_of sample_nodes (succs sample_kinds)) (hd sample_nodes) 2 counter_reg
      in if None \<in> V then inputs_of g (InstrRef 11) counter_reg = []
         else Some ` set (inputs_of g (InstrRef 11) counter_reg) = V)"
proof -
  obtain r where r: "compute_relations sample_nodes int sample_kinds Map.empty = Inr r"
    using compute_relations_correct [OF sample_flow, of int Map.empty] by blast
  have pos: "sample_refs 2 = [] @ (11, sample_instr 1 ''addi'' [counter_reg] [counter_reg]) # []" by (simp add: sample_refs_def)
  have inp: "counter_reg \<in> set (inputs (sample_instr 1 ''addi'' [counter_reg] [counter_reg]))"
    by (simp add: sample_instr_def plain_instruction_def)
  have two: "2 \<in> set sample_nodes" by (simp add: sample_nodes_def)
  from inputs_are_reaching_definitions [OF sample_traversable r, of ppc_arch] obtain g m where
    g: "nodes_to_flowgraph ppc_arch sample_nodes sample_kinds r sample_refs = Inr (g, m)" "flow_wf g"
    and all: "\<forall>n \<in> set sample_nodes. \<forall>pre i ins post l. sample_refs n = pre @ (i, ins) # post \<longrightarrow> l \<in> set (inputs ins) \<longrightarrow>
       (let V = flow_block l pre ` reaching ppc_arch sample_refs (parents_of sample_nodes (succs sample_kinds)) (hd sample_nodes) n l
        in if None \<in> V then inputs_of g (InstrRef i) l = [] else Some ` set (inputs_of g (InstrRef i) l) = V)"
    by (elim exE conjE)
  from all [rule_format, OF two pos inp] r g show ?thesis by blast
qed

section \<open>An entry inside a loop\<close>

text \<open>
  When the first block is itself the target of a branch, its inputs only get the values from
  before the function: the definition made by the previous round of the loop is missing.
\<close>

definition entry_loop_kinds :: "nat \<Rightarrow> node_kind" where
  "entry_loop_kinds n = (if n = 0 then ConditionalNode 0 1 else if n = 1 then ReturnNode 0 2 else TerminalNode)"

definition entry_loop_refs :: "nat \<Rightarrow> instr_ref list" where
  "entry_loop_refs n = (if n = 0 then [(10, sample_instr 0 ''addi'' [counter_reg] [counter_reg])] else [])"

definition entry_loop_arch :: arch_asm where
  "entry_loop_arch = ppc_arch\<lparr>all_regs := [Register ''r3''], all_return_regs := []\<rparr>"

definition entry_loop_inputs :: "ref_set res" where
  "entry_loop_inputs = 
     ebind (compute_relations [0, 1, 2] int entry_loop_kinds Map.empty) (\<lambda>r.
     ebind (nodes_to_flowgraph entry_loop_arch [0, 1, 2] entry_loop_kinds r entry_loop_refs) (\<lambda>(g, m).
       Inr (inputs_of g (InstrRef 10) counter_reg)))"

lemma entry_loop_run: "entry_loop_inputs = Inr [PrologueRef counter_reg]"
  by code_simp

lemma entry_loop_misses_definition:
  "entry_loop_inputs = Inr [PrologueRef counter_reg] \<and>
   Some (InstrRef 10) \<in> reaching entry_loop_arch entry_loop_refs (parents_of [0, 1, 2] (succs entry_loop_kinds)) 0 0 counter_reg"
proof
  let ?ps = "parents_of [0, 1, 2] (succs entry_loop_kinds)"
  have "0 \<in> set (?ps 0)" by (simp add: set_parents_of succs_def children_def entry_loop_kinds_def)
  from walk.step [OF walk.start [of ?ps 0] this] have "walk ?ps 0 0 [0, 0]" by simp
  moreover have "flow_path entry_loop_arch entry_loop_refs counter_reg (butlast [0, 0]) = Some (InstrRef 10)"
    by (simp add: flow_path_def entry_loop_refs_def sample_instr_def plain_instruction_def)
  ultimately show "Some (InstrRef 10) \<in> reaching entry_loop_arch entry_loop_refs ?ps 0 0 counter_reg"
    unfolding reaching_def mem_Collect_eq by (intro exI [of _ "[0, 0]"]) simp
qed (rule entry_loop_run)

end
