(* ===== verification/Flow_Build_Props.thy ===== *)
theory Flow_Build_Props
  imports Flow_Layout Flow_Copies Flow_Props
begin

text \<open>The properties of the construction of the flow graph, from the body of a function to its nodes.\<close>

section \<open>A sample function\<close>

definition listing_instr :: "nat \<Rightarrow> string \<Rightarrow> argument list \<Rightarrow> instruction" where
  "listing_instr n m as = plain_instruction n m as meta_missing [] [] []"

text \<open>A test, a branch over an addition, and a return.\<close>

definition sample_body :: "body_part list" where
  "sample_body =
     [BInstr ((listing_instr 0 ''beq'' [AsmGlobalSymbol ''end''])\<lparr>ins_jump := Some (JumpTo (JumpTarget ''end'')), is_conditional := True\<rparr>),
      BLabel (Label [''unused'']), BInstr (listing_instr 1 ''addi'' []),
      BLabel (Label [''end'', ''also'']), BLabel (Label [''more'']),
      BInstr ((listing_instr 2 ''blr'' [])\<lparr>is_return := True\<rparr>)]"

definition sample_fn :: asm_function where
  "sample_fn = \<lparr>fn_name = ''f'', fn_body = sample_body\<rparr>"

definition no_data :: asm_data where
  "no_data = \<lparr>ad_values = [], mentioned_labels = {''more''}\<rparr>"

lemma sample_blocks: "\<exists>bs m. build_blocks ppc_arch [] no_data False sample_fn 3 = Inr (bs, m)"
proof -
  have "\<not> is_err (build_blocks ppc_arch [] no_data False sample_fn 3)" by code_simp
  then show ?thesis by (cases "build_blocks ppc_arch [] no_data False sample_fn 3") auto
qed

lemma sample_nodes_built:
  "\<exists>bs m g d'. build_blocks ppc_arch [] no_data False sample_fn 3 = Inr (bs, m) \<and> build_nodes ppc_arch False bs no_data = Inr (g, d')"
proof -
  obtain bs m where r: "build_blocks ppc_arch [] no_data False sample_fn 3 = Inr (bs, m)" using sample_blocks by blast
  have "\<not> is_err (ebind (build_blocks ppc_arch [] no_data False sample_fn 3) (\<lambda>(bs, m). build_nodes ppc_arch False bs no_data))"
    by code_simp
  then obtain g d' where "build_nodes ppc_arch False bs no_data = Inr (g, d')"
    using r by (cases "build_nodes ppc_arch False bs no_data") auto
  with r show ?thesis by blast
qed

lemma sample_return: "return_sequence (missing_return ppc_arch)"
  unfolding return_sequence_def by code_simp

section \<open>Labels\<close>

text \<open>
  C34: \<open>minimize_labels\<close> keeps the instructions of a function in their order; of its labels it
  keeps those that are used, each before the same instruction, and every label that a jump or a
  call of the function names counts as used.  Adjacent labels are merged and empty ones dropped,
  and a second pass changes nothing.
\<close>

theorem minimize_labels_correct:
  "body_instrs (fn_body (minimize_labels d f)) = body_instrs (fn_body f) \<and>
   label_table 0 (fn_body (minimize_labels d f)) =
     filter (\<lambda>(nm, k). nm \<in> set (labels_used d (fn_body f))) (label_table 0 (fn_body f)) \<and>
   set (concat (map instr_labels (body_instrs (fn_body f)))) \<subseteq> set (labels_used d (fn_body f)) \<and>
   merged (fn_body (minimize_labels d f)) \<and> list_all (\<lambda>p. p \<noteq> BLabel (Label [])) (fn_body (minimize_labels d f)) \<and>
   minimize_labels d (minimize_labels d f) = minimize_labels d f"
proof -
  have "set (concat (map instr_labels (body_instrs (fn_body f)))) \<subseteq> set (labels_used d (fn_body f))"
    using labels_used_instrs by fastforce
  moreover have "list_all (\<lambda>p. p \<noteq> BLabel (Label [])) (fn_body (minimize_labels d f))"
    using merge_labels_nonempty [of "Label []"] by (auto simp: list_all_iff minimize_labels_body)
  ultimately show ?thesis
    by (simp add: minimize_labels_body merge_labels_instrs merge_labels_table merge_labels_merged minimize_labels_idem)
qed

section \<open>Blocks\<close>

text \<open>
  C3: without delay slots, \<open>build_blocks\<close> cuts the simplified body into numbered blocks that are
  not empty, with jumps at their ends only.  Together the blocks hold the instructions of the
  body in their order, with each conditional return made a branch to a label of its own, then
  the safeguard return and, if there is a conditional return, the block for it.  Every label of
  the body stands at the block that starts with the instruction after it.
\<close>

theorem build_blocks_layout:
  assumes "arch_name arch \<noteq> MIPS" and "return_sequence (missing_return arch)"
    and "build_blocks arch pats d False f n = Inr (bs, m)"
  shows "\<exists>simp n' a b code.
    simplify_patterns arch d pats (fn_body (minimize_labels d f)) n = Inr (simp, n') \<and>
    (let body = fn_body (minimize_labels d \<lparr>fn_name = fn_name f, fn_body = simp\<rparr>); tail = missing_return arch;
         cond = (\<exists>i \<in> set (body_instrs body). conditional_return i)
     in block_code bs = code @ number_from a tail @ (if cond then number_from b tail else []) \<and>
        list_all2 (lowered arch) (body_instrs body) code \<and>
        block_table 0 bs = label_table 0 body @ (if cond then [(ret_label, length code + length tail)] else [])) \<and>
    numbered bs \<and> (\<forall>x \<in> set bs. blk_instrs x \<noteq> []) \<and> cut_at_jumps bs"
proof -
  from assms(1,3) obtain simp n' s where simp: "simplify_patterns arch d pats (fn_body (minimize_labels d f)) n = Inr (simp, n')"
    and s: "efold (process_no_delay_slots arch) (fn_body (minimize_labels d \<lparr>fn_name = fn_name f, fn_body = simp\<rparr>))
      \<lparr>bs_builder = empty_builder, bs_next = n', branch_likely_counts = (\<lambda>_. 0), cond_return_target = None\<rparr> = Inr s"
    and fin: "finish_blocks arch False s = Inr (bs, m)"
    by (auto simp: build_blocks_def Let_def process_body_def bodyless_copy_def split: prod.splits)
  have "good_blocks bs" using all_resD [OF build_blocks_good assms(3)] by simp
  moreover note finish_blocks_layout [OF fin efold_layout [OF s laid_out_start] assms(2)]
  then obtain code a b where
    "block_code bs = code @ number_from a (missing_return arch) @
       (if \<exists>i \<in> set (body_instrs (fn_body (minimize_labels d \<lparr>fn_name = fn_name f, fn_body = simp\<rparr>))). conditional_return i
        then number_from b (missing_return arch) else [])"
    "list_all2 (lowered arch) (body_instrs (fn_body (minimize_labels d \<lparr>fn_name = fn_name f, fn_body = simp\<rparr>))) code" "cut_at_jumps bs"
    "block_table 0 bs = label_table 0 (fn_body (minimize_labels d \<lparr>fn_name = fn_name f, fn_body = simp\<rparr>)) @
       (if \<exists>i \<in> set (body_instrs (fn_body (minimize_labels d \<lparr>fn_name = fn_name f, fn_body = simp\<rparr>))). conditional_return i
        then [(ret_label, length (body_instrs (fn_body (minimize_labels d \<lparr>fn_name = fn_name f, fn_body = simp\<rparr>))) + length (missing_return arch))] else [])"
    by blast
  ultimately show ?thesis using simp list_all2_lengthD unfolding good_blocks_def Let_def by fastforce
qed

theorem build_blocks_layout_witness:
  "\<exists>bs m. build_blocks ppc_arch [] no_data False sample_fn 3 = Inr (bs, m) \<and> numbered bs \<and> cut_at_jumps bs"
proof -
  obtain bs m where r: "build_blocks ppc_arch [] no_data False sample_fn 3 = Inr (bs, m)" using sample_blocks by blast
  have "arch_name ppc_arch \<noteq> MIPS" by code_simp
  from build_blocks_layout [OF this sample_return r] r show ?thesis by blast
qed

section \<open>Nodes\<close>

text \<open>
  C8: from the blocks of \<open>build_blocks\<close>, on any target, \<open>build_nodes\<close> never exhausts its search,
  and what it builds is a graph with the exit last: edges stay in the graph, the first block is
  the entry, each node has a block of its own, only the exit has none, and every other node can
  be reached from the entry.
\<close>

theorem build_nodes_from_blocks:
  assumes "build_blocks arch pats d fragment f n = Inr (bs, m)"
  shows "no_fuel (build_nodes arch fragment bs d) \<and>
    (\<forall>g d'. build_nodes arch fragment bs d = Inr (g, d') \<longrightarrow>
      flow_nodes (ng_order g) (ng_kind g) \<and> distinct (ng_order g) \<and> ng_block g (hd (ng_order g)) = bs ! 0 \<and>
      (\<forall>k \<in> set (ng_order g). ng_kind g k = TerminalNode \<longleftrightarrow> k = last (ng_order g)) \<and>
      (\<forall>k \<in> set (ng_order g). k \<noteq> last (ng_order g) \<longrightarrow>
         ng_block g k \<in> set bs \<and> reaches (succs (ng_kind g)) (hd (ng_order g)) k))"
proof -
  have num: "numbered bs" using all_resD [OF build_blocks_good assms] by (simp add: good_blocks_def)
  have "flow_nodes (ng_order g) (ng_kind g) \<and> distinct (ng_order g) \<and> ng_block g (hd (ng_order g)) = bs ! 0 \<and>
      (\<forall>k \<in> set (ng_order g). ng_kind g k = TerminalNode \<longleftrightarrow> k = last (ng_order g)) \<and>
      (\<forall>k \<in> set (ng_order g). k \<noteq> last (ng_order g) \<longrightarrow> ng_block g k \<in> set bs \<and> reaches (succs (ng_kind g)) (hd (ng_order g)) k)"
    if r: "build_nodes arch fragment bs d = Inr (g, d')" for g d'
  proof -
    note G = build_nodes_graph [OF num r]
    have wf: "node_graph_wf g" using G by blast
    note D = node_graph_wfD [OF wf]
    have "ng_kind g k = TerminalNode \<longleftrightarrow> k = 0" if "k \<in> set (ng_order g)" for k
      using that D(2) D(9) [of k] unfolding D(5) by auto
    moreover have "ng_block g k \<in> set bs \<and> reaches (succs (ng_kind g)) (hd (ng_order g)) k" if "k \<in> set (ng_order g)" "k \<noteq> 0" for k
      using conjunct2 [OF conjunct2 [OF G], rule_format, OF that] by (metis nth_mem)
    moreover have "flow_nodes (ng_order g) (ng_kind g)" using wf by (simp add: node_graph_wf_def)
    ultimately show ?thesis using G D(4) unfolding D(6) by (intro conjI ballI impI) (assumption | blast)+
  qed
  then show ?thesis using build_nodes_no_fuel [OF num] by blast
qed

theorem build_nodes_from_blocks_witness:
  "\<exists>bs m g d'. build_blocks ppc_arch [] no_data False sample_fn 3 = Inr (bs, m) \<and>
     build_nodes ppc_arch False bs no_data = Inr (g, d') \<and> flow_nodes (ng_order g) (ng_kind g)"
proof -
  obtain bs m g d' where r: "build_blocks ppc_arch [] no_data False sample_fn 3 = Inr (bs, m)" "build_nodes ppc_arch False bs no_data = Inr (g, d')"
    using sample_nodes_built by blast
  from build_nodes_from_blocks [OF r(1)] r show ?thesis by blast
qed

section \<open>Early returns\<close>

text \<open>
  C2: on the graph of a function \<open>duplicate_premature_returns\<close> always succeeds and unfolds the
  graph: each node of the result stands for one of the original with the same instructions, the
  same kind of end and the same edges, the entry and the exit stay, and all other nodes can be
  reached.  A basic node that left early to the shared return has an edge to a return that no
  other original node has an edge to, and no other node changes.
\<close>

theorem duplicate_returns_unfold:
  assumes "picks pick" and "build_blocks arch pats d fragment f n = Inr (bs, m)" and "build_nodes arch fragment bs d = Inr (g, d')"
  shows "\<exists>h m' \<phi>. duplicate_premature_returns pick arch g m = Inr (h, m') \<and>
    flow_nodes (ng_order h) (ng_kind h) \<and> hd (ng_order h) = hd (ng_order g) \<and> last (ng_order h) = last (ng_order g) \<and>
    (\<forall>k \<in> set (ng_order h). k = last (ng_order h) \<or> reaches (succs (ng_kind h)) (hd (ng_order h)) k) \<and>
    (\<forall>k \<in> set (ng_order h). \<phi> k \<in> set (ng_order g) \<and> (k \<in> set (ng_order g) \<longrightarrow> \<phi> k = k) \<and>
       map \<phi> (succs (ng_kind h) k) = succs (ng_kind g) (\<phi> k) \<and> same_code (ng_block h k) (ng_block g (\<phi> k)) \<and>
       is_return_node (ng_kind h k) = is_return_node (ng_kind g (\<phi> k))) \<and>
    (\<forall>k \<in> set (ng_order g). if premature arch g k then has_copy g h k else ng_kind h k = ng_kind g k)"
proof -
  have "numbered bs" using all_resD [OF build_blocks_good assms(2)] by (simp add: good_blocks_def)
  then have wf: "node_graph_wf g" using build_nodes_graph assms(3) by blast
  obtain h m' where r: "duplicate_premature_returns pick arch g m = Inr (h, m')"
    and h: "flow_nodes (ng_order h) (ng_kind h)" "hd (ng_order h) = hd (ng_order g)" "last (ng_order h) = last (ng_order g)"
    "\<forall>k \<in> set (ng_order h). k = last (ng_order h) \<or> reaches (succs (ng_kind h)) (hd (ng_order h)) k"
    "\<forall>k \<in> set (ng_order h). orig g k \<in> set (ng_order g) \<and> (k \<in> set (ng_order g) \<longrightarrow> orig g k = k) \<and>
       map (orig g) (succs (ng_kind h) k) = succs (ng_kind g) (orig g k) \<and>
       same_code (ng_block h k) (ng_block g (orig g k)) \<and>
       is_return_node (ng_kind h k) = is_return_node (ng_kind g (orig g k))"
    using duplicate_premature_returns_result [OF assms(1) wf, of arch m] by (elim exE conjE) (rule that)
  have "if premature arch g k then has_copy g h k else ng_kind h k = ng_kind g k" if "k \<in> set (ng_order g)" for k
    using duplicate_premature_returns_copies [OF wf r, of k] that unfolding node_graph_wfD(5) [OF wf] by simp
  then have all: "\<forall>k \<in> set (ng_order g). if premature arch g k then has_copy g h k else ng_kind h k = ng_kind g k" by (rule ballI)
  show ?thesis by (rule exI [of _ h], rule exI [of _ m'], rule exI [of _ "orig g"]) (intro conjI r h all)
qed

theorem duplicate_returns_unfold_witness:
  "\<exists>bs m g d' h m'. build_blocks ppc_arch [] no_data False sample_fn 3 = Inr (bs, m) \<and>
     build_nodes ppc_arch False bs no_data = Inr (g, d') \<and>
     duplicate_premature_returns Min ppc_arch g m = Inr (h, m') \<and> flow_nodes (ng_order h) (ng_kind h)"
proof -
  obtain bs m g d' where r: "build_blocks ppc_arch [] no_data False sample_fn 3 = Inr (bs, m)" "build_nodes ppc_arch False bs no_data = Inr (g, d')"
    using sample_nodes_built by blast
  from duplicate_returns_unfold [OF picks_Min r] r show ?thesis by blast
qed

end
