(* ===== verification/Demangle.thy ===== *)
theory Demangle
  imports Py_Text
begin

text \<open>
  Model of \<open>m2c/m2c/demangle_codewarrior.py\<close>: the demangler for the C++ symbols of the
  CodeWarrior compiler.

  A \<open>StringIO\<close> is the text that is still to be read: reading returns it shortened, peeking does
  not.  \<open>CxxTerm\<close> has one constructor per group of fields that its kind populates.  The parsers
  call one another; every call takes one unit of fuel, and \<open>parse\<close> starts with enough for every
  text.  Python's limit on the number of digits that \<open>int\<close> converts is left out.
\<close>

section \<open>Names, terms, types and symbols\<close>

datatype cxx_kind =
    Kind_CONST | Kind_POINTER | Kind_REFERENCE | Kind_SIGNED | Kind_UNSIGNED | Kind_ELLIPSIS | Kind_VOID | Kind_BOOL
  | Kind_CHAR | Kind_SHORT | Kind_INT | Kind_LONG | Kind_LONG_LONG | Kind_WIDE_CHAR | Kind_FLOAT | Kind_DOUBLE
  | Kind_LONG_DOUBLE | Kind_ARRAY | Kind_QUALIFIED | Kind_FUNCTION | Kind_SYMBOL_REFERENCE

definition cxx_kinds :: "(char \<times> cxx_kind) list" where
  "cxx_kinds =
     [(CHR ''C'', Kind_CONST), (CHR ''P'', Kind_POINTER), (CHR ''R'', Kind_REFERENCE), (CHR ''S'', Kind_SIGNED),
      (CHR ''U'', Kind_UNSIGNED), (CHR ''e'', Kind_ELLIPSIS), (CHR ''v'', Kind_VOID), (CHR ''b'', Kind_BOOL),
      (CHR ''c'', Kind_CHAR), (CHR ''s'', Kind_SHORT), (CHR ''i'', Kind_INT), (CHR ''l'', Kind_LONG),
      (CHR ''x'', Kind_LONG_LONG), (CHR ''w'', Kind_WIDE_CHAR), (CHR ''f'', Kind_FLOAT), (CHR ''d'', Kind_DOUBLE),
      (CHR ''r'', Kind_LONG_DOUBLE), (CHR ''A'', Kind_ARRAY), (CHR ''Q'', Kind_QUALIFIED), (CHR ''F'', Kind_FUNCTION),
      (CHR ''&'', Kind_SYMBOL_REFERENCE)]"

datatype cxx_name = CxxName string "cxx_type list option"
and cxx_term =
    PlainTerm cxx_kind
  | ArrayTerm int
  | QualifiedTerm "cxx_name list"
  | FunctionTerm "cxx_type list" "cxx_type option"
  | SymbolTerm cxx_symbol
and cxx_type = CxxType "cxx_term list"
and cxx_symbol = CxxSymbol cxx_term cxx_type

definition nonterminating :: "cxx_term \<Rightarrow> bool" where
  "nonterminating t = (case t of
     PlainTerm k \<Rightarrow> k \<in> {Kind_CONST, Kind_POINTER, Kind_REFERENCE, Kind_SIGNED, Kind_UNSIGNED}
   | ArrayTerm _ \<Rightarrow> True
   | _ \<Rightarrow> False)"

section \<open>Reading\<close>

definition read_exact :: "nat \<Rightarrow> string \<Rightarrow> (string \<times> string) res" where
  "read_exact n s = (if length s < n then Inl ValueError else Inr (take n s, drop n s))"

text \<open>\<open>peek(src) in chars\<close> for single characters; at the end of the text nothing is peeked.\<close>

definition peek_in :: "string \<Rightarrow> string \<Rightarrow> bool" where
  "peek_in cs s = (case s of c # _ \<Rightarrow> c \<in> set cs | [] \<Rightarrow> False)"

definition NUMBER_CHARS :: string where
  "NUMBER_CHARS = ''-0123456789''"

definition all_read :: "('a \<times> string) res \<Rightarrow> 'a res" where
  "all_read r = ebind r (\<lambda>(x, left). if left = [] then Inr x else Inl ValueError)"

fun array_dim :: "int \<Rightarrow> string \<Rightarrow> (int \<times> string) res" where
  "array_dim n [] = Inl ValueError"
| "array_dim n (c # s) = (if c = CHR ''_'' then Inr (n, s) else ebind (py_int10 [c]) (\<lambda>d. array_dim (n * 10 + d) s))"

section \<open>Where a symbol's own name ends\<close>

definition STATIC_FUNCTIONS :: "string list" where
  "STATIC_FUNCTIONS = [''__sinit'', ''__sterm'']"

text \<open>
  The characters read so far, the depth of template brackets, the name found so far and the
  number of underscores after it, and what is left of the text.
\<close>

fun find_base :: "string \<Rightarrow> nat \<Rightarrow> string \<Rightarrow> nat \<Rightarrow> string \<Rightarrow> string \<times> nat" where
  "find_base chars depth base strip [] = (base, strip)"
| "find_base chars depth base strip (c # s) =
     (if c \<in> set '',>'' \<and> depth = 0 then (if strip = 0 then chars else base, strip)
      else (let depth' = (if c = CHR ''<'' then depth + 1 else if c = CHR ''>'' then depth - 1 else depth);
                chars' = chars @ [c]
            in if chars' \<in> set STATIC_FUNCTIONS then (chars', 1)
               else if c = CHR ''_'' \<and> peek_in ''_'' s \<and> (length s < 2 \<or> s ! 1 \<in> set ''CFQ0123456789'')
               then find_base chars' depth' (butlast chars') 2 s
               else find_base chars' depth' base strip s))"

section \<open>The parsers\<close>

text \<open>The names of the class of a symbol; any other type before the symbol's own is an error.\<close>

definition class_path :: "cxx_type \<Rightarrow> cxx_name list res" where
  "class_path t = (case t of CxxType [QualifiedTerm ns] \<Rightarrow> Inr ns | _ \<Rightarrow> Inl AssertionError)"

function name_parse :: "nat \<Rightarrow> string \<Rightarrow> (cxx_name \<times> string) res"
and template_params :: "nat \<Rightarrow> string \<Rightarrow> (cxx_type list \<times> string) res"
and term_parse :: "nat \<Rightarrow> string \<Rightarrow> (cxx_term \<times> string) res"
and names_parse :: "nat \<Rightarrow> nat \<Rightarrow> string \<Rightarrow> (cxx_name list \<times> string) res"
and function_params :: "nat \<Rightarrow> string \<Rightarrow> (cxx_type list \<times> string) res"
and type_parse :: "nat \<Rightarrow> string \<Rightarrow> (cxx_type \<times> string) res"
and terms_parse :: "nat \<Rightarrow> string \<Rightarrow> (cxx_term list \<times> string) res"
and symbol_parse :: "nat \<Rightarrow> string \<Rightarrow> (cxx_symbol \<times> string) res"
where
  "name_parse fuel s = (case fuel of 0 \<Rightarrow> Inl OutOfFuel | Suc f \<Rightarrow>
     (let number_str = takeWhile (\<lambda>c. c \<in> set NUMBER_CHARS) s; rest = dropWhile (\<lambda>c. c \<in> set NUMBER_CHARS) s
      in if number_str = [] then Inl ValueError
         else ebind (py_int10 number_str) (\<lambda>number.
           if peek_in '',>'' rest then Inr (CxxName number_str None, rest)
           else if number \<le> 0 then Inl ValueError
           else ebind (read_exact (nat number) rest) (\<lambda>(name, rest').
             if CHR ''<'' \<notin> set name then Inr (CxxName name None, rest')
             else if last name \<noteq> CHR ''>'' then Inl ValueError
             else (case py_partition name (CHR ''<'') of (base_name, param_strs) \<Rightarrow>
               ebind (all_read (template_params f param_strs)) (\<lambda>ts. Inr (CxxName base_name (Some ts), rest')))))))"
| "template_params fuel s = (case fuel of 0 \<Rightarrow> Inl OutOfFuel | Suc f \<Rightarrow>
     ebind (type_parse f s) (\<lambda>(t, s1).
     ebind (read_exact 1 s1) (\<lambda>(sep, s2).
       if sep = ''>'' then Inr ([t], s2)
       else if sep = '','' then ebind (template_params f s2) (\<lambda>(ts, s3). Inr (t # ts, s3))
       else Inl ValueError)))"
| "term_parse fuel s = (case fuel of 0 \<Rightarrow> Inl OutOfFuel | Suc f \<Rightarrow>
     (if peek_in NUMBER_CHARS s then ebind (name_parse f s) (\<lambda>(n, s1). Inr (QualifiedTerm [n], s1))
      else ebind (read_exact 1 s) (\<lambda>(c, s1).
        case map_of cxx_kinds (hd c) of
          None \<Rightarrow> Inl ValueError
        | Some Kind_QUALIFIED \<Rightarrow>
            ebind (read_exact 1 s1) (\<lambda>(d, s2).
            ebind (py_int10 d) (\<lambda>count.
            ebind (names_parse f (nat count) s2) (\<lambda>(ns, s3). Inr (QualifiedTerm ns, s3))))
        | Some Kind_FUNCTION \<Rightarrow>
            ebind (function_params f s1) (\<lambda>(ps, s2).
              if peek_in ''_'' s2
              then ebind (type_parse f (tl s2)) (\<lambda>(r, s3). Inr (FunctionTerm ps (Some r), s3))
              else Inr (FunctionTerm ps None, s2))
        | Some Kind_ARRAY \<Rightarrow> ebind (array_dim 0 s1) (\<lambda>(n, s2). Inr (ArrayTerm n, s2))
        | Some Kind_SYMBOL_REFERENCE \<Rightarrow> ebind (symbol_parse f s1) (\<lambda>(y, s2). Inr (SymbolTerm y, s2))
        | Some k \<Rightarrow> Inr (PlainTerm k, s1))))"
| "names_parse fuel n s = (case fuel of 0 \<Rightarrow> Inl OutOfFuel | Suc f \<Rightarrow>
     (if n = 0 then Inr ([], s)
      else ebind (name_parse f s) (\<lambda>(x, s1). ebind (names_parse f (n - 1) s1) (\<lambda>(xs, s2). Inr (x # xs, s2)))))"
| "function_params fuel s = (case fuel of 0 \<Rightarrow> Inl OutOfFuel | Suc f \<Rightarrow>
     (if s = [] \<or> peek_in ''_,>'' s then Inr ([], s)
      else ebind (type_parse f s) (\<lambda>(t, s1). ebind (function_params f s1) (\<lambda>(ts, s2). Inr (t # ts, s2)))))"
| "type_parse fuel s = (case fuel of 0 \<Rightarrow> Inl OutOfFuel | Suc f \<Rightarrow>
     ebind (terms_parse f s) (\<lambda>(ts, s1). Inr (CxxType ts, s1)))"
| "terms_parse fuel s = (case fuel of 0 \<Rightarrow> Inl OutOfFuel | Suc f \<Rightarrow>
     (if peek_in '',>'' s then Inr ([], s)
      else ebind (term_parse f s) (\<lambda>(t, s1).
        if nonterminating t then ebind (terms_parse f s1) (\<lambda>(ts, s2). Inr (t # ts, s2)) else Inr ([t], s1))))"
| "symbol_parse fuel s = (case fuel of 0 \<Rightarrow> Inl OutOfFuel | Suc f \<Rightarrow>
     (case find_base [] 0 s 0 s of (base_name, strip) \<Rightarrow>
        ebind (read_exact (length base_name + strip) s) (\<lambda>(_, s1).
          if base_name \<in> set STATIC_FUNCTIONS
          then ebind (all_read (type_parse f ''Fv_v'')) (\<lambda>t.
                 Inr (CxxSymbol (QualifiedTerm [CxxName s1 None, CxxName base_name None]) t, []))
          else ebind (type_parse f s1) (\<lambda>(t1, s2).
               ebind (if s2 = [] \<or> peek_in '',>'' s2 then Inr (([], t1), s2)
                      else ebind (type_parse f s2) (\<lambda>(t2, s3). ebind (class_path t1) (\<lambda>ns. Inr ((ns, t2), s3)))) (\<lambda>((ns, t), s3).
               ebind (all_read (name_parse f (py_str_nat (length base_name) @ base_name))) (\<lambda>n.
                 Inr (CxxSymbol (QualifiedTerm (ns @ [n])) t, s3)))))))"
  by pat_completeness auto

termination
  by (relation "measure (case_sum (case_sum (case_sum fst fst) (case_sum fst fst)) (case_sum (case_sum fst fst) (case_sum fst fst)))") auto

declare name_parse.simps [simp del] template_params.simps [simp del] term_parse.simps [simp del] names_parse.simps [simp del]
  function_params.simps [simp del] type_parse.simps [simp del] terms_parse.simps [simp del] symbol_parse.simps [simp del]

section \<open>Printing\<close>

definition OPS :: "(string \<times> string) list" where
  "OPS =
     [(''__nw'', '' new''), (''__nwa'', '' new[]''), (''__dl'', '' delete''), (''__dla'', '' delete[]''), (''__pl'', ''+''),
      (''__mi'', ''-''), (''__ml'', ''*''), (''__dv'', ''/''), (''__md'', ''%''), (''__er'', ''^''), (''__adv'', ''/=''),
      (''__ad'', ''&''), (''__or'', ''|''), (''__co'', ''~''), (''__nt'', ''!''), (''__as'', ''=''), (''__lt'', ''<''),
      (''__gt'', ''>''), (''__apl'', ''+=''), (''__ami'', ''-=''), (''__amu'', ''*=''), (''__amd'', ''%=''), (''__aer'', ''^=''),
      (''__aad'', ''&=''), (''__aor'', ''|=''), (''__ls'', ''<<''), (''__rs'', ''>>''), (''__ars'', ''>>=''), (''__als'', ''<<=''),
      (''__eq'', ''==''), (''__ne'', ''!=''), (''__le'', ''<=''), (''__ge'', ''>=''), (''__aa'', ''&&''), (''__oo'', ''||''),
      (''__pp'', ''++''), (''__mm'', ''--''), (''__cl'', ''()''), (''__vc'', ''[]''), (''__rf'', ''->''), (''__cm'', '',''),
      (''__rm'', ''->*'')]"

fun str_kind :: "cxx_kind \<Rightarrow> string" where
  "str_kind Kind_POINTER = ''*''"
| "str_kind Kind_REFERENCE = ''&''"
| "str_kind Kind_LONG_LONG = ''long long''"
| "str_kind Kind_LONG_DOUBLE = ''long double''"
| "str_kind Kind_WIDE_CHAR = ''wchar_t''"
| "str_kind Kind_ELLIPSIS = ''...''"
| "str_kind Kind_CONST = ''const''"
| "str_kind Kind_SIGNED = ''signed''"
| "str_kind Kind_UNSIGNED = ''unsigned''"
| "str_kind Kind_VOID = ''void''"
| "str_kind Kind_BOOL = ''bool''"
| "str_kind Kind_CHAR = ''char''"
| "str_kind Kind_SHORT = ''short''"
| "str_kind Kind_INT = ''int''"
| "str_kind Kind_LONG = ''long''"
| "str_kind Kind_FLOAT = ''float''"
| "str_kind Kind_DOUBLE = ''double''"
| "str_kind Kind_ARRAY = ''array''"
| "str_kind Kind_QUALIFIED = ''qualified''"
| "str_kind Kind_FUNCTION = ''function''"
| "str_kind Kind_SYMBOL_REFERENCE = ''symbol_reference''"

text \<open>The last of the names of a qualified name: an operator, a constructor or a destructor.\<close>

definition join_names :: "string list \<Rightarrow> string res" where
  "join_names names =
     (if names = [] then Inl IndexError
      else (case map_of OPS (last names) of
          Some p \<Rightarrow> Inr (py_join ''::'' (butlast names @ [''operator'' @ p]))
        | None \<Rightarrow>
            if last names = ''__ct''
            then ebind (py_assert (2 \<le> length names)) (\<lambda>_. Inr (py_join ''::'' (butlast names @ [last (butlast names)])))
            else if last names = ''__dt''
            then ebind (py_assert (2 \<le> length names)) (\<lambda>_. Inr (py_join ''::'' (butlast names @ [''~'' @ last (butlast names)])))
            else Inr (py_join ''::'' names)))"

fun str_name :: "cxx_name \<Rightarrow> string res"
and str_names :: "cxx_name list \<Rightarrow> string list res"
and str_term :: "cxx_term \<Rightarrow> string res"
and str_terms_rev :: "cxx_term list \<Rightarrow> string list res"
and str_type :: "cxx_type \<Rightarrow> string res"
and str_types :: "cxx_type list \<Rightarrow> string list res"
and str_symbol :: "cxx_symbol \<Rightarrow> string res"
where
  "str_name (CxxName n None) = Inr n"
| "str_name (CxxName n (Some ts)) = ebind (str_types ts) (\<lambda>ps. Inr (n @ ''<'' @ py_join '', '' ps @ ''>''))"
| "str_names [] = Inr []"
| "str_names (n # ns) = ebind (str_name n) (\<lambda>x. ebind (str_names ns) (\<lambda>xs. Inr (x # xs)))"
| "str_term (PlainTerm k) = Inr (str_kind k)"
| "str_term (ArrayTerm n) = Inr (''['' @ py_str_int n @ '']'')"
| "str_term (QualifiedTerm ns) = ebind (str_names ns) join_names"
| "str_term (FunctionTerm ps None) = ebind (str_types ps) (\<lambda>as. Inr (''('' @ py_join '', '' as @ '')''))"
| "str_term (FunctionTerm ps (Some r)) =
     ebind (str_type r) (\<lambda>x. ebind (str_types ps) (\<lambda>as. Inr (x @ '' (*) '' @ ''('' @ py_join '', '' as @ '')'')))"
| "str_term (SymbolTerm y) = ebind (str_symbol y) (\<lambda>x. Inr (''&'' @ x))"
| "str_terms_rev [] = Inr []"
| "str_terms_rev (t # ts) = ebind (str_terms_rev ts) (\<lambda>xs. ebind (str_term t) (\<lambda>x. Inr (xs @ [x])))"
| "str_type (CxxType ts) = ebind (str_terms_rev ts) (\<lambda>xs. Inr (py_strip (py_join '' '' xs)))"
| "str_types [] = Inr []"
| "str_types (t # ts) = ebind (str_type t) (\<lambda>x. ebind (str_types ts) (\<lambda>xs. Inr (x # xs)))"
| "str_symbol (CxxSymbol n t) = ebind (str_term n) (\<lambda>x. ebind (str_type t) (\<lambda>y. Inr (x @ '' '' @ y)))"

section \<open>Demangling\<close>

definition DOLDISASM_SUBSTITUTIONS :: "(string \<times> string) list" where
  "DOLDISASM_SUBSTITUTIONS =
     [(''<'', ''$$0''), (''>'', ''$$1''), (''@'', ''$$2''), ([CHR 0x5C], ''$$3''), ('','', ''$$4''), (''-'', ''$$5'')]"

fun py_replace :: "string \<Rightarrow> string \<Rightarrow> nat \<Rightarrow> string \<Rightarrow> string" where
  "py_replace old new skip [] = []"
| "py_replace old new (Suc k) (c # s) = py_replace old new k s"
| "py_replace old new 0 (c # s) =
     (if py_startswith (c # s) old then new @ py_replace old new (length old - 1) s else c # py_replace old new 0 s)"

definition substitute :: "string \<Rightarrow> string" where
  "substitute s = fold (\<lambda>(old, new). py_replace new old 0) DOLDISASM_SUBSTITUTIONS s"

definition cw_parse :: "string \<Rightarrow> cxx_symbol res" where
  "cw_parse mangled = (let s = substitute mangled in all_read (symbol_parse (8 * length s + 8) s))"

definition demangle :: "string \<Rightarrow> string res" where
  "demangle mangled = (case ebind (cw_parse mangled) str_symbol of
     Inr t \<Rightarrow> Inr t
   | Inl ValueError \<Rightarrow> Inr mangled
   | Inl e \<Rightarrow> Inl e)"

text \<open>The test cases of the module, the symbol and its expected text.\<close>

definition TEST_CASES :: "(string \<times> string) list" where
  "TEST_CASES =
     [(''__foo_bar'', ''__foo_bar''),
      (''get__6FoobarFi'', ''Foobar::get (int)''),
      (''__ct__10FooBarFoosFP7ArgPtrsUsPCc'', ''FooBarFoos::FooBarFoos (ArgPtrs *, short unsigned, char const *)''),
      (''__dt__10FooBarFoosFv'', ''FooBarFoos::~FooBarFoos (void)''),
      (''__dl__FPv'', ''operator delete (void *)''),
      (''__nw__FUl'', ''operator new (long unsigned)''),
      (''__eq__3FooCFRC3Foo'', ''Foo::operator== (Foo const &) const''),
      (''do__Q214GrandFooSystem8MiniFoosFUlPC3VecP3VecfUlUlPP8LateBazzUlUc'',
       ''GrandFooSystem::MiniFoos::do (long unsigned, Vec const *, Vec *, float, long unsigned, long unsigned, LateBazz * *, long unsigned, char unsigned)''),
      (''spin__11ThingieBaseFRCQ29MyLibrary8FVec3$$0f$$1RCQ29MyLibrary8FVec3$$0f$$1RCQ29MyLibrary8FVec3$$0f$$1'',
       ''ThingieBase::spin (MyLibrary::FVec3<float> const &, MyLibrary::FVec3<float> const &, MyLibrary::FVec3<float> const &)''),
      (''function<&alpha,&beta,&GAMMA>__FR5Class_i'', ''function<&alpha, &beta, &GAMMA> int (*) (Class &)''),
      (''function<&m0__5Class,&mf0__5ClassFi>__FR5Class_i'', ''function<&m0 Class, &Class::mf0 (int)> int (*) (Class &)''),
      (''__sinit_Foo_cpp'', ''Foo_cpp::__sinit void (*) (void)''),
      (''__sterm_Foo_cpp'', ''Foo_cpp::__sterm void (*) (void)''),
      (''foo__3BarFv'', ''Bar::foo (void)''),
      (''foo__3BarFv__3BarFv'', ''Bar::foo__3BarFv (void)''),
      (''foo__Q23Bar3BarFv__3BarFv'', ''Bar::foo__Q23Bar3BarFv (void)''),
      (''copy__Q23std14__copy$$0Pv$$41$$40$$1FPPvPPvPPv'', ''std::__copy<void *, 1, 0>::copy (void * *, void * *, void * *)''),
      (''__init__bar__9Bar$$03Foo$$1'', ''__init__bar Bar<Foo>''),
      (''bar__5__BarFv'', ''__Bar::bar (void)''),
      (''bar__5__FooFv'', ''bar__5__FooFv''),
      (''foo__Ul'', ''foo__Ul'')]"

end
