(* ===== verification/Demangle_Ends.thy ===== *)
theory Demangle_Ends
  imports Demangle
begin

text \<open>
  The demangler ends on every text: each parser leaves less of the text than it was given, and
  the fuel is enough.  Its only errors are \<open>ValueError\<close>, which \<open>demangle\<close> catches, and the failed
  assertions and the empty name, which it does not.
\<close>

section \<open>Errors\<close>

definition errs :: "py_error set \<Rightarrow> 'a res \<Rightarrow> bool" where
  "errs E r \<longleftrightarrow> (\<forall>e. r = Inl e \<longrightarrow> e \<in> E)"

named_theorems errs_intros "facts on the errors of a step"

lemma errs_simps [simp]: "errs E (Inl e) = (e \<in> E)" "errs E (Inr x)"
  by (simp_all add: errs_def)

lemma errs_ebind [errs_intros]: "errs E m \<Longrightarrow> (\<And>x. m = Inr x \<Longrightarrow> errs E (f x)) \<Longrightarrow> errs E (ebind m f)"
  by (cases m) (simp_all add: errs_def)

lemma errs_mono: "errs E m \<Longrightarrow> E \<subseteq> F \<Longrightarrow> errs F m"
  by (auto simp: errs_def)

abbreviation parse_errors :: "py_error set" where
  "parse_errors \<equiv> {ValueError, AssertionError}"

lemma errs_read [errs_intros]: "errs parse_errors (read_exact n s)"
  by (simp add: read_exact_def)

lemma errs_py_int10 [errs_intros]: "errs parse_errors (py_int10 s)"
  by (simp add: py_int10_def signed_read_def Let_def split: option.split)

lemma errs_array_dim [errs_intros]: "errs parse_errors (array_dim n s)"
  by (induction n s rule: array_dim.induct) (auto intro!: errs_intros)

lemma errs_all_read [errs_intros]: "errs parse_errors r \<Longrightarrow> errs parse_errors (all_read r)"
  unfolding all_read_def by (auto intro!: errs_ebind split: prod.split)

section \<open>What the parsers leave\<close>

lemma read_exact_Inr: "read_exact n s = Inr (a, r) \<longleftrightarrow> n \<le> length s \<and> a = take n s \<and> r = drop n s"
  by (auto simp: read_exact_def)

lemma read_one: "read_exact (Suc 0) (c # t) = Inr ([c], t)"
  by (simp add: read_exact_def)

lemma array_dim_shrinks: "array_dim n s = Inr (m, r) \<Longrightarrow> length r < length s"
  by (induction n s rule: array_dim.induct) (auto split: if_splits)

lemma takeWhile_shrinks: "takeWhile P s \<noteq> [] \<Longrightarrow> length (dropWhile P s) < length s"
  by (cases s) (auto simp: le_imp_less_Suc length_dropWhile_le split: if_splits)

text \<open>What one more unit of fuel gives.\<close>

lemmas parser_steps =
  name_parse.simps [of "Suc f" for f, unfolded nat.case] template_params.simps [of "Suc f" for f, unfolded nat.case]
  term_parse.simps [of "Suc f" for f, unfolded nat.case] names_parse.simps [of "Suc f" for f, unfolded nat.case]
  function_params.simps [of "Suc f" for f, unfolded nat.case] type_parse.simps [of "Suc f" for f, unfolded nat.case]
  terms_parse.simps [of "Suc f" for f, unfolded nat.case] symbol_parse.simps [of "Suc f" for f, unfolded nat.case]

lemmas parser_stops =
  name_parse.simps [of 0, unfolded nat.case] template_params.simps [of 0, unfolded nat.case]
  term_parse.simps [of 0, unfolded nat.case] names_parse.simps [of 0, unfolded nat.case]
  function_params.simps [of 0, unfolded nat.case] type_parse.simps [of 0, unfolded nat.case]
  terms_parse.simps [of 0, unfolded nat.case] symbol_parse.simps [of 0, unfolded nat.case]

definition shrinks :: "nat \<Rightarrow> bool" where
  "shrinks f \<longleftrightarrow>
     (\<forall>s x r. name_parse f s = Inr (x, r) \<longrightarrow> length r < length s) \<and>
     (\<forall>s x r. term_parse f s = Inr (x, r) \<longrightarrow> length r < length s) \<and>
     (\<forall>n s x r. names_parse f n s = Inr (x, r) \<longrightarrow> length r \<le> length s) \<and>
     (\<forall>s x r. function_params f s = Inr (x, r) \<longrightarrow> length r \<le> length s) \<and>
     (\<forall>s x r. terms_parse f s = Inr (x, r) \<longrightarrow> length r \<le> length s \<and> (\<not> peek_in '',>'' s \<longrightarrow> length r < length s)) \<and>
     (\<forall>s x r. type_parse f s = Inr (x, r) \<longrightarrow> length r \<le> length s \<and> (\<not> peek_in '',>'' s \<longrightarrow> length r < length s)) \<and>
     (\<forall>s x r. symbol_parse f s = Inr (x, r) \<longrightarrow> length r \<le> length s)"

lemma shrinksD:
  assumes "shrinks f"
  shows "name_parse f s = Inr (x, r) \<Longrightarrow> length r < length s"
    and "term_parse f s = Inr (t, r) \<Longrightarrow> length r < length s"
    and "names_parse f n s = Inr (xs, r) \<Longrightarrow> length r \<le> length s"
    and "function_params f s = Inr (ts, r) \<Longrightarrow> length r \<le> length s"
    and "terms_parse f s = Inr (tms, r) \<Longrightarrow> length r \<le> length s"
    and "terms_parse f s = Inr (tms, r) \<Longrightarrow> \<not> peek_in '',>'' s \<Longrightarrow> length r < length s"
    and "type_parse f s = Inr (ty, r) \<Longrightarrow> length r \<le> length s"
    and "type_parse f s = Inr (ty, r) \<Longrightarrow> \<not> peek_in '',>'' s \<Longrightarrow> length r < length s"
    and "symbol_parse f s = Inr (y, r) \<Longrightarrow> length r \<le> length s"
proof -
  note a = assms [unfolded shrinks_def]
  show "name_parse f s = Inr (x, r) \<Longrightarrow> length r < length s" using a by (elim conjE) blast
  show "term_parse f s = Inr (t, r) \<Longrightarrow> length r < length s" using a by (elim conjE) blast
  show "names_parse f n s = Inr (xs, r) \<Longrightarrow> length r \<le> length s" using a by (elim conjE) blast
  show "function_params f s = Inr (ts, r) \<Longrightarrow> length r \<le> length s" using a by (elim conjE) blast
  show "terms_parse f s = Inr (tms, r) \<Longrightarrow> length r \<le> length s" using a by (elim conjE) blast
  show "terms_parse f s = Inr (tms, r) \<Longrightarrow> \<not> peek_in '',>'' s \<Longrightarrow> length r < length s" using a by (elim conjE) blast
  show "type_parse f s = Inr (ty, r) \<Longrightarrow> length r \<le> length s" using a by (elim conjE) blast
  show "type_parse f s = Inr (ty, r) \<Longrightarrow> \<not> peek_in '',>'' s \<Longrightarrow> length r < length s" using a by (elim conjE) blast
  show "symbol_parse f s = Inr (y, r) \<Longrightarrow> length r \<le> length s" using a by (elim conjE) metis
qed

lemma name_shrinks: "name_parse f s = Inr (x, r) \<Longrightarrow> length r < length s"
proof (cases f)
  case (Suc g)
  assume "name_parse f s = Inr (x, r)"
  then show ?thesis
    using takeWhile_shrinks [of "\<lambda>c. c \<in> set NUMBER_CHARS" s]
    by (auto simp: Suc parser_steps Let_def read_exact_Inr split: if_splits prod.splits) linarith+
qed (simp add: parser_stops)

lemma term_shrinks:
  assumes "shrinks f" and "term_parse (Suc f) s = Inr (x, r)"
  shows "length r < length s"
proof (cases "peek_in NUMBER_CHARS s")
  case True
  then show ?thesis using assms name_shrinks by (auto simp: parser_steps)
next
  case False
  with assms(2) obtain k where s: "s \<noteq> []" and k: "map_of cxx_kinds (hd s) = Some k"
    by (auto simp: parser_steps read_exact_Inr take_Suc Suc_le_length_iff split: option.splits)
  have "length r \<le> length (tl s)"
    using assms(2) False k s
    by (cases k; auto simp: parser_steps read_exact_Inr take_Suc drop_Suc split: if_splits
        dest!: shrinksD(3,4,7,9) [OF assms(1)] array_dim_shrinks; linarith)
  then show ?thesis using s by (cases s) auto
qed

lemma terms_shrink:
  assumes "shrinks f" and "terms_parse (Suc f) s = Inr (x, r)"
  shows "length r \<le> length s" and "\<not> peek_in '',>'' s \<Longrightarrow> length r < length s"
proof -
  show lt: "length r < length s" if "\<not> peek_in '',>'' s"
    using assms(2) that by (auto simp: parser_steps split: if_splits dest!: shrinksD(2,5) [OF assms(1)])
  show "length r \<le> length s" using assms(2) lt by (cases "peek_in '',>'' s") (auto simp: parser_steps)
qed

lemma params_shrink:
  assumes "shrinks f" and "function_params (Suc f) s = Inr (x, r)"
  shows "length r \<le> length s"
  using assms(2) by (auto simp: parser_steps split: if_splits dest!: shrinksD(4,7) [OF assms(1)])

lemma names_shrink:
  assumes "shrinks f" and "names_parse (Suc f) n s = Inr (x, r)"
  shows "length r \<le> length s"
  using assms(2) by (auto simp: parser_steps split: if_splits dest!: shrinksD(3) [OF assms(1)] name_shrinks)

lemma symbol_shrinks:
  assumes "shrinks f" and "symbol_parse (Suc f) s = Inr (x, r)"
  shows "length r \<le> length s"
proof -
  obtain b n where fb: "find_base [] 0 s 0 s = (b, n)" by fastforce
  show ?thesis
    using assms(2) by (auto simp: parser_steps fb read_exact_Inr split: if_splits dest!: shrinksD(7) [OF assms(1)]) linarith+
qed

lemma parsers_shrink: "shrinks f"
proof (induction f)
  case 0
  then show ?case by (simp add: shrinks_def parser_stops)
next
  case (Suc f)
  have "type_parse (Suc f) s = Inr (x, r) \<Longrightarrow> length r \<le> length s \<and> (\<not> peek_in '',>'' s \<longrightarrow> length r < length s)" for s x r
    by (auto simp: parser_steps dest: shrinksD(5,6) [OF Suc])
  then show ?case unfolding shrinks_def
    using name_shrinks term_shrinks [OF Suc] names_shrink [OF Suc] params_shrink [OF Suc] terms_shrink [OF Suc] symbol_shrinks [OF Suc]
    by (intro conjI allI impI) metis+
qed

section \<open>Enough fuel\<close>

definition fuelled :: "nat \<Rightarrow> bool" where
  "fuelled f \<longleftrightarrow>
     (\<forall>s. 8 * length s + 1 \<le> f \<longrightarrow> errs parse_errors (name_parse f s)) \<and>
     (\<forall>b. 8 * length b + 1 \<le> f \<longrightarrow> errs parse_errors (name_parse f (py_str_nat (length b) @ b))) \<and>
     (\<forall>s. 8 * length s + 5 \<le> f \<longrightarrow> errs parse_errors (template_params f s)) \<and>
     (\<forall>s. 8 * length s + 2 \<le> f \<longrightarrow> errs parse_errors (term_parse f s)) \<and>
     (\<forall>n s. 8 * length s + 2 \<le> f \<longrightarrow> errs parse_errors (names_parse f n s)) \<and>
     (\<forall>s. 8 * length s + 5 \<le> f \<longrightarrow> errs parse_errors (function_params f s)) \<and>
     (\<forall>s. 8 * length s + 4 \<le> f \<longrightarrow> errs parse_errors (type_parse f s)) \<and>
     (\<forall>s. 8 * length s + 3 \<le> f \<longrightarrow> errs parse_errors (terms_parse f s)) \<and>
     (\<forall>s. 8 * length s + 5 \<le> f \<longrightarrow> errs parse_errors (symbol_parse f s))"

lemma fuelledD:
  assumes "fuelled f"
  shows "8 * length s + 1 \<le> f \<Longrightarrow> errs parse_errors (name_parse f s)"
    and "8 * length s + 1 \<le> f \<Longrightarrow> errs parse_errors (name_parse f (py_str_nat (length s) @ s))"
    and "8 * length s + 5 \<le> f \<Longrightarrow> errs parse_errors (template_params f s)"
    and "8 * length s + 2 \<le> f \<Longrightarrow> errs parse_errors (term_parse f s)"
    and "8 * length s + 2 \<le> f \<Longrightarrow> errs parse_errors (names_parse f n s)"
    and "8 * length s + 5 \<le> f \<Longrightarrow> errs parse_errors (function_params f s)"
    and "8 * length s + 4 \<le> f \<Longrightarrow> errs parse_errors (type_parse f s)"
    and "8 * length s + 3 \<le> f \<Longrightarrow> errs parse_errors (terms_parse f s)"
    and "8 * length s + 5 \<le> f \<Longrightarrow> errs parse_errors (symbol_parse f s)"
  using assms unfolding fuelled_def by blast+

lemma partition_shorter: "c \<in> set name \<Longrightarrow> py_partition name c = (a, b) \<Longrightarrow> length b < length name"
proof -
  assume "c \<in> set name" "py_partition name c = (a, b)"
  then have "length b = length (dropWhile (\<lambda>x. x \<noteq> c) name) - 1" "0 < length name" by (auto simp: py_partition_def)
  then show ?thesis using length_dropWhile_le [of "\<lambda>x. x \<noteq> c" name] by linarith
qed

text \<open>The name that is read, and the text between its brackets, are part of what follows the number.\<close>

lemma name_fuelled:
  assumes "fuelled f" and "8 * length (dropWhile (\<lambda>c. c \<in> set NUMBER_CHARS) s) \<le> f"
  shows "errs parse_errors (name_parse (Suc f) s)"
proof -
  let ?rest = "dropWhile (\<lambda>c. c \<in> set NUMBER_CHARS) s"
  have "errs parse_errors (template_params f ps)"
    if "CHR ''<'' \<in> set name" "py_partition name (CHR ''<'') = (b, ps)" "read_exact n ?rest = Inr (name, r)" for name b ps n r
  proof -
    have "length ps < length ?rest" using partition_shorter [OF that(1,2)] that(3) by (auto simp: read_exact_Inr)
    then show ?thesis using assms by (intro fuelledD(3)) simp_all
  qed
  then show ?thesis by (auto simp: parser_steps Let_def intro!: errs_intros split: prod.split)
qed

lemma digit_chars: "set (py_str_nat n) \<subseteq> set NUMBER_CHARS"
proof -
  have "digit_char d \<in> set NUMBER_CHARS" if "d < 10" for d
  proof -
    have "d \<in> {0, 1, 2, 3, 4, 5, 6, 7, 8, 9}" using that by auto
    then show ?thesis unfolding NUMBER_CHARS_def by (elim insertE; simp; code_simp)
  qed
  then show ?thesis unfolding py_str_nat_def using set_print_digits [of 10 n] by auto
qed

lemma own_name_fuelled:
  assumes "fuelled f" and "8 * length b \<le> f"
  shows "errs parse_errors (name_parse (Suc f) (py_str_nat (length b) @ b))"
proof (rule name_fuelled [OF assms(1)])
  have "dropWhile (\<lambda>c. c \<in> set NUMBER_CHARS) (py_str_nat (length b) @ b) = dropWhile (\<lambda>c. c \<in> set NUMBER_CHARS) b"
    using digit_chars [of "length b"] by (intro dropWhile_append2) auto
  then show "8 * length (dropWhile (\<lambda>c. c \<in> set NUMBER_CHARS) (py_str_nat (length b) @ b)) \<le> f"
    using assms(2) length_dropWhile_le [of "\<lambda>c. c \<in> set NUMBER_CHARS" b] unfolding \<open>dropWhile _ _ = _\<close> by linarith
qed

lemma term_fuelled:
  assumes "fuelled f" and "8 * length s + 1 \<le> f"
  shows "errs parse_errors (term_parse (Suc f) s)"
proof (cases "peek_in NUMBER_CHARS s")
  case True
  then show ?thesis using fuelledD(1) [OF assms] by (auto simp: parser_steps intro!: errs_ebind split: prod.split)
next
  case False
  note F = assms(1)
  have q: "errs parse_errors (names_parse f n r)" "errs parse_errors (function_params f r)" "errs parse_errors (type_parse f r)"
    "errs parse_errors (symbol_parse f r)" if "length r < length s" for n r
    using assms that by (intro fuelledD [OF F]; simp)+
  show ?thesis
  proof (cases s)
    case Nil
    then show ?thesis by (simp add: parser_steps peek_in_def read_exact_def)
  next
    case (Cons c t)
    have ret: "errs parse_errors (type_parse f (tl s2))" if "function_params f t = Inr (ps, s2)" for ps s2
      using shrinksD(4) [OF parsers_shrink that] Cons by (intro q(3)) auto
    have nm: "errs parse_errors (names_parse f n s2)" if "read_exact 1 t = Inr (d, s2)" for n d s2
      using that Cons by (intro q(1)) (auto simp: read_exact_Inr)
    have fp: "errs parse_errors (function_params f t)" "errs parse_errors (symbol_parse f t)" using Cons q by simp_all
    show ?thesis
    proof (cases "map_of cxx_kinds c")
      case None
      then show ?thesis using False Cons by (simp add: parser_steps read_exact_def)
    next
      case (Some k)
      then show ?thesis using False Cons ret nm fp
        by (cases k) (auto simp: parser_steps read_one intro!: errs_intros split: prod.split)
    qed
  qed
qed

lemma loops_fuelled:
  assumes F: "fuelled f"
  shows "8 * length s + 4 \<le> f \<Longrightarrow> errs parse_errors (template_params (Suc f) s)"
    and "8 * length s + 1 \<le> f \<Longrightarrow> errs parse_errors (names_parse (Suc f) n s)"
    and "8 * length s + 4 \<le> f \<Longrightarrow> errs parse_errors (function_params (Suc f) s)"
    and "8 * length s + 3 \<le> f \<Longrightarrow> errs parse_errors (type_parse (Suc f) s)"
    and "8 * length s + 2 \<le> f \<Longrightarrow> errs parse_errors (terms_parse (Suc f) s)"
proof -
  note D = shrinksD [OF parsers_shrink]
  show "errs parse_errors (template_params (Suc f) s)" if b: "8 * length s + 4 \<le> f"
  proof -
    have "errs parse_errors (template_params f s2)" if "type_parse f s = Inr (t, s1)" "read_exact 1 s1 = Inr (sep, s2)" for t s1 sep s2
      using D(7) [OF that(1)] that(2) b by (intro fuelledD(3) [OF F]) (auto simp: read_exact_Inr)
    then show ?thesis using fuelledD(7) [OF F b] by (auto simp: parser_steps intro!: errs_intros split: prod.split)
  qed
  show "errs parse_errors (names_parse (Suc f) n s)" if b: "8 * length s + 1 \<le> f"
  proof -
    have "errs parse_errors (names_parse f m s1)" if "name_parse f s = Inr (t, s1)" for t s1 m
      using D(1) [OF that(1)] b by (intro fuelledD(5) [OF F]) simp
    then show ?thesis using fuelledD(1) [OF F b] by (auto simp: parser_steps intro!: errs_intros split: prod.split)
  qed
  show "errs parse_errors (function_params (Suc f) s)" if b: "8 * length s + 4 \<le> f"
  proof -
    have "errs parse_errors (function_params f s1)" if "type_parse f s = Inr (t, s1)" "\<not> peek_in ''_,>'' s" for t s1
    proof -
      have "\<not> peek_in '',>'' s" using that(2) by (auto simp: peek_in_def split: list.splits)
      then show ?thesis using D(8) [OF that(1)] b by (intro fuelledD(6) [OF F]) simp
    qed
    then show ?thesis using fuelledD(7) [OF F b] by (auto simp: parser_steps intro!: errs_intros split: prod.split)
  qed
  show "errs parse_errors (type_parse (Suc f) s)" if b: "8 * length s + 3 \<le> f"
    using fuelledD(8) [OF F b] by (auto simp: parser_steps intro!: errs_intros split: prod.split)
  show "errs parse_errors (terms_parse (Suc f) s)" if b: "8 * length s + 2 \<le> f"
  proof -
    have "errs parse_errors (terms_parse f s1)" if "term_parse f s = Inr (t, s1)" for t s1
      using D(2) [OF that(1)] b by (intro fuelledD(8) [OF F]) simp
    then show ?thesis using fuelledD(4) [OF F b] by (auto simp: parser_steps intro!: errs_intros split: prod.split)
  qed
qed

lemma symbol_fuelled:
  assumes F: "fuelled f" and b: "8 * length s + 4 \<le> f"
  shows "errs parse_errors (symbol_parse (Suc f) s)"
proof -
  obtain base n where fb: "find_base [] 0 s 0 s = (base, n)" by fastforce
  show ?thesis
  proof (cases "length base + n \<le> length s")
    case True
    let ?s1 = "drop (length base + n) s"
    have own: "errs parse_errors (name_parse f (py_str_nat (length base) @ base))" using b True by (intro fuelledD(2) [OF F]) simp
    have t1: "errs parse_errors (type_parse f ?s1)" using b by (intro fuelledD(7) [OF F]) simp
    have t2: "errs parse_errors (type_parse f s2)" if "type_parse f ?s1 = Inr (t, s2)" for t s2
      using shrinksD(7) [OF parsers_shrink that] b by (intro fuelledD(7) [OF F]) simp
    have st: "errs parse_errors (type_parse f ''Fv_v'')" if "base \<in> set STATIC_FUNCTIONS"
      using that b True by (intro fuelledD(7) [OF F]) (auto simp: STATIC_FUNCTIONS_def)
    have cp: "errs parse_errors (class_path t)" for t
      by (auto simp: class_path_def split: cxx_type.split list.split cxx_term.split)
    show ?thesis using True own t1 t2 st cp
      by (auto simp: parser_steps fb read_exact_def intro!: errs_intros split: prod.split)
  qed (simp add: parser_steps fb read_exact_def)
qed

lemma parsers_fuelled: "fuelled f"
proof (induction f)
  case 0
  then show ?case by (simp add: fuelled_def)
next
  case (Suc f)
  have "errs parse_errors (name_parse (Suc f) s)" if "8 * length s + 1 \<le> Suc f" for s
    using that length_dropWhile_le [of "\<lambda>c. c \<in> set NUMBER_CHARS" s] by (intro name_fuelled [OF Suc]) linarith
  then show ?case unfolding fuelled_def
    using own_name_fuelled [OF Suc] term_fuelled [OF Suc] loops_fuelled [OF Suc] symbol_fuelled [OF Suc] by simp
qed

end
