(* ===== verification/Demangle_Roundtrip.thy ===== *)
theory Demangle_Roundtrip
  imports Demangle_Ends
begin

text \<open>
  An encoder for types in CodeWarrior's scheme, and the proof that the parsers read back what it
  writes: plain, array, qualified, templated and function types, with number literals among the
  template parameters.
\<close>

section \<open>The encoding\<close>

definition kind_char :: "cxx_kind \<Rightarrow> char" where
  "kind_char k = (case find (\<lambda>(c, l). l = k) cxx_kinds of Some (c, _) \<Rightarrow> c | None \<Rightarrow> CHR ''v'')"

text \<open>A number as a template parameter stands for itself.\<close>

definition number_literal :: "cxx_type \<Rightarrow> string option" where
  "number_literal t = (case t of
     CxxType [QualifiedTerm [CxxName l None]] \<Rightarrow>
       if l \<noteq> [] \<and> list_all (\<lambda>c. c \<in> set NUMBER_CHARS) l \<and> \<not> is_err (py_int10 l) then Some l else None
   | _ \<Rightarrow> None)"

fun mangle_name :: "cxx_name \<Rightarrow> string"
and mangle_names :: "cxx_name list \<Rightarrow> string"
and mangle_params :: "cxx_type list \<Rightarrow> string"
and mangle_term :: "cxx_term \<Rightarrow> string"
and mangle_terms :: "cxx_term list \<Rightarrow> string"
and mangle_type :: "cxx_type \<Rightarrow> string"
and mangle_types :: "cxx_type list \<Rightarrow> string"
where
  "mangle_name (CxxName n None) = py_str_nat (length n) @ n"
| "mangle_name (CxxName n (Some ts)) = (let body = n @ ''<'' @ mangle_params ts in py_str_nat (length body) @ body)"
| "mangle_names [] = []"
| "mangle_names (n # ns) = mangle_name n @ mangle_names ns"
| "mangle_params [] = ''>''"
| "mangle_params (t # ts) =
     (case number_literal t of Some l \<Rightarrow> l | None \<Rightarrow> mangle_type t) @ (if ts = [] then ''>'' else '','' @ mangle_params ts)"
| "mangle_term (PlainTerm k) = [kind_char k]"
| "mangle_term (ArrayTerm n) = ''A'' @ py_str_nat (nat n) @ ''_''"
| "mangle_term (QualifiedTerm ns) = (if length ns = 1 then [] else ''Q'' @ py_str_nat (length ns)) @ mangle_names ns"
| "mangle_term (FunctionTerm ps None) = ''F'' @ mangle_types ps"
| "mangle_term (FunctionTerm ps (Some r)) = ''F'' @ mangle_types ps @ ''_'' @ mangle_type r"
| "mangle_term (SymbolTerm y) = ''&''"
| "mangle_terms [] = []"
| "mangle_terms (t # ts) = mangle_term t @ mangle_terms ts"
| "mangle_type (CxxType ts) = mangle_terms ts"
| "mangle_types [] = []"
| "mangle_types (t # ts) = mangle_type t @ mangle_types ts"

text \<open>An identifier: it starts with no digit and no delimiter, and has no bracket.\<close>

definition cxx_ident :: "string \<Rightarrow> bool" where
  "cxx_ident n \<longleftrightarrow> n \<noteq> [] \<and> hd n \<notin> set NUMBER_CHARS \<and> hd n \<notin> set '',>'' \<and> CHR ''<'' \<notin> set n"

text \<open>
  The encodable types.  A function type without a return type takes everything up to the next
  delimiter as parameters: \<open>c\<close> says whether the text ends there.
\<close>

fun wf_name :: "cxx_name \<Rightarrow> bool"
and wf_names :: "cxx_name list \<Rightarrow> bool"
and wf_params :: "cxx_type list \<Rightarrow> bool"
and wf_term :: "bool \<Rightarrow> cxx_term \<Rightarrow> bool"
and wf_terms :: "bool \<Rightarrow> cxx_term list \<Rightarrow> bool"
and wf_type :: "bool \<Rightarrow> cxx_type \<Rightarrow> bool"
and wf_types :: "cxx_type list \<Rightarrow> bool"
where
  "wf_name (CxxName n None) = cxx_ident n"
| "wf_name (CxxName n (Some ts)) = (cxx_ident n \<and> ts \<noteq> [] \<and> wf_params ts)"
| "wf_names [] = True"
| "wf_names (n # ns) = (wf_name n \<and> wf_names ns)"
| "wf_params [] = True"
| "wf_params (t # ts) = ((number_literal t \<noteq> None \<or> wf_type True t) \<and> wf_params ts)"
| "wf_term c (PlainTerm k) = (k \<notin> {Kind_ARRAY, Kind_QUALIFIED, Kind_FUNCTION, Kind_SYMBOL_REFERENCE})"
| "wf_term c (ArrayTerm n) = (0 \<le> n)"
| "wf_term c (QualifiedTerm ns) = (ns \<noteq> [] \<and> length ns \<le> 9 \<and> wf_names ns)"
| "wf_term c (FunctionTerm ps None) = (c \<and> wf_types ps)"
| "wf_term c (FunctionTerm ps (Some r)) = (wf_types ps \<and> wf_type c r)"
| "wf_term c (SymbolTerm y) = False"
| "wf_terms c [] = False"
| "wf_terms c (t # ts) = (wf_term c t \<and> (if ts = [] then \<not> nonterminating t else nonterminating t \<and> wf_terms c ts))"
| "wf_type c (CxxType ts) = wf_terms c ts"
| "wf_types [] = True"
| "wf_types (t # ts) = (wf_type False t \<and> wf_types ts)"

definition follows :: "bool \<Rightarrow> string \<Rightarrow> bool" where
  "follows c r \<longleftrightarrow> \<not> c \<or> r = [] \<or> peek_in '',>'' r"

section \<open>Numbers\<close>

lemma read_digits_str_nat: "read_digits 10 0 False (py_str_nat n) = Some n"
  using read_digits_print [of 10] by (simp add: py_str_nat_def)

lemma str_nat_nonempty [simp]: "py_str_nat n \<noteq> []"
  by (simp add: py_str_nat_def)

lemma number_chars_plain: "c \<in> set NUMBER_CHARS \<Longrightarrow> \<not> py_isspace c"
  by (auto simp: NUMBER_CHARS_def py_isspace_def ccode_def)

lemma str_nat_digit: "c \<in> set (py_str_nat n) \<Longrightarrow> c \<in> set NUMBER_CHARS \<and> c \<noteq> CHR ''-''"
proof -
  assume c: "c \<in> set (py_str_nat n)"
  then obtain d where d: "d < 10" "c = digit_char d" using set_print_digits [of 10 n] by (auto simp: py_str_nat_def)
  then have "ccode c \<noteq> ccode (CHR ''-'')" by (simp add: ccode_digit_char) (simp add: ccode_def)
  then show ?thesis using digit_chars [of n] c by auto
qed

lemma py_int10_str_nat: "py_int10 (py_str_nat n) = Inr (int n)"
proof -
  have "hd (py_str_nat n) \<in> set (py_str_nat n)" by simp
  then have h: "hd (py_str_nat n) \<notin> set ''+-''"
    using str_nat_digit [of "hd (py_str_nat n)" n] by (auto simp: NUMBER_CHARS_def)
  have "py_strip (py_str_nat n) = py_str_nat n"
    by (intro py_strip_id str_nat_nonempty number_chars_plain conjunct1 [OF str_nat_digit [of _ n]] hd_in_set last_in_set)
  then show ?thesis using h by (simp add: py_int10_def signed_read_def Let_def read_digits_str_nat)
qed

lemma array_dim_digits:
  "list_all (\<lambda>c. \<exists>d < 10. c = digit_char d) ds \<Longrightarrow> read_digits 10 n ok ds = Some m \<Longrightarrow> array_dim (int n) (ds @ CHR ''_'' # r) = Inr (int m, r)"
proof (induction ds arbitrary: n ok)
  case (Cons c ds)
  then obtain d where d: "d < 10" "c = digit_char d" by auto
  have "py_int10 (py_str_nat d) = Inr (int d)" by (rule py_int10_str_nat)
  moreover have "py_str_nat d = [c]" using d by (simp add: py_str_nat_def print_digits.simps)
  moreover have "array_dim (int (n * 10 + d)) (ds @ CHR ''_'' # r) = Inr (int m, r)"
    using Cons.prems d by (intro Cons.IH [of _ True]) auto
  ultimately show ?case using d by simp
qed (auto split: if_splits)

lemma array_dim_str_nat: "array_dim 0 (py_str_nat n @ CHR ''_'' # r) = Inr (int n, r)"
proof -
  have "list_all (\<lambda>c. \<exists>d < 10. c = digit_char d) (py_str_nat n)"
    using set_print_digits [of 10 n] by (auto simp: list_all_iff py_str_nat_def)
  from array_dim_digits [OF this, of 0 False n] show ?thesis by (simp add: read_digits_str_nat)
qed

lemma number_prefix:
  assumes "list_all (\<lambda>c. c \<in> set NUMBER_CHARS) ds" and "\<not> peek_in NUMBER_CHARS r"
  shows "takeWhile (\<lambda>c. c \<in> set NUMBER_CHARS) (ds @ r) = ds" and "dropWhile (\<lambda>c. c \<in> set NUMBER_CHARS) (ds @ r) = r"
proof -
  have "takeWhile (\<lambda>c. c \<in> set NUMBER_CHARS) r = []" "dropWhile (\<lambda>c. c \<in> set NUMBER_CHARS) r = r"
    using assms(2) by (auto simp: peek_in_def split: list.splits)
  then show "takeWhile (\<lambda>c. c \<in> set NUMBER_CHARS) (ds @ r) = ds" "dropWhile (\<lambda>c. c \<in> set NUMBER_CHARS) (ds @ r) = r"
    using assms(1) by (auto simp: list_all_iff takeWhile_append dropWhile_append)
qed

lemma str_nat_number: "list_all (\<lambda>c. c \<in> set NUMBER_CHARS) (py_str_nat n)"
  using digit_chars [of n] by (auto simp: list_all_iff)

section \<open>Names\<close>

text \<open>A name and what its length prefix covers.\<close>

lemma ident_peek: "cxx_ident n \<Longrightarrow> \<not> peek_in NUMBER_CHARS (n @ r) \<and> \<not> peek_in '',>'' (n @ r)"
  by (cases n) (auto simp: cxx_ident_def peek_in_def)

lemma name_body:
  assumes "\<not> peek_in NUMBER_CHARS body" and "\<not> peek_in '',>'' body" and "body \<noteq> []"
  shows "name_parse (Suc f) (py_str_nat (length body) @ body @ r) =
    (if CHR ''<'' \<notin> set body then Inr (CxxName body None, r)
     else if last body \<noteq> CHR ''>'' then Inl ValueError
     else (case py_partition body (CHR ''<'') of (base_name, param_strs) \<Rightarrow>
       ebind (all_read (template_params f param_strs)) (\<lambda>ts. Inr (CxxName base_name (Some ts), r))))"
proof -
  have "\<not> peek_in NUMBER_CHARS (body @ r)" "\<not> peek_in '',>'' (body @ r)" using assms by (auto simp: peek_in_def split: list.splits)
  then show ?thesis using number_prefix [OF str_nat_number [of "length body"], of "body @ r"] assms(3)
    by (simp add: parser_steps Let_def py_int10_str_nat read_exact_def del: takeWhile_append1 takeWhile_append2 dropWhile_append1 dropWhile_append2)
qed

definition roundtrips :: "nat \<Rightarrow> bool" where
  "roundtrips f \<longleftrightarrow>
     (\<forall>n r. wf_name n \<longrightarrow> 8 * length (mangle_name n) + 1 \<le> f \<longrightarrow> name_parse f (mangle_name n @ r) = Inr (n, r)) \<and>
     (\<forall>ts r. ts \<noteq> [] \<longrightarrow> wf_params ts \<longrightarrow> 8 * length (mangle_params ts) + 5 \<le> f \<longrightarrow>
        template_params f (mangle_params ts @ r) = Inr (ts, r)) \<and>
     (\<forall>ns r. wf_names ns \<longrightarrow> 8 * length (mangle_names ns) + 2 \<le> f \<longrightarrow>
        names_parse f (length ns) (mangle_names ns @ r) = Inr (ns, r)) \<and>
     (\<forall>c t r. wf_term c t \<longrightarrow> follows c r \<or> nonterminating t \<longrightarrow> 8 * length (mangle_term t) + 2 \<le> f \<longrightarrow>
        term_parse f (mangle_term t @ r) = Inr (t, r)) \<and>
     (\<forall>c ts r. wf_terms c ts \<longrightarrow> follows c r \<longrightarrow> 8 * length (mangle_terms ts) + 3 \<le> f \<longrightarrow>
        terms_parse f (mangle_terms ts @ r) = Inr (ts, r)) \<and>
     (\<forall>c t r. wf_type c t \<longrightarrow> follows c r \<longrightarrow> 8 * length (mangle_type t) + 4 \<le> f \<longrightarrow>
        type_parse f (mangle_type t @ r) = Inr (t, r)) \<and>
     (\<forall>ts r. wf_types ts \<longrightarrow> r = [] \<or> peek_in ''_,>'' r \<longrightarrow> 8 * length (mangle_types ts) + 5 \<le> f \<longrightarrow>
        function_params f (mangle_types ts @ r) = Inr (ts, r))"

lemma roundtripsD:
  assumes "roundtrips f"
  shows "wf_name n \<Longrightarrow> 8 * length (mangle_name n) + 1 \<le> f \<Longrightarrow> name_parse f (mangle_name n @ r) = Inr (n, r)"
    and "ts \<noteq> [] \<Longrightarrow> wf_params ts \<Longrightarrow> 8 * length (mangle_params ts) + 5 \<le> f \<Longrightarrow> template_params f (mangle_params ts @ r) = Inr (ts, r)"
    and "wf_names ns \<Longrightarrow> 8 * length (mangle_names ns) + 2 \<le> f \<Longrightarrow> names_parse f (length ns) (mangle_names ns @ r) = Inr (ns, r)"
    and "wf_term c t \<Longrightarrow> follows c r \<or> nonterminating t \<Longrightarrow> 8 * length (mangle_term t) + 2 \<le> f \<Longrightarrow>
      term_parse f (mangle_term t @ r) = Inr (t, r)"
    and "wf_terms c tms \<Longrightarrow> follows c r \<Longrightarrow> 8 * length (mangle_terms tms) + 3 \<le> f \<Longrightarrow> terms_parse f (mangle_terms tms @ r) = Inr (tms, r)"
    and "wf_type c ty \<Longrightarrow> follows c r \<Longrightarrow> 8 * length (mangle_type ty) + 4 \<le> f \<Longrightarrow> type_parse f (mangle_type ty @ r) = Inr (ty, r)"
    and "wf_types ts \<Longrightarrow> r = [] \<or> peek_in ''_,>'' r \<Longrightarrow> 8 * length (mangle_types ts) + 5 \<le> f \<Longrightarrow>
      function_params f (mangle_types ts @ r) = Inr (ts, r)"
  using assms unfolding roundtrips_def by blast+

lemma last_mangle_params: "last (mangle_params ts) = CHR ''>''" "mangle_params ts \<noteq> []"
proof -
  show "mangle_params ts \<noteq> []" by (cases ts) auto
  show "last (mangle_params ts) = CHR ''>''"
  proof (induction ts)
    case (Cons t ts)
    have "mangle_params ts \<noteq> []" by (cases ts) auto
    then show ?case using Cons by simp
  qed simp
qed

lemma name_roundtrip:
  assumes R: "roundtrips f" and wf: "wf_name n" and b: "8 * length (mangle_name n) \<le> f"
  shows "name_parse (Suc f) (mangle_name n @ r) = Inr (n, r)"
proof -
  obtain b ots where n: "n = CxxName b ots" by (cases n)
  have ident: "cxx_ident b" using wf n by (cases ots) simp_all
  show ?thesis
  proof (cases ots)
    case None
    then show ?thesis using n ident ident_peek [OF ident, of "[]"] name_body [of b f r] by (simp add: cxx_ident_def)
  next
    case (Some ts)
    let ?body = "b @ CHR ''<'' # mangle_params ts"
    have ts: "ts \<noteq> []" "wf_params ts" using wf n Some by simp_all
    have "length ?body \<le> length (mangle_name n)" using n Some by (simp add: Let_def)
    then have "8 * length (mangle_params ts) + 5 \<le> f" using b by simp
    from roundtripsD(2) [OF R ts this, of "[]"] have p: "template_params f (mangle_params ts) = Inr (ts, [])" by simp
    have "py_partition ?body (CHR ''<'') = (b, mangle_params ts)" using ident by (intro py_partition_app) (simp add: cxx_ident_def)
    then show ?thesis
      using n Some name_body [of ?body f r] ident_peek [OF ident, of "CHR ''<'' # mangle_params ts"] last_mangle_params [of ts] p
      by (simp add: Let_def all_read_def)
  qed
qed

section \<open>First characters\<close>

text \<open>No encoding of a term starts with a delimiter or an underscore.\<close>

definition starts_plain :: "string \<Rightarrow> bool" where
  "starts_plain s \<longleftrightarrow> s \<noteq> [] \<and> \<not> peek_in ''_,>'' s"

lemma starts_plain_append: "starts_plain s \<Longrightarrow> starts_plain (s @ r)"
  by (cases s) (auto simp: starts_plain_def peek_in_def)

lemma starts_plainD: "starts_plain s \<Longrightarrow> s \<noteq> [] \<and> \<not> peek_in '',>'' s \<and> \<not> peek_in ''_,>'' s"
  by (cases s) (auto simp: starts_plain_def peek_in_def)

lemma starts_plain_number: "starts_plain (py_str_nat n @ r)"
proof -
  have "hd (py_str_nat n) \<in> set NUMBER_CHARS" using str_nat_digit [OF hd_in_set [OF str_nat_nonempty]] by blast
  then have "hd (py_str_nat n) \<notin> set ''_,>''" by (auto simp: NUMBER_CHARS_def)
  then show ?thesis using str_nat_nonempty [of n] by (cases "py_str_nat n") (simp_all add: starts_plain_def peek_in_def)
qed

lemma mangle_name_number: "\<exists>k s. mangle_name n = py_str_nat k @ s"
proof -
  obtain m ots where "n = CxxName m ots" by (cases n)
  then show ?thesis by (cases ots) (auto simp: Let_def)
qed

lemma starts_plain_name: "starts_plain (mangle_name n)"
  using mangle_name_number [of n] starts_plain_number by auto

lemma map_of_kind_char: "map_of cxx_kinds (kind_char k) = Some k"
  by (cases k) (simp_all add: cxx_kinds_def kind_char_def)

lemma kind_char_plain: "kind_char k \<notin> set NUMBER_CHARS" "kind_char k \<notin> set ''_,>''"
  by (cases k; simp add: cxx_kinds_def kind_char_def NUMBER_CHARS_def)+

lemma starts_plain_term: "wf_term c t \<Longrightarrow> starts_plain (mangle_term t)"
proof (cases t)
  case (PlainTerm k)
  then show ?thesis using kind_char_plain(2) [of k] by (simp add: starts_plain_def peek_in_def)
next
  case (QualifiedTerm ns)
  assume "wf_term c t"
  with QualifiedTerm show ?thesis using starts_plain_name starts_plain_append
    by (cases ns) (auto simp: starts_plain_def peek_in_def)
next
  case (FunctionTerm ps ot)
  then show ?thesis by (cases ot) (simp_all add: starts_plain_def peek_in_def)
qed (simp_all add: starts_plain_def peek_in_def)

lemma starts_plain_terms: "wf_terms c ts \<Longrightarrow> starts_plain (mangle_terms ts)"
  using starts_plain_term starts_plain_append by (cases ts) auto

lemma starts_plain_type: "wf_type c t \<Longrightarrow> starts_plain (mangle_type t)"
  using starts_plain_terms by (cases t) auto

section \<open>Terms and types\<close>

lemma names_roundtrip:
  assumes R: "roundtrips f" and "wf_names ns" and "8 * length (mangle_names ns) + 1 \<le> f"
  shows "names_parse (Suc f) (length ns) (mangle_names ns @ r) = Inr (ns, r)"
proof (cases ns)
  case (Cons n ms)
  have len: "0 < length (mangle_name n)" using starts_plain_name [of n] by (simp add: starts_plain_def)
  have "name_parse f (mangle_name n @ mangle_names ms @ r) = Inr (n, mangle_names ms @ r)"
    using assms Cons by (intro roundtripsD(1) [OF R]) simp_all
  moreover have "8 * length (mangle_names ms) + 2 \<le> f" using assms(3) Cons len by (simp only: mangle_names.simps length_append) arith
  then have "names_parse f (length ms) (mangle_names ms @ r) = Inr (ms, r)"
    using assms(2) Cons by (intro roundtripsD(3) [OF R]) simp_all
  ultimately show ?thesis using Cons by (simp add: parser_steps)
qed (simp add: parser_steps)

lemma qualified_roundtrip:
  assumes R: "roundtrips f" and wf: "wf_term c (QualifiedTerm ns)" and b: "8 * length (mangle_term (QualifiedTerm ns)) + 1 \<le> f"
  shows "term_parse (Suc f) (mangle_term (QualifiedTerm ns) @ r) = Inr (QualifiedTerm ns, r)"
proof (cases "length ns = 1")
  case True
  then obtain n where ns: "ns = [n]" by (cases ns) auto
  have p: "peek_in NUMBER_CHARS (mangle_name n @ r)"
  proof -
    have "peek_in NUMBER_CHARS (py_str_nat k @ s)" for k s
      using str_nat_nonempty [of k] str_nat_digit [of _ k] by (cases "py_str_nat k") (auto simp: peek_in_def)
    then show ?thesis using mangle_name_number [of n] by auto
  qed
  have "name_parse f (mangle_name n @ r) = Inr (n, r)" using assms ns by (intro roundtripsD(1) [OF R]) simp_all
  then show ?thesis using ns p by (simp add: parser_steps)
next
  case False
  have k: "map_of cxx_kinds (CHR ''Q'') = Some Kind_QUALIFIED" "\<not> peek_in NUMBER_CHARS (CHR ''Q'' # s)" for s
    by (simp_all add: cxx_kinds_def peek_in_def NUMBER_CHARS_def)
  have len: "py_str_nat (length ns) = [digit_char (length ns)]" using wf by (simp add: py_str_nat_def print_digits.simps)
  have "names_parse f (length ns) (mangle_names ns @ r) = Inr (ns, r)" using assms False by (intro roundtripsD(3) [OF R]) simp_all
  then show ?thesis using False k py_int10_str_nat [of "length ns"] by (simp add: parser_steps read_one len)
qed

lemma function_roundtrip:
  assumes R: "roundtrips f" and wf: "wf_term c (FunctionTerm ps ot)" and r: "follows c r"
    and b: "8 * length (mangle_term (FunctionTerm ps ot)) + 1 \<le> f"
  shows "term_parse (Suc f) (mangle_term (FunctionTerm ps ot) @ r) = Inr (FunctionTerm ps ot, r)"
proof -
  have k: "map_of cxx_kinds (CHR ''F'') = Some Kind_FUNCTION" "\<not> peek_in NUMBER_CHARS (CHR ''F'' # s)" for s
    by (simp_all add: cxx_kinds_def peek_in_def NUMBER_CHARS_def)
  show ?thesis
  proof (cases ot)
    case None
    have "r = [] \<or> peek_in '',>'' r" using wf r None by (simp add: follows_def)
    then have "r = [] \<or> peek_in ''_,>'' r" "\<not> peek_in ''_'' r" by (auto simp: peek_in_def split: list.splits)
    then have "function_params f (mangle_types ps @ r) = Inr (ps, r)" using wf b None by (intro roundtripsD(7) [OF R]) simp_all
    then show ?thesis using None k \<open>\<not> peek_in ''_'' r\<close> by (simp add: parser_steps read_one)
  next
    case (Some t)
    let ?r = "CHR ''_'' # mangle_type t @ r"
    have "function_params f (mangle_types ps @ ?r) = Inr (ps, ?r)"
      using wf b Some by (intro roundtripsD(7) [OF R]) (simp_all add: peek_in_def)
    moreover have "type_parse f (mangle_type t @ r) = Inr (t, r)" using wf b r Some by (intro roundtripsD(6) [OF R]) simp_all
    ultimately show ?thesis using Some k by (simp add: parser_steps read_one peek_in_def)
  qed
qed

lemma term_roundtrip:
  assumes R: "roundtrips f" and wf: "wf_term c t" and r: "follows c r \<or> nonterminating t" and b: "8 * length (mangle_term t) + 1 \<le> f"
  shows "term_parse (Suc f) (mangle_term t @ r) = Inr (t, r)"
proof (cases t)
  case (PlainTerm k)
  then have "\<not> peek_in NUMBER_CHARS (mangle_term t @ r)" using kind_char_plain(1) by (simp add: peek_in_def)
  then show ?thesis using wf PlainTerm by (cases k) (simp_all add: parser_steps read_one map_of_kind_char)
next
  case (ArrayTerm n)
  have "map_of cxx_kinds (CHR ''A'') = Some Kind_ARRAY" "\<not> peek_in NUMBER_CHARS (CHR ''A'' # s)" for s
    by (simp_all add: cxx_kinds_def peek_in_def NUMBER_CHARS_def)
  then show ?thesis using wf ArrayTerm by (simp add: parser_steps read_one array_dim_str_nat)
next
  case (QualifiedTerm ns)
  then show ?thesis using qualified_roundtrip [OF R] wf b by blast
next
  case (FunctionTerm ps ot)
  then show ?thesis using function_roundtrip [OF R] wf b r by (auto simp: nonterminating_def)
qed (use wf in simp)

lemma terms_roundtrip:
  assumes R: "roundtrips f" and wf: "wf_terms c ts" and r: "follows c r" and b: "8 * length (mangle_terms ts) + 2 \<le> f"
  shows "terms_parse (Suc f) (mangle_terms ts @ r) = Inr (ts, r)"
proof (cases ts)
  case (Cons t us)
  have p: "\<not> peek_in '',>'' (mangle_terms ts @ r)"
    using starts_plainD [OF starts_plain_append [OF starts_plain_terms [OF wf]]] by blast
  have wt: "wf_term c t" using wf Cons by simp
  have len: "0 < length (mangle_term t)" using starts_plain_term [OF wt] by (simp add: starts_plain_def)
  have bt: "8 * length (mangle_term t) + 2 \<le> f" and bu: "8 * length (mangle_terms us) + 3 \<le> f"
    using b len Cons by (simp_all only: mangle_terms.simps length_append) arith+
  show ?thesis
  proof (cases "us = []")
    case True
    have "term_parse f (mangle_term t @ r) = Inr (t, r)" by (rule roundtripsD(4) [OF R wt disjI1 [OF r] bt])
    then show ?thesis using p Cons True wf by (simp add: parser_steps)
  next
    case False
    then have "nonterminating t" "wf_terms c us" using wf Cons by simp_all
    then have "term_parse f (mangle_term t @ mangle_terms us @ r) = Inr (t, mangle_terms us @ r)"
      and "terms_parse f (mangle_terms us @ r) = Inr (us, r)"
      using r wt roundtripsD(4) [OF R wt _ bt] roundtripsD(5) [OF R _ r bu] by simp_all
    then show ?thesis using p Cons \<open>nonterminating t\<close> by (simp add: parser_steps)
  qed
qed (use wf in simp)

lemma types_roundtrip:
  assumes R: "roundtrips f" and wf: "wf_types ts" and r: "r = [] \<or> peek_in ''_,>'' r" and b: "8 * length (mangle_types ts) + 4 \<le> f"
  shows "function_params (Suc f) (mangle_types ts @ r) = Inr (ts, r)"
proof (cases ts)
  case Nil
  then show ?thesis using r by (simp add: parser_steps)
next
  case (Cons t us)
  have wt: "wf_type False t" "wf_types us" using wf Cons by simp_all
  have p: "mangle_types ts @ r \<noteq> [] \<and> \<not> peek_in ''_,>'' (mangle_types ts @ r)"
    using starts_plainD [OF starts_plain_append [OF starts_plain_type [OF wt(1)]]] Cons by simp
  have len: "0 < length (mangle_type t)" using starts_plain_type [OF wt(1)] by (simp add: starts_plain_def)
  have bt: "8 * length (mangle_type t) + 4 \<le> f" and bu: "8 * length (mangle_types us) + 5 \<le> f"
    using b len Cons by (simp_all only: mangle_types.simps length_append) arith+
  have "type_parse f (mangle_type t @ mangle_types us @ r) = Inr (t, mangle_types us @ r)"
    by (rule roundtripsD(6) [OF R wt(1) _ bt]) (simp add: follows_def)
  moreover have "function_params f (mangle_types us @ r) = Inr (us, r)" by (rule roundtripsD(7) [OF R wt(2) r bu])
  ultimately show ?thesis using p Cons by (simp add: parser_steps)
qed

text \<open>A number literal is a type of its own for the parsers.\<close>

lemma literal_type:
  assumes "number_literal t = Some l" and "peek_in '',>'' r"
  shows "type_parse (Suc (Suc (Suc (Suc f)))) (l @ r) = Inr (t, r)"
proof -
  from assms(1) have t: "t = CxxType [QualifiedTerm [CxxName l None]]" and l: "l \<noteq> []" "list_all (\<lambda>c. c \<in> set NUMBER_CHARS) l"
    and i: "\<not> is_err (py_int10 l)"
    by (auto simp: number_literal_def split: cxx_type.splits list.splits cxx_term.splits cxx_name.splits option.splits if_splits)
  have p: "peek_in NUMBER_CHARS (l @ r)" "\<not> peek_in '',>'' (l @ r)"
    using l by (cases l; auto simp: peek_in_def NUMBER_CHARS_def)+
  have "\<not> peek_in NUMBER_CHARS r" using assms(2) by (auto simp: peek_in_def NUMBER_CHARS_def split: list.splits)
  note pre = number_prefix [OF l(2) this]
  obtain v where "py_int10 l = Inr v" using i by (cases "py_int10 l") auto
  then show ?thesis using p pre l(1) assms(2) t
    by (simp add: parser_steps Let_def nonterminating_def del: takeWhile_append1 takeWhile_append2 dropWhile_append1 dropWhile_append2)
qed

lemma params_roundtrip:
  assumes R: "roundtrips f" and ts: "ts \<noteq> []" and wf: "wf_params ts" and b: "8 * length (mangle_params ts) + 4 \<le> f"
  shows "template_params (Suc f) (mangle_params ts @ r) = Inr (ts, r)"
proof -
  obtain t us where ts: "ts = t # us" using ts by (cases ts) auto
  define e where "e = (case number_literal t of Some l \<Rightarrow> l | None \<Rightarrow> mangle_type t)"
  define q where "q = (if us = [] then CHR ''>'' # r else CHR '','' # mangle_params us @ r)"
  have m: "mangle_params ts @ r = e @ q" by (simp add: ts e_def q_def)
  have q: "peek_in '',>'' q" by (simp add: q_def peek_in_def)
  have len: "length e \<le> length (mangle_params ts)" by (simp add: ts e_def)
  have ty: "type_parse f (e @ q) = Inr (t, q)"
  proof (cases "number_literal t")
    case None
    then have "wf_type True t" using wf ts by simp
    moreover have "e = mangle_type t" using None by (simp add: e_def)
    ultimately show ?thesis using len b q roundtripsD(6) [OF R, of True t q] by (simp add: follows_def)
  next
    case (Some l)
    moreover have "f = Suc (Suc (Suc (Suc (f - 4))))" using b by simp
    then obtain g where "f = Suc (Suc (Suc (Suc g)))" by blast
    ultimately show ?thesis using literal_type [OF Some q, of g] by (simp add: e_def)
  qed
  show ?thesis
  proof (cases "us = []")
    case True
    then show ?thesis unfolding m using ty ts by (simp add: parser_steps q_def read_one)
  next
    case False
    have "8 * length (mangle_params us) + 5 \<le> f" using b False by (simp add: ts)
    moreover have "wf_params us" using wf ts by simp
    ultimately have "template_params f (mangle_params us @ r) = Inr (us, r)" using False by (intro roundtripsD(2) [OF R])
    then show ?thesis unfolding m using ty ts False by (simp add: parser_steps q_def read_one)
  qed
qed

lemma parsers_roundtrip: "roundtrips f"
proof (induction f)
  case 0
  then show ?case by (simp add: roundtrips_def)
next
  case (Suc f)
  have "type_parse (Suc f) (mangle_type t @ r) = Inr (t, r)"
    if "wf_type c t" "follows c r" "8 * length (mangle_type t) + 3 \<le> f" for c t r
    using that roundtripsD(5) [OF Suc, of c] by (cases t) (simp add: parser_steps)
  note steps = this name_roundtrip [OF Suc] params_roundtrip [OF Suc] names_roundtrip [OF Suc] term_roundtrip [OF Suc]
    terms_roundtrip [OF Suc] types_roundtrip [OF Suc]
  show ?case unfolding roundtrips_def by (intro conjI allI impI) (rule steps, (assumption | simp; fail)+)+
qed

end
