(* ===== verification/Demangle_Props.thy ===== *)
theory Demangle_Props
  imports Demangle_Roundtrip
begin

text \<open>The properties of the demangler.\<close>

section \<open>Printing\<close>

abbreviation print_errors :: "py_error set" where
  "print_errors \<equiv> {AssertionError, IndexError}"

lemma errs_join_names [errs_intros]: "errs print_errors (join_names ns)"
  by (auto simp: join_names_def py_assert_def split: option.split)

lemma errs_str:
  "errs print_errors (str_name n)" "errs print_errors (str_names ns)" "errs print_errors (str_term t)"
  "errs print_errors (str_terms_rev tms)" "errs print_errors (str_type ty)" "errs print_errors (str_types tys)"
  "errs print_errors (str_symbol y)"
  by (induction n and ns and t and tms and ty and tys and y
      rule: str_name_str_names_str_term_str_terms_rev_str_type_str_types_str_symbol.induct)
    (auto intro!: errs_intros)

lemma errs_cw_parse: "errs parse_errors (cw_parse m)"
  unfolding cw_parse_def Let_def by (intro errs_all_read fuelledD(9) [OF parsers_fuelled]) simp

text \<open>
  C18: \<open>demangle\<close> ends on every text: it returns a string, or raises an \<open>AssertionError\<close> or an
  \<open>IndexError\<close>.  It catches \<open>ValueError\<close> alone, and both other errors do occur: for the
  constructor of no class, and for an empty qualified name.
\<close>

theorem demangle_outcome:
  "demangle m \<in> range Inr \<union> {Inl AssertionError, Inl IndexError} \<and>
   demangle ''__ct__Fv'' = Inl AssertionError \<and> demangle ''f__FQ0'' = Inl IndexError"
proof -
  have "errs {ValueError, AssertionError, IndexError} (ebind (cw_parse m) str_symbol)"
    by (intro errs_ebind errs_mono [OF errs_cw_parse] errs_mono [OF errs_str(7)]) auto
  then have "demangle m \<in> range Inr \<union> {Inl AssertionError, Inl IndexError}"
    by (cases "ebind (cw_parse m) str_symbol") (auto simp: demangle_def errs_def)
  moreover have "demangle ''__ct__Fv'' = Inl AssertionError" by code_simp
  moreover have "demangle ''f__FQ0'' = Inl IndexError" by code_simp
  ultimately show ?thesis by blast
qed

section \<open>Where the name of a symbol ends\<close>

fun no_double :: "string \<Rightarrow> bool" where
  "no_double [] = True"
| "no_double (c # s) = (\<not> (c = CHR ''_'' \<and> peek_in ''_'' s) \<and> no_double s)"

definition not_static :: "string \<Rightarrow> bool" where
  "not_static s \<longleftrightarrow> list_all (\<lambda>x. \<not> py_startswith s x) STATIC_FUNCTIONS"

lemma not_static_prefix: "not_static (chars @ s) \<Longrightarrow> chars \<notin> set STATIC_FUNCTIONS"
  by (auto simp: not_static_def list_all_iff py_startswith_iff)

lemma find_base_kept:
  "no_double s \<Longrightarrow> not_static (chars @ s) \<Longrightarrow> strip \<noteq> 0 \<Longrightarrow> find_base chars depth base strip s = (base, strip)"
proof (induction s arbitrary: chars depth)
  case (Cons c s)
  have "chars @ [c] \<notin> set STATIC_FUNCTIONS" using not_static_prefix [of "chars @ [c]" s] Cons.prems by simp
  then show ?case using Cons by (auto simp: Let_def)
qed simp

lemma find_base_name:
  "list_all (\<lambda>c. c \<notin> set '',<>'') b \<Longrightarrow> not_static (chars @ b @ s) \<Longrightarrow>
   \<exists>base' strip'. find_base chars 0 base strip (b @ s) = find_base (chars @ b) 0 base' strip' s"
proof (induction b arbitrary: chars base strip)
  case (Cons c b)
  have st: "chars @ [c] \<notin> set STATIC_FUNCTIONS" using not_static_prefix [of "chars @ [c]" "b @ s"] Cons.prems by simp
  have c: "c \<noteq> CHR '',''" "c \<noteq> CHR ''<''" "c \<noteq> CHR ''>''" using Cons.prems(1) by auto
  obtain base1 strip1 where step: "find_base chars 0 base strip (c # b @ s) = find_base (chars @ [c]) 0 base1 strip1 (b @ s)"
  proof (cases "c = CHR ''_'' \<and> peek_in ''_'' (b @ s) \<and> (length (b @ s) < 2 \<or> (b @ s) ! 1 \<in> set ''CFQ0123456789'')")
    case True
    then show thesis using st c by (intro that [of chars 2]) (simp add: Let_def del: length_append)
  next
    case False
    have "\<not> (c \<in> set '',>'' \<and> (0 :: nat) = 0)" using c by simp
    then have "find_base chars 0 base strip (c # b @ s) = find_base (chars @ [c]) 0 base strip (b @ s)"
      using c by (simp only: find_base.simps Let_def if_not_P [OF False] if_not_P [OF st] if_False)
    then show thesis by (rule that)
  qed
  show ?case using Cons.IH [of "chars @ [c]" base1 strip1] Cons.prems step by simp
qed auto

lemma find_base_split:
  assumes "list_all (\<lambda>c. c \<notin> set '',<>'') b" and "not_static (b @ ''__'' @ t)"
    and "peek_in ''CFQ0123456789'' t" and "no_double t"
  shows "find_base [] 0 s 0 (b @ ''__'' @ t) = (b, 2)"
proof -
  obtain base strip where "find_base [] 0 s 0 (b @ ''__'' @ t) = find_base b 0 base strip (''__'' @ t)"
    using find_base_name [of b "[]" "''__'' @ t" s 0] assms(1,2) by auto
  moreover have "b @ ''_'' \<notin> set STATIC_FUNCTIONS" using not_static_prefix [of "b @ ''_''" "''_'' @ t"] assms(2) by simp
  moreover obtain c u where "t = c # u" "c \<in> set ''CFQ0123456789''" using assms(3) by (cases t) (auto simp: peek_in_def)
  moreover have "find_base (b @ ''_'') 0 b 2 (''_'' @ t) = (b, 2)"
  proof (rule find_base_kept)
    have "\<not> peek_in ''_'' t" using assms(3) by (auto simp: peek_in_def split: list.splits)
    then show "no_double (''_'' @ t)" using assms(4) by simp
  qed (use assms(2) in simp_all)
  ultimately show ?thesis by (auto simp: Let_def peek_in_def)
qed

section \<open>Symbols\<close>

definition mangle_rest :: "cxx_name list \<Rightarrow> cxx_type \<Rightarrow> string" where
  "mangle_rest ns fn = (if ns = [] then [] else mangle_term (QualifiedTerm ns)) @ mangle_type fn"

definition mangle_symbol :: "cxx_name list \<Rightarrow> string \<Rightarrow> cxx_type \<Rightarrow> string" where
  "mangle_symbol ns b fn = b @ ''__'' @ mangle_rest ns fn"

text \<open>The symbols that the search for the separating underscores can take apart.\<close>

definition encodable :: "cxx_name list \<Rightarrow> string \<Rightarrow> cxx_type \<Rightarrow> bool" where
  "encodable ns b fn \<longleftrightarrow>
     cxx_ident b \<and> list_all (\<lambda>c. c \<notin> set '',<>'') b \<and> (ns = [] \<or> wf_term False (QualifiedTerm ns)) \<and> wf_type True fn \<and>
     peek_in ''CFQ0123456789'' (mangle_rest ns fn) \<and> no_double (mangle_rest ns fn) \<and>
     not_static (mangle_symbol ns b fn) \<and> CHR ''$'' \<notin> set (mangle_symbol ns b fn)"

lemma py_replace_absent: "CHR ''$'' \<notin> set s \<Longrightarrow> py_replace (CHR ''$'' # old) new 0 s = s"
  by (induction s) (auto simp: py_startswith_iff)

lemma substitute_absent: "CHR ''$'' \<notin> set s \<Longrightarrow> substitute s = s"
  by (simp add: substitute_def DOLDISASM_SUBSTITUTIONS_def py_replace_absent)

lemma symbol_roundtrip:
  assumes e: "encodable ns b fn" and f: "8 * length (mangle_symbol ns b fn) + 4 \<le> f"
  shows "symbol_parse (Suc f) (mangle_symbol ns b fn) = Inr (CxxSymbol (QualifiedTerm (ns @ [CxxName b None])) fn, [])"
proof -
  let ?t = "mangle_rest ns fn" let ?s = "mangle_symbol ns b fn"
  note R = parsers_roundtrip [of f]
  have len: "length b + 2 + length ?t = length ?s" by (simp add: mangle_symbol_def)
  have lt: "length (mangle_type fn) \<le> length ?t" by (simp add: mangle_rest_def)
  have fb: "find_base [] 0 ?s 0 ?s = (b, 2)"
    using find_base_split [of b ?t ?s] e unfolding mangle_symbol_def encodable_def by blast
  have st: "b \<notin> set STATIC_FUNCTIONS"
    using not_static_prefix [of b "''__'' @ ?t"] e by (simp add: encodable_def mangle_symbol_def)
  have own: "name_parse f (py_str_nat (length b) @ b) = Inr (CxxName b None, [])"
  proof -
    have "\<exists>g. f = Suc g" using f by (cases f) simp_all
    then obtain g where "f = Suc g" ..
    then show ?thesis using name_body [of b g "[]"] ident_peek [of b "[]"] e by (simp add: encodable_def cxx_ident_def)
  qed
  have wf: "wf_type True fn" using e by (simp add: encodable_def)
  have ty: "type_parse f (mangle_type fn) = Inr (fn, [])"
    using roundtripsD(6) [OF R wf, of "[]"] f len lt by (simp add: follows_def)
  have ne: "mangle_type fn \<noteq> [] \<and> \<not> peek_in '',>'' (mangle_type fn)" using starts_plainD [OF starts_plain_type [OF wf]] by blast
  have rd: "read_exact (length b + 2) ?s = Inr (b @ ''__'', ?t)" by (simp add: mangle_symbol_def read_exact_def)
  show ?thesis
  proof (cases "ns = []")
    case True
    then show ?thesis using fb st own ty rd by (simp add: parser_steps mangle_rest_def all_read_def)
  next
    case False
    let ?c = "CxxType [QualifiedTerm ns]"
    have "wf_type False ?c" using e False by (simp add: encodable_def nonterminating_def)
    moreover have "8 * length (mangle_type ?c) + 4 \<le> f" using f len False by (simp add: mangle_rest_def)
    moreover have "follows False (mangle_type fn)" by (simp add: follows_def)
    ultimately have "type_parse f (mangle_type ?c @ mangle_type fn) = Inr (?c, mangle_type fn)"
      by (intro roundtripsD(6) [OF R, of False])
    then show ?thesis using fb st own ty rd ne False
      by (simp add: parser_steps mangle_rest_def all_read_def class_path_def)
  qed
qed

text \<open>
  C14: the demangler inverts the mangling of functions and methods: for an identifier, the path of
  its class (or none) and a function type built from plain, array, qualified, templated and
  function types, the encoded symbol is parsed to exactly these parts, as long as no part after
  the first \<open>__\<close> contains another one.
\<close>

theorem demangle_roundtrip:
  assumes "encodable ns b fn"
  shows "cw_parse (mangle_symbol ns b fn) = Inr (CxxSymbol (QualifiedTerm (ns @ [CxxName b None])) fn)"
proof -
  have "substitute (mangle_symbol ns b fn) = mangle_symbol ns b fn" using assms by (simp add: encodable_def substitute_absent)
  then show ?thesis
    using symbol_roundtrip [OF assms, of "8 * length (mangle_symbol ns b fn) + 7"]
    by (simp add: cw_parse_def Let_def all_read_def add.commute)
qed

definition sample_path :: "cxx_name list" where
  "sample_path = [CxxName ''std'' None,
     CxxName ''vec'' (Some [CxxType [PlainTerm Kind_POINTER, PlainTerm Kind_INT], CxxType [QualifiedTerm [CxxName ''16'' None]]])]"

definition sample_fn_type :: cxx_type where
  "sample_fn_type = CxxType [PlainTerm Kind_CONST, FunctionTerm [CxxType [PlainTerm Kind_UNSIGNED, PlainTerm Kind_LONG]] None]"

theorem demangle_roundtrip_witness:
  "encodable sample_path ''copy'' sample_fn_type \<and>
   mangle_symbol sample_path ''copy'' sample_fn_type = ''copy__Q23std10vec<Pi,16>CFUl'' \<and>
   cw_parse (mangle_symbol sample_path ''copy'' sample_fn_type) =
     Inr (CxxSymbol (QualifiedTerm (sample_path @ [CxxName ''copy'' None])) sample_fn_type)"
proof -
  have e: "encodable sample_path ''copy'' sample_fn_type" by code_simp
  moreover have "mangle_symbol sample_path ''copy'' sample_fn_type = ''copy__Q23std10vec<Pi,16>CFUl''" by code_simp
  ultimately show ?thesis using demangle_roundtrip [OF e] by blast
qed

section \<open>The test cases of the module\<close>

lemma demangle_test_cases: "list_all (\<lambda>(m, d). demangle m = Inr d) TEST_CASES"
proof -
  have "list_all (\<lambda>(m, d). demangle m = Inr d) (take 7 TEST_CASES)" by code_simp
  moreover have "list_all (\<lambda>(m, d). demangle m = Inr d) (take 4 (drop 7 TEST_CASES))" by code_simp
  moreover have "list_all (\<lambda>(m, d). demangle m = Inr d) (drop 4 (drop 7 TEST_CASES))" by code_simp
  ultimately show ?thesis by (metis append_take_drop_id list_all_append)
qed

end
