(* ===== verification/Src_Edits.thy ===== *)
theory Src_Edits
  imports Py_Text
begin

text \<open>
  The byte-span edits of \<open>tools/src_mutate.py\<close> and how \<open>apply_edits\<close> splices them into a source
  text.  A \<open>bytes\<close> object is a list of characters of eight bits, and an edit \<open>(start, end, text)\<close>
  replaces the bytes from \<open>start\<close> up to \<open>end\<close>.  The offsets are Python integers, since a replay
  recipe may hold any number, so slices are modelled with their treatment of negative indices.
\<close>

section \<open>Slices\<close>

type_synonym bytes = string

definition clamp_index :: "nat \<Rightarrow> int \<Rightarrow> nat" where
  "clamp_index n i = (if i < 0 then nat (i + int n) else min n (nat i))"

definition py_slice :: "'a list \<Rightarrow> int \<Rightarrow> int \<Rightarrow> 'a list" where
  "py_slice xs a b =
     (let i = clamp_index (length xs) a; j = clamp_index (length xs) b in take (j - i) (drop i xs))"

definition py_slice_from :: "'a list \<Rightarrow> int \<Rightarrow> 'a list" where
  "py_slice_from xs a = drop (clamp_index (length xs) a) xs"

definition py_slice_to :: "'a list \<Rightarrow> int \<Rightarrow> 'a list" where
  "py_slice_to xs b = take (clamp_index (length xs) b) xs"

text \<open>\<open>bytes.strip\<close> removes the six ASCII blanks only.\<close>

definition bytes_space :: "char \<Rightarrow> bool" where
  "bytes_space c = (c = CHR '' '' \<or> 9 \<le> ccode c \<and> ccode c \<le> 13)"

definition bytes_strip :: "bytes \<Rightarrow> bytes" where
  "bytes_strip s = rev (dropWhile bytes_space (rev (dropWhile bytes_space s)))"

lemma clamp_index_int [simp]: "clamp_index n (int i) = min n i"
  by (simp add: clamp_index_def)

lemma clamp_index_nonneg: "0 \<le> a \<Longrightarrow> clamp_index n a = min n (nat a)"
  by (simp add: clamp_index_def)

lemma clamp_index_zero [simp]: "clamp_index n 0 = 0"
  by (simp add: clamp_index_def)

lemma py_slice_int [simp]: "py_slice xs (int i) (int j) = take (j - i) (drop i xs)"
  by (cases "i \<le> length xs") (auto simp: py_slice_def min_def)

lemma py_slice_from_int [simp]: "py_slice_from xs (int i) = drop i xs"
  by (simp add: py_slice_from_def min_def)

lemma py_slice_to_int [simp]: "py_slice_to xs (int j) = take j xs"
  by (simp add: py_slice_to_def min_def)

lemma py_slice_piece [simp]:
  "py_slice (u @ k @ r) (int (length u)) (int (length u) + int (length k)) = k"
  using py_slice_int [of "u @ k @ r" "length u" "length u + length k"] by simp

lemma py_slice_zero [simp]: "py_slice xs 0 b = py_slice_to xs b"
  by (simp add: py_slice_def py_slice_to_def)

lemma py_slice_from_zero [simp]: "py_slice_from xs 0 = xs"
  by (simp add: py_slice_from_def)

section \<open>Splicing edits\<close>

type_synonym edit = "int \<times> int \<times> bytes"

fun apply_loop :: "bytes \<Rightarrow> edit list \<Rightarrow> int \<Rightarrow> bytes \<Rightarrow> bytes res" where
  "apply_loop src [] pos out = Inr (out @ py_slice_from src pos)"
| "apply_loop src ((s, e, rep) # es) pos out =
     (if s < pos then Inl ValueError
      else apply_loop src es e (out @ py_slice src pos s @ rep))"

definition apply_edits :: "bytes \<Rightarrow> edit list \<Rightarrow> bytes res" where
  "apply_edits src edits = apply_loop src (sort_key fst edits) 0 []"

text \<open>
  The specification: a source is cut into kept and replaced pieces.  A layout lists triples of a
  kept piece, the old bytes that follow it and their replacement.
\<close>

type_synonym layout = "(bytes \<times> bytes \<times> bytes) list"

definition layout_before :: "layout \<Rightarrow> bytes" where
  "layout_before l = concat (map (\<lambda>(k, a, b). k @ a) l)"

definition layout_after :: "layout \<Rightarrow> bytes" where
  "layout_after l = concat (map (\<lambda>(k, a, b). k @ b) l)"

fun layout_edits :: "nat \<Rightarrow> layout \<Rightarrow> edit list" where
  "layout_edits p [] = []"
| "layout_edits p ((k, a, b) # l) =
     (int (p + length k), int (p + length k + length a), b) # layout_edits (p + length k + length a) l"

lemma layout_simps [simp]:
  "layout_before [] = []" "layout_before ((k, a, b) # l) = k @ a @ layout_before l"
  "layout_after [] = []" "layout_after ((k, a, b) # l) = k @ b @ layout_after l"
  by (simp_all add: layout_before_def layout_after_def)

lemma layout_before_append [simp]: "layout_before (l @ m) = layout_before l @ layout_before m"
  by (simp add: layout_before_def)

lemma layout_after_append [simp]: "layout_after (l @ m) = layout_after l @ layout_after m"
  by (simp add: layout_after_def)

lemma layout_edits_append [simp]:
  "layout_edits p (l @ m) = layout_edits p l @ layout_edits (p + length (layout_before l)) m"
  by (induction p l rule: layout_edits.induct) (simp_all add: add.assoc)

lemma layout_edits_starts: "x \<in> set (layout_edits p l) \<Longrightarrow> int p \<le> fst x"
  by (induction p l rule: layout_edits.induct) auto

lemma layout_edits_sorted: "sorted (map fst (layout_edits p l))"
  by (induction p l rule: layout_edits.induct) (auto dest: layout_edits_starts)

lemma sort_layout_edits [simp]: "sort_key fst (layout_edits p l) = layout_edits p l"
  by (rule sort_key_id_if_sorted) (rule layout_edits_sorted)

lemma apply_loop_layout:
  "apply_loop (u @ layout_before l @ t) (layout_edits (length u) l) (int (length u)) out
     = Inr (out @ layout_after l @ t)"
proof (induction l arbitrary: u out)
  case (Cons x l)
  obtain k a b where x: "x = (k, a, b)" by (cases x)
  show ?case
    using Cons.IH [of "u @ k @ a" "out @ k @ b"] by (simp add: x add.assoc)
qed simp

text \<open>The edits of a layout, listed in an order that sorting by start restores, are spliced as it says.\<close>

lemma apply_edits_layout:
  "sort_key fst es = layout_edits 0 l \<Longrightarrow> apply_edits (layout_before l @ t) es = Inr (layout_after l @ t)"
  using apply_loop_layout [of "[]" l t "[]"] by (simp add: apply_edits_def)

lemma apply_edits_single [simp]:
  "apply_edits src [(int s, int e, rep)] = Inr (take s src @ rep @ drop e src)"
  by (simp add: apply_edits_def)

text \<open>An edit lies in the source when its span does.\<close>

definition edit_in :: "bytes \<Rightarrow> edit \<Rightarrow> bool" where
  "edit_in src x = (case x of (s, e, rep) \<Rightarrow> 0 \<le> s \<and> s \<le> e \<and> e \<le> int (length src))"

lemma edit_in_ordered: "edit_in src x \<Longrightarrow> fst x \<le> fst (snd x)"
  by (cases x) (simp add: edit_in_def)

fun edits_apart :: "int \<Rightarrow> edit list \<Rightarrow> bool" where
  "edits_apart pos [] \<longleftrightarrow> True"
| "edits_apart pos ((s, e, rep) # es) \<longleftrightarrow> pos \<le> s \<and> edits_apart e es"

lemma apply_loop_apart:
  "(\<exists>out'. apply_loop src es pos out = Inr out') \<longleftrightarrow> edits_apart pos es"
  by (induction src es pos out rule: apply_loop.induct) (auto simp: not_less)

lemma apply_loop_error: "apply_loop src es pos out = Inl err \<Longrightarrow> err = ValueError"
  by (induction src es pos out rule: apply_loop.induct) (auto split: if_splits)

text \<open>Edits that lie apart in the source are the edits of a layout.\<close>

lemma apart_layout:
  "\<lbrakk>\<forall>x\<in>set es. edit_in src x; edits_apart (int p) es; p \<le> length src\<rbrakk>
   \<Longrightarrow> \<exists>l t. drop p src = layout_before l @ t \<and> es = layout_edits p l"
proof (induction es arbitrary: p)
  case Nil
  have "drop p src = layout_before [] @ drop p src \<and> [] = layout_edits p []" by simp
  then show ?case by blast
next
  case (Cons x es)
  obtain s e rep where x: "x = (s, e, rep)" by (cases x)
  define i j where "i = nat s" and "j = nat e"
  have ij: "s = int i" "e = int j" "i \<le> j" "j \<le> length src" "p \<le> i"
    using Cons.prems by (auto simp: x edit_in_def i_def j_def)
  obtain l t where lt: "drop j src = layout_before l @ t" "es = layout_edits j l"
    using Cons.IH [of j] Cons.prems ij by (auto simp: x)
  let ?k = "take (i - p) (drop p src)" and ?a = "take (j - i) (drop i src)"
  have "drop p src = ?k @ ?a @ drop j src"
    using ij by (metis append_take_drop_id drop_drop le_add_diff_inverse2)
  then have "drop p src = layout_before ((?k, ?a, rep) # l) @ t" by (simp add: lt)
  moreover have "x # es = layout_edits p ((?k, ?a, rep) # l)" using ij by (simp add: x lt)
  ultimately show ?case by blast
qed

text \<open>Nonempty spans that are pairwise apart stay so in the order of their starts.\<close>

definition spans_apart :: "edit \<Rightarrow> edit \<Rightarrow> bool" where
  "spans_apart x y \<longleftrightarrow> fst (snd x) \<le> fst y \<or> fst (snd y) \<le> fst x"

lemma sorted_edits_apart:
  "\<lbrakk>sorted (map fst es); distinct es; pairwise spans_apart (set es);
    \<forall>x\<in>set es. pos \<le> fst x \<and> fst x < fst (snd x)\<rbrakk> \<Longrightarrow> edits_apart pos es"
proof (induction es arbitrary: pos)
  case (Cons x es)
  obtain s e rep where x: "x = (s, e, rep)" by (cases x)
  have "e \<le> fst y" if y: "y \<in> set es" for y
  proof -
    have "x \<noteq> y" using Cons.prems(2) y by auto
    then have "spans_apart x y" using Cons.prems(3) y by (auto simp: pairwise_def)
    moreover have "s \<le> fst y" "fst y < fst (snd y)" using Cons.prems y by (auto simp: x)
    ultimately have "spans_apart x y" "s \<le> fst y" "fst y < fst (snd y)" by blast+
    then show ?thesis by (auto simp: x spans_apart_def)
  qed
  then show ?case using Cons by (auto simp: x pairwise_insert)
qed simp

lemma sort_edits_apart:
  assumes "distinct es" "pairwise spans_apart (set es)" "\<forall>x\<in>set es. 0 \<le> fst x \<and> fst x < fst (snd x)"
  shows "edits_apart 0 (sort_key fst es)"
  using assms by (intro sorted_edits_apart) simp_all

text \<open>
  What \<open>apply_edits\<close> does with edits inside the source: it splices them exactly when, sorted by
  start, no edit begins before the previous one ends, and raises a \<open>ValueError\<close> otherwise.
\<close>

lemma apply_edits_cases:
  assumes "\<forall>x\<in>set es. edit_in src x"
  shows "if edits_apart 0 (sort_key fst es)
         then \<exists>l t. src = layout_before l @ t \<and> sort_key fst es = layout_edits 0 l
                    \<and> apply_edits src es = Inr (layout_after l @ t)
         else apply_edits src es = Inl ValueError"
proof (cases "edits_apart 0 (sort_key fst es)")
  case True
  then obtain l t where "src = layout_before l @ t" "sort_key fst es = layout_edits 0 l"
    using apart_layout [of "sort_key fst es" src 0] assms by auto
  then show ?thesis using True apply_edits_layout by auto
next
  case False
  then show ?thesis
    using apply_loop_apart [of src "sort_key fst es" 0 "[]"] apply_loop_error
    by (cases "apply_edits src es") (auto simp: apply_edits_def)
qed

end
