(* ===== verification/Src_Mutate.thy ===== *)
theory Src_Mutate
  imports Src_Edits Complex_Main
begin

text \<open>
  The mutation engine \<open>tools/src_mutate.py\<close>: the syntax tree as the passes read it, twelve of
  the passes, and \<open>Mutator.step_result\<close>, which draws passes by weight until one changes the
  source.  The parser is tree-sitter's, so a tree is an argument of the definitions.  The random
  generator is the sequence of the numbers it is going to draw: \<open>randrange(n)\<close> is the next number
  modulo \<open>n\<close> and \<open>random()\<close> the next 53-bit fraction, so that every run of the program is the run
  of some sequence; a sequence that is too short is reported as \<^const>\<open>OutOfFuel\<close>.
\<close>

section \<open>Random choices\<close>

type_synonym 'a rand = "nat list \<Rightarrow> ('a \<times> nat list) res"

definition rret :: "'a \<Rightarrow> 'a rand" where
  "rret x ds = Inr (x, ds)"

definition rbind :: "'a rand \<Rightarrow> ('a \<Rightarrow> 'b rand) \<Rightarrow> 'b rand" where
  "rbind m f ds = ebind (m ds) (\<lambda>(x, ds'). f x ds')"

definition draw :: "nat rand" where
  "draw ds = (case ds of [] \<Rightarrow> Inl OutOfFuel | d # ds' \<Rightarrow> Inr (d, ds'))"

definition randrange :: "nat \<Rightarrow> nat rand" where
  "randrange n ds = (if n = 0 then Inl ValueError else rbind draw (\<lambda>d. rret (d mod n)) ds)"

definition rng_random :: "rat rand" where
  "rng_random = rbind draw (\<lambda>d. rret (of_nat (d mod 2 ^ 53) / 2 ^ 53))"

definition rng_choice :: "'a list \<Rightarrow> 'a rand" where
  "rng_choice xs ds =
     (if xs = [] then Inl IndexError else rbind (randrange (length xs)) (\<lambda>i. rret (xs ! i)) ds)"

section \<open>Syntax trees\<close>

text \<open>
  A node of the tree: its type, its span, and its children, each with the name of its field, if
  it has one, and whether it is a named child.  The text of a node is the span of the source.
\<close>

datatype node = Node (ntype: string) (start_byte: nat) (end_byte: nat)
                     (children: "(string option \<times> bool \<times> node) list")

definition node_text :: "bytes \<Rightarrow> node \<Rightarrow> bytes" where
  "node_text src n = take (end_byte n - start_byte n) (drop (start_byte n) src)"

definition named_children :: "node \<Rightarrow> node list" where
  "named_children n = map (snd \<circ> snd) (filter (fst \<circ> snd) (children n))"

definition node_field :: "node \<Rightarrow> string \<Rightarrow> node option" where
  "node_field n name = map_option (snd \<circ> snd) (find (\<lambda>c. fst c = Some name) (children n))"

definition only_named :: "node \<Rightarrow> node option" where
  "only_named n = (case named_children n of [] \<Rightarrow> None | c # _ \<Rightarrow> Some c)"

text \<open>\<open>iter_subtree\<close>: the top of the stack is the head of the list.\<close>

lemma size_named_children: "sum_list (map size (named_children n)) < size n"
proof (cases n)
  case (Node t s e cs)
  have "sum_list (map size (map (snd \<circ> snd) (filter (fst \<circ> snd) cs))) \<le> size_list (size_prod (\<lambda>_. 0) (size_prod (\<lambda>_. 0) size)) cs"
    by (induction cs) (auto simp: size_prod_def)
  then show ?thesis by (simp add: Node named_children_def)
qed

function iter_loop :: "node list \<Rightarrow> node list" where
  "iter_loop [] = []"
| "iter_loop (n # stack) = n # iter_loop (rev (named_children n) @ stack)"
  by pat_completeness auto
termination
  by (relation "measure (\<lambda>st. sum_list (map size st))")
    (simp_all add: size_named_children rev_map [symmetric] sum_list_rev)

definition iter_subtree :: "node \<Rightarrow> node list" where
  "iter_subtree n = iter_loop [n]"

lemma find_SomeD: "find P xs = Some x \<Longrightarrow> x \<in> set xs \<and> P x"
  by (induction xs) (auto split: if_splits)

lemma size_field: "node_field n name = Some c \<Longrightarrow> size c < size n"
proof (cases n)
  case (Node t s e cs)
  assume "node_field n name = Some c"
  then obtain ch where ch: "ch \<in> set cs" "c = snd (snd ch)"
    by (auto simp: Node node_field_def dest: find_SomeD)
  have "size c \<le> size_list (size_prod (\<lambda>_. 0) (size_prod (\<lambda>_. 0) size)) cs"
    using ch by (intro order_trans [OF _ size_list_estimation' [OF ch(1) order_refl]])
      (simp add: size_prod_def split: prod.split)
  then show ?thesis by (simp add: Node)
qed

text \<open>The loop \<open>decl = field(decl, "declarator")\<close> of \<open>fn_name_of\<close> and \<open>function_declarator_of\<close>.\<close>

function declarator_loop :: "string \<Rightarrow> node option \<Rightarrow> node option" where
  "declarator_loop typ None = None"
| "declarator_loop typ (Some decl) =
     (if ntype decl = typ then Some decl
      else declarator_loop typ (node_field decl ''declarator''))"
  by pat_completeness auto
termination
  by (relation "measure (\<lambda>(typ, d). case d of None \<Rightarrow> 0 | Some n \<Rightarrow> Suc (size n))")
    (auto dest: size_field split: option.split)

definition fn_name_of :: "bytes \<Rightarrow> node \<Rightarrow> bytes option" where
  "fn_name_of src n =
     map_option (node_text src) (declarator_loop ''identifier'' (node_field n ''declarator''))"

definition function_declarator_of :: "node \<Rightarrow> node option" where
  "function_declarator_of n = declarator_loop ''function_declarator'' (node_field n ''declarator'')"

definition find_function :: "bytes \<Rightarrow> node \<Rightarrow> string \<Rightarrow> node option" where
  "find_function src tree name =
     find (\<lambda>n. ntype n = ''function_definition'' \<and> fn_name_of src n = Some name) (iter_subtree tree)"

definition prefix_split :: "bytes \<Rightarrow> node \<Rightarrow> nat" where
  "prefix_split src tree =
     (case find (\<lambda>ch. \<not> (py_startswith (ntype ch) ''preproc_'' \<or> ntype ch = ''comment''))
             (named_children tree) of
        Some ch \<Rightarrow> start_byte ch
      | None \<Rightarrow> length src)"

definition body_of :: "node \<Rightarrow> node option" where
  "body_of fn = node_field fn ''body''"

definition STMT_TYPES :: "string list" where
  "STMT_TYPES =
     [''expression_statement'', ''if_statement'', ''for_statement'', ''while_statement'',
      ''do_statement'', ''switch_statement'', ''return_statement'', ''compound_statement'',
      ''break_statement'', ''continue_statement'', ''labeled_statement'', ''goto_statement'']"

text \<open>A function without a body makes \<open>body.named_children\<close> fail.\<close>

definition declarations :: "node option \<Rightarrow> node list res" where
  "declarations body =
     (case body of None \<Rightarrow> Inl AttributeError
      | Some b \<Rightarrow> Inr (filter (\<lambda>c. ntype c = ''declaration'') (named_children b)))"

definition statements :: "node option \<Rightarrow> node list res" where
  "statements body =
     (case body of None \<Rightarrow> Inl AttributeError
      | Some b \<Rightarrow> Inr (filter (\<lambda>c. ntype c \<in> set STMT_TYPES) (named_children b)))"

definition span_edit :: "node \<Rightarrow> bytes \<Rightarrow> edit" where
  "span_edit n rep = (int (start_byte n), int (end_byte n), rep)"

definition swap_spans :: "bytes \<Rightarrow> node \<Rightarrow> node \<Rightarrow> edit list" where
  "swap_spans src a b = [span_edit a (node_text src b), span_edit b (node_text src a)]"

section \<open>Passes\<close>

text \<open>
  A pass reads the source, the tree, the function and the expression types that clang found, and
  returns edits, \<open>None\<close>, or an exception, which \<open>step_result\<close> treats as \<open>None\<close>.
\<close>

record ctx =
  ctx_src :: bytes
  ctx_root :: node
  ctx_fn :: node
  ctx_types :: "((nat \<times> nat) \<times> string) list option"

type_synonym pass = "ctx \<Rightarrow> edit list option rand"

definition rlift :: "'a res \<Rightarrow> 'a rand" where
  "rlift r ds = ebind r (\<lambda>x. Inr (x, ds))"

fun redraw :: "nat \<Rightarrow> nat \<Rightarrow> nat rand" where
  "redraw n i [] = Inl OutOfFuel"
| "redraw n i (d # ds) = (if d mod n = i then redraw n i ds else Inr (d mod n, ds))"

definition pick_pair :: "nat \<Rightarrow> rat \<Rightarrow> (nat \<times> nat) rand" where
  "pick_pair n adjacent_prob =
     rbind (randrange n) (\<lambda>i.
       let near = rret (i, if i + 1 < n then i + 1 else i - 1)
       in if n > 2
          then rbind rng_random (\<lambda>x. if x \<ge> adjacent_prob
                 then rbind (redraw n i) (\<lambda>j. rret (i, j)) else near)
          else near)"

definition swap_two :: "ctx \<Rightarrow> node list \<Rightarrow> rat \<Rightarrow> edit list option rand" where
  "swap_two ctx ns adjacent_prob =
     (if length ns < 2 then rret None
      else rbind (pick_pair (length ns) adjacent_prob) (\<lambda>(i, j).
             rret (if i = j then None else Some (swap_spans (ctx_src ctx) (ns ! i) (ns ! j)))))"

definition p_reorder_decls :: pass where
  "p_reorder_decls ctx =
     rbind (rlift (declarations (body_of (ctx_fn ctx)))) (\<lambda>decls. swap_two ctx decls (2 / 5))"

definition p_reorder_stmts :: pass where
  "p_reorder_stmts ctx =
     rbind (rlift (statements (body_of (ctx_fn ctx)))) (\<lambda>stmts. swap_two ctx stmts (17 / 20))"

definition COMM_OPS :: "bytes list" where
  "COMM_OPS = [''+'', ''*'', ''&'', ''|'', ''^'', ''=='', ''!='']"

definition REL_FLIP :: "(bytes \<times> bytes) list" where
  "REL_FLIP = [(''<'', ''>''), (''>'', ''<''), (''<='', ''>=''), (''>='', ''<='')]"

definition COMPARE_OPS :: "bytes list" where
  "COMPARE_OPS = COMM_OPS @ map fst REL_FLIP @ [''&&'', ''||'']"

definition AUG_OPS :: "bytes list" where
  "AUG_OPS = [''+'', ''-'', ''*'', ''/'', ''%'', ''&'', ''|'', ''^'', ''<<'', ''>>'']"

definition binary_ops :: "ctx \<Rightarrow> bytes list \<Rightarrow> (node \<times> node) list" where
  "binary_ops ctx ops =
     List.map_filter (\<lambda>n. if ntype n \<noteq> ''binary_expression'' then None
       else case node_field n ''operator'' of
              None \<Rightarrow> None
            | Some op \<Rightarrow> if node_text (ctx_src ctx) op \<in> set ops then Some (n, op) else None)
       (iter_subtree (ctx_fn ctx))"

definition p_commutative :: pass where
  "p_commutative ctx =
     (let src = ctx_src ctx; cands = binary_ops ctx (COMM_OPS @ map fst REL_FLIP)
      in if cands = [] then rret None
         else rbind (rng_choice cands) (\<lambda>(n, op). rret
           (case (node_field n ''left'', node_field n ''right'') of
              (Some l, Some r) \<Rightarrow>
                Some (swap_spans src l r @
                      (case map_of REL_FLIP (node_text src op) of
                         Some f \<Rightarrow> [span_edit op f] | None \<Rightarrow> []))
            | _ \<Rightarrow> None)))"

definition p_add_sub :: pass where
  "p_add_sub ctx =
     (let src = ctx_src ctx; cands = binary_ops ctx [''-'']
      in if cands = [] then rret None
         else rbind (rng_choice cands) (\<lambda>(n, op). rret
           (case node_field n ''right'' of
              None \<Rightarrow> None
            | Some r \<Rightarrow> Some [span_edit op ''+'', span_edit r (''-('' @ node_text src r @ '')'')])))"

text \<open>The two kinds of rewriting of an assignment, and the edit of each.\<close>

datatype assign_site = Contract node node node node | Expand node node node node

definition assign_sites :: "bytes \<Rightarrow> node \<Rightarrow> assign_site option" where
  "assign_sites src n =
     (if ntype n \<noteq> ''assignment_expression'' then None
      else case (node_field n ''operator'', node_field n ''left'', node_field n ''right'') of
        (Some op, Some l, Some r) \<Rightarrow>
          if node_text src op = ''='' \<and> ntype r = ''binary_expression''
          then (case (node_field r ''operator'', node_field r ''left'', node_field r ''right'') of
                  (Some rop, Some rl, Some rr) \<Rightarrow>
                    if node_text src rop \<in> set AUG_OPS \<and> node_text src rl = node_text src l
                    then Some (Contract n l rop rr) else None
                | _ \<Rightarrow> None)
          else if node_text src op \<in> set (map (\<lambda>o'. o' @ ''='') AUG_OPS) then Some (Expand n l op r)
          else None
      | _ \<Rightarrow> None)"

definition is_contract :: "assign_site \<Rightarrow> bool" where
  "is_contract c = (case c of Contract _ _ _ _ \<Rightarrow> True | Expand _ _ _ _ \<Rightarrow> False)"

definition assign_edit :: "bytes \<Rightarrow> assign_site \<Rightarrow> edit" where
  "assign_edit src c =
     (case c of
        Contract n l rop rr \<Rightarrow>
          span_edit n (node_text src l @ '' '' @ node_text src rop @ ''= '' @ node_text src rr)
      | Expand n l op r \<Rightarrow>
          span_edit n (node_text src l @ '' = '' @ node_text src l @ '' ''
                       @ butlast (node_text src op) @ '' '' @ node_text src r))"

definition p_compound_assignment :: pass where
  "p_compound_assignment ctx =
     (let src = ctx_src ctx;
          sites = List.map_filter (assign_sites src) (iter_subtree (ctx_fn ctx));
          choices = filter is_contract sites @ filter (Not \<circ> is_contract) sites
      in if choices = [] then rret None
         else rbind (rng_choice choices) (\<lambda>c. rret (Some [assign_edit src c])))"

definition simple_assignment_stmt :: "bytes \<Rightarrow> node \<Rightarrow> (node \<times> node) option" where
  "simple_assignment_stmt src stmt =
     (if ntype stmt \<noteq> ''expression_statement'' then None
      else case only_named stmt of
        None \<Rightarrow> None
      | Some expr \<Rightarrow>
          if ntype expr \<noteq> ''assignment_expression'' then None
          else case (node_field expr ''operator'', node_field expr ''left'', node_field expr ''right'') of
            (Some op, Some lhs, Some rhs) \<Rightarrow>
              if node_text src op = ''='' then Some (lhs, rhs) else None
          | _ \<Rightarrow> None)"

function rhs_fold_ok :: "node \<Rightarrow> bool" where
  "rhs_fold_ok rhs =
     (if ntype rhs \<in> {''identifier'', ''number_literal'', ''true'', ''false'', ''null'', ''field_expression''}
      then True
      else if ntype rhs = ''cast_expression''
      then (case node_field rhs ''value'' of None \<Rightarrow> False | Some v \<Rightarrow> rhs_fold_ok v)
      else False)"
  by pat_completeness auto
termination
  by (relation "measure size") (auto dest: size_field)

declare rhs_fold_ok.simps [simp del]

definition lhs_fold_ok :: "node \<Rightarrow> bool" where
  "lhs_fold_ok lhs =
     (ntype lhs \<in> {''identifier'', ''field_expression''} \<and>
      \<not> (\<exists>n\<in>set (iter_subtree lhs).
            ntype n \<in> {''call_expression'', ''update_expression'', ''assignment_expression''}))"

text \<open>The scan of one compound statement: \<open>prior\<close> are the foldable assignments seen so far.\<close>

fun fold_sites :: "bytes \<Rightarrow> node list \<Rightarrow> (node \<times> node) list \<Rightarrow> (node \<times> node \<times> node) list" where
  "fold_sites src [] prior = []"
| "fold_sites src (c # cs) prior =
     (case simple_assignment_stmt src c of
        None \<Rightarrow> fold_sites src cs prior
      | Some (lhs, rhs) \<Rightarrow>
          if \<not> lhs_fold_ok lhs \<or> \<not> rhs_fold_ok rhs then fold_sites src cs prior
          else map (\<lambda>(pl, pr). (rhs, pl, pr))
                 (filter (\<lambda>(pl, pr). node_text src pr = node_text src rhs
                                     \<and> node_text src pl \<noteq> node_text src lhs) prior)
               @ fold_sites src cs (prior @ [(lhs, rhs)]))"

definition p_fold_duplicate_assignment :: pass where
  "p_fold_duplicate_assignment ctx =
     (let src = ctx_src ctx;
          cands = concat (map (\<lambda>comp. fold_sites src (named_children comp) [])
                    (filter (\<lambda>n. ntype n = ''compound_statement'') (iter_subtree (ctx_fn ctx))))
      in if cands = [] then rret None
         else rbind (rng_choice cands) (\<lambda>(rhs, pl, pr). rret
           (Some [span_edit rhs (''('' @ node_text src pl @ '' = '' @ node_text src pr @ '')'')])))"

definition or_else :: "'a option \<Rightarrow> 'a option \<Rightarrow> 'a option" where
  "or_else a b = (case a of None \<Rightarrow> b | Some x \<Rightarrow> Some x)"

text \<open>The sites of \<open>p_struct_ref\<close>: an arrow access, or a dot on a dereferenced pointer.\<close>

datatype ref_site = Arrow node node node | Deref node node node

definition struct_site :: "bytes \<Rightarrow> node \<Rightarrow> ref_site option" where
  "struct_site src n =
     (if ntype n \<noteq> ''field_expression'' then None
      else case (node_field n ''operator'', node_field n ''argument'', node_field n ''field'') of
        (Some op, Some arg, Some fld) \<Rightarrow>
          if node_text src op = ''->'' then Some (Arrow n arg fld)
          else if node_text src op = ''.'' \<and> ntype arg = ''parenthesized_expression''
          then (case only_named arg of
                  None \<Rightarrow> None
                | Some inner \<Rightarrow>
                    if ntype inner = ''pointer_expression''
                    then map_option (\<lambda>ptr. Deref n ptr fld)
                           (or_else (node_field inner ''argument'') (only_named inner))
                    else None)
          else None
      | _ \<Rightarrow> None)"

definition is_arrow :: "ref_site \<Rightarrow> bool" where
  "is_arrow c = (case c of Arrow _ _ _ \<Rightarrow> True | Deref _ _ _ \<Rightarrow> False)"

definition struct_edit :: "bytes \<Rightarrow> ref_site \<Rightarrow> edit" where
  "struct_edit src c =
     (case c of
        Arrow n a fld \<Rightarrow> span_edit n (''(*('' @ node_text src a @ '')).'' @ node_text src fld)
      | Deref n a fld \<Rightarrow> span_edit n (node_text src a @ ''->'' @ node_text src fld))"

definition p_struct_ref :: pass where
  "p_struct_ref ctx =
     (let src = ctx_src ctx;
          sites = List.map_filter (struct_site src) (iter_subtree (ctx_fn ctx));
          choices = filter is_arrow sites @ filter (Not \<circ> is_arrow) sites
      in if choices = [] then rret None
         else rbind (rng_choice choices) (\<lambda>c. rret (Some [struct_edit src c])))"

definition paren_arg :: "bytes \<Rightarrow> node \<Rightarrow> bytes" where
  "paren_arg src arg =
     (if ntype arg \<in> {''identifier'', ''parenthesized_expression'', ''call_expression'', ''field_expression''}
      then node_text src arg else ''('' @ node_text src arg @ '')'')"

text \<open>The sites of \<open>p_condition\<close>, in the order in which the choices are listed.\<close>

datatype cond_site = Wrap node | Unwrap node node | Neg node node | Unneg node node

definition zero_right :: "bytes \<Rightarrow> node \<Rightarrow> bool" where
  "zero_right src inner =
     (case node_field inner ''right'' of None \<Rightarrow> False | Some r \<Rightarrow> node_text src r = ''0'')"

definition cond_inner :: "bytes \<Rightarrow> node \<Rightarrow> cond_site option" where
  "cond_inner src inner =
     (if ntype inner = ''binary_expression''
      then (case node_field inner ''operator'' of
              None \<Rightarrow> Some (Wrap inner)
            | Some op \<Rightarrow>
                if node_text src op = ''!='' \<and> zero_right src inner
                then map_option (Unwrap inner) (node_field inner ''left'')
                else if node_text src op = ''=='' \<and> zero_right src inner
                then map_option (Neg inner) (node_field inner ''left'')
                else if node_text src op \<in> set COMPARE_OPS then None
                else Some (Wrap inner))
      else if ntype inner = ''unary_expression''
      then (case (node_field inner ''operator'', or_else (node_field inner ''argument'') (only_named inner)) of
              (Some op, Some arg) \<Rightarrow>
                if node_text src op = ''!'' then Some (Unneg inner arg) else Some (Wrap inner)
            | _ \<Rightarrow> Some (Wrap inner))
      else Some (Wrap inner))"

definition cond_site_of :: "bytes \<Rightarrow> node \<Rightarrow> cond_site option" where
  "cond_site_of src n =
     (if ntype n \<notin> {''if_statement'', ''while_statement'', ''do_statement''} then None
      else case node_field n ''condition'' of
        None \<Rightarrow> None
      | Some cond \<Rightarrow>
          if ntype cond \<noteq> ''parenthesized_expression'' then None
          else case only_named cond of None \<Rightarrow> None | Some inner \<Rightarrow> cond_inner src inner)"

definition cond_rank :: "cond_site \<Rightarrow> nat" where
  "cond_rank c = (case c of Wrap _ \<Rightarrow> 0 | Unwrap _ _ \<Rightarrow> 1 | Neg _ _ \<Rightarrow> 2 | Unneg _ _ \<Rightarrow> 3)"

definition cond_edit :: "bytes \<Rightarrow> cond_site \<Rightarrow> edit" where
  "cond_edit src c =
     (case c of
        Wrap inner \<Rightarrow> span_edit inner (node_text src inner @ '' != 0'')
      | Unwrap inner e \<Rightarrow> span_edit inner (node_text src e)
      | Neg inner e \<Rightarrow> span_edit inner (''!'' @ paren_arg src e)
      | Unneg inner e \<Rightarrow> span_edit inner (node_text src e @ '' == 0''))"

definition p_condition :: pass where
  "p_condition ctx =
     (let src = ctx_src ctx;
          sites = List.map_filter (cond_site_of src) (iter_subtree (ctx_fn ctx));
          choices = concat (map (\<lambda>k. filter (\<lambda>c. cond_rank c = k) sites) [0, 1, 2, 3])
      in if choices = [] then rret None
         else rbind (rng_choice choices) (\<lambda>c. rret (Some [cond_edit src c])))"

definition bool_literals :: "(bytes \<times> bytes) list" where
  "bool_literals = [(''0'', ''false''), (''1'', ''true''), (''false'', ''0''), (''true'', ''1'')]"

definition p_bool_return_literal :: pass where
  "p_bool_return_literal ctx =
     (let src = ctx_src ctx;
          cands = List.map_filter (\<lambda>n. if ntype n \<noteq> ''return_statement'' then None
            else case only_named n of
                   None \<Rightarrow> None
                 | Some expr \<Rightarrow> map_option (Pair expr) (map_of bool_literals (node_text src expr)))
            (iter_subtree (ctx_fn ctx))
      in if cands = [] then rret None
         else rbind (rng_choice cands) (\<lambda>(expr, rep). rret (Some [span_edit expr rep])))"

definition p_remove_cast :: pass where
  "p_remove_cast ctx =
     (let src = ctx_src ctx;
          casts = filter (\<lambda>n. ntype n = ''cast_expression'') (iter_subtree (ctx_fn ctx))
      in if casts = [] then rret None
         else rbind (rng_choice casts) (\<lambda>n. rret
           (case node_field n ''value'' of
              None \<Rightarrow> None
            | Some v \<Rightarrow> Some [span_edit n (node_text src v)])))"

section \<open>Lines around a node\<close>

abbreviation newline :: char where
  "newline \<equiv> CHR 0x0A"

text \<open>\<open>rfind(b"\n", 0, hi)\<close> and \<open>find(b"\n", lo)\<close>, with \<open>-1\<close> for no occurrence.\<close>

definition rfind_nl :: "bytes \<Rightarrow> int \<Rightarrow> int" where
  "rfind_nl src hi =
     (let s = py_slice_to src hi
      in int (length s) - 1 - int (length (takeWhile (\<lambda>c. c \<noteq> newline) (rev s))))"

definition find_nl :: "bytes \<Rightarrow> nat \<Rightarrow> int" where
  "find_nl src lo =
     (let s = drop lo src
      in if newline \<in> set s then int (lo + length (takeWhile (\<lambda>c. c \<noteq> newline) s)) else - 1)"

definition line_indent :: "bytes \<Rightarrow> node \<Rightarrow> bytes" where
  "line_indent src n = py_slice src (rfind_nl src (int (start_byte n)) + 1) (int (start_byte n))"

definition line_removal_span :: "bytes \<Rightarrow> node \<Rightarrow> int \<times> int" where
  "line_removal_span src n =
     (rfind_nl src (int (start_byte n)) + 1,
      (let e = find_nl src (end_byte n) in if e < 0 then int (end_byte n) else e + 1))"

definition line_insert_after :: "bytes \<Rightarrow> node \<Rightarrow> int \<times> bytes" where
  "line_insert_after src n =
     (let e = find_nl src (end_byte n)
      in if e < 0 then (int (end_byte n), newline # line_indent src n)
         else (e + 1, line_indent src n))"

definition p_pad_var_decl :: pass where
  "p_pad_var_decl ctx =
     (let src = ctx_src ctx in
      rbind (rlift (declarations (body_of (ctx_fn ctx)))) (\<lambda>decls.
        if decls = [] then rret None
        else rbind (rng_choice decls) (\<lambda>d.
          case node_field d ''type'' of
            None \<Rightarrow> rret None
          | Some typ \<Rightarrow>
              rbind (randrange 1000000) (\<lambda>k. rbind (rng_choice decls) (\<lambda>anchor. rret
                (let pos = int (start_byte anchor)
                 in Some [(pos, pos, node_text src typ @ '' _perm_pad'' @ py_str_nat k @ '';''
                                     @ [newline] @ line_indent src anchor)]))))))"

text \<open>
  The loops over the lines before and after a position.  The first may not end, so it takes fuel;
  the bound \<open>start - 1\<close> is negative on the first line, where \<open>rfind\<close> then counts from the end.
\<close>

fun prev_line_loop :: "nat \<Rightarrow> bytes \<Rightarrow> nat \<Rightarrow> int \<Rightarrow> bytes res" where
  "prev_line_loop 0 src pos e = Inl OutOfFuel"
| "prev_line_loop (Suc k) src pos e =
     (if e < 0 then Inr (bytes_strip (take pos src))
      else let s = rfind_nl src e + 1; line = bytes_strip (py_slice src s e)
           in if line \<noteq> [] then Inr line else prev_line_loop k src pos (rfind_nl src (s - 1)))"

definition prev_nonblank_line :: "nat \<Rightarrow> bytes \<Rightarrow> nat \<Rightarrow> bytes res" where
  "prev_nonblank_line k src pos = prev_line_loop k src pos (rfind_nl src (int pos))"

function next_nonblank_line :: "bytes \<Rightarrow> nat \<Rightarrow> bytes" where
  "next_nonblank_line src cur =
     (if cur < length src
      then let e = (if find_nl src cur < 0 then length src else nat (find_nl src cur));
               line = bytes_strip (take (e - cur) (drop cur src))
           in if line \<noteq> [] then line else next_nonblank_line src (e + 1)
      else [])"
  by pat_completeness auto
termination
  by (relation "measure (\<lambda>(src, cur). length src - cur)")
    (auto simp: find_nl_def Let_def split: if_splits)

declare next_nonblank_line.simps [simp del]

definition pragma_wrapped :: "nat \<Rightarrow> bytes \<Rightarrow> node \<Rightarrow> bool res" where
  "pragma_wrapped k src fn =
     ebind (prev_nonblank_line k src (start_byte fn)) (\<lambda>l. Inr
       (py_startswith l ''#pragma'' \<or> py_startswith (next_nonblank_line src (end_byte fn)) ''#pragma pop''))"

definition helper_prefixes :: "bytes \<Rightarrow> bytes list" where
  "helper_prefixes base = map (\<lambda>suffix. base @ ''_'' @ suffix) [''pi'', ''blk'', ''inline'']"

definition pragma_named :: "bytes \<Rightarrow> bytes \<Rightarrow> node \<Rightarrow> bool" where
  "pragma_named src base n =
     (ntype n = ''function_definition'' \<and>
      (case fn_name_of src n of
         None \<Rightarrow> False
       | Some name \<Rightarrow> name = base
           \<or> (name \<noteq> [] \<and> list_ex (py_startswith name) (helper_prefixes base))))"

fun pragma_filter :: "nat \<Rightarrow> bytes \<Rightarrow> node list \<Rightarrow> node list res" where
  "pragma_filter k src [] = Inr []"
| "pragma_filter k src (n # ns) =
     ebind (pragma_wrapped k src n) (\<lambda>w.
       ebind (pragma_filter k src ns) (\<lambda>out. Inr (if w then out else n # out)))"

definition pragma_targets :: "nat \<Rightarrow> ctx \<Rightarrow> node list res" where
  "pragma_targets k ctx =
     (let src = ctx_src ctx in
      case fn_name_of src (ctx_fn ctx) of
        None \<Rightarrow> Inr []
      | Some base \<Rightarrow>
          if base = [] then Inr []
          else pragma_filter k src (filter (pragma_named src base) (iter_subtree (ctx_root ctx))))"

definition pragma :: "bytes \<Rightarrow> bytes" where
  "pragma p = ''#pragma '' @ p @ [newline]"

definition PRAGMA_WRAPS :: "(bytes \<times> bytes) list" where
  "PRAGMA_WRAPS =
     map (\<lambda>ps. (concat (map pragma (''push'' # ps)), newline # ''#pragma pop''))
       [ [''dont_inline on''], [''dont_inline off''], [''auto_inline on''], [''auto_inline off''],
        [''global_optimizer off''], [''auto_inline off'', ''global_optimizer off''],
        [''inline_depth(0)''], [''inline_depth(1)''], [''inline_depth(2)''], [''inline_depth(3)''],
        [''inline_depth(8)''], [''peephole off''], [''peephole on''], [''optimization_level 0''],
        [''fp_contract on''], [''always_inline on'']]"

definition p_pragma_wrap :: "nat \<Rightarrow> pass" where
  "p_pragma_wrap k ctx =
     rbind (rlift (pragma_targets k ctx)) (\<lambda>targets.
       if targets = [] then rret None
       else rbind (rng_choice targets) (\<lambda>fn. rbind (rng_choice PRAGMA_WRAPS) (\<lambda>(pre, post). rret
         (Some [(int (start_byte fn), int (start_byte fn), pre),
                (int (end_byte fn), int (end_byte fn), post)]))))"

section \<open>The mutator\<close>

record mutation_result =
  mr_source :: bytes
  mr_pass_name :: string
  mr_edits :: "edit list"

record mutator =
  fn_name :: string
  passes :: "(string \<times> pass \<times> rat) list"

definition new_mutator :: "string \<Rightarrow> (string \<times> rat) list \<Rightarrow> (string \<times> pass \<times> rat) list \<Rightarrow> mutator" where
  "new_mutator name weights ps =
     \<lparr>fn_name = name,
      passes = map (\<lambda>(n, f, w). (n, f, case map_of weights n of Some w' \<Rightarrow> w' | None \<Rightarrow> w)) ps\<rparr>"

text \<open>The index of the first pass whose cumulated weight reaches the draw, 0 when there is none.\<close>

fun weight_index :: "rat \<Rightarrow> rat \<Rightarrow> nat \<Rightarrow> rat list \<Rightarrow> nat" where
  "weight_index r acc k [] = 0"
| "weight_index r acc k (w # ws) = (if r \<le> acc + w then k else weight_index r (acc + w) (k + 1) ws)"

definition draw_pass :: "(string \<times> pass \<times> rat) list \<Rightarrow> nat rand" where
  "draw_pass pool =
     rbind rng_random (\<lambda>u.
       let ws = map (snd \<circ> snd) pool in rret (weight_index (sum_list ws * u) 0 0 ws))"

definition try_edits :: "bytes \<Rightarrow> string \<Rightarrow> edit list option \<Rightarrow> mutation_result option" where
  "try_edits src name edits =
     (case edits of
        None \<Rightarrow> None
      | Some es \<Rightarrow>
          if es = [] then None
          else case apply_edits src es of
                 Inl _ \<Rightarrow> None
               | Inr new \<Rightarrow> if new = src then None
                            else Some \<lparr>mr_source = new, mr_pass_name = name, mr_edits = es\<rparr>)"

text \<open>
  A pass that raises is skipped; a pass whose draws run out, or that does not end, is not.  The
  number of rounds is the number of passes, since each round removes one.
\<close>

fun step_loop :: "nat \<Rightarrow> ctx \<Rightarrow> (string \<times> pass \<times> rat) list \<Rightarrow> mutation_result option rand" where
  "step_loop k ctx [] ds = Inr (None, ds)"
| "step_loop 0 ctx (p # ps) ds = Inl OutOfFuel"
| "step_loop (Suc k) ctx (p # ps) ds =
     (case draw_pass (p # ps) ds of
        Inl e \<Rightarrow> Inl e
      | Inr (idx, ds1) \<Rightarrow>
          let (name, f, w) = (p # ps) ! idx;
              rest = take idx (p # ps) @ drop (Suc idx) (p # ps)
          in case f ctx ds1 of
               Inl e \<Rightarrow> if e = OutOfFuel then Inl OutOfFuel else step_loop k ctx rest ds1
             | Inr (edits, ds2) \<Rightarrow>
                 (case try_edits (ctx_src ctx) name edits of
                    Some r \<Rightarrow> Inr (Some r, ds2)
                  | None \<Rightarrow> step_loop k ctx rest ds2))"

definition step_result ::
  "(bytes \<Rightarrow> node) \<Rightarrow> mutator \<Rightarrow> bytes \<Rightarrow> node option \<Rightarrow> node option
   \<Rightarrow> ((nat \<times> nat) \<times> string) list option \<Rightarrow> mutation_result option rand" where
  "step_result parse m src tree fn types =
     (let t = (case tree of Some t \<Rightarrow> t | None \<Rightarrow> parse src);
          f = (case fn of Some f \<Rightarrow> Some f | None \<Rightarrow> find_function src t (fn_name m))
      in case f of
           None \<Rightarrow> rret None
         | Some f \<Rightarrow>
             let pool = filter (\<lambda>(n, p, w). w > 0) (passes m)
             in step_loop (length pool)
                  \<lparr>ctx_src = src, ctx_root = t, ctx_fn = f, ctx_types = types\<rparr> pool)"

end
