(* ===== verification/Permute_Replay.thy ===== *)
theory Permute_Replay
  imports Src_Mutate "HOL-Library.Product_Lexorder"
begin

text \<open>
  The replay recipes of \<open>tools/permute.py\<close>: the rank of a candidate, the steps that lead from the
  base source to a candidate, their form in a JSON file, and the replay that checks every step
  against the hashes recorded for it.  The hash function is an argument, since nothing below depends
  on it.  The text of a JSON document is left to the \<open>json\<close> module: a recipe is the value that is
  written and read back.
\<close>

section \<open>Ranks\<close>

text \<open>
  \<open>ScoreKey\<close> is compared by its four numbers in the order of its fields; \<open>breakdown\<close> takes no part
  in the comparison.
\<close>

datatype score_key =
  ScoreKey (hard: int) (regswap: int) (stack: int) (raw: int) (breakdown: bool)

definition key_tuple :: "score_key \<Rightarrow> int \<times> int \<times> int \<times> int" where
  "key_tuple k = (hard k, regswap k, stack k, raw k)"

instantiation score_key :: preorder
begin

definition less_eq_score_key :: "score_key \<Rightarrow> score_key \<Rightarrow> bool" where
  "less_eq_score_key a b = (key_tuple a \<le> key_tuple b)"

definition less_score_key :: "score_key \<Rightarrow> score_key \<Rightarrow> bool" where
  "less_score_key a b = (key_tuple a < key_tuple b)"

instance
  by standard (auto simp: less_eq_score_key_def less_score_key_def)

end

definition key_eq :: "score_key \<Rightarrow> score_key \<Rightarrow> bool" where
  "key_eq a b = (key_tuple a = key_tuple b)"

lemma key_not_less: "\<not> a < b \<longleftrightarrow> b \<le> (a :: score_key)"
  by (auto simp: less_eq_score_key_def less_score_key_def)

lemma key_not_le: "\<not> a \<le> b \<longleftrightarrow> b < (a :: score_key)"
  by (auto simp: less_eq_score_key_def less_score_key_def)

definition from_raw :: "int \<Rightarrow> score_key" where
  "from_raw r = ScoreKey r 0 0 r False"

definition key_breakdown :: "score_key \<Rightarrow> string" where
  "key_breakdown k = '' [hard='' @ py_str_int (hard k) @ '', reg='' @ py_str_int (regswap k)
                     @ '', stack='' @ py_str_int (stack k) @ '']''"

definition describe_key :: "score_key \<Rightarrow> string" where
  "describe_key k = py_str_int (raw k) @ (if breakdown k then key_breakdown k else [])"

definition describe_mismatches :: "score_key \<Rightarrow> string" where
  "describe_mismatches k =
     (if breakdown k then py_str_int (hard k + regswap k + stack k) @ key_breakdown k
      else py_str_int (raw k))"

section \<open>Replay steps\<close>

record replay_step =
  rs_kind :: string
  rs_mutate_fn :: "string option"
  rs_pass_name :: string
  rs_input_sha256 :: string
  rs_output_sha256 :: string
  rs_edits :: "edit list"
  rs_note :: "string option"

type_synonym replay_trace = "replay_step list"

definition make_replay_step ::
  "(bytes \<Rightarrow> string) \<Rightarrow> string \<Rightarrow> string option \<Rightarrow> string \<Rightarrow> bytes \<Rightarrow> edit list \<Rightarrow> bytes \<Rightarrow> string option
   \<Rightarrow> replay_step" where
  "make_replay_step sha256 kind mutate_fn pass_name before edits after note =
     \<lparr>rs_kind = kind, rs_mutate_fn = mutate_fn, rs_pass_name = pass_name,
      rs_input_sha256 = sha256 before, rs_output_sha256 = sha256 after,
      rs_edits = edits, rs_note = note\<rparr>"

definition replay_one :: "(bytes \<Rightarrow> string) \<Rightarrow> replay_step \<Rightarrow> bytes \<Rightarrow> bytes res" where
  "replay_one sha256 step cur =
     (if sha256 cur \<noteq> rs_input_sha256 step then Inl ReplayError
      else case apply_edits cur (rs_edits step) of
             Inl e \<Rightarrow> Inl (if e = ValueError then ReplayError else e)
           | Inr new \<Rightarrow> if sha256 new \<noteq> rs_output_sha256 step then Inl ReplayError else Inr new)"

definition apply_replay_trace :: "(bytes \<Rightarrow> string) \<Rightarrow> bytes \<Rightarrow> replay_trace \<Rightarrow> bytes res" where
  "apply_replay_trace sha256 base_source trace = efold (replay_one sha256) trace base_source"

lemma apply_replay_trace_Nil [simp]: "apply_replay_trace sha256 src [] = Inr src"
  by (simp add: apply_replay_trace_def)

text \<open>A replay fails with a \<open>ReplayError\<close> or not at all.\<close>

lemma apply_edits_error: "apply_edits src es = Inl e \<Longrightarrow> e = ValueError"
  by (auto simp: apply_edits_def dest: apply_loop_error)

lemma apply_replay_trace_error:
  "apply_replay_trace sha256 src trace = Inl e \<Longrightarrow> e = ReplayError"
  unfolding apply_replay_trace_def
  by (induction trace arbitrary: src)
    (auto simp: ebind_eq_Inl_iff replay_one_def dest: apply_edits_error split: if_splits sum.splits)

lemma efold_append: "efold f (xs @ ys) s = ebind (efold f xs s) (efold f ys)"
  by (induction xs arbitrary: s) (auto simp: ebind_def split: sum.split)

text \<open>Extending a trace by a recorded step extends what it replays to.\<close>

lemma replay_snoc:
  assumes "apply_replay_trace sha256 base trace = Inr before"
    and "apply_edits before edits = Inr after"
  shows "apply_replay_trace sha256 base
           (trace @ [make_replay_step sha256 kind mfn pass_name before edits after note]) = Inr after"
  using assms by (simp add: apply_replay_trace_def efold_append replay_one_def make_replay_step_def)

section \<open>Recipes as JSON values\<close>

datatype json = JNull | JBool bool | JInt int | JStr string | JList "json list" | JObj "(string \<times> json) list"

definition json_get :: "json \<Rightarrow> string \<Rightarrow> json option res" where
  "json_get d k = (case d of JObj kvs \<Rightarrow> Inr (map_of kvs k) | _ \<Rightarrow> Inl AttributeError)"

definition json_item :: "json \<Rightarrow> string \<Rightarrow> json res" where
  "json_item d k =
     (case d of
        JObj kvs \<Rightarrow> (case map_of kvs k of Some v \<Rightarrow> Inr v | None \<Rightarrow> Inl KeyError)
      | _ \<Rightarrow> Inl TypeError)"

definition json_iter :: "json \<Rightarrow> json list res" where
  "json_iter d =
     (case d of
        JList xs \<Rightarrow> Inr xs
      | JStr s \<Rightarrow> Inr (map (\<lambda>c. JStr [c]) s)
      | JObj kvs \<Rightarrow> Inr (map (JStr \<circ> fst) kvs)
      | _ \<Rightarrow> Inl TypeError)"

definition json_int :: "json \<Rightarrow> int res" where
  "json_int d =
     (case d of JInt i \<Rightarrow> Inr i | JBool b \<Rightarrow> Inr (if b then 1 else 0) | JStr s \<Rightarrow> py_int10 s | _ \<Rightarrow> Inl TypeError)"

text \<open>\<open>str(value)\<close>; the text of a list or a dictionary is an argument.\<close>

definition json_str :: "(json \<Rightarrow> string) \<Rightarrow> json \<Rightarrow> string" where
  "json_str repr d =
     (case d of
        JStr s \<Rightarrow> s | JInt i \<Rightarrow> py_str_int i | JNull \<Rightarrow> ''None''
      | JBool b \<Rightarrow> (if b then ''True'' else ''False'') | _ \<Rightarrow> repr d)"

definition json_opt_str :: "string option \<Rightarrow> json" where
  "json_opt_str s = (case s of None \<Rightarrow> JNull | Some t \<Rightarrow> JStr t)"

subsection \<open>Base 64\<close>

definition b64_char :: "nat \<Rightarrow> char" where
  "b64_char n = char_of
     (if n < 26 then 65 + n else if n < 52 then 71 + n else if n < 62 then n - 4
      else if n = 62 then 43 else 47)"

definition b64_val :: "char \<Rightarrow> nat option" where
  "b64_val c =
     (let n = ccode c in
      if 65 \<le> n \<and> n \<le> 90 then Some (n - 65) else if 97 \<le> n \<and> n \<le> 122 then Some (n - 71)
      else if 48 \<le> n \<and> n \<le> 57 then Some (n + 4) else if n = 43 then Some 62
      else if n = 47 then Some 63 else None)"

fun b64encode :: "bytes \<Rightarrow> string" where
  "b64encode [] = []"
| "b64encode [a] = [b64_char (ccode a div 4), b64_char (ccode a mod 4 * 16), CHR ''='', CHR ''='']"
| "b64encode [a, b] =
     [b64_char (ccode a div 4), b64_char (ccode a mod 4 * 16 + ccode b div 16),
      b64_char (ccode b mod 16 * 4), CHR ''='']"
| "b64encode (a # b # c # r) =
     [b64_char (ccode a div 4), b64_char (ccode a mod 4 * 16 + ccode b div 16),
      b64_char (ccode b mod 16 * 4 + ccode c div 64), b64_char (ccode c mod 64)] @ b64encode r"

text \<open>
  The lenient decoder: bytes outside the alphabet are skipped, padding that completes a group ends
  the data, and data that ends inside a group is an error.  \<open>q\<close> counts the characters of the
  group, \<open>left\<close> holds the bits not yet written.
\<close>

fun b64_loop :: "nat \<Rightarrow> nat \<Rightarrow> nat \<Rightarrow> string \<Rightarrow> bytes \<Rightarrow> bytes res" where
  "b64_loop q left pads [] out = (if q = 0 then Inr out else Inl ValueError)"
| "b64_loop q left pads (ch # s) out =
     (if ch = CHR ''=''
      then if q \<ge> 2 then if q + pads + 1 \<ge> 4 then Inr out else b64_loop q left (pads + 1) s out
           else b64_loop q left pads s out
      else case b64_val ch of
             None \<Rightarrow> b64_loop q left pads s out
           | Some v \<Rightarrow>
               if q = 0 then b64_loop 1 v 0 s out
               else if q = 1 then b64_loop 2 (v mod 16) 0 s (out @ [char_of (left * 4 + v div 16)])
               else if q = 2 then b64_loop 3 (v mod 4) 0 s (out @ [char_of (left * 16 + v div 4)])
               else b64_loop 0 0 0 s (out @ [char_of (left * 64 + v)]))"

definition b64decode :: "json \<Rightarrow> bytes res" where
  "b64decode d = (case d of JStr s \<Rightarrow> b64_loop 0 0 0 s [] | _ \<Rightarrow> Inl TypeError)"

lemma b64_val_char [simp]: "n < 64 \<Longrightarrow> b64_val (b64_char n) = Some n"
  by (auto simp: b64_val_def b64_char_def ccode_def Let_def)

lemma b64_char_pad [simp]: "n < 64 \<Longrightarrow> b64_char n \<noteq> CHR ''=''"
  using b64_val_char [of n] by (auto simp: b64_val_def ccode_def simp del: b64_val_char)

lemma b64_parts:
  assumes "b < (256 :: nat)"
  shows "b div 4 < 64" "b div 16 < 16" "b div 64 < 4" "b div 16 div 16 = 0" "b div 64 div 4 = 0"
    "b div 16 mod 16 = b div 16" "b div 64 mod 4 = b div 64"
  using assms by (simp_all add: less_mult_imp_div_less)

lemma b64_join: "m < 4 \<Longrightarrow> q < 16 \<Longrightarrow> m * 16 + q < (64 :: nat)" "m < 16 \<Longrightarrow> q < 4 \<Longrightarrow> m * 4 + q < (64 :: nat)"
  by simp_all

lemma char_of_ccode [simp]: "char_of (ccode c) = c"
  by (simp add: ccode_def)

lemma b64_loop_encode: "b64_loop 0 0 0 (b64encode bs) out = Inr (out @ bs)"
proof (induction bs arbitrary: out rule: b64encode.induct)
  case (4 a b c r)
  show ?case
    by (simp add: b64_parts b64_join ccode_less 4)
qed (simp_all add: b64_parts b64_join ccode_less)

definition edit_json :: "edit \<Rightarrow> json" where
  "edit_json x =
     (case x of (s, e, rep) \<Rightarrow>
        JObj [(''start'', JInt s), (''end'', JInt e), (''replacement_b64'', JStr (b64encode rep))])"

definition edit_from_json :: "json \<Rightarrow> edit res" where
  "edit_from_json d =
     ebind (json_item d ''start'') (\<lambda>s. ebind (json_int s) (\<lambda>s.
     ebind (json_item d ''end'') (\<lambda>e. ebind (json_int e) (\<lambda>e.
     ebind (json_item d ''replacement_b64'') (\<lambda>r. ebind (b64decode r) (\<lambda>r. Inr (s, e, r)))))))"

definition score_key_json :: "score_key \<Rightarrow> json" where
  "score_key_json k =
     JObj [(''hard'', JInt (hard k)), (''regswap'', JInt (regswap k)), (''stack'', JInt (stack k)),
           (''raw'', JInt (raw k)), (''breakdown'', JBool (breakdown k))]"

definition step_json :: "replay_step \<Rightarrow> json" where
  "step_json st =
     JObj [(''kind'', JStr (rs_kind st)), (''mutate_fn'', json_opt_str (rs_mutate_fn st)),
           (''pass_name'', JStr (rs_pass_name st)), (''input_sha256'', JStr (rs_input_sha256 st)),
           (''output_sha256'', JStr (rs_output_sha256 st)), (''note'', json_opt_str (rs_note st)),
           (''edits'', JList (map edit_json (rs_edits st)))]"

text \<open>
  \<open>data.get("mutate_fn")\<close> and \<open>data.get("note")\<close> are kept as they are; only texts and null are
  values of the record, so another value is kept as its text.
\<close>

definition opt_str_of :: "(json \<Rightarrow> string) \<Rightarrow> json option \<Rightarrow> string option" where
  "opt_str_of repr d = (case d of None \<Rightarrow> None | Some JNull \<Rightarrow> None | Some v \<Rightarrow> Some (json_str repr v))"

definition step_from_json :: "(json \<Rightarrow> string) \<Rightarrow> json \<Rightarrow> replay_step res" where
  "step_from_json repr d =
     ebind (json_get d ''edits'') (\<lambda>es. ebind (json_iter (case es of None \<Rightarrow> JList [] | Some v \<Rightarrow> v)) (\<lambda>es.
     ebind (emap edit_from_json es) (\<lambda>edits.
     ebind (json_item d ''kind'') (\<lambda>kind. ebind (json_get d ''mutate_fn'') (\<lambda>mfn.
     ebind (json_item d ''pass_name'') (\<lambda>pn. ebind (json_item d ''input_sha256'') (\<lambda>isha.
     ebind (json_item d ''output_sha256'') (\<lambda>osha. ebind (json_get d ''note'') (\<lambda>note. Inr
       \<lparr>rs_kind = json_str repr kind, rs_mutate_fn = opt_str_of repr mfn,
        rs_pass_name = json_str repr pn, rs_input_sha256 = json_str repr isha,
        rs_output_sha256 = json_str repr osha, rs_edits = edits, rs_note = opt_str_of repr note\<rparr>)))))))))"

lemma edit_roundtrip [simp]: "edit_from_json (edit_json x) = Inr x"
  by (cases x) (simp add: edit_json_def edit_from_json_def json_item_def json_int_def b64decode_def b64_loop_encode)

lemma emap_edit_roundtrip [simp]: "emap edit_from_json (map edit_json es) = Inr es"
  by (induction es) simp_all

lemma opt_str_roundtrip [simp]: "opt_str_of repr (Some (json_opt_str s)) = s"
  by (cases s) (simp_all add: opt_str_of_def json_opt_str_def json_str_def)

lemma step_roundtrip [simp]: "step_from_json repr (step_json st) = Inr st"
  by (cases st) (simp add: step_from_json_def step_json_def json_get_def json_item_def json_iter_def json_str_def)

lemma emap_step_roundtrip [simp]: "emap (step_from_json repr) (map step_json tr) = Inr tr"
  by (induction tr) simp_all

definition write_replay_recipe ::
  "(bytes \<Rightarrow> string) \<Rightarrow> string \<Rightarrow> string \<Rightarrow> bytes \<Rightarrow> bytes \<Rightarrow> score_key \<Rightarrow> score_key \<Rightarrow> replay_trace \<Rightarrow> json" where
  "write_replay_recipe sha256 unit fn base_source final_source base_key final_key trace =
     JObj [(''version'', JInt 1), (''unit'', JStr unit), (''function'', JStr fn),
           (''base_sha256'', JStr (sha256 base_source)), (''final_sha256'', JStr (sha256 final_source)),
           (''base_score'', score_key_json base_key), (''final_score'', score_key_json final_key),
           (''steps'', JList (map step_json trace))]"

text \<open>The recipe as it is read: the document and its steps.  \<open>True\<close> equals 1 in Python.\<close>

definition read_replay_recipe :: "(json \<Rightarrow> string) \<Rightarrow> json \<Rightarrow> (json \<times> replay_trace) res" where
  "read_replay_recipe repr d =
     ebind (json_get d ''version'') (\<lambda>v.
       if v \<noteq> Some (JInt 1) \<and> v \<noteq> Some (JBool True) then Inl ReplayError
       else ebind (json_get d ''steps'') (\<lambda>st.
            ebind (json_iter (case st of None \<Rightarrow> JList [] | Some v \<Rightarrow> v)) (\<lambda>st.
            ebind (emap (step_from_json repr) st) (\<lambda>trace. Inr (d, trace)))))"

lemma recipe_roundtrip:
  "read_replay_recipe repr (write_replay_recipe sha256 unit fn base final bk fk trace)
     = Inr (write_replay_recipe sha256 unit fn base final bk fk trace, trace)"
  by (simp add: read_replay_recipe_def write_replay_recipe_def json_get_def json_iter_def)

section \<open>Replaying a recipe\<close>

text \<open>What the compiler and the scoring server answer for a source.\<close>

datatype outcome = CompileFailed | Unscorable | ServerGone | Scored score_key

datatype apply_mode = ApplyMatch | ApplyAlways | ApplyNever

definition do_apply :: "apply_mode \<Rightarrow> bool \<Rightarrow> bool" where
  "do_apply mode matched = (mode = ApplyAlways \<or> mode = ApplyMatch \<and> matched)"

text \<open>
  \<open>_score_source_for_report\<close> returns no key when the source does not compile; an exception of the
  scoring server is not caught.
\<close>

definition score_for_report :: "outcome \<Rightarrow> score_key option res" where
  "score_for_report oc =
     (case oc of
        CompileFailed \<Rightarrow> Inr None | Unscorable \<Rightarrow> Inl ScoreError | ServerGone \<Rightarrow> Inl OSError
      | Scored k \<Rightarrow> Inr (Some k))"

text \<open>
  \<open>replay_candidate\<close>: \<open>recipe\<close> is the document read from the file, \<open>source\<close> gives the C file of
  a unit, \<open>score\<close> compiles and scores a source.  The result is the exit code and the bytes that are
  written to the C file, if any.
\<close>

definition replay_candidate ::
  "(bytes \<Rightarrow> string) \<Rightarrow> (json \<Rightarrow> string) \<Rightarrow> (string \<Rightarrow> bytes option) \<Rightarrow> (string \<Rightarrow> string \<Rightarrow> bytes \<Rightarrow> outcome)
   \<Rightarrow> string option \<Rightarrow> apply_mode \<Rightarrow> json \<Rightarrow> (int \<times> bytes option) res" where
  "replay_candidate sha256 repr source score func_name mode recipe =
     (case read_replay_recipe repr recipe of
        Inl e \<Rightarrow> if e = ReplayError then Inr (1, None) else Inl e
      | Inr (d, trace) \<Rightarrow>
          ebind (json_item d ''unit'') (\<lambda>u. ebind (json_item d ''function'') (\<lambda>f.
          let unit = json_str repr u; fn = json_str repr f in
          if func_name \<noteq> None \<and> func_name \<noteq> Some fn then Inr (1, None)
          else case source unit of
            None \<Rightarrow> Inr (1, None)
          | Some base_source \<Rightarrow>
              ebind (json_item d ''base_sha256'') (\<lambda>bsha.
              if bsha \<noteq> JStr (sha256 base_source) then Inr (1, None)
              else case apply_replay_trace sha256 base_source trace of
                Inl e \<Rightarrow> if e = ReplayError then Inr (1, None) else Inl e
              | Inr final_source \<Rightarrow>
                  ebind (json_item d ''final_sha256'') (\<lambda>fsha.
                  if fsha \<noteq> JStr (sha256 final_source) then Inr (1, None)
                  else ebind (score_for_report (score unit fn final_source)) (\<lambda>key.
                    case key of
                      None \<Rightarrow> Inr (1, None)
                    | Some k \<Rightarrow>
                        Inr (0, if do_apply mode (raw k = 0) then Some final_source else None)))))))"

lemma replay_written_recipe:
  assumes "apply_replay_trace sha256 base trace = Inr final" "source unit = Some base"
    and "score unit fn final = Scored k"
  shows "replay_candidate sha256 repr source score None mode
           (write_replay_recipe sha256 unit fn base final bk fk trace)
         = Inr (0, if do_apply mode (raw k = 0) then Some final else None)"
  using assms
  by (simp add: replay_candidate_def recipe_roundtrip)
    (simp add: write_replay_recipe_def json_item_def json_str_def score_for_report_def Let_def)

end
