(* ===== verification/Permute_Narrow.thy ===== *)
theory Permute_Narrow
  imports Permute_Replay "HOL-Library.Sublist"
begin

text \<open>
  The narrowing of \<open>tools/permute.py\<close>: delta debugging of the best candidate against the base
  source.  The line matcher \<open>difflib.SequenceMatcher\<close>, the compiler with the scoring server and
  the search for casts in the syntax tree are arguments.  The scoring server is asked once per
  attempt and may answer differently each time, so its answer is a function of the number of the
  attempt and the source.
\<close>

section \<open>Changed lines\<close>

abbreviation carriage_return :: char where
  "carriage_return \<equiv> CHR 0x0D"

text \<open>\<open>bytes.splitlines(keepends=True)\<close>: lines end at LF, CR or CR LF.\<close>

fun lines_loop :: "bytes \<Rightarrow> bytes \<Rightarrow> bytes list" where
  "lines_loop cur [] = (if cur = [] then [] else [cur])"
| "lines_loop cur [c] = [cur @ [c]]"
| "lines_loop cur (c # d # s) =
     (if c = carriage_return \<and> d = newline then (cur @ [c, d]) # lines_loop [] s
      else if c = carriage_return \<or> c = newline then (cur @ [c]) # lines_loop [] (d # s)
      else lines_loop (cur @ [c]) (d # s))"

definition splitlines :: "bytes \<Rightarrow> bytes list" where
  "splitlines src = lines_loop [] src"

lemma concat_lines_loop: "concat (lines_loop cur src) = cur @ src"
  by (induction cur src rule: lines_loop.induct) auto

lemma concat_splitlines [simp]: "concat (splitlines src) = src"
  by (simp add: splitlines_def concat_lines_loop)

fun line_offsets_from :: "nat \<Rightarrow> bytes list \<Rightarrow> nat list" where
  "line_offsets_from pos [] = [pos]"
| "line_offsets_from pos (l # ls) = pos # line_offsets_from (pos + length l) ls"

definition line_offsets :: "bytes list \<Rightarrow> nat list" where
  "line_offsets ls = line_offsets_from 0 ls"

lemma line_offsets_from_nth:
  "i \<le> length ls \<Longrightarrow> line_offsets_from pos ls ! i = pos + length (concat (take i ls))"
proof (induction ls arbitrary: i pos)
  case (Cons l ls)
  then show ?case by (cases i) simp_all
qed simp

lemma line_offsets_nth: "i \<le> length ls \<Longrightarrow> line_offsets ls ! i = length (concat (take i ls))"
  by (simp add: line_offsets_def line_offsets_from_nth)

datatype tag = Equal | Replace | Delete | Insert

type_synonym opcode = "tag \<times> nat \<times> nat \<times> nat \<times> nat"

record narrow_edit =
  ne_tag :: tag
  base_start :: nat
  base_end :: nat
  cand_start :: nat
  cand_end :: nat
  base_line_start :: nat
  base_line_end :: nat
  cand_line_start :: nat
  cand_line_end :: nat

definition line_span :: "nat \<Rightarrow> nat \<Rightarrow> string" where
  "line_span lo hi = (if lo \<ge> hi then py_str_nat lo else py_str_nat lo @ ''-'' @ py_str_nat hi)"

definition describe_edit :: "narrow_edit \<Rightarrow> string" where
  "describe_edit e =
     (let b = ''base lines '' @ line_span (base_line_start e) (base_line_end e);
          c = ''candidate lines '' @ line_span (cand_line_start e) (cand_line_end e)
      in case ne_tag e of Insert \<Rightarrow> c | Delete \<Rightarrow> b | _ \<Rightarrow> b @ '' -> '' @ c)"

definition add_edit :: "nat list \<Rightarrow> nat list \<Rightarrow> opcode \<Rightarrow> narrow_edit" where
  "add_edit base_offsets cand_offsets x =
     (case x of (tag, i1, i2, j1, j2) \<Rightarrow>
        \<lparr>ne_tag = tag, base_start = base_offsets ! i1, base_end = base_offsets ! i2,
         cand_start = cand_offsets ! j1, cand_end = cand_offsets ! j2,
         base_line_start = i1 + 1, base_line_end = i2,
         cand_line_start = j1 + 1, cand_line_end = j2\<rparr>)"

datatype granularity = Chunk | Line

definition opcode_adds :: "granularity \<Rightarrow> opcode \<Rightarrow> opcode list" where
  "opcode_adds g x =
     (case x of (tag, i1, i2, j1, j2) \<Rightarrow>
        case (tag, g) of
          (Equal, _) \<Rightarrow> []
        | (_, Chunk) \<Rightarrow> [x]
        | (Insert, Line) \<Rightarrow> map (\<lambda>j. (tag, i1, i1, j, j + 1)) [j1..<j2]
        | (Delete, Line) \<Rightarrow> map (\<lambda>i. (tag, i, i + 1, j1, j1)) [i1..<i2]
        | (Replace, Line) \<Rightarrow>
            let common = min (i2 - i1) (j2 - j1)
            in map (\<lambda>k. (tag, i1 + k, i1 + k + 1, j1 + k, j1 + k + 1)) [0..<common]
               @ map (\<lambda>i. (Delete, i, i + 1, j1 + common, j1 + common)) [i1 + common..<i2]
               @ map (\<lambda>j. (Insert, i1 + common, i1 + common, j, j + 1)) [j1 + common..<j2])"

type_synonym matcher = "bytes list \<Rightarrow> bytes list \<Rightarrow> opcode list"

definition changed_line_edits :: "matcher \<Rightarrow> bytes \<Rightarrow> bytes \<Rightarrow> granularity \<Rightarrow> narrow_edit list" where
  "changed_line_edits get_opcodes base cand g =
     (let bl = splitlines base; cl = splitlines cand
      in map (add_edit (line_offsets bl) (line_offsets cl)) (concat (map (opcode_adds g) (get_opcodes bl cl))))"

definition revert_edit :: "bytes \<Rightarrow> bytes \<Rightarrow> narrow_edit \<Rightarrow> bytes" where
  "revert_edit base cand e =
     take (cand_start e) cand @ take (base_end e - base_start e) (drop (base_start e) base)
     @ drop (cand_end e) cand"

text \<open>The edit that is recorded for a revert.\<close>

definition revert_splice :: "bytes \<Rightarrow> narrow_edit \<Rightarrow> edit" where
  "revert_splice base e =
     (int (cand_start e), int (cand_end e), take (base_end e - base_start e) (drop (base_start e) base))"

lemma revert_edit_splice: "apply_edits cand [revert_splice base e] = Inr (revert_edit base cand e)"
  by (simp add: revert_splice_def revert_edit_def)

section \<open>The edits lead back to the base\<close>

text \<open>
  What \<open>get_opcodes\<close> documents: the operations cover both sequences from the start to the end
  without gaps, and an \<open>equal\<close> operation names equal slices.
\<close>

fun opcodes_ok :: "'a list \<Rightarrow> 'a list \<Rightarrow> nat \<Rightarrow> nat \<Rightarrow> opcode list \<Rightarrow> bool" where
  "opcodes_ok a b i j [] \<longleftrightarrow> i = length a \<and> j = length b"
| "opcodes_ok a b i j ((tag, i1, i2, j1, j2) # ops) \<longleftrightarrow>
     i1 = i \<and> j1 = j \<and> i1 \<le> i2 \<and> i2 \<le> length a \<and> j1 \<le> j2 \<and> j2 \<le> length b \<and>
     (case tag of
        Equal \<Rightarrow> take (i2 - i1) (drop i1 a) = take (j2 - j1) (drop j1 b)
      | Insert \<Rightarrow> i1 = i2 | Delete \<Rightarrow> j1 = j2 | Replace \<Rightarrow> True) \<and>
     opcodes_ok a b i2 j2 ops"

text \<open>The additions for one operation lead from its start to its end.\<close>

fun adds_path :: "nat \<Rightarrow> nat \<Rightarrow> opcode list \<Rightarrow> nat \<Rightarrow> nat \<Rightarrow> bool" where
  "adds_path i j [] i' j' \<longleftrightarrow> i' = i \<and> j' = j"
| "adds_path i j ((tag, i1, i2, j1, j2) # xs) i' j' \<longleftrightarrow>
     i1 = i \<and> j1 = j \<and> i \<le> i2 \<and> j \<le> j2 \<and> adds_path i2 j2 xs i' j'"

lemma adds_path_le: "adds_path i j xs i' j' \<Longrightarrow> i \<le> i' \<and> j \<le> j'"
  by (induction i j xs i' j' rule: adds_path.induct) auto

lemma adds_path_append:
  "adds_path i j xs i1 j1 \<Longrightarrow> adds_path i1 j1 ys i2 j2 \<Longrightarrow> adds_path i j (xs @ ys) i2 j2"
  by (induction i j xs i1 j1 rule: adds_path.induct) auto

lemma adds_path_insert: "j \<le> j' \<Longrightarrow> adds_path i j (map (\<lambda>j. (t, i, i, j, j + 1)) [j..<j']) i j'"
  by (induction "j' - j" arbitrary: j) (auto simp: upt_conv_Cons)

lemma adds_path_delete: "i \<le> i' \<Longrightarrow> adds_path i j (map (\<lambda>i. (t, i, i + 1, j, j)) [i..<i']) i' j"
  by (induction "i' - i" arbitrary: i) (auto simp: upt_conv_Cons)

lemma adds_path_both:
  "adds_path i j (map (\<lambda>k. (t, i + k, i + k + 1, j + k, j + k + 1)) [0..<n]) (i + n) (j + n)"
  by (induction n) (auto intro!: adds_path_append)

lemma opcode_adds_path:
  assumes "i1 \<le> i2" "j1 \<le> j2" "tag = Insert \<Longrightarrow> i1 = i2" "tag = Delete \<Longrightarrow> j1 = j2" "tag \<noteq> Equal"
  shows "adds_path i1 j1 (opcode_adds g (tag, i1, i2, j1, j2)) i2 j2"
proof (cases "tag = Replace \<and> g = Line")
  case True
  define c where "c = min (i2 - i1) (j2 - j1)"
  have "adds_path (i1 + c) (j1 + c) (map (\<lambda>i. (Delete, i, i + 1, j1 + c, j1 + c)) [i1 + c..<i2]) i2 (j1 + c)"
    by (rule adds_path_delete) (use assms in \<open>simp add: c_def\<close>)
  moreover have "adds_path i2 (j1 + c) (map (\<lambda>j. (Insert, i1 + c, i1 + c, j, j + 1)) [j1 + c..<j2]) i2 j2"
  proof (cases "i2 = i1 + c")
    case True
    then show ?thesis using adds_path_insert [of "j1 + c" j2 i2] assms by (simp add: c_def)
  next
    case False
    then have "j2 = j1 + c" using assms by (auto simp: c_def min_def split: if_splits)
    then show ?thesis by simp
  qed
  ultimately show ?thesis
    using True adds_path_both [of i1 j1 Replace c]
    by (auto simp: opcode_adds_def Let_def c_def [symmetric] intro!: adds_path_append)
next
  case False
  then show ?thesis
    using assms adds_path_insert [of j1 j2 i1 tag] adds_path_delete [of i1 i2 j1 tag]
    by (cases tag; cases g) (auto simp: opcode_adds_def)
qed

abbreviation offset_of :: "bytes list \<Rightarrow> nat \<Rightarrow> nat" where
  "offset_of ls i \<equiv> length (concat (take i ls))"

lemma concat_take_split: "i \<le> i' \<Longrightarrow> concat (take i' ls) = concat (take i ls) @ concat (take (i' - i) (drop i ls))"
  by (metis append_take_drop_id concat_append le_add_diff_inverse take_add)

lemma offset_of_mono: "i \<le> i' \<Longrightarrow> offset_of ls i \<le> offset_of ls i'"
  by (simp add: concat_take_split [of i i'])

lemma concat_slice:
  assumes "i \<le> i'"
  shows "take (offset_of ls i' - offset_of ls i) (drop (offset_of ls i) (concat ls)) = concat (take (i' - i) (drop i ls))"
proof -
  have "concat ls = concat (take i ls) @ concat (take (i' - i) (drop i ls)) @ concat (drop i' ls)"
    using concat_take_split [OF assms, of ls] by (metis append.assoc append_take_drop_id concat_append)
  then have "drop (offset_of ls i) (concat ls) = concat (take (i' - i) (drop i ls)) @ concat (drop i' ls)"
    by (metis append_eq_conv_conj)
  moreover have "offset_of ls i' - offset_of ls i = length (concat (take (i' - i) (drop i ls)))"
    by (simp add: concat_take_split [OF assms])
  ultimately show ?thesis by (metis append_eq_conv_conj)
qed

text \<open>
  The state of \<open>apply_edits\<close> after the edits up to line \<open>i\<close> of the base and line \<open>j\<close> of the
  candidate: what was written, with the bytes up to that line, is the base up to that line.
\<close>

definition splice_at :: "bytes list \<Rightarrow> bytes list \<Rightarrow> nat \<Rightarrow> nat \<Rightarrow> nat \<Rightarrow> bytes \<Rightarrow> bool" where
  "splice_at bl cl i j pos out \<longleftrightarrow>
     pos \<le> offset_of cl j \<and> out @ take (offset_of cl j - pos) (drop pos (concat cl)) = concat (take i bl)"

abbreviation add_splice :: "bytes list \<Rightarrow> bytes list \<Rightarrow> opcode \<Rightarrow> edit" where
  "add_splice bl cl x \<equiv> revert_splice (concat bl) (add_edit (line_offsets bl) (line_offsets cl) x)"

lemma take_drop_more:
  assumes "p \<le> a" "a \<le> b"
  shows "take (b - p) (drop p xs) = take (a - p) (drop p xs) @ take (b - a) (drop a xs)"
proof -
  have "b - p = (a - p) + (b - a)" using assms by simp
  then show ?thesis using assms(1) by (simp only: take_add drop_drop) simp
qed

lemma splice_adds:
  "\<lbrakk>adds_path i j xs i' j'; splice_at bl cl i j pos out; i' \<le> length bl; j' \<le> length cl\<rbrakk> \<Longrightarrow>
   \<exists>pos' out'. splice_at bl cl i' j' pos' out' \<and>
     (\<forall>rest. apply_loop (concat cl) (map (add_splice bl cl) xs @ rest) (int pos) out
           = apply_loop (concat cl) rest (int pos') out')"
proof (induction i j xs i' j' arbitrary: pos out rule: adds_path.induct)
  case (2 i j tag i1 i2 j1 j2 xs i' j')
  have le: "i \<le> i2" "j \<le> j2" "i1 = i" "j1 = j" "i2 \<le> length bl" "j2 \<le> length cl"
    using "2.prems" adds_path_le [of i2 j2 xs i' j'] by auto
  let ?pos = "offset_of cl j2" and ?out = "concat (take i2 bl)"
  have "splice_at bl cl i2 j2 ?pos ?out" by (simp add: splice_at_def)
  from "2.IH" [OF _ this] obtain pos' out' where IH: "splice_at bl cl i' j' pos' out'"
    "\<forall>rest. apply_loop (concat cl) (map (add_splice bl cl) xs @ rest) (int ?pos) ?out
          = apply_loop (concat cl) rest (int pos') out'"
    using "2.prems" by auto
  have "apply_loop (concat cl) (add_splice bl cl (tag, i1, i2, j1, j2) # es) (int pos) out
          = apply_loop (concat cl) es (int ?pos) ?out" for es
    using "2.prems"(2) le concat_slice [OF le(1), of bl] concat_take_split [OF le(1), of bl]
    by (simp add: revert_splice_def add_edit_def line_offsets_nth splice_at_def)
      (metis append.assoc)
  then show ?case using IH by auto
qed auto

lemma splice_equal:
  assumes "splice_at bl cl i j pos out" "i \<le> i2" "j \<le> j2"
    and "take (i2 - i) (drop i bl) = take (j2 - j) (drop j cl)"
  shows "splice_at bl cl i2 j2 pos out"
proof -
  have pos: "pos \<le> offset_of cl j" using assms(1) by (simp add: splice_at_def)
  have "take (offset_of cl j2 - pos) (drop pos (concat cl))
      = take (offset_of cl j - pos) (drop pos (concat cl)) @ concat (take (j2 - j) (drop j cl))"
    unfolding take_drop_more [OF pos offset_of_mono [OF assms(3), of cl], of "concat cl"]
      concat_slice [OF assms(3), of cl] ..
  then show ?thesis
    using assms offset_of_mono [OF assms(3), of cl] concat_take_split [OF assms(2), of bl]
    by (auto simp: splice_at_def)
qed

lemma splice_all:
  "\<lbrakk>opcodes_ok bl cl i j ops; splice_at bl cl i j pos out\<rbrakk> \<Longrightarrow>
   apply_loop (concat cl) (map (add_splice bl cl) (concat (map (opcode_adds g) ops))) (int pos) out = Inr (concat bl)"
proof (induction ops arbitrary: i j pos out)
  case Nil
  then show ?case by (simp add: splice_at_def)
next
  case (Cons x ops)
  obtain tag i1 i2 j1 j2 where x: "x = (tag, i1, i2, j1, j2)" by (cases x)
  have ok: "opcodes_ok bl cl i2 j2 ops" "i1 = i" "j1 = j" "i \<le> i2" "j \<le> j2" "i2 \<le> length bl" "j2 \<le> length cl"
    using Cons.prems(1) by (simp_all add: x)
  show ?case
  proof (cases "tag = Equal")
    case True
    then have "splice_at bl cl i2 j2 pos out"
      using Cons.prems(1) by (intro splice_equal [OF Cons.prems(2)]) (auto simp: x)
    from Cons.IH [OF ok(1) this] show ?thesis using True by (simp add: x opcode_adds_def)
  next
    case False
    have "adds_path i j (opcode_adds g x) i2 j2"
      using Cons.prems(1) False unfolding x by (auto intro!: opcode_adds_path split: tag.splits)
    from splice_adds [OF this Cons.prems(2) ok(6,7)] show ?thesis
      using Cons.IH [OF ok(1)] by auto
  qed
qed

definition matcher_ok :: "matcher \<Rightarrow> bytes \<Rightarrow> bytes \<Rightarrow> bool" where
  "matcher_ok get_opcodes base cand \<longleftrightarrow>
     opcodes_ok (splitlines base) (splitlines cand) 0 0 (get_opcodes (splitlines base) (splitlines cand))"

text \<open>The recorded edits of all changes, applied at once, turn the candidate into the base.\<close>

lemma changed_edits_restore:
  assumes "matcher_ok get_opcodes base cand"
  shows "apply_loop cand (map (revert_splice base) (changed_line_edits get_opcodes base cand g)) 0 [] = Inr base"
  using splice_all [OF assms [unfolded matcher_ok_def], of 0 "[]" g]
  by (simp add: splice_at_def changed_line_edits_def Let_def comp_def)

text \<open>
  Reverting edits one by one from the back, as narrowing does, is the same as applying them at
  once, because a revert leaves the bytes before it in place.
\<close>

lemma fold_rev_layout:
  "fold (\<lambda>(s, e, r) cur. take (nat s) cur @ r @ drop (nat e) cur) (rev (layout_edits (length u) l)) (u @ layout_before l @ t)
     = u @ layout_after l @ t"
proof (induction l arbitrary: u)
  case (Cons x l)
  obtain k a b where x: "x = (k, a, b)" by (cases x)
  show ?case using Cons.IH [of "u @ k @ a"] by (simp add: x nat_add_distrib add.assoc)
qed simp

lemma edits_apart_sorted:
  "\<lbrakk>edits_apart p es; \<forall>x\<in>set es. fst x \<le> fst (snd x)\<rbrakk> \<Longrightarrow> sorted (map fst es) \<and> (\<forall>x\<in>set es. p \<le> fst x)"
  by (induction p es rule: edits_apart.induct) fastforce+

lemma set_subseq: "subseq xs ys \<Longrightarrow> set xs \<subseteq> set ys"
  by (auto elim: list_emb_set)

lemma edits_apart_mono: "edits_apart p es \<Longrightarrow> q \<le> p \<Longrightarrow> edits_apart q es"
  by (induction q es rule: edits_apart.induct) auto

lemma edits_apart_subseq:
  "\<lbrakk>subseq es' es; edits_apart p es; \<forall>x\<in>set es. fst x \<le> fst (snd x)\<rbrakk> \<Longrightarrow> edits_apart p es'"
proof (induction es' es arbitrary: p rule: list_emb.induct)
  case (list_emb_Cons xs ys y)
  then have "edits_apart p xs" 
    using list_emb_Cons.IH [of "fst (snd y)"] edits_apart_mono [of "fst (snd y)" xs p]
    by (cases y) auto
  then show ?case .
next
  case (list_emb_Cons2 x y xs ys)
  then show ?case by (cases y) auto
qed simp

lemma fold_reverts:
  assumes "edits_apart 0 es" "\<forall>x\<in>set es. edit_in src x"
  shows "apply_edits src es = Inr (fold (\<lambda>(s, e, r) cur. take (nat s) cur @ r @ drop (nat e) cur) (rev es) src)"
proof -
  obtain l t where lt: "src = layout_before l @ t" "es = layout_edits 0 l"
    using apart_layout [OF assms(2), of 0] assms(1) by auto
  show ?thesis
    using fold_rev_layout [of "[]" l t] apply_edits_layout [of es l t] by (simp add: lt)
qed

lemma adds_path_mem:
  "\<lbrakk>adds_path i j xs i' j'; (t, i1, i2, j1, j2) \<in> set xs\<rbrakk> \<Longrightarrow> i1 \<le> i2 \<and> j1 \<le> j2 \<and> j2 \<le> j'"
  by (induction i j xs i' j' rule: adds_path.induct) (auto dest: adds_path_le)

lemma opcodes_ok_adds:
  "\<lbrakk>opcodes_ok a b i j ops; (t, i1, i2, j1, j2) \<in> set (concat (map (opcode_adds g) ops))\<rbrakk>
   \<Longrightarrow> j1 \<le> j2 \<and> j2 \<le> length b"
proof (induction ops arbitrary: i j)
  case (Cons x ops)
  obtain tag p1 p2 q1 q2 where x: "x = (tag, p1, p2, q1, q2)" by (cases x)
  show ?case
  proof (cases "(t, i1, i2, j1, j2) \<in> set (opcode_adds g x)")
    case True
    then have "tag \<noteq> Equal" by (auto simp: x opcode_adds_def)
    then have "adds_path p1 q1 (opcode_adds g x) p2 q2"
      using Cons.prems(1) unfolding x by (auto intro!: opcode_adds_path split: tag.splits)
    from adds_path_mem [OF this True] show ?thesis using Cons.prems(1) by (auto simp: x)
  next
    case False
    then show ?thesis using Cons by (auto simp: x)
  qed
qed simp

lemma changed_edits_in:
  assumes "matcher_ok get_opcodes base cand"
    and "e \<in> set (changed_line_edits get_opcodes base cand g)"
  shows "edit_in cand (revert_splice base e)"
proof -
  let ?cl = "splitlines cand"
  obtain t i1 i2 j1 j2 where e: "e = add_edit (line_offsets (splitlines base)) (line_offsets ?cl) (t, i1, i2, j1, j2)"
    "j1 \<le> j2" "j2 \<le> length ?cl"
    using assms(2) opcodes_ok_adds [OF assms(1) [unfolded matcher_ok_def]] unfolding changed_line_edits_def Let_def by fastforce
  have "offset_of ?cl j1 \<le> offset_of ?cl j2" "offset_of ?cl j2 \<le> offset_of ?cl (length ?cl)"
    by (rule offset_of_mono, rule e(2,3))+
  then show ?thesis using e(2,3) by (simp add: edit_in_def revert_splice_def e(1) add_edit_def line_offsets_nth)
qed

text \<open>All changes together, and any selection of them.\<close>

lemma reverts_all:
  assumes "matcher_ok get_opcodes base cand"
    and "es = changed_line_edits get_opcodes base cand g"
  shows "edits_apart 0 (map (revert_splice base) es)" "apply_edits cand (map (revert_splice base) es) = Inr base"
proof -
  have run: "apply_loop cand (map (revert_splice base) es) 0 [] = Inr base"
    using changed_edits_restore [OF assms(1)] by (simp add: assms(2))
  then show apart: "edits_apart 0 (map (revert_splice base) es)"
    using apply_loop_apart [of cand _ 0 "[]"] by blast
  have "\<forall>x\<in>set (map (revert_splice base) es). fst x \<le> fst (snd x)"
    by (auto simp: assms(2) intro: edit_in_ordered changed_edits_in [OF assms(1)])
  then show "apply_edits cand (map (revert_splice base) es) = Inr base"
    using edits_apart_sorted [OF apart] run by (simp add: apply_edits_def sort_key_id_if_sorted)
qed

lemma reverts_some:
  assumes "matcher_ok get_opcodes base cand"
    and "es = changed_line_edits get_opcodes base cand g" "subseq es' es"
  shows "apply_edits cand (map (revert_splice base) es') = Inr (fold (\<lambda>e cur. revert_edit base cur e) (rev es') cand)"
proof -
  let ?f = "map (revert_splice base)"
  have inside: "\<forall>x\<in>set (?f es). edit_in cand x"
    using changed_edits_in [OF assms(1)] by (auto simp: assms(2))
  then have "\<forall>x\<in>set (?f es). fst x \<le> fst (snd x)" using edit_in_ordered by blast
  then have "edits_apart 0 (?f es')"
    using edits_apart_subseq [OF subseq_map [OF assms(3)] reverts_all(1) [OF assms(1,2)]] by simp
  moreover have "\<forall>x\<in>set (?f es'). edit_in cand x"
    using inside set_subseq [OF assms(3)] by auto
  moreover have "(\<lambda>(s, e, r) cur. take (nat s) cur @ r @ drop (nat e) cur) \<circ> revert_splice base = (\<lambda>e cur. revert_edit base cur e)"
    by (auto simp: revert_splice_def revert_edit_def)
  ultimately show ?thesis using fold_reverts [of "?f es'" cand] by (simp add: rev_map fold_map)
qed

section \<open>Narrowing\<close>

record narrow_stats =
  ns_passes :: nat
  ns_attempts :: nat
  ns_accepted :: nat
  ns_compile_failed :: nat
  ns_score_errors :: nat

text \<open>The local variables of \<open>narrow_best_source\<close>; \<open>ns_done\<close> is set by a return inside the loops.\<close>

record narrow_state = narrow_stats +
  current :: bytes
  current_key :: score_key
  current_trace :: replay_trace
  ns_done :: bool

text \<open>One attempt: a span of the current source, its replacement and the note for the trace.\<close>

type_synonym attempt = "nat \<times> nat \<times> bytes \<times> string"

definition narrow_try ::
  "(bytes \<Rightarrow> string) \<Rightarrow> (nat \<Rightarrow> bytes \<Rightarrow> outcome) \<Rightarrow> string \<Rightarrow> attempt \<Rightarrow> narrow_state \<Rightarrow> narrow_state" where
  "narrow_try sha256 score pass_name a st =
     (case a of (s, e, rep, note) \<Rightarrow>
      let trial = take s (current st) @ rep @ drop e (current st)
      in if ns_done st \<or> trial = current st then st
         else let st = st\<lparr>ns_attempts := ns_attempts st + 1\<rparr>
              in case score (ns_attempts st) trial of
                   ServerGone \<Rightarrow> st\<lparr>ns_done := True\<rparr>
                 | CompileFailed \<Rightarrow> st\<lparr>ns_compile_failed := ns_compile_failed st + 1\<rparr>
                 | Unscorable \<Rightarrow> st\<lparr>ns_score_errors := ns_score_errors st + 1\<rparr>
                 | Scored key \<Rightarrow>
                     if key \<le> current_key st
                     then st\<lparr>current := trial, current_key := key,
                             current_trace := current_trace st
                               @ [make_replay_step sha256 ''narrow'' None pass_name (current st)
                                    [(int s, int e, rep)] trial (Some note)],
                             ns_accepted := ns_accepted st + 1\<rparr>
                     else st)"

definition narrow_pass ::
  "(bytes \<Rightarrow> string) \<Rightarrow> (nat \<Rightarrow> bytes \<Rightarrow> outcome) \<Rightarrow> string \<Rightarrow> attempt list \<Rightarrow> narrow_state \<Rightarrow> narrow_state" where
  "narrow_pass sha256 score pass_name attempts st =
     fold (narrow_try sha256 score pass_name) (rev attempts) (st\<lparr>ns_passes := ns_passes st + 1\<rparr>)"

text \<open>
  The passes of one stage: \<open>attempts\<close> lists the attempts for the current source and \<open>stop\<close> says
  whether an empty list returns from the function (the reverts) or only ends the stage (the casts).
\<close>

fun narrow_stage ::
  "(bytes \<Rightarrow> string) \<Rightarrow> (nat \<Rightarrow> bytes \<Rightarrow> outcome) \<Rightarrow> string \<Rightarrow> (bytes \<Rightarrow> attempt list) \<Rightarrow> bool \<Rightarrow> nat
   \<Rightarrow> narrow_state \<Rightarrow> narrow_state" where
  "narrow_stage sha256 score pass_name attempts stop 0 st = st"
| "narrow_stage sha256 score pass_name attempts stop (Suc n) st =
     (if ns_done st then st
      else let as = attempts (current st)
           in if as = [] then (if stop then st\<lparr>ns_done := True\<rparr> else st)
              else let st' = narrow_pass sha256 score pass_name as st
                   in if ns_accepted st' = ns_accepted st then st'
                      else narrow_stage sha256 score pass_name attempts stop n st')"

definition revert_attempts :: "matcher \<Rightarrow> bytes \<Rightarrow> granularity \<Rightarrow> bytes \<Rightarrow> attempt list" where
  "revert_attempts get_opcodes base g cur =
     map (\<lambda>e. (cand_start e, cand_end e, take (base_end e - base_start e) (drop (base_start e) base), describe_edit e))
       (changed_line_edits get_opcodes base cur g)"

definition narrow_best_source ::
  "(bytes \<Rightarrow> string) \<Rightarrow> matcher \<Rightarrow> (bytes \<Rightarrow> bytes \<Rightarrow> attempt list) \<Rightarrow> (nat \<Rightarrow> bytes \<Rightarrow> outcome)
   \<Rightarrow> bytes \<Rightarrow> bytes \<Rightarrow> score_key \<Rightarrow> replay_trace \<Rightarrow> nat \<Rightarrow> narrow_state" where
  "narrow_best_source sha256 get_opcodes simplify_cast_edits score base best best_key trace max_passes =
     (let st = \<lparr>ns_passes = 0, ns_attempts = 0, ns_accepted = 0, ns_compile_failed = 0, ns_score_errors = 0,
               current = best, current_key = best_key, current_trace = trace, ns_done = False\<rparr>
      in if max_passes = 0 \<or> base = best then st
         else let st1 = narrow_stage sha256 score ''revert_chunk'' (revert_attempts get_opcodes base Chunk) True max_passes st;
                  st2 = narrow_stage sha256 score ''revert_line'' (revert_attempts get_opcodes base Line) True max_passes st1
              in narrow_stage sha256 score ''simplify_cast'' (simplify_cast_edits base) False max_passes st2)"

subsection \<open>What narrowing keeps\<close>

text \<open>
  The invariant of the loops, for a start from \<open>best\<close>: the rank does not get worse, it is what the
  server answered for the current source, the trace leads from the base to it, and the attempts are
  accounted for.
\<close>

definition narrow_inv ::
  "(bytes \<Rightarrow> string) \<Rightarrow> (nat \<Rightarrow> bytes \<Rightarrow> outcome) \<Rightarrow> bytes \<Rightarrow> bytes \<Rightarrow> score_key \<Rightarrow> narrow_state \<Rightarrow> bool" where
  "narrow_inv sha256 score base best best_key st \<longleftrightarrow>
     apply_replay_trace sha256 base (current_trace st) = Inr (current st) \<and>
     current_key st \<le> best_key \<and>
     (current st = best \<and> current_key st = best_key
      \<or> (\<exists>n\<le>ns_attempts st. score n (current st) = Scored (current_key st))) \<and>
     ns_accepted st + ns_compile_failed st + ns_score_errors st \<le> ns_attempts st"

lemma narrow_inv_passes [simp]:
  "narrow_inv sha256 score base best bk (st\<lparr>ns_passes := n\<rparr>) = narrow_inv sha256 score base best bk st"
  "narrow_inv sha256 score base best bk (st\<lparr>ns_done := b\<rparr>) = narrow_inv sha256 score base best bk st"
  by (simp_all add: narrow_inv_def)

lemma narrow_inv_try:
  assumes "narrow_inv sha256 score base best bk st"
  shows "narrow_inv sha256 score base best bk (narrow_try sha256 score pass_name a st)"
proof -
  obtain s e rep nt where a: "a = (s, e, rep, nt)" by (cases a)
  let ?trial = "take s (current st) @ rep @ drop e (current st)"
  let ?n = "ns_attempts st + 1"
  have count: "narrow_inv sha256 score base best bk (st\<lparr>ns_attempts := ?n, ns_compile_failed := c, ns_score_errors := d\<rparr>)"
    if "c + d \<le> ns_compile_failed st + ns_score_errors st + 1" for c d
    using assms that by (auto simp: narrow_inv_def intro: le_SucI)
  show ?thesis
  proof (cases "score ?n ?trial")
    case (Scored key)
    show ?thesis
    proof (cases "key \<le> current_key st")
      case True
      have "apply_replay_trace sha256 base (current_trace st @
          [make_replay_step sha256 ''narrow'' None pass_name (current st) [(int s, int e, rep)] ?trial (Some nt)]) = Inr ?trial"
        using assms by (intro replay_snoc) (simp_all add: narrow_inv_def)
      then show ?thesis
        using assms True Scored by (auto simp: narrow_inv_def narrow_try_def a Let_def intro: order_trans)
    next
      case False
      then show ?thesis
        using count [of "ns_compile_failed st" "ns_score_errors st"] Scored assms
        by (auto simp: narrow_try_def a Let_def)
    qed
  next
    case CompileFailed
    then show ?thesis
      using count [of "ns_compile_failed st + 1" "ns_score_errors st"] assms by (auto simp: narrow_try_def a Let_def)
  next
    case Unscorable
    then show ?thesis
      using count [of "ns_compile_failed st" "ns_score_errors st + 1"] assms by (auto simp: narrow_try_def a Let_def)
  next
    case ServerGone
    then show ?thesis
      using count [of "ns_compile_failed st" "ns_score_errors st"] assms by (auto simp: narrow_try_def a Let_def)
  qed
qed

lemma narrow_inv_pass:
  "narrow_inv sha256 score base best bk st \<Longrightarrow>
   narrow_inv sha256 score base best bk (narrow_pass sha256 score pass_name as st)"
  unfolding narrow_pass_def
  by (rule fold_invariant [where Q = "\<lambda>_. True"]) (simp_all add: narrow_inv_try)

lemma narrow_inv_stage:
  "narrow_inv sha256 score base best bk st \<Longrightarrow>
   narrow_inv sha256 score base best bk (narrow_stage sha256 score pass_name attempts stop n st)"
  by (induction n arbitrary: st) (auto simp: Let_def narrow_inv_pass)

lemma narrow_inv_start:
  "apply_replay_trace sha256 base trace = Inr best \<Longrightarrow> narrow_inv sha256 score base best bk
     \<lparr>ns_passes = 0, ns_attempts = 0, ns_accepted = 0, ns_compile_failed = 0, ns_score_errors = 0,
      current = best, current_key = bk, current_trace = trace, ns_done = False\<rparr>"
  by (simp add: narrow_inv_def)

lemma narrow_inv_result:
  assumes "apply_replay_trace sha256 base trace = Inr best"
  shows "narrow_inv sha256 score base best bk
           (narrow_best_source sha256 get_opcodes casts score base best bk trace max_passes)"
  using narrow_inv_start [OF assms] by (simp add: narrow_best_source_def Let_def narrow_inv_stage)

end
