(* ===== verification/Mutate_Props.thy ===== *)
theory Mutate_Props
  imports Src_Mutate
begin

text \<open>
  The edits of the mutation passes.  On a tree whose nodes have nonempty spans, nested and in order,
  the modelled passes never produce overlapping edits, and a mutation returned by \<open>step_result\<close> is
  exactly the result of its edits.
\<close>

section \<open>Trees\<close>

fun spans_within :: "nat \<Rightarrow> nat \<Rightarrow> node list \<Rightarrow> bool" where
  "spans_within lo hi [] \<longleftrightarrow> lo \<le> hi"
| "spans_within lo hi (c # cs) \<longleftrightarrow>
     lo \<le> start_byte c \<and> start_byte c < end_byte c \<and> spans_within (end_byte c) hi cs"

fun node_ok :: "node \<Rightarrow> bool" where
  "node_ok (Node t s e cs) \<longleftrightarrow>
     s < e \<and> spans_within s e (map (snd \<circ> snd) cs) \<and> (\<forall>c\<in>set cs. node_ok (snd (snd c)))"

lemma spans_within_le: "spans_within lo hi cs \<Longrightarrow> lo \<le> hi"
  by (induction lo hi cs rule: spans_within.induct) auto

lemma spans_within_nth:
  "spans_within lo hi cs \<Longrightarrow> i < length cs \<Longrightarrow>
     lo \<le> start_byte (cs ! i) \<and> start_byte (cs ! i) < end_byte (cs ! i) \<and> end_byte (cs ! i) \<le> hi"
proof (induction lo hi cs arbitrary: i rule: spans_within.induct)
  case (2 lo hi c cs)
  show ?case
  proof (cases i)
    case 0
    then show ?thesis using 2 by (auto dest: spans_within_le)
  next
    case (Suc k)
    then show ?thesis using "2.IH" [of k] "2.prems" by auto
  qed
qed simp

lemma spans_within_apart:
  "\<lbrakk>spans_within lo hi cs; i < j; j < length cs\<rbrakk> \<Longrightarrow> end_byte (cs ! i) \<le> start_byte (cs ! j)"
proof (induction lo hi cs arbitrary: i j rule: spans_within.induct)
  case (2 lo hi c cs)
  then show ?case
    by (cases i; cases j) (auto dest: spans_within_nth)
qed simp

definition kids :: "node \<Rightarrow> node list" where
  "kids n = map (snd \<circ> snd) (children n)"

lemma node_ok_iff:
  "node_ok n \<longleftrightarrow> start_byte n < end_byte n \<and> spans_within (start_byte n) (end_byte n) (kids n)
                 \<and> (\<forall>c\<in>set (kids n). node_ok c)"
  by (cases n) (auto simp: kids_def)

lemma node_ok_kid:
  assumes "node_ok n" "c \<in> set (kids n)"
  shows "node_ok c \<and> end_byte c \<le> end_byte n"
proof -
  obtain i where "i < length (kids n)" "kids n ! i = c" using assms(2) by (auto simp: in_set_conv_nth)
  then show ?thesis
    using assms spans_within_nth [of "start_byte n" "end_byte n" "kids n" i] by (simp add: node_ok_iff [of n])
qed

lemma named_children_kids: "set (named_children n) \<subseteq> set (kids n)"
  by (auto simp: named_children_def kids_def)

lemma iter_loop_inv:
  "(\<And>n c. I n \<Longrightarrow> c \<in> set (named_children n) \<Longrightarrow> I c) \<Longrightarrow> \<forall>n\<in>set st. I n \<Longrightarrow> \<forall>n\<in>set (iter_loop st). I n"
proof (induction st rule: iter_loop.induct)
  case (2 n st)
  have n: "I n" and st: "\<forall>m\<in>set st. I m" using 2(3) by simp_all
  have "\<forall>m\<in>set (named_children n). I m" using 2(2) [OF n] by blast
  with st have "\<forall>m\<in>set (rev (named_children n) @ st). I m" by auto
  then show ?case using 2(1) [OF 2(2)] n by simp
qed simp

lemma iter_subtree_ok:
  assumes "node_ok n" "m \<in> set (iter_subtree n)"
  shows "node_ok m \<and> end_byte m \<le> end_byte n"
proof -
  have "\<forall>m\<in>set (iter_loop [n]). node_ok m \<and> end_byte m \<le> end_byte n"
  proof (rule iter_loop_inv)
    fix k c assume "node_ok k \<and> end_byte k \<le> end_byte n" "c \<in> set (named_children k)"
    then show "node_ok c \<and> end_byte c \<le> end_byte n"
      using node_ok_kid [of k c] named_children_kids [of k] by auto
  qed (simp add: assms)
  then show ?thesis using assms(2) unfolding iter_subtree_def by blast
qed

text \<open>Children at different places, and children under different fields, lie apart.\<close>

definition nodes_apart :: "node \<Rightarrow> node \<Rightarrow> bool" where
  "nodes_apart a b \<longleftrightarrow> end_byte a \<le> start_byte b \<or> end_byte b \<le> start_byte a"

lemma kids_apart:
  "\<lbrakk>node_ok n; i < length (kids n); j < length (kids n); i \<noteq> j\<rbrakk> \<Longrightarrow> nodes_apart (kids n ! i) (kids n ! j)"
  using spans_within_apart [of "start_byte n" "end_byte n" "kids n" i j]
    spans_within_apart [of "start_byte n" "end_byte n" "kids n" j i]
  by (cases "i < j") (simp_all add: node_ok_iff [of n] nodes_apart_def)

lemma field_index:
  "node_field n f = Some c \<Longrightarrow>
     \<exists>i<length (kids n). kids n ! i = c \<and> fst (children n ! i) = Some f"
  unfolding node_field_def kids_def find_Some_iff map_option_eq_Some
  by (force simp: find_Some_iff)

lemma fields_apart:
  assumes "node_ok n" "node_field n f = Some a" "node_field n g = Some b" "f \<noteq> g"
  shows "nodes_apart a b"
proof -
  obtain i j where "i < length (kids n)" "kids n ! i = a" "fst (children n ! i) = Some f"
    "j < length (kids n)" "kids n ! j = b" "fst (children n ! j) = Some g"
    using field_index [OF assms(2)] field_index [OF assms(3)] by auto
  then show ?thesis using kids_apart [OF assms(1), of i j] assms(4) by (cases "i = j") auto
qed

lemma field_kid: "node_field n f = Some c \<Longrightarrow> c \<in> set (kids n)"
  using field_index by fastforce

section \<open>Edits of the passes\<close>

definition safe_edits :: "bytes \<Rightarrow> edit list \<Rightarrow> bool" where
  "safe_edits src es \<longleftrightarrow> (\<forall>x\<in>set es. edit_in src x) \<and> edits_apart 0 (sort_key fst es)"

definition node_in :: "bytes \<Rightarrow> node \<Rightarrow> bool" where
  "node_in src n \<longleftrightarrow> start_byte n < end_byte n \<and> end_byte n \<le> length src"

lemma safe_spans:
  assumes "\<forall>p\<in>set ps. node_in src (fst p)"
    and "sorted_wrt (\<lambda>p q. nodes_apart (fst p) (fst q)) ps"
  shows "safe_edits src (map (\<lambda>p. span_edit (fst p) (snd p)) ps)" (is "safe_edits src (map ?e ps)")
proof -
  have apart: "spans_apart (?e p) (?e q)" if "nodes_apart (fst p) (fst q)" for p q
    using that by (auto simp: spans_apart_def nodes_apart_def span_edit_def split: prod.split)
  have sym: "spans_apart x y \<Longrightarrow> spans_apart y x" for x y by (auto simp: spans_apart_def)
  have ne: "spans_apart (?e p) x \<Longrightarrow> node_in src (fst p) \<Longrightarrow> x \<noteq> ?e p" for p x
    by (auto simp: spans_apart_def span_edit_def node_in_def split: prod.splits)
  have "distinct (map ?e ps) \<and> pairwise spans_apart (set (map ?e ps))"
    using assms
  proof (induction ps)
    case (Cons p ps)
    have IH: "distinct (map ?e ps)" "pairwise spans_apart (set (map ?e ps))"
      using Cons by simp_all
    have ap: "spans_apart (?e p) x" if "x \<in> set (map ?e ps)" for x
      using Cons.prems that apart by auto
    have "?e p \<notin> set (map ?e ps)"
      using ap [of "?e p"] ne [of p "?e p"] Cons.prems(1) by auto
    moreover have "pairwise spans_apart (insert (?e p) (set (map ?e ps)))"
      unfolding pairwise_insert using ap sym IH(2) by blast
    ultimately show ?case using IH(1) by simp
  qed simp
  moreover have "\<forall>x\<in>set (map ?e ps). 0 \<le> fst x \<and> fst x < fst (snd x)"
    and "\<forall>x\<in>set (map ?e ps). edit_in src x"
    using assms(1) by (simp_all add: span_edit_def node_in_def edit_in_def) fastforce
  ultimately show ?thesis
    unfolding safe_edits_def using sort_edits_apart by blast
qed

lemma safe_span1: "node_in src a \<Longrightarrow> safe_edits src [span_edit a x]"
  using safe_spans [of "[(a, x)]" src] by simp

lemma safe_span2:
  "\<lbrakk>node_in src a; node_in src b; nodes_apart a b\<rbrakk> \<Longrightarrow> safe_edits src [span_edit a x, span_edit b y]"
  using safe_spans [of "[(a, x), (b, y)]" src] by simp

lemma safe_span3:
  "\<lbrakk>node_in src a; node_in src b; node_in src c; nodes_apart a b; nodes_apart a c; nodes_apart b c\<rbrakk>
   \<Longrightarrow> safe_edits src [span_edit a x, span_edit b y, span_edit c z]"
  using safe_spans [of "[(a, x), (b, y), (c, z)]" src] by simp

lemma rbind_Inr_iff:
  "rbind m f ds = Inr y \<longleftrightarrow> (\<exists>x ds'. m ds = Inr (x, ds') \<and> f x ds' = Inr y)"
  by (auto simp: rbind_def ebind_eq_Inr_iff split: prod.splits)

lemma rret_iff [simp]: "rret x ds = Inr y \<longleftrightarrow> y = (x, ds)"
  by (auto simp: rret_def)

lemma rlift_iff [simp]: "rlift r ds = Inr (x, ds') \<longleftrightarrow> r = Inr x \<and> ds' = ds"
  by (auto simp: rlift_def ebind_eq_Inr_iff)

lemma rng_choice_in: "rng_choice xs ds = Inr (x, ds') \<Longrightarrow> x \<in> set xs"
  by (auto simp: rng_choice_def randrange_def rbind_Inr_iff split: if_splits)

lemma choice_run:
  assumes "rbind (rng_choice xs) k ds = Inr (y, ds')"
  obtains x ds1 where "x \<in> set xs" and "k x ds1 = Inr (y, ds')"
  using assms rng_choice_in by (fastforce simp: rbind_Inr_iff)

lemma redraw_less: "redraw n i ds = Inr (j, ds') \<Longrightarrow> 0 < n \<Longrightarrow> j < n"
  by (induction n i ds rule: redraw.induct) (auto split: if_splits)

lemma pick_pair_less:
  assumes "pick_pair n p ds = Inr ((i, j), ds')" "2 \<le> n"
  shows "i < n \<and> j < n"
proof -
  have "0 < n" using assms(2) by simp
  moreover have "\<exists>d. i = d mod n"
    and "j = (if i + 1 < n then i + 1 else i - 1) \<or> (\<exists>ds. redraw n i ds = Inr (j, ds'))"
    using assms(1) unfolding pick_pair_def randrange_def Let_def
    by (auto simp: rbind_Inr_iff split: if_splits)
  moreover from calculation have "i < n" by auto
  ultimately show ?thesis by (auto dest: redraw_less)
qed

lemma filter_nth_apart:
  assumes "node_ok n" "i < length (filter P (named_children n))" "j < length (filter P (named_children n))"
    and "i \<noteq> j"
  shows "nodes_apart (filter P (named_children n) ! i) (filter P (named_children n) ! j)"
proof -
  have *: "spans_within lo hi cs \<Longrightarrow> sorted_wrt (\<lambda>a b. end_byte a \<le> start_byte b) cs" for lo hi cs
    using spans_within_apart by (auto simp: sorted_wrt_iff_nth_less)
  have "sorted_wrt (\<lambda>a b. end_byte a \<le> start_byte b) (map (snd \<circ> snd) (children n))"
    using * assms(1) by (auto simp: node_ok_iff [of n] kids_def)
  then have "sorted_wrt (\<lambda>a b. end_byte a \<le> start_byte b) (filter P (named_children n))"
    by (auto simp: named_children_def sorted_wrt_map intro!: sorted_wrt_filter)
  then show ?thesis
    using assms(2-4) by (cases "i < j") (auto simp: nodes_apart_def sorted_wrt_iff_nth_less)
qed

definition ctx_ok :: "ctx \<Rightarrow> bool" where
  "ctx_ok ctx \<longleftrightarrow> node_ok (ctx_root ctx) \<and> end_byte (ctx_root ctx) \<le> length (ctx_src ctx)
                \<and> ctx_fn ctx \<in> set (iter_subtree (ctx_root ctx))"

lemma node_ok_in: "node_ok n \<Longrightarrow> end_byte n \<le> length src \<Longrightarrow> node_in src n"
  by (simp add: node_ok_iff [of n] node_in_def)

lemma ctx_ok_fn:
  assumes "ctx_ok ctx"
  shows "node_ok (ctx_fn ctx)" "end_byte (ctx_fn ctx) \<le> length (ctx_src ctx)"
  using assms iter_subtree_ok [of "ctx_root ctx" "ctx_fn ctx"] by (auto simp: ctx_ok_def)

lemma ctx_ok_sub:
  assumes "ctx_ok ctx" "n \<in> set (iter_subtree (ctx_fn ctx))"
  shows "node_ok n" "end_byte n \<le> length (ctx_src ctx)"
  using ctx_ok_fn [OF assms(1)] iter_subtree_ok [OF _ assms(2)] by auto

lemma kid_in:
  "\<lbrakk>node_ok n; end_byte n \<le> length src; c \<in> set (kids n)\<rbrakk> \<Longrightarrow> node_ok c \<and> node_in src c \<and> end_byte c \<le> length src"
  using node_ok_kid [of n c] node_ok_in by auto

lemma field_in:
  "\<lbrakk>node_ok n; end_byte n \<le> length src; node_field n f = Some c\<rbrakk>
   \<Longrightarrow> node_ok c \<and> node_in src c \<and> end_byte c \<le> length src"
  using kid_in field_kid by blast

lemma only_named_in:
  "\<lbrakk>node_ok n; end_byte n \<le> length src; only_named n = Some c\<rbrakk>
   \<Longrightarrow> node_ok c \<and> node_in src c \<and> end_byte c \<le> length src"
  using kid_in [of n src c] named_children_kids [of n]
  by (auto simp: only_named_def split: list.splits)

text \<open>A pass is safe when the edits it returns on a well-formed tree can be spliced.\<close>

definition safe_pass :: "pass \<Rightarrow> bool" where
  "safe_pass p \<longleftrightarrow> (\<forall>ctx ds es ds'. ctx_ok ctx \<longrightarrow> p ctx ds = Inr (Some es, ds') \<longrightarrow> safe_edits (ctx_src ctx) es)"

lemma swap_two_safe:
  assumes "node_ok b" "end_byte b \<le> length (ctx_src ctx)"
    and "swap_two ctx (filter P (named_children b)) q ds = Inr (Some es, ds')"
  shows "safe_edits (ctx_src ctx) es"
proof -
  let ?ns = "filter P (named_children b)"
  obtain i j where ij: "i < length ?ns" "j < length ?ns" "i \<noteq> j"
    and es: "es = swap_spans (ctx_src ctx) (?ns ! i) (?ns ! j)"
    using assms(3) by (auto simp: swap_two_def rbind_Inr_iff split: if_splits dest!: pick_pair_less)
  have "node_in (ctx_src ctx) (?ns ! k)" if "k < length ?ns" for k
    using kid_in [OF assms(1,2), of "?ns ! k"] nth_mem [OF that] named_children_kids [of b] by auto
  then show ?thesis
    using ij filter_nth_apart [OF assms(1)] by (auto simp: es swap_spans_def intro!: safe_span2)
qed

lemma reorder_safe: "safe_pass p_reorder_decls" "safe_pass p_reorder_stmts"
  using field_in [OF ctx_ok_fn]
  by (auto simp: safe_pass_def p_reorder_decls_def p_reorder_stmts_def declarations_def statements_def
      body_of_def rbind_Inr_iff split: option.splits intro!: swap_two_safe)

lemma binary_opsD:
  assumes "(n, op) \<in> set (binary_ops ctx ops)"
  shows "n \<in> set (iter_subtree (ctx_fn ctx))" "node_field n ''operator'' = Some op"
  using assms by (auto simp: binary_ops_def List.map_filter_def split: if_splits option.splits)

lemma commutative_safe: "safe_pass p_commutative"
  unfolding safe_pass_def
proof (intro allI impI)
  fix ctx ds es ds' assume ok: "ctx_ok ctx" and run: "p_commutative ctx ds = Inr (Some es, ds')"
  obtain n op l r where n: "(n, op) \<in> set (binary_ops ctx (COMM_OPS @ map fst REL_FLIP))"
    and lr: "node_field n ''left'' = Some l" "node_field n ''right'' = Some r"
    and es: "es = swap_spans (ctx_src ctx) l r @
               (case map_of REL_FLIP (node_text (ctx_src ctx) op) of Some f \<Rightarrow> [span_edit op f] | None \<Rightarrow> [])"
    using run unfolding p_commutative_def Let_def
    by (auto split: if_splits prod.splits option.splits elim!: choice_run)
  note op = binary_opsD(2) [OF n] and sub = ctx_ok_sub [OF ok binary_opsD(1) [OF n]]
  have "nodes_apart l r" "nodes_apart l op" "nodes_apart r op"
    using fields_apart [OF sub(1)] lr op by auto
  then show "safe_edits (ctx_src ctx) es"
    using field_in [OF sub] lr op
    by (auto simp: es swap_spans_def split: option.split intro!: safe_span2 safe_span3)
qed

lemma add_sub_safe: "safe_pass p_add_sub"
  unfolding safe_pass_def
proof (intro allI impI)
  fix ctx ds es ds' assume ok: "ctx_ok ctx" and run: "p_add_sub ctx ds = Inr (Some es, ds')"
  obtain n op r x y where n: "(n, op) \<in> set (binary_ops ctx [''-''])"
    and r: "node_field n ''right'' = Some r" and es: "es = [span_edit op x, span_edit r y]"
    using run unfolding p_add_sub_def Let_def
    by (auto split: if_splits prod.splits option.splits elim!: choice_run)
  note op = binary_opsD(2) [OF n] and sub = ctx_ok_sub [OF ok binary_opsD(1) [OF n]]
  show "safe_edits (ctx_src ctx) es"
    using field_in [OF sub] fields_apart [OF sub(1) op r] r op by (auto simp: es intro!: safe_span2)
qed

text \<open>Passes that replace the span of one node, or insert around one.\<close>

lemma map_filterD: "y \<in> set (List.map_filter f xs) \<Longrightarrow> \<exists>x\<in>set xs. f x = Some y"
  by (auto simp: List.map_filter_def)

lemma sub_in: "ctx_ok ctx \<Longrightarrow> n \<in> set (iter_subtree (ctx_fn ctx)) \<Longrightarrow> node_in (ctx_src ctx) n"
  using ctx_ok_sub node_ok_in by blast

lemma assign_site_node:
  assumes "assign_sites src n = Some c"
  shows "(\<exists>l op r. c = Contract n l op r) \<or> (\<exists>l op r. c = Expand n l op r)"
  using assms unfolding assign_sites_def
  by (clarsimp split: if_split_asm option.split_asm)

lemma compound_assignment_safe: "safe_pass p_compound_assignment"
  unfolding safe_pass_def
proof (intro allI impI)
  fix ctx ds es ds' assume ok: "ctx_ok ctx" and run: "p_compound_assignment ctx ds = Inr (Some es, ds')"
  obtain c where c: "c \<in> set (List.map_filter (assign_sites (ctx_src ctx)) (iter_subtree (ctx_fn ctx)))"
    and es: "es = [assign_edit (ctx_src ctx) c]"
    using run unfolding p_compound_assignment_def Let_def
    by (auto split: if_split_asm elim!: choice_run)
  obtain n where n: "n \<in> set (iter_subtree (ctx_fn ctx))" "assign_sites (ctx_src ctx) n = Some c"
    using map_filterD [OF c] by blast
  have "\<exists>x. assign_edit (ctx_src ctx) c = span_edit n x"
    using assign_site_node [OF n(2)] by (auto simp: assign_edit_def)
  then show "safe_edits (ctx_src ctx) es" using sub_in [OF ok n(1)] by (auto simp: es intro: safe_span1)
qed

lemma fold_sitesD:
  "(rhs, pl, pr) \<in> set (fold_sites src cs prior) \<Longrightarrow> \<exists>c\<in>set cs. \<exists>lhs. simple_assignment_stmt src c = Some (lhs, rhs)"
proof (induction cs arbitrary: prior)
  case (Cons c cs)
  then show ?case by (force split: option.split_asm prod.split_asm if_split_asm)
qed simp

lemma simple_assignment_in:
  assumes "node_ok c" "end_byte c \<le> length src" "simple_assignment_stmt src c = Some (lhs, rhs)"
  shows "node_in src rhs"
proof -
  obtain e where e: "only_named c = Some e" "node_field e ''right'' = Some rhs"
    using assms(3) by (auto simp: simple_assignment_stmt_def split: if_split_asm option.split_asm)
  then show ?thesis using only_named_in [OF assms(1,2) e(1)] field_in [of e src _ rhs] by blast
qed

lemma fold_duplicate_safe: "safe_pass p_fold_duplicate_assignment"
  unfolding safe_pass_def
proof (intro allI impI)
  fix ctx ds es ds' assume ok: "ctx_ok ctx" and run: "p_fold_duplicate_assignment ctx ds = Inr (Some es, ds')"
  obtain comp rhs pl pr x where comp: "comp \<in> set (iter_subtree (ctx_fn ctx))"
    and site: "(rhs, pl, pr) \<in> set (fold_sites (ctx_src ctx) (named_children comp) [])"
    and es: "es = [span_edit rhs x]"
    using run unfolding p_fold_duplicate_assignment_def Let_def
    by (auto split: if_split_asm prod.split_asm elim!: choice_run)
  obtain c lhs where c: "c \<in> set (named_children comp)"
    "simple_assignment_stmt (ctx_src ctx) c = Some (lhs, rhs)"
    using fold_sitesD [OF site] by blast
  have "c \<in> set (kids comp)" using c(1) named_children_kids by blast
  then have "node_in (ctx_src ctx) rhs"
    using kid_in [OF ctx_ok_sub [OF ok comp]] simple_assignment_in [OF _ _ c(2)] by blast
  then show "safe_edits (ctx_src ctx) es" by (simp add: es safe_span1)
qed

lemma struct_ref_safe: "safe_pass p_struct_ref"
  unfolding safe_pass_def
proof (intro allI impI)
  fix ctx ds es ds' assume ok: "ctx_ok ctx" and run: "p_struct_ref ctx ds = Inr (Some es, ds')"
  obtain c where c: "c \<in> set (List.map_filter (struct_site (ctx_src ctx)) (iter_subtree (ctx_fn ctx)))"
    and es: "es = [struct_edit (ctx_src ctx) c]"
    using run unfolding p_struct_ref_def Let_def by (auto split: if_split_asm elim!: choice_run)
  obtain n where n: "n \<in> set (iter_subtree (ctx_fn ctx))" "struct_site (ctx_src ctx) n = Some c"
    using map_filterD [OF c] by blast
  have "\<exists>x. struct_edit (ctx_src ctx) c = span_edit n x"
    using n(2) by (auto simp: struct_site_def struct_edit_def split: if_split_asm option.split_asm)
  then show "safe_edits (ctx_src ctx) es" using sub_in [OF ok n(1)] by (auto simp: es intro: safe_span1)
qed

lemma cond_inner_edit: "cond_inner src inner = Some c \<Longrightarrow> \<exists>x. cond_edit src c = span_edit inner x"
  by (auto simp: cond_inner_def cond_edit_def split: if_split_asm option.split_asm)

lemma cond_site_ofD:
  "cond_site_of src n = Some c \<Longrightarrow>
     \<exists>cond inner. node_field n ''condition'' = Some cond \<and> only_named cond = Some inner \<and> cond_inner src inner = Some c"
  by (auto simp: cond_site_of_def split: if_split_asm option.split_asm)

lemma condition_safe: "safe_pass p_condition"
  unfolding safe_pass_def
proof (intro allI impI)
  fix ctx ds es ds' assume ok: "ctx_ok ctx" and run: "p_condition ctx ds = Inr (Some es, ds')"
  obtain c where c: "c \<in> set (List.map_filter (cond_site_of (ctx_src ctx)) (iter_subtree (ctx_fn ctx)))"
    and es: "es = [cond_edit (ctx_src ctx) c]"
    using run unfolding p_condition_def Let_def by (auto split: if_split_asm elim!: choice_run)
  obtain n cond inner where n: "n \<in> set (iter_subtree (ctx_fn ctx))"
    and cond: "node_field n ''condition'' = Some cond" "only_named cond = Some inner"
    and inner: "cond_inner (ctx_src ctx) inner = Some c"
    using map_filterD [OF c] by (auto dest!: cond_site_ofD)
  have "node_in (ctx_src ctx) inner"
    using field_in [OF ctx_ok_sub [OF ok n] cond(1)] only_named_in [OF _ _ cond(2)] by blast
  then show "safe_edits (ctx_src ctx) es"
    using cond_inner_edit [OF inner] by (auto simp: es intro: safe_span1)
qed

lemma bool_return_safe: "safe_pass p_bool_return_literal"
  unfolding safe_pass_def
proof (intro allI impI)
  fix ctx ds es ds' assume ok: "ctx_ok ctx" and run: "p_bool_return_literal ctx ds = Inr (Some es, ds')"
  obtain n expr rep where n: "n \<in> set (iter_subtree (ctx_fn ctx))" "only_named n = Some expr"
    and es: "es = [span_edit expr rep]"
    using run unfolding p_bool_return_literal_def Let_def
    by (auto split: if_split_asm prod.split_asm option.split_asm elim!: choice_run dest!: map_filterD)
  then show "safe_edits (ctx_src ctx) es"
    using only_named_in [OF ctx_ok_sub [OF ok n(1)] n(2)] by (auto intro: safe_span1)
qed

lemma remove_cast_safe: "safe_pass p_remove_cast"
  unfolding safe_pass_def
proof (intro allI impI)
  fix ctx ds es ds' assume ok: "ctx_ok ctx" and run: "p_remove_cast ctx ds = Inr (Some es, ds')"
  obtain n x where n: "n \<in> set (iter_subtree (ctx_fn ctx))" and es: "es = [span_edit n x]"
    using run unfolding p_remove_cast_def Let_def by (auto split: if_split_asm option.split_asm elim!: choice_run)
  then show "safe_edits (ctx_src ctx) es" using sub_in [OF ok n] by (auto intro: safe_span1)
qed

lemma pad_var_decl_safe: "safe_pass p_pad_var_decl"
  unfolding safe_pass_def
proof (intro allI impI)
  fix ctx ds es ds' assume ok: "ctx_ok ctx" and run: "p_pad_var_decl ctx ds = Inr (Some es, ds')"
  obtain b d pos x where b: "body_of (ctx_fn ctx) = Some b" "d \<in> set (named_children b)"
    and es: "es = [(pos, pos, x)]" "pos = int (start_byte d)"
    using run unfolding p_pad_var_decl_def Let_def declarations_def
    by (auto simp: rbind_Inr_iff split: if_split_asm option.split_asm dest!: rng_choice_in)
  have "node_in (ctx_src ctx) d"
    using field_in [OF ctx_ok_fn [OF ok] b(1) [unfolded body_of_def]] kid_in [of b _ d] b(2)
      named_children_kids [of b] by blast
  then show "safe_edits (ctx_src ctx) es"
    by (auto simp: es safe_edits_def edit_in_def node_in_def)
qed

lemma pragma_filter_subset: "pragma_filter k src ns = Inr out \<Longrightarrow> set out \<subseteq> set ns"
  by (induction ns arbitrary: out) (auto split: if_split_asm)

lemma pragma_wrap_safe: "safe_pass (p_pragma_wrap k)"
  unfolding safe_pass_def
proof (intro allI impI)
  fix ctx ds es ds' assume ok: "ctx_ok ctx" and run: "p_pragma_wrap k ctx ds = Inr (Some es, ds')"
  obtain ts fn pre post where ts: "pragma_targets k ctx = Inr ts" "fn \<in> set ts"
    and es: "es = [(int (start_byte fn), int (start_byte fn), pre), (int (end_byte fn), int (end_byte fn), post)]"
    using run unfolding p_pragma_wrap_def
    by (auto simp: rbind_Inr_iff split: if_split_asm prod.split_asm dest!: rng_choice_in)
  have "fn \<in> set (iter_subtree (ctx_root ctx))"
    using ts by (auto simp: pragma_targets_def Let_def split: option.split_asm if_split_asm dest!: pragma_filter_subset)
  then have "node_in (ctx_src ctx) fn"
    using ok iter_subtree_ok [of "ctx_root ctx" fn] node_ok_in [of fn "ctx_src ctx"]
    by (simp add: ctx_ok_def)
  then show "safe_edits (ctx_src ctx) es"
    by (auto simp: es safe_edits_def edit_in_def node_in_def)
qed

section \<open>One mutation step\<close>

text \<open>The twelve passes of the development with their weights in \<open>PASSES\<close>.\<close>

definition modelled_passes :: "nat \<Rightarrow> (string \<times> pass \<times> rat) list" where
  "modelled_passes k =
     [(''reorder_decls'', p_reorder_decls, 10), (''reorder_stmts'', p_reorder_stmts, 10),
      (''fold_duplicate_assignment'', p_fold_duplicate_assignment, 6),
      (''commutative'', p_commutative, 5), (''add_sub'', p_add_sub, 5),
      (''struct_ref'', p_struct_ref, 5), (''compound_assignment'', p_compound_assignment, 4),
      (''pragma_wrap'', p_pragma_wrap k, 4), (''condition'', p_condition, 4),
      (''bool_return_literal'', p_bool_return_literal, 4), (''remove_cast'', p_remove_cast, 3),
      (''pad_var_decl'', p_pad_var_decl, 2)]"

lemmas passes_safe = reorder_safe fold_duplicate_safe commutative_safe add_sub_safe struct_ref_safe
  compound_assignment_safe pragma_wrap_safe condition_safe bool_return_safe remove_cast_safe
  pad_var_decl_safe

lemma modelled_passes_safe: "(name, p, w) \<in> set (modelled_passes k) \<Longrightarrow> safe_pass p"
  using passes_safe by (auto simp: modelled_passes_def)

lemma weight_index_less: "ws \<noteq> [] \<Longrightarrow> weight_index r acc k ws < k + length ws"
proof (induction ws arbitrary: acc k)
  case (Cons w ws)
  show ?case
  proof (cases "ws = []")
    case False
    then show ?thesis using Cons.IH [of "acc + w" "k + 1"] by simp
  qed simp
qed simp

lemma draw_pass_less: "draw_pass pool ds = Inr (i, ds') \<Longrightarrow> pool \<noteq> [] \<Longrightarrow> i < length pool"
  using weight_index_less [of "map (snd \<circ> snd) pool" _ 0 0]
  by (auto simp: draw_pass_def rbind_Inr_iff Let_def)

lemma try_edits_Some:
  "try_edits src name edits = Some r \<Longrightarrow>
     edits = Some (mr_edits r) \<and> mr_edits r \<noteq> [] \<and> apply_edits src (mr_edits r) = Inr (mr_source r)
     \<and> mr_source r \<noteq> src \<and> mr_pass_name r = name"
  by (auto simp: try_edits_def split: option.splits if_splits sum.splits)

lemma set_drop_nth: "i < length ps \<Longrightarrow> set (take i ps @ drop (Suc i) ps) \<subseteq> set ps"
  using set_take_subset [of i ps] set_drop_subset [of "Suc i" ps] by auto

text \<open>A mutation is what one of the passes asked for, and it changes the source.\<close>

lemma step_loop_result:
  "step_loop k ctx pool ds = Inr (Some r, ds') \<Longrightarrow>
     apply_edits (ctx_src ctx) (mr_edits r) = Inr (mr_source r) \<and> mr_source r \<noteq> ctx_src ctx \<and>
     (\<exists>f w ds1 ds2. (mr_pass_name r, f, w) \<in> set pool \<and> f ctx ds1 = Inr (Some (mr_edits r), ds2))"
proof (induction k ctx pool ds rule: step_loop.induct)
  case (3 k ctx p ps ds)
  obtain i ds1 where i: "draw_pass (p # ps) ds = Inr (i, ds1)"
    using "3.prems" by (auto split: sum.splits)
  have il: "i < length (p # ps)" using draw_pass_less [OF i] by simp
  obtain name f w where pick: "(p # ps) ! i = (name, f, w)" by (cases "(p # ps) ! i")
  have mem: "(name, f, w) \<in> set (p # ps)" using nth_mem [OF il] by (simp only: pick)
  let ?rest = "take i (p # ps) @ drop (Suc i) (p # ps)"
  show ?case
  proof (cases "\<exists>es ds2. f ctx ds1 = Inr (es, ds2) \<and> try_edits (ctx_src ctx) name es \<noteq> None")
    case True
    then obtain es ds2 where f: "f ctx ds1 = Inr (es, ds2)" "try_edits (ctx_src ctx) name es = Some r"
      using "3.prems" i pick by (auto simp: Let_def)
    then show ?thesis using try_edits_Some [OF f(2)] mem by blast
  next
    case False
    then have "\<exists>ds2. step_loop k ctx ?rest ds2 = Inr (Some r, ds') \<and> ((\<exists>e. f ctx ds1 = Inl e \<and> e \<noteq> OutOfFuel \<and> ds2 = ds1)
        \<or> (\<exists>es. f ctx ds1 = Inr (es, ds2) \<and> try_edits (ctx_src ctx) name es = None))"
      using "3.prems" i pick by (auto simp: Let_def split: sum.splits if_splits)
    then have "(\<exists>f w ds1 ds2. (mr_pass_name r, f, w) \<in> set ?rest \<and> f ctx ds1 = Inr (Some (mr_edits r), ds2))
        \<and> apply_edits (ctx_src ctx) (mr_edits r) = Inr (mr_source r) \<and> mr_source r \<noteq> ctx_src ctx"
      using "3.IH" [OF i refl refl] pick by (metis (no_types, lifting) prod.inject)
    then show ?thesis using set_drop_nth [OF il] by blast
  qed
qed simp_all

lemma step_result_applied:
  assumes "step_result parse m src tree fn types ds = Inr (Some r, ds')"
  shows "apply_edits src (mr_edits r) = Inr (mr_source r)" "mr_source r \<noteq> src"
  using assms step_loop_result
  by (fastforce simp: step_result_def Let_def split: option.splits)+

section \<open>Lines before a function\<close>

lemma rfind_nl_less: "0 \<le> hi \<Longrightarrow> rfind_nl src hi < hi"
  by (auto simp: rfind_nl_def py_slice_to_def clamp_index_def Let_def)

lemma rfind_nl_ge: "- 1 \<le> rfind_nl src hi"
  using length_takeWhile_le [of "\<lambda>c. c \<noteq> newline" "rev (py_slice_to src hi)"]
  by (simp add: rfind_nl_def Let_def)

lemma rfind_nl_zero: "rfind_nl src hi = 0 \<Longrightarrow> src \<noteq> [] \<and> hd src = newline"
proof -
  assume z: "rfind_nl src hi = 0"
  define s where "s = py_slice_to src hi"
  have len: "length (takeWhile (\<lambda>c. c \<noteq> newline) (rev s)) + 1 = length s"
    using z by (simp add: rfind_nl_def Let_def s_def)
  then have "rev s ! length (takeWhile (\<lambda>c. c \<noteq> newline) (rev s)) = newline"
    using nth_length_takeWhile [of "\<lambda>c. c \<noteq> newline" "rev s"] by simp
  then have "s ! 0 = newline" using len by (simp add: rev_nth)
  moreover have "s \<noteq> []" using len by auto
  ultimately show ?thesis
    by (cases src) (auto simp: s_def py_slice_to_def take_Cons' split: if_splits)
qed

lemma bytes_strip_hd: "s \<noteq> [] \<Longrightarrow> \<not> bytes_space (hd s) \<Longrightarrow> bytes_strip s \<noteq> []"
  by (cases s) (auto simp: bytes_strip_def dropWhile_eq_Nil_conv)

lemma prev_line_loop_ends:
  assumes "src \<noteq> []" "\<not> bytes_space (hd src)"
  shows "\<lbrakk>e < int k; e = rfind_nl src hi\<rbrakk> \<Longrightarrow> \<exists>l. prev_line_loop (Suc k) src pos e = Inr l"
proof (induction k arbitrary: e hi)
  case 0
  then show ?case by simp
next
  case (Suc k)
  have nz: "e \<noteq> 0"
    using rfind_nl_zero [of src hi] assms Suc.prems(2) by (auto simp: bytes_space_def ccode_def)
  let ?s = "rfind_nl src e + 1"
  show ?case
  proof (cases "e < 0")
    case False
    show ?thesis
    proof (cases "?s = 0")
      case True
      have "py_slice src ?s e = take (min (length src) (nat e)) src"
        using False unfolding True by (simp add: py_slice_to_def clamp_index_nonneg)
      then have "bytes_strip (py_slice src ?s e) \<noteq> []"
        using assms nz False by (intro bytes_strip_hd) (cases src; auto simp: take_Cons' min_def)+
      then show ?thesis using False by (auto simp: Let_def)
    next
      case nz': False
      then have "0 \<le> ?s - 1" using rfind_nl_ge [of src e] by simp
      then have "rfind_nl src (?s - 1) < int k"
        using rfind_nl_less [of "?s - 1" src] rfind_nl_less [of e src] False Suc.prems(1) by simp
      from Suc.IH [OF this refl] show ?thesis using False by (auto simp: Let_def)
    qed
  qed simp
qed

lemma prev_line_stuck:
  assumes "src = newline # r @ [c]" "newline \<notin> set r"
  shows "prev_line_loop k src pos 0 = Inl OutOfFuel"
proof (induction k)
  case (Suc k)
  have "takeWhile (\<lambda>c. c \<noteq> newline) (rev r @ [newline]) = rev r"
    using assms(2) by (simp add: takeWhile_append)
  then have "rfind_nl src (- 1) = 0" "rfind_nl src 0 = - 1"
    by (simp_all add: rfind_nl_def py_slice_to_def clamp_index_def Let_def assms(1) nat_add_distrib)
  then show ?case using Suc by (simp add: Let_def py_slice_to_def bytes_strip_def)
qed simp

text \<open>
  C35: \<open>_prev_nonblank_line\<close> returns on every source that starts with a nonblank byte, within as many
  rounds as there are bytes before the position.  On a source that starts with an empty line and has
  no other line end but possibly its last byte it never returns: on the first line the bound
  \<open>start - 1\<close> is \<open>-1\<close>, which \<open>rfind\<close> counts from the end of the source.
\<close>

theorem prev_nonblank_line_outcome:
  "(src \<noteq> [] \<and> \<not> bytes_space (hd src) \<longrightarrow> (\<exists>l. prev_nonblank_line (Suc pos) src pos = Inr l)) \<and>
   (newline \<notin> set r \<and> 0 < n \<and> n \<le> Suc (length r) \<longrightarrow>
      prev_nonblank_line k (newline # r @ [c]) n = Inl OutOfFuel)"
proof (intro conjI impI)
  assume "src \<noteq> [] \<and> \<not> bytes_space (hd src)"
  moreover have "rfind_nl src (int pos) < int pos" by (rule rfind_nl_less) simp
  ultimately show "\<exists>l. prev_nonblank_line (Suc pos) src pos = Inr l"
    using prev_line_loop_ends [OF _ _ _ refl] by (simp add: prev_nonblank_line_def)
next
  assume a: "newline \<notin> set r \<and> 0 < n \<and> n \<le> Suc (length r)"
  let ?t = "take (n - 1) r"
  have "take n (newline # r @ [c]) = newline # ?t" using a by (cases n) auto
  moreover have "newline \<notin> set ?t" using a in_set_takeD by fastforce
  then have "takeWhile (\<lambda>c. c \<noteq> newline) (rev ?t @ [newline]) = rev ?t" by (simp add: takeWhile_append)
  ultimately have "rfind_nl (newline # r @ [c]) (int n) = 0"
    by (simp add: rfind_nl_def Let_def)
  then show "prev_nonblank_line k (newline # r @ [c]) n = Inl OutOfFuel"
    using prev_line_stuck [OF refl, of r] a by (simp add: prev_nonblank_line_def)
qed

theorem prev_nonblank_line_outcome_witness:
  "\<not> bytes_space (hd ''#include'') \<and> (\<exists>l. prev_nonblank_line 4 ''#include'' 3 = Inr l) \<and>
   (\<forall>k. prev_nonblank_line k (newline # ''void f(void) {}'' @ [newline]) 1 = Inl OutOfFuel)"
proof -
  have "(\<exists>l. prev_nonblank_line 4 ''#include'' 3 = Inr l) \<and>
        prev_nonblank_line k (newline # ''void f(void) {}'' @ [newline]) 1 = Inl OutOfFuel" for k
    using prev_nonblank_line_outcome [of "''#include''" 3 "''void f(void) {}''" 1 k newline]
    by (simp add: bytes_space_def ccode_def numeral_eq_Suc)
  then show ?thesis by (simp add: bytes_space_def ccode_def)
qed

section \<open>Splicing the edits of a pass\<close>

text \<open>A sample: the assignment \<open>x -= a - b\<close>, as the body of a function.\<close>

definition leaf :: "string \<Rightarrow> nat \<Rightarrow> nat \<Rightarrow> node" where
  "leaf t s e = Node t s e []"

definition binary :: "node \<Rightarrow> nat \<Rightarrow> node \<Rightarrow> node" where
  "binary l p r = Node ''binary_expression'' (start_byte l) (end_byte r)
     [(Some ''left'', True, l), (Some ''operator'', False, leaf ''op'' p (p + 1)), (Some ''right'', True, r)]"

definition whole :: "node \<Rightarrow> node" where
  "whole n = Node ''function_definition'' (start_byte n) (end_byte n) [(Some ''body'', True, n)]"

definition sample_ctx :: "bytes \<Rightarrow> node \<Rightarrow> ctx" where
  "sample_ctx src n = \<lparr>ctx_src = src, ctx_root = whole n, ctx_fn = whole n, ctx_types = None\<rparr>"

definition sample_quotient :: ctx where
  "sample_quotient = sample_ctx ''a / b * c''
     (binary (binary (leaf ''identifier'' 0 1) 2 (leaf ''identifier'' 4 5)) 6 (leaf ''identifier'' 8 9))"

definition sample_difference :: ctx where
  "sample_difference = sample_ctx ''x -= a - b''
     (Node ''assignment_expression'' 0 10
        [(Some ''left'', True, leaf ''identifier'' 0 1), (Some ''operator'', False, leaf ''-='' 2 4),
         (Some ''right'', True, binary (leaf ''identifier'' 5 6) 7 (leaf ''identifier'' 9 10))])"

definition sample_condition :: ctx where
  "sample_condition = sample_ctx ''if (x = y) f();''
     (Node ''if_statement'' 0 15
        [(Some ''condition'', True, Node ''parenthesized_expression'' 3 10
           [(None, True, Node ''assignment_expression'' 4 9
              [(Some ''left'', True, leaf ''identifier'' 4 5), (Some ''operator'', False, leaf ''='' 6 7),
               (Some ''right'', True, leaf ''identifier'' 8 9)])])])"

lemmas sample_defs = sample_quotient_def sample_difference_def sample_condition_def sample_ctx_def
  whole_def binary_def leaf_def iter_subtree_def named_children_def node_field_def only_named_def
  node_text_def span_edit_def

lemma sample_quotient_run:
  "p_commutative sample_quotient [0] = Inr (Some [(0, 5, ''c''), (8, 9, ''a / b'')], [])"
  by code_simp

text \<open>
  C17: on a tree whose nodes are nonempty, nested and in order, no modelled pass asks for overlapping
  edits.  Its edits cut the source into kept and replaced pieces, and \<open>apply_edits\<close> returns the
  source with the replaced pieces exchanged and every other byte kept.
\<close>

theorem pass_edits_spliced:
  assumes "ctx_ok ctx" "(name, p, w) \<in> set (modelled_passes k)" "p ctx ds = Inr (Some es, ds')"
  shows "\<exists>l t. ctx_src ctx = layout_before l @ t \<and> sort_key fst es = layout_edits 0 l
               \<and> apply_edits (ctx_src ctx) es = Inr (layout_after l @ t)"
proof -
  have "safe_edits (ctx_src ctx) es"
    using modelled_passes_safe [OF assms(2)] assms unfolding safe_pass_def by blast
  then show ?thesis
    using apply_edits_cases [of es "ctx_src ctx"] by (simp add: safe_edits_def)
qed

theorem pass_edits_spliced_witness:
  "ctx_ok sample_quotient \<and>
   (\<exists>l t. ''a / b * c'' = layout_before l @ t
        \<and> apply_edits ''a / b * c'' [(0, 5, ''c''), (8, 9, ''a / b'')] = Inr (layout_after l @ t))"
proof -
  have "ctx_ok sample_quotient" by (simp add: ctx_ok_def sample_defs)
  then show ?thesis
    using pass_edits_spliced [of sample_quotient "''commutative''" p_commutative 5 0 "[0]"]
      sample_quotient_run
    by (auto simp: modelled_passes_def sample_quotient_def sample_ctx_def)
qed

text \<open>
  Three passes rewrite the text of an expression without the parentheses that its structure
  needs.  Exchanging the operands of \<open>a / b * c\<close> gives \<open>c * a / b\<close>, expanding \<open>x -= a - b\<close> gives
  \<open>x = x - a - b\<close>, and adding a comparison to the condition \<open>x = y\<close> gives \<open>x = y != 0\<close>.
\<close>

theorem passes_lose_structure:
  "map_option (apply_edits ''a / b * c'') (fst (projr (p_commutative sample_quotient [0])))
     = Some (Inr ''c * a / b'') \<and>
   map_option (apply_edits ''x -= a - b'') (fst (projr (p_compound_assignment sample_difference [0])))
     = Some (Inr ''x = x - a - b'') \<and>
   map_option (apply_edits ''if (x = y) f();'') (fst (projr (p_condition sample_condition [0])))
     = Some (Inr ''if (x = y != 0) f();'')"
  by code_simp

end
