(* ===== verification/Permute_Search.thy ===== *)
theory Permute_Search
  imports Permute_Narrow Mutate_Props
begin

text \<open>
  The search of \<open>tools/permute.py\<close>: worker threads that mutate the shared anchor source, have the
  candidates compiled and scored, keep the best one and move the anchor.  The state is the \<open>Shared\<close>
  object and the local variables of every worker.  A step of a worker is a piece of its loop with at
  most one access to the shared state under the lock; the workers interleave step by step.  What the
  random generator draws, how the compiler and the scoring server answer and what clang says about a
  candidate are choices of the step.
\<close>

section \<open>Shared state\<close>

datatype reanchor_mode = ReanchorOff | ReanchorImprove | ReanchorNovel

record shared =
  base_key :: score_key
  base_source :: bytes
  max_iters :: "nat option"
  batch :: nat
  anchor_source :: bytes
  anchor_types :: "((nat \<times> nat) \<times> string) list option"
  anchor_split :: nat
  anchor_score :: int
  anchor_key :: score_key
  anchor_trace :: replay_trace
  anchor_version :: nat
  last_reanchor_iter :: int
  reanchor_mode :: reanchor_mode
  stop :: bool
  best_score :: int
  best_key :: score_key
  best_source :: "bytes option"
  best_trace :: "replay_trace option"
  iters :: nat
  compiles_failed :: nat
  score_errs :: nat
  n_reanchor :: nat
  n_mutate_none :: nat
  n_dup :: nat
  seen_source :: "string list"
  seen_asm :: "string list"

definition new_shared ::
  "score_key \<Rightarrow> bytes \<Rightarrow> nat option \<Rightarrow> nat \<Rightarrow> ((nat \<times> nat) \<times> string) list option \<Rightarrow> nat \<Rightarrow> reanchor_mode \<Rightarrow> shared" where
  "new_shared key src limit k types split mode =
     \<lparr>base_key = key, base_source = src, max_iters = limit, batch = max 1 k,
      anchor_source = src, anchor_types = types, anchor_split = split, anchor_score = raw key,
      anchor_key = key, anchor_trace = [], anchor_version = 0, last_reanchor_iter = - (10 ^ 9),
      reanchor_mode = mode, stop = False, best_score = raw key, best_key = key, best_source = None,
      best_trace = None, iters = 0, compiles_failed = 0, score_errs = 0, n_reanchor = 0,
      n_mutate_none = 0, n_dup = 0, seen_source = [], seen_asm = []\<rparr>"

definition REANCHOR_VALLEY_MARGIN :: int where
  "REANCHOR_VALLEY_MARGIN = 120"

definition REANCHOR_COOLDOWN :: int where
  "REANCHOR_COOLDOWN = 25"

definition SEEN_LIMIT :: nat where
  "SEEN_LIMIT = 200000"

section \<open>Workers\<close>

type_synonym candidate = "bytes \<times> replay_trace"
type_synonym reanchor_cand = "bytes \<times> score_key \<times> bool \<times> replay_trace"

datatype phase =
    PStart | PTop | PBuild | PDedup candidate | PScore "candidate list"
  | PScoring candidate "candidate list" | PAfter | PReanchor reanchor_cand | PRetype reanchor_cand
  | PSwap reanchor_cand "((nat \<times> nat) \<times> string) list" nat | PRefresh | PFinal | PDone

record worker =
  phase :: phase
  av :: int
  a_src :: bytes
  a_types :: "((nat \<times> nat) \<times> string) list option"
  a_trace :: replay_trace
  cur :: bytes
  cur_trace :: replay_trace
  at_anchor :: bool
  cands :: "candidate list"
  attempts :: nat
  picked :: "reanchor_cand option"
  n_none :: nat

definition new_worker :: worker where
  "new_worker =
     \<lparr>phase = PStart, av = - 1, a_src = [], a_types = None, a_trace = [], cur = [], cur_trace = [],
      at_anchor = True, cands = [], attempts = 0, picked = None, n_none = 0\<rparr>"

text \<open>
  \<open>cur is a_src\<close> compares objects, so it is a flag: it holds after \<open>cur = a_src\<close> and not after
  \<open>cur = cand\<close>, which is a new object.
\<close>

definition back_to_anchor :: "worker \<Rightarrow> worker" where
  "back_to_anchor w = w\<lparr>cur := a_src w, cur_trace := a_trace w, at_anchor := True\<rparr>"

definition refresh :: "shared \<Rightarrow> worker \<Rightarrow> worker" where
  "refresh sh w =
     w\<lparr>a_src := anchor_source sh, a_types := anchor_types sh, a_trace := anchor_trace sh,
       av := int (anchor_version sh)\<rparr>"

definition start_batch :: "worker \<Rightarrow> worker" where
  "start_batch w = w\<lparr>phase := PBuild, cands := [], attempts := 0\<rparr>"

definition w_top :: "shared \<Rightarrow> worker \<Rightarrow> worker" where
  "w_top sh w =
     (if stop sh then w\<lparr>phase := PFinal\<rparr>
      else start_batch (if int (anchor_version sh) \<noteq> av w then back_to_anchor (refresh sh w) else w))"

text \<open>The environment: the hash, the parser, and the mutators with their twins for the frame.\<close>

record search_env =
  env_sha256 :: "bytes \<Rightarrow> string"
  env_parse :: "bytes \<Rightarrow> node"
  env_mutators :: "string \<Rightarrow> mutator"
  env_frame_mutators :: "string \<Rightarrow> mutator"

definition frame_only :: "score_key \<Rightarrow> bool" where
  "frame_only ak = (breakdown ak \<and> hard ak = 0 \<and> regswap ak = 0 \<and> stack ak > 0)"

text \<open>
  One attempt to build a candidate: \<open>restart\<close> is the outcome of \<open>rng.random() >= keep_prob\<close>,
  \<open>mfn\<close> the function drawn and \<open>ds\<close> what the pass draws.
\<close>

definition w_attempt :: "bool \<Rightarrow> worker \<Rightarrow> worker" where
  "w_attempt restart w0 =
     (let w = w0\<lparr>attempts := attempts w0 + 1\<rparr>
      in if \<not> at_anchor w \<and> restart then back_to_anchor w else w)"

definition run_mutator ::
  "search_env \<Rightarrow> shared \<Rightarrow> string \<Rightarrow> worker \<Rightarrow> mutation_result option rand" where
  "run_mutator env sh mfn w =
     (let m = (if frame_only (anchor_key sh) then env_frame_mutators env mfn else env_mutators env mfn);
          tree = env_parse env (a_src w)
      in if at_anchor w
         then step_result (env_parse env) m (cur w) (Some tree) (find_function (a_src w) tree mfn) (a_types w)
         else step_result (env_parse env) m (cur w) None None None)"

definition w_extend :: "search_env \<Rightarrow> string \<Rightarrow> mutation_result option \<Rightarrow> worker \<Rightarrow> worker" where
  "w_extend env mfn result w =
     (case result of
        None \<Rightarrow> (back_to_anchor w)\<lparr>n_none := n_none w + 1\<rparr>
      | Some r \<Rightarrow>
          let cand = mr_source r;
              cand_trace = cur_trace w @
                [make_replay_step (env_sha256 env) ''mutation'' (Some mfn) (mr_pass_name r) (cur w)
                   (mr_edits r) cand None]
          in w\<lparr>cur := cand, cur_trace := cand_trace, at_anchor := False, phase := PDedup (cand, cand_trace)\<rparr>)"

definition w_mutate :: "search_env \<Rightarrow> shared \<Rightarrow> bool \<Rightarrow> string \<Rightarrow> nat list \<Rightarrow> worker \<Rightarrow> worker res" where
  "w_mutate env sh restart mfn ds w0 =
     (let w = w_attempt restart w0
      in ebind (run_mutator env sh mfn w ds) (\<lambda>(result, ds'). Inr (w_extend env mfn result w)))"

definition w_dedup :: "search_env \<Rightarrow> candidate \<Rightarrow> shared \<Rightarrow> worker \<Rightarrow> shared \<times> worker" where
  "w_dedup env c sh w =
     (let h = env_sha256 env (fst c)
      in if h \<in> set (seen_source sh)
         then (sh\<lparr>n_dup := n_dup sh + 1\<rparr>, w\<lparr>phase := PBuild\<rparr>)
         else (sh\<lparr>seen_source := (if length (seen_source sh) < SEEN_LIMIT then h # seen_source sh else seen_source sh)\<rparr>,
               w\<lparr>phase := PBuild, cands := cands w @ [c]\<rparr>))"

definition building :: "shared \<Rightarrow> worker \<Rightarrow> bool" where
  "building sh w = (length (cands w) < batch sh \<and> attempts w < batch sh * 4)"

definition w_compile :: "worker \<Rightarrow> worker" where
  "w_compile w = (if cands w = [] then w\<lparr>phase := PTop\<rparr> else w\<lparr>phase := PScore (cands w), picked := None\<rparr>)"

definition w_next :: "shared \<Rightarrow> candidate list \<Rightarrow> worker \<Rightarrow> worker" where
  "w_next sh pending w =
     (case pending of
        [] \<Rightarrow> w\<lparr>phase := PAfter\<rparr>
      | c # rest \<Rightarrow> if stop sh then w\<lparr>phase := PAfter\<rparr> else w\<lparr>phase := PScoring c rest\<rparr>)"

text \<open>
  What becomes of a candidate: no object, a vanished object, or the answer of the server.  A line that
  \<open>ObjdiffScorer.score\<close> cannot read raises an exception that the worker does not catch; it leaves the
  loop through its last \<open>finally\<close>.
\<close>

datatype answer = NoObject | Vanished | BadObject | PipeGone | Garbled | Answer score_key string

text \<open>The section under the lock after a candidate was scored.\<close>

definition record_score :: "score_key \<Rightarrow> string \<Rightarrow> candidate \<Rightarrow> shared \<Rightarrow> shared" where
  "record_score key asm_hash c sh0 =
     (let sh1 = sh0\<lparr>iters := iters sh0 + 1\<rparr>;
          novel = (asm_hash \<notin> set (seen_asm sh1));
          sh2 = (if novel \<and> length (seen_asm sh1) < SEEN_LIMIT
                 then sh1\<lparr>seen_asm := asm_hash # seen_asm sh1\<rparr> else sh1);
          sh3 = (if key < best_key sh2
                 then sh2\<lparr>best_score := raw key, best_key := key, best_source := Some (fst c), best_trace := Some (snd c)\<rparr>
                 else sh2);
          sh4 = (if raw key = 0 then sh3\<lparr>stop := True\<rparr> else sh3)
      in case max_iters sh4 of
           None \<Rightarrow> sh4
         | Some n \<Rightarrow> if iters sh4 \<ge> n then sh4\<lparr>stop := True\<rparr> else sh4)"

definition pick_anchor :: "score_key \<Rightarrow> bool \<Rightarrow> bool \<Rightarrow> int \<Rightarrow> candidate \<Rightarrow> shared \<Rightarrow> worker \<Rightarrow> worker" where
  "pick_anchor key improved novel b_score c sh w =
     (let take_it = (improved \<or> reanchor_mode sh = ReanchorNovel \<and> novel \<and> raw key \<le> b_score + REANCHOR_VALLEY_MARGIN)
      in if raw key \<noteq> 0 \<and> reanchor_mode sh \<noteq> ReanchorOff \<and> take_it
            \<and> (case picked w of None \<Rightarrow> True | Some (_, k, _) \<Rightarrow> key < k)
         then w\<lparr>picked := Some (fst c, key, improved, snd c)\<rparr> else w)"

definition w_answer :: "answer \<Rightarrow> candidate \<Rightarrow> candidate list \<Rightarrow> shared \<Rightarrow> worker \<Rightarrow> shared \<times> worker" where
  "w_answer a c rest sh w =
     (let w = w\<lparr>phase := PScore rest\<rparr> in
      case a of
        NoObject \<Rightarrow> (sh\<lparr>compiles_failed := compiles_failed sh + 1\<rparr>, w)
      | Vanished \<Rightarrow> (sh, w)
      | BadObject \<Rightarrow> (sh\<lparr>score_errs := score_errs sh + 1\<rparr>, w)
      | PipeGone \<Rightarrow> (sh\<lparr>stop := True\<rparr>, w\<lparr>phase := PAfter\<rparr>)
      | Garbled \<Rightarrow> (sh, w\<lparr>phase := PFinal\<rparr>)
      | Answer key asm_hash \<Rightarrow>
          let sh' = record_score key asm_hash c sh
          in (sh', pick_anchor key (key < best_key sh) (asm_hash \<notin> set (seen_asm sh)) (best_score sh') c sh' w))"

definition w_after :: "shared \<Rightarrow> worker \<Rightarrow> worker" where
  "w_after sh w =
     (case picked w of
        None \<Rightarrow> w\<lparr>phase := PTop\<rparr>
      | Some r \<Rightarrow> if stop sh then w\<lparr>phase := PTop\<rparr> else w\<lparr>phase := PReanchor r\<rparr>)"

section \<open>Moving the anchor\<close>

definition out_of_reach :: "score_key \<Rightarrow> shared \<Rightarrow> bool" where
  "out_of_reach key sh =
     (raw key > best_score sh + REANCHOR_VALLEY_MARGIN
      \<or> int (iters sh) - last_reanchor_iter sh < REANCHOR_COOLDOWN)"

definition reanchor_check :: "reanchor_cand \<Rightarrow> shared \<Rightarrow> worker \<Rightarrow> worker" where
  "reanchor_check r sh w =
     (case r of (cand, key, improved, trace) \<Rightarrow>
        if \<not> improved \<and> out_of_reach key sh then w\<lparr>phase := PRefresh\<rparr> else w\<lparr>phase := PRetype r\<rparr>)"

text \<open>\<open>_retype\<close> gives nothing when clang fails, and an empty table counts as nothing.\<close>

definition reanchor_typed ::
  "((nat \<times> nat) \<times> string) list option \<Rightarrow> search_env \<Rightarrow> reanchor_cand \<Rightarrow> worker \<Rightarrow> worker" where
  "reanchor_typed types env r w =
     (case types of
        None \<Rightarrow> w\<lparr>phase := PRefresh\<rparr>
      | Some ts \<Rightarrow> if ts = [] then w\<lparr>phase := PRefresh\<rparr>
                   else w\<lparr>phase := PSwap r ts (prefix_split (fst r) (env_parse env (fst r)))\<rparr>)"

definition reanchor_swap ::
  "reanchor_cand \<Rightarrow> ((nat \<times> nat) \<times> string) list \<Rightarrow> nat \<Rightarrow> shared \<Rightarrow> shared" where
  "reanchor_swap r types split sh =
     (case r of (cand, key, improved, trace) \<Rightarrow>
        if (if improved then key \<le> anchor_key sh else \<not> out_of_reach key sh)
        then sh\<lparr>anchor_source := cand, anchor_types := Some types, anchor_split := split,
                anchor_score := raw key, anchor_key := key, anchor_trace := trace,
                anchor_version := anchor_version sh + 1, last_reanchor_iter := int (iters sh),
                n_reanchor := n_reanchor sh + 1\<rparr>
        else sh)"

section \<open>Steps\<close>

text \<open>
  \<open>w_step env answers sh w sh' w'\<close>: a worker step.  \<open>answers c key\<close> says which ranks the server
  may give to a candidate.
\<close>

inductive w_step ::
  "search_env \<Rightarrow> (bytes \<Rightarrow> score_key \<Rightarrow> bool) \<Rightarrow> shared \<Rightarrow> worker \<Rightarrow> shared \<Rightarrow> worker \<Rightarrow> bool"
  for env answers where
  Start: "phase w = PStart \<Longrightarrow> w_step env answers sh w sh (back_to_anchor (refresh sh w)\<lparr>phase := PTop\<rparr>)"
| Top: "phase w = PTop \<Longrightarrow> w_step env answers sh w sh (w_top sh w)"
| Mutate: "\<lbrakk>phase w = PBuild; building sh w; w_mutate env sh restart mfn ds w = Inr w'\<rbrakk>
           \<Longrightarrow> w_step env answers sh w sh w'"
| Dedup: "\<lbrakk>phase w = PDedup c; w_dedup env c sh w = (sh', w')\<rbrakk> \<Longrightarrow> w_step env answers sh w sh' w'"
| Compile: "\<lbrakk>phase w = PBuild; \<not> building sh w\<rbrakk> \<Longrightarrow> w_step env answers sh w sh (w_compile w)"
| Next: "phase w = PScore pending \<Longrightarrow> w_step env answers sh w sh (w_next sh pending w)"
| Result: "\<lbrakk>phase w = PScoring c rest; \<forall>key h. a = Answer key h \<longrightarrow> answers (fst c) key;
            w_answer a c rest sh w = (sh', w')\<rbrakk> \<Longrightarrow> w_step env answers sh w sh' w'"
| After: "phase w = PAfter \<Longrightarrow> w_step env answers sh w sh (w_after sh w)"
| Check: "phase w = PReanchor r \<Longrightarrow> w_step env answers sh w sh (reanchor_check r sh w)"
| Typed: "phase w = PRetype r \<Longrightarrow> w_step env answers sh w sh (reanchor_typed types env r w)"
| Swap: "phase w = PSwap r ts split \<Longrightarrow> w_step env answers sh w (reanchor_swap r ts split sh) (w\<lparr>phase := PRefresh\<rparr>)"
| Refresh: "phase w = PRefresh \<Longrightarrow> w_step env answers sh w sh (back_to_anchor (refresh sh w)\<lparr>phase := PTop\<rparr>)"
| Final: "phase w = PFinal \<Longrightarrow>
    w_step env answers sh w (sh\<lparr>n_mutate_none := n_mutate_none sh + n_none w\<rparr>) (w\<lparr>phase := PDone\<rparr>)"

inductive_cases w_stepE: "w_step env answers sh w sh' w'"

text \<open>A step of the program: a step of a worker, or a request to stop (signal, timeout, the end of \<open>main\<close>).\<close>

inductive sys_step ::
  "search_env \<Rightarrow> (bytes \<Rightarrow> score_key \<Rightarrow> bool) \<Rightarrow> shared \<times> worker list \<Rightarrow> shared \<times> worker list \<Rightarrow> bool"
  for env answers where
  Worker: "\<lbrakk>i < length ws; w_step env answers sh (ws ! i) sh' w'\<rbrakk>
           \<Longrightarrow> sys_step env answers (sh, ws) (sh', ws[i := w'])"
| Stop: "sys_step env answers (sh, ws) (sh\<lparr>stop := True\<rparr>, ws)"

inductive_cases sys_stepE: "sys_step env answers (sh, ws) s'"

inductive reachable ::
  "search_env \<Rightarrow> (bytes \<Rightarrow> score_key \<Rightarrow> bool) \<Rightarrow> shared \<Rightarrow> nat \<Rightarrow> shared \<times> worker list \<Rightarrow> bool"
  for env answers sh0 jobs where
  Init: "reachable env answers sh0 jobs (sh0, replicate jobs new_worker)"
| Step: "reachable env answers sh0 jobs s \<Longrightarrow> sys_step env answers s s' \<Longrightarrow> reachable env answers sh0 jobs s'"

end
