(* ===== verification/Search_Props.thy ===== *)
theory Search_Props
  imports Permute_Search
begin

text \<open>
  Invariants of the search.  The laws a log of mutations has to satisfy are a locale; the workers keep
  every log they hold true under these laws, and the replay of a trace is an interpretation of it.
\<close>

section \<open>Logs\<close>

fun phase_cands :: "phase \<Rightarrow> candidate list" where
  "phase_cands (PDedup c) = [c]"
| "phase_cands (PScore cs) = cs"
| "phase_cands (PScoring c cs) = c # cs"
| "phase_cands (PReanchor (s, k, i, t)) = [(s, t)]"
| "phase_cands (PRetype (s, k, i, t)) = [(s, t)]"
| "phase_cands (PSwap (s, k, i, t) ts n) = [(s, t)]"
| "phase_cands _ = []"

definition worker_cands :: "worker \<Rightarrow> candidate set" where
  "worker_cands w =
     set (phase_cands (phase w)) \<union> set (cands w)
     \<union> (case picked w of None \<Rightarrow> {} | Some (s, k, i, t) \<Rightarrow> {(s, t)})
     \<union> (if phase w = PStart then {} else {(a_src w, a_trace w), (cur w, cur_trace w)})"

section \<open>Recording a score\<close>

lemma record_score_fields [simp]:
  "anchor_source (record_score key h c sh) = anchor_source sh"
  "anchor_trace (record_score key h c sh) = anchor_trace sh"
  by (simp_all add: record_score_def Let_def split: option.split)

lemma record_score_best:
  "best_source (record_score key h c sh) = (if key < best_key sh then Some (fst c) else best_source sh)"
  "best_trace (record_score key h c sh) = (if key < best_key sh then Some (snd c) else best_trace sh)"
  "best_key (record_score key h c sh) = (if key < best_key sh then key else best_key sh)"
  "best_score (record_score key h c sh) = (if key < best_key sh then raw key else best_score sh)"
  by (simp_all add: record_score_def Let_def split: option.split)

lemma record_score_other [simp]:
  "base_source (record_score key h c sh) = base_source sh" "base_key (record_score key h c sh) = base_key sh"
  "max_iters (record_score key h c sh) = max_iters sh" "batch (record_score key h c sh) = batch sh"
  "iters (record_score key h c sh) = iters sh + 1"
  by (simp_all add: record_score_def Let_def split: option.split)

lemma record_score_stop:
  "stop (record_score key h c sh) \<longleftrightarrow>
     stop sh \<or> raw key = 0 \<or> (\<exists>n. max_iters sh = Some n \<and> n \<le> iters sh + 1)"
  by (auto simp: record_score_def Let_def split: option.split)

lemma pick_anchor_phase [simp]: "phase (pick_anchor key improved novel b c sh w) = phase w"
  by (simp add: pick_anchor_def Let_def)

section \<open>Keeping the logs\<close>

locale mutation_log =
  fixes env :: search_env and logged :: "candidate \<Rightarrow> bool"
  assumes logged_step:
    "\<lbrakk>logged (s, t); apply_edits s es = Inr s'\<rbrakk> \<Longrightarrow>
     logged (s', t @ [make_replay_step (env_sha256 env) kind mfn pn s es s' nt])"
begin

definition worker_logged :: "worker \<Rightarrow> bool" where
  "worker_logged w \<longleftrightarrow> (\<forall>c\<in>worker_cands w. logged c)"

definition shared_logged :: "shared \<Rightarrow> bool" where
  "shared_logged sh \<longleftrightarrow>
     logged (anchor_source sh, anchor_trace sh) \<and>
     (\<forall>s. best_source sh = Some s \<longrightarrow> (\<exists>t. best_trace sh = Some t \<and> logged (s, t)))"

lemmas logged_defs = worker_logged_def shared_logged_def worker_cands_def

lemma logged_attempt:
  "worker_logged w \<Longrightarrow> phase w = PBuild \<Longrightarrow> worker_logged (w_attempt restart w) \<and> phase (w_attempt restart w) = PBuild"
  by (auto simp: w_attempt_def logged_defs back_to_anchor_def Let_def split: option.splits)

lemma logged_extend:
  assumes "worker_logged w" "phase w = PBuild"
    and "\<And>r. result = Some r \<Longrightarrow> apply_edits (cur w) (mr_edits r) = Inr (mr_source r)"
  shows "worker_logged (w_extend env mfn result w)"
proof (cases result)
  case None
  then show ?thesis using assms by (auto simp: w_extend_def logged_defs back_to_anchor_def split: option.splits)
next
  case (Some r)
  have "logged (cur w, cur_trace w)" using assms by (simp add: logged_defs)
  from logged_step [OF this assms(3) [OF Some]] show ?thesis
    using assms Some by (auto simp: w_extend_def logged_defs Let_def split: option.splits)
qed

lemma logged_mutate:
  assumes "worker_logged w" "phase w = PBuild" "w_mutate env sh restart mfn ds w = Inr w'"
  shows "worker_logged w'"
proof -
  obtain result ds' where run: "run_mutator env sh mfn (w_attempt restart w) ds = Inr (result, ds')"
    and w': "w' = w_extend env mfn result (w_attempt restart w)"
    using assms(3) by (auto simp: w_mutate_def Let_def)
  have "apply_edits (cur (w_attempt restart w)) (mr_edits r) = Inr (mr_source r)" if "result = Some r" for r
    using run step_result_applied(1) unfolding that run_mutator_def Let_def by (auto split: if_splits)
  then show ?thesis
    unfolding w' using logged_attempt [OF assms(1,2)] by (intro logged_extend) auto
qed

lemma logged_other_fields [simp]:
  "shared_logged (sh\<lparr>stop := b\<rparr>) = shared_logged sh" "shared_logged (sh\<lparr>n_dup := n\<rparr>) = shared_logged sh"
  "shared_logged (sh\<lparr>compiles_failed := n\<rparr>) = shared_logged sh"
  "shared_logged (sh\<lparr>score_errs := n\<rparr>) = shared_logged sh"
  "shared_logged (sh\<lparr>seen_source := l\<rparr>) = shared_logged sh"
  "shared_logged (sh\<lparr>n_mutate_none := n\<rparr>) = shared_logged sh"
  by (simp_all add: shared_logged_def)

lemma logged_record: "shared_logged sh \<Longrightarrow> logged c \<Longrightarrow> shared_logged (record_score key h c sh)"
  by (simp add: shared_logged_def record_score_best)

lemma logged_pick:
  "worker_logged w \<Longrightarrow> logged c \<Longrightarrow> worker_logged (pick_anchor key improved novel b c sh w)"
  by (cases c) (auto simp: pick_anchor_def logged_defs Let_def split: option.splits)

lemma logged_answer:
  assumes "shared_logged sh" "worker_logged w" "phase w = PScoring c rest" "w_answer a c rest sh w = (sh', w')"
  shows "shared_logged sh' \<and> worker_logged w'"
proof -
  have c: "logged c" and rest: "worker_logged (w\<lparr>phase := PScore rest\<rparr>)" "worker_logged (w\<lparr>phase := PAfter\<rparr>)"
    "worker_logged (w\<lparr>phase := PFinal\<rparr>)"
    using assms(2,3) by (auto simp: logged_defs)
  then show ?thesis
    using assms(1,4) logged_record [OF assms(1) c] logged_pick [OF rest(1) c]
    by (cases a) (auto simp: w_answer_def Let_def)
qed

text \<open>Every step keeps the logs of the worker that makes it and of the shared state.\<close>

lemma logged_step_pair:
  assumes "shared_logged sh" "worker_logged w" "w_step env answers sh w sh' w'"
  shows "shared_logged sh' \<and> worker_logged w'"
  using assms(3)
proof cases
  case (Mutate restart mfn ds)
  then show ?thesis using logged_mutate assms by blast
next
  case (Dedup c)
  then show ?thesis
    using assms(1,2) by (auto simp: w_dedup_def logged_defs Let_def split: option.splits if_splits)
next
  case (Result c rest a)
  then show ?thesis using logged_answer assms(1,2) by blast
next
  case (Swap r ts split)
  then show ?thesis
    using assms(1,2) by (cases r) (auto simp: reanchor_swap_def logged_defs split: option.splits)
next
  case (Check r)
  then show ?thesis
    using assms(1,2) by (cases r) (auto simp: reanchor_check_def logged_defs split: option.splits)
next
  case (Typed r types)
  then show ?thesis
    using assms(1,2) by (cases r) (auto simp: reanchor_typed_def logged_defs split: option.splits)
next
  case (Next pending)
  then show ?thesis
    using assms(1,2) by (auto simp: w_next_def logged_defs split: option.splits list.splits)
qed (use assms(1,2) in \<open>auto simp: w_top_def w_compile_def w_after_def start_batch_def
      refresh_def back_to_anchor_def logged_defs split: option.splits\<close>)

end

interpretation replay: mutation_log env "\<lambda>c. apply_replay_trace (env_sha256 env) base (snd c) = Inr (fst c)"
  for env base
  by unfold_locales (simp add: replay_snoc)

section \<open>Ranks and counters\<close>

text \<open>A step that records no score leaves the best candidate and the counters of the search alone.\<close>

definition same_best :: "shared \<Rightarrow> shared \<Rightarrow> bool" where
  "same_best sh sh' \<longleftrightarrow>
     base_source sh' = base_source sh \<and> base_key sh' = base_key sh \<and> max_iters sh' = max_iters sh \<and>
     batch sh' = batch sh \<and> best_score sh' = best_score sh \<and> best_key sh' = best_key sh \<and>
     best_source sh' = best_source sh \<and> best_trace sh' = best_trace sh \<and> iters sh' = iters sh \<and>
     (stop sh \<longrightarrow> stop sh')"

definition is_scoring :: "worker \<Rightarrow> bool" where
  "is_scoring w = (case phase w of PScoring _ _ \<Rightarrow> True | _ \<Rightarrow> False)"

lemma w_step_effect:
  assumes "w_step env answers sh w sh' w'"
  shows "same_best sh sh' \<and> (is_scoring w' \<longrightarrow> \<not> stop sh)
         \<or> (\<exists>key h c. answers (fst c) key \<and> sh' = record_score key h c sh \<and> is_scoring w \<and> \<not> is_scoring w')"
  using assms
proof cases
  case (Mutate restart mfn ds)
  then have "phase w' = PBuild \<or> (\<exists>c. phase w' = PDedup c)"
    by (auto simp: w_mutate_def w_attempt_def w_extend_def back_to_anchor_def Let_def split: option.splits)
  then show ?thesis using Mutate by (auto simp: same_best_def is_scoring_def)
next
  case (Dedup c)
  then show ?thesis by (auto simp: w_dedup_def same_best_def is_scoring_def Let_def split: if_splits)
next
  case (Next pending)
  then show ?thesis by (auto simp: w_next_def same_best_def is_scoring_def split: list.splits if_splits)
next
  case (Result c rest a)
  show ?thesis
  proof (cases a)
    case (Answer key h)
    show ?thesis
      by (intro disjI2 exI [of _ key] exI [of _ h] exI [of _ c])
        (use Answer Result in \<open>auto simp: w_answer_def is_scoring_def Let_def\<close>)
  qed (use Result in \<open>auto simp: w_answer_def same_best_def is_scoring_def Let_def\<close>)
next
  case (Swap r ts split)
  then show ?thesis by (cases r) (auto simp: reanchor_swap_def same_best_def is_scoring_def)
next
  case (Check r)
  then show ?thesis by (cases r) (auto simp: reanchor_check_def same_best_def is_scoring_def split: if_splits)
next
  case (Typed r types)
  then show ?thesis by (auto simp: reanchor_typed_def same_best_def is_scoring_def split: option.splits if_splits)
qed (auto simp: w_top_def w_compile_def w_after_def start_batch_def refresh_def back_to_anchor_def
      same_best_def is_scoring_def split: option.splits if_splits)

text \<open>What is known of the best candidate, relative to the start of the search.\<close>

definition ranked :: "(bytes \<Rightarrow> score_key \<Rightarrow> bool) \<Rightarrow> shared \<Rightarrow> shared \<Rightarrow> bool" where
  "ranked answers sh0 sh \<longleftrightarrow>
     base_source sh = base_source sh0 \<and> base_key sh = base_key sh0 \<and> max_iters sh = max_iters sh0 \<and>
     batch sh = batch sh0 \<and> best_score sh = raw (best_key sh) \<and>
     (best_source sh = None \<longrightarrow> best_key sh = base_key sh0) \<and>
     (\<forall>s. best_source sh = Some s \<longrightarrow>
        best_key sh < base_key sh0 \<and> answers s (best_key sh) \<and> (raw (best_key sh) = 0 \<longrightarrow> stop sh))"

lemma ranked_same: "ranked answers sh0 sh \<Longrightarrow> same_best sh sh' \<Longrightarrow> ranked answers sh0 sh'"
  by (auto simp: ranked_def same_best_def)

lemma ranked_record:
  assumes "ranked answers sh0 sh" "answers (fst c) key"
  shows "ranked answers sh0 (record_score key h c sh)"
proof (cases "key < best_key sh")
  case True
  have "best_key sh \<le> base_key sh0"
    using assms(1) by (cases "best_source sh") (auto simp: ranked_def less_imp_le)
  then have "key < base_key sh0" using True by (rule less_le_trans [rotated])
  then show ?thesis using assms True by (auto simp: ranked_def record_score_best record_score_stop)
next
  case False
  then show ?thesis using assms by (auto simp: ranked_def record_score_best record_score_stop)
qed

section \<open>Reachable states\<close>

definition scoring_count :: "worker list \<Rightarrow> nat" where
  "scoring_count ws = sum_list (map (\<lambda>w. if is_scoring w then 1 else 0) ws)"

lemma scoring_count_le: "scoring_count ws \<le> length ws"
  by (induction ws) (auto simp: scoring_count_def)

lemma scoring_count_update:
  "i < length ws \<Longrightarrow>
   scoring_count (ws[i := w]) + (if is_scoring (ws ! i) then 1 else 0) = scoring_count ws + (if is_scoring w then 1 else 0)"
proof (induction ws arbitrary: i)
  case (Cons v ws)
  then show ?case by (cases i) (auto simp: scoring_count_def)
qed simp

definition count_inv :: "shared \<Rightarrow> worker list \<Rightarrow> bool" where
  "count_inv sh ws \<longleftrightarrow>
     (\<forall>n. max_iters sh = Some n \<longrightarrow> (stop sh \<or> iters sh < n) \<and> iters sh + scoring_count ws < n + length ws)"

lemma count_inv_step:
  assumes "count_inv sh ws" "i < length ws" "w_step env answers sh (ws ! i) sh' w'"
  shows "count_inv sh' (ws[i := w'])"
  unfolding count_inv_def
proof (intro allI impI)
  fix n assume n: "max_iters sh' = Some n"
  have sc: "scoring_count (ws[i := w']) + (if is_scoring (ws ! i) then 1 else 0)
            = scoring_count ws + (if is_scoring w' then 1 else 0)"
    by (rule scoring_count_update [OF assms(2)])
  have le: "scoring_count (ws[i := w']) \<le> length ws" using scoring_count_le [of "ws[i := w']"] by simp
  from w_step_effect [OF assms(3)]
  show "(stop sh' \<or> iters sh' < n) \<and> iters sh' + scoring_count (ws[i := w']) < n + length (ws[i := w'])"
  proof (elim disjE exE conjE)
    assume sb: "same_best sh sh'" and enter: "is_scoring w' \<longrightarrow> \<not> stop sh"
    then have inv: "stop sh \<or> iters sh < n" "iters sh + scoring_count ws < n + length ws" "iters sh' = iters sh"
      using assms(1) n by (auto simp: count_inv_def same_best_def)
    show ?thesis
    proof (cases "is_scoring w'")
      case True
      then have "iters sh < n" using enter inv(1) by blast
      then show ?thesis using le inv(3) by simp
    next
      case False
      then show ?thesis using sc inv sb by (auto simp: same_best_def split: if_splits)
    qed
  next
    fix key h c assume "sh' = record_score key h c sh" "is_scoring (ws ! i)" "\<not> is_scoring w'"
    then show ?thesis using assms(1) n sc by (auto simp: count_inv_def record_score_stop)
  qed
qed

end
