(* ===== verification/Permute_Props.thy ===== *)
theory Permute_Props
  imports Search_Props
begin

text \<open>
  The properties of the permuter: what the search guarantees of the best candidate under every
  interleaving of its workers, that the workers end once they are asked to, that narrowing keeps
  what the search found, and that a saved recipe replays to the source that was found.
\<close>

section \<open>The end of a run\<close>

text \<open>
  The end of \<open>main\<close>, from the best candidate of the shared state to the recipe that is saved and
  the bytes that are written to the C file.  \<open>None\<close> stands for no improvement.
\<close>

record main_args =
  no_narrow :: bool
  narrow_passes :: nat
  save_replay :: bool
  apply_arg :: apply_mode

record finished =
  final_source :: bytes
  final_key :: score_key
  final_trace :: replay_trace
  saved_recipe :: "json option"
  written_source :: "bytes option"

definition pick_narrowed :: "bytes \<times> score_key \<times> replay_trace \<Rightarrow> narrow_state \<Rightarrow> bytes \<times> score_key \<times> replay_trace" where
  "pick_narrowed best st =
     (case best of (src, key, trace) \<Rightarrow>
        if current st \<noteq> src \<or> \<not> key_eq (current_key st) key
        then (current st, current_key st, current_trace st) else best)"

definition finish ::
  "(bytes \<Rightarrow> string) \<Rightarrow> matcher \<Rightarrow> (bytes \<Rightarrow> bytes \<Rightarrow> attempt list) \<Rightarrow> (nat \<Rightarrow> bytes \<Rightarrow> outcome)
   \<Rightarrow> string \<Rightarrow> string \<Rightarrow> main_args \<Rightarrow> shared \<Rightarrow> finished option" where
  "finish sha256 get_opcodes casts score unit fn args sh =
     (case best_source sh of
        None \<Rightarrow> None
      | Some best \<Rightarrow>
          if base_key sh \<le> best_key sh then None
          else
            let base = base_source sh;
                trace = (case best_trace sh of None \<Rightarrow> [] | Some t \<Rightarrow> t);
                found = (best, best_key sh, trace);
                (src, key, tr) =
                  (if no_narrow args then found
                   else pick_narrowed found
                          (narrow_best_source sha256 get_opcodes casts score base best (best_key sh) trace (narrow_passes args)))
            in Some \<lparr>final_source = src, final_key = key, final_trace = tr,
                     saved_recipe = (if save_replay args
                       then Some (write_replay_recipe sha256 unit fn base src (base_key sh) key tr) else None),
                     written_source = (if do_apply (apply_arg args) (raw key = 0) then Some src else None)\<rparr>)"

section \<open>Reachable states\<close>

definition search_inv ::
  "search_env \<Rightarrow> (bytes \<Rightarrow> score_key \<Rightarrow> bool) \<Rightarrow> shared \<Rightarrow> shared \<Rightarrow> worker list \<Rightarrow> bool" where
  "search_inv env answers sh0 sh ws \<longleftrightarrow>
     replay.shared_logged env (base_source sh0) sh \<and>
     (\<forall>w\<in>set ws. replay.worker_logged env (base_source sh0) w) \<and>
     ranked answers sh0 sh"

lemma search_inv_step:
  assumes "search_inv env answers sh0 sh ws" "sys_step env answers (sh, ws) (sh', ws')"
  shows "search_inv env answers sh0 sh' ws'"
  using assms(2)
proof cases
  case (Worker i w')
  have w: "replay.worker_logged env (base_source sh0) (ws ! i)"
    using assms(1) Worker nth_mem by (auto simp: search_inv_def)
  have "replay.shared_logged env (base_source sh0) sh' \<and> replay.worker_logged env (base_source sh0) w'"
    using replay.logged_step_pair [OF _ w Worker(3)] assms(1) by (simp add: search_inv_def)
  moreover have "ranked answers sh0 sh'"
    using w_step_effect [OF Worker(3)] assms(1) ranked_same ranked_record
    by (auto simp: search_inv_def)
  ultimately show ?thesis
    using assms(1) Worker set_update_subset_insert [of ws i w'] by (auto simp: search_inv_def)
next
  case Stop
  then show ?thesis
    using assms(1) ranked_same [of answers sh0 sh "sh\<lparr>stop := True\<rparr>"] by (simp add: search_inv_def same_best_def)
qed

lemma new_worker_logged: "replay.worker_logged env base new_worker"
  by (simp add: replay.logged_defs new_worker_def)

lemma search_inv_reachable:
  assumes "reachable env answers sh0 jobs s" "sh0 = new_shared key src limit k types split mode"
  shows "search_inv env answers sh0 (fst s) (snd s)"
  using assms(1)
proof (induction rule: reachable.induct)
  case Init
  show ?case
    using new_worker_logged
    by (auto simp: search_inv_def assms(2) new_shared_def replay.shared_logged_def ranked_def)
next
  case (Step s s')
  then show ?case using search_inv_step by (cases s; cases s') auto
qed

lemma count_inv_reachable:
  assumes "reachable env answers sh0 jobs s" "iters sh0 = 0" "\<forall>n. max_iters sh0 = Some n \<longrightarrow> 0 < n"
  shows "count_inv (fst s) (snd s) \<and> length (snd s) = jobs \<and> max_iters (fst s) = max_iters sh0"
  using assms(1)
proof (induction rule: reachable.induct)
  case Init
  have "scoring_count (replicate jobs new_worker) = 0"
    by (induction jobs) (simp_all add: scoring_count_def is_scoring_def new_worker_def)
  then show ?case using assms(2,3) by (auto simp: count_inv_def)
next
  case (Step s s')
  obtain sh ws where s: "s = (sh, ws)" by (cases s)
  from Step.hyps(2) [unfolded s] show ?case
  proof cases
    case (Worker i sh' w')
    then show ?thesis
      using Step.IH count_inv_step [OF _ Worker(2,3)] w_step_effect [OF Worker(3)]
      by (auto simp: s same_best_def)
  next
    case Stop
    then show ?thesis using Step.IH by (auto simp: s count_inv_def)
  qed
qed

section \<open>Stopping\<close>

text \<open>How far a worker is from the end once it is asked to stop.\<close>

fun stop_rank :: "nat \<Rightarrow> phase \<Rightarrow> nat \<Rightarrow> nat" where
  "stop_rank b PDone a = 0"
| "stop_rank b PFinal a = 1"
| "stop_rank b PTop a = 2"
| "stop_rank b PRefresh a = 3"
| "stop_rank b (PSwap r ts n) a = 4"
| "stop_rank b (PRetype r) a = 5"
| "stop_rank b (PReanchor r) a = 6"
| "stop_rank b PAfter a = 7"
| "stop_rank b (PScore cs) a = 8"
| "stop_rank b (PScoring c cs) a = 9"
| "stop_rank b PBuild a = 10 + 2 * (4 * b - a)"
| "stop_rank b (PDedup c) a = 11 + 2 * (4 * b - a)"
| "stop_rank b PStart a = 3"

definition steps_left :: "shared \<Rightarrow> worker \<Rightarrow> nat" where
  "steps_left sh w = stop_rank (batch sh) (phase w) (attempts w)"

lemma w_extend_phase:
  "phase (w_extend env mfn result (w_attempt restart w)) = phase w \<and> attempts (w_extend env mfn result (w_attempt restart w)) = attempts w + 1
   \<or> (\<exists>c. phase (w_extend env mfn result (w_attempt restart w)) = PDedup c) \<and> attempts (w_extend env mfn result (w_attempt restart w)) = attempts w + 1"
  by (cases result) (auto simp: w_extend_def w_attempt_def back_to_anchor_def Let_def)

lemma steps_left_decreases:
  assumes "w_step env answers sh w sh' w'" "stop sh"
  shows "steps_left sh' w' < steps_left sh w"
  using assms(1)
proof cases
  case (Mutate restart mfn ds)
  then obtain result where w': "w' = w_extend env mfn result (w_attempt restart w)"
    by (auto simp: w_mutate_def Let_def)
  then show ?thesis
    using Mutate w_extend_phase [of env mfn result restart w]
    by (auto simp: steps_left_def building_def)
next
  case (Dedup c)
  then show ?thesis by (auto simp: steps_left_def w_dedup_def Let_def split: if_splits)
next
  case (Result c rest a)
  then show ?thesis by (cases a) (auto simp: steps_left_def w_answer_def Let_def)
next
  case (Next pending)
  then show ?thesis using assms(2) by (auto simp: steps_left_def w_next_def split: list.splits)
next
  case (Swap r ts split)
  then show ?thesis by (auto simp: steps_left_def)
next
  case (Check r)
  then show ?thesis by (cases r) (auto simp: steps_left_def reanchor_check_def)
next
  case (Typed r types)
  then show ?thesis by (auto simp: steps_left_def reanchor_typed_def split: option.splits)
qed (use assms(2) in \<open>auto simp: steps_left_def w_top_def w_compile_def w_after_def start_batch_def
      refresh_def back_to_anchor_def split: option.splits\<close>)

section \<open>A sample run\<close>

text \<open>A source of one function, a mutator with one pass, one worker.\<close>

definition sample_source :: bytes where
  "sample_source = ''f(){a;}''"

definition sample_tree :: node where
  "sample_tree = Node ''translation_unit'' 0 7
     [(None, True, Node ''function_definition'' 0 7 [(Some ''declarator'', True, leaf ''identifier'' 0 1)])]"

definition rename_pass :: pass where
  "rename_pass ctx = rret (Some [(4, 5, ''b'')])"

definition sample_env :: search_env where
  "sample_env =
     \<lparr>env_sha256 = (\<lambda>s. s), env_parse = (\<lambda>s. sample_tree),
      env_mutators = (\<lambda>m. new_mutator m [] [(''rename'', rename_pass, 1)]),
      env_frame_mutators = (\<lambda>m. new_mutator m [(''rename'', 2)] [(''rename'', rename_pass, 1)])\<rparr>"

definition sample_start :: shared where
  "sample_start = new_shared (from_raw 5) sample_source (Some 3) 1 None 0 ReanchorImprove"

definition any_answer :: "bytes \<Rightarrow> score_key \<Rightarrow> bool" where
  "any_answer s k = (0 \<le> raw k)"

definition sample_args :: main_args where
  "sample_args = \<lparr>no_narrow = True, narrow_passes = 3, save_replay = True, apply_arg = ApplyMatch\<rparr>"

text \<open>The states of a run that mutates the source once and finds a match.\<close>

definition run1 :: worker where
  "run1 = (back_to_anchor (refresh sample_start new_worker))\<lparr>phase := PTop\<rparr>"
definition run2 :: worker where
  "run2 = w_top sample_start run1"
definition run3 :: worker where
  "run3 = projr (w_mutate sample_env sample_start False ''f'' [0] run2)"
definition run_cand :: candidate where
  "run_cand = (cur run3, cur_trace run3)"
definition run4 :: "shared \<times> worker" where
  "run4 = w_dedup sample_env run_cand sample_start run3"
definition run5 :: worker where
  "run5 = w_compile (snd run4)"
definition run6 :: worker where
  "run6 = w_next (fst run4) [run_cand] run5"
definition run7 :: "shared \<times> worker" where
  "run7 = w_answer (Answer (ScoreKey 0 0 0 0 True) ''h'') run_cand [] (fst run4) run6"

lemma run2_fields [simp]:
  "phase run2 = PBuild" "a_src run2 = sample_source" "a_trace run2 = []" "a_types run2 = None"
  "cur run2 = sample_source" "cur_trace run2 = []" "at_anchor run2" "cands run2 = []" "attempts run2 = 0"
  by (simp_all add: run2_def run1_def w_top_def start_batch_def back_to_anchor_def refresh_def
      new_worker_def sample_start_def new_shared_def)

lemma sample_function:
  "find_function sample_source sample_tree ''f''
     = Some (Node ''function_definition'' 0 7 [(Some ''declarator'', True, leaf ''identifier'' 0 1)])"
  by code_simp

lemma sample_edit: "apply_edits sample_source [(4, 5, ''b'')] = Inr ''f(){b;}''"
  by code_simp

lemma draw_only_pass: "draw_pass [(n, f, 1)] (0 # ds) = Inr (0, ds)"
  by (simp add: draw_pass_def rng_random_def rbind_def draw_def rret_def)

lemma sample_step:
  "step_result (\<lambda>s. sample_tree) (new_mutator ''f'' [] [(''rename'', rename_pass, 1)]) sample_source (Some sample_tree)
     (find_function sample_source sample_tree ''f'') None [0]
   = Inr (Some \<lparr>mr_source = ''f(){b;}'', mr_pass_name = ''rename'', mr_edits = [(4, 5, ''b'')]\<rparr>, [])"
  unfolding sample_function
  by (simp add: step_result_def new_mutator_def draw_only_pass rename_pass_def rret_def try_edits_def sample_edit)
    (simp add: sample_source_def)

lemma run3_mutates: "w_mutate sample_env sample_start False ''f'' [0] run2 = Inr run3"
  and run3_fields: "phase run3 = PDedup run_cand" "fst run_cand = ''f(){b;}''" "cands run3 = []"
proof -
  have "run_mutator sample_env sample_start ''f'' (w_attempt False run2) [0]
      = Inr (Some \<lparr>mr_source = ''f(){b;}'', mr_pass_name = ''rename'', mr_edits = [(4, 5, ''b'')]\<rparr>, [])"
    using sample_step
    by (simp add: run_mutator_def w_attempt_def sample_env_def frame_only_def sample_start_def new_shared_def from_raw_def)
  then show m: "w_mutate sample_env sample_start False ''f'' [0] run2 = Inr run3"
    and "phase run3 = PDedup run_cand" "fst run_cand = ''f(){b;}''" "cands run3 = []"
    by (simp_all add: run3_def run_cand_def w_mutate_def w_extend_def w_attempt_def Let_def)
qed

lemma run4_fields: "phase (snd run4) = PBuild" "cands (snd run4) = [run_cand]" "seen_asm (fst run4) = []"
  "stop (fst run4) = False" "best_key (fst run4) = from_raw 5" "max_iters (fst run4) = Some 3" "batch (fst run4) = 1"
  by (simp_all add: run4_def w_dedup_def run3_fields sample_start_def new_shared_def SEEN_LIMIT_def)

lemma run6_phase: "phase run5 = PScore [run_cand]" "phase run6 = PScoring run_cand []"
  by (simp_all add: run6_def run5_def w_next_def w_compile_def run4_fields)

lemma reachable1:
  "reachable env answers sh0 1 (sh, [w]) \<Longrightarrow> w_step env answers sh w sh' w' \<Longrightarrow> reachable env answers sh0 1 (sh', [w'])"
  using sys_step.Worker [of 0 "[w]" env answers sh sh' w'] by (auto intro: reachable.Step)

lemma run_last_step: "w_step sample_env any_answer (fst run4) run6 (fst run7) (snd run7)"
  by (rule w_step.Result [OF run6_phase(2), of "Answer (ScoreKey 0 0 0 0 True) ''h''"])
    (simp_all add: any_answer_def run7_def)

lemma run_reachable:
  "reachable sample_env any_answer sample_start 1 (fst run4, [run6])"
  "reachable sample_env any_answer sample_start 1 (fst run7, [snd run7])"
proof -
  have "reachable sample_env any_answer sample_start 1 (sample_start, [new_worker])"
    using reachable.Init [of sample_env any_answer sample_start 1] by simp
  from reachable1 [OF this w_step.Start] have "reachable sample_env any_answer sample_start 1 (sample_start, [run1])"
    by (simp add: run1_def new_worker_def)
  from reachable1 [OF this w_step.Top] have "reachable sample_env any_answer sample_start 1 (sample_start, [run2])"
    by (simp add: run1_def run2_def)
  from reachable1 [OF this w_step.Mutate [OF _ _ run3_mutates]]
  have "reachable sample_env any_answer sample_start 1 (sample_start, [run3])"
    by (simp add: building_def sample_start_def new_shared_def)
  from reachable1 [OF this w_step.Dedup [OF run3_fields(1)]]
  have "reachable sample_env any_answer sample_start 1 (fst run4, [snd run4])"
    by (simp add: run4_def)
  from reachable1 [OF this w_step.Compile] have "reachable sample_env any_answer sample_start 1 (fst run4, [run5])"
    by (simp add: run5_def run4_fields building_def)
  from reachable1 [OF this w_step.Next [OF run6_phase(1)]]
  show r6: "reachable sample_env any_answer sample_start 1 (fst run4, [run6])"
    by (simp add: run6_def)
  from reachable1 [OF r6 run_last_step]
  show "reachable sample_env any_answer sample_start 1 (fst run7, [snd run7])" .
qed

lemma zero_better: "ScoreKey 0 0 0 0 True < from_raw 5"
  by (simp add: less_score_key_def key_tuple_def from_raw_def)

lemma run7_fields:
  "best_source (fst run7) = Some ''f(){b;}''" "best_key (fst run7) = ScoreKey 0 0 0 0 True" "stop (fst run7)"
  "iters (fst run7) = 1" "base_key (fst run7) = from_raw 5" "base_source (fst run7) = sample_source"
  "best_trace (fst run7) = Some (snd run_cand)"
  using zero_better run3_fields(2)
  by (simp_all add: run7_def w_answer_def Let_def record_score_best record_score_stop run4_fields)
    (simp_all add: run4_def w_dedup_def sample_start_def new_shared_def Let_def)

definition sample_matcher :: matcher where
  "sample_matcher a b = [(Replace, 0, 1, 0, 1)]"

definition run_end :: finished where
  "run_end = the (finish (env_sha256 sample_env) sample_matcher (\<lambda>_ _. []) (\<lambda>_ _. CompileFailed)
                    ''unit'' ''f'' sample_args (fst run7))"

lemma run_end_facts:
  "finish (env_sha256 sample_env) sample_matcher (\<lambda>_ _. []) (\<lambda>_ _. CompileFailed) ''unit'' ''f'' sample_args (fst run7) = Some run_end"
  "final_source run_end = ''f(){b;}''" "written_source run_end = Some ''f(){b;}''"
  "saved_recipe run_end = Some (the (saved_recipe run_end))"
  using zero_better
  by (simp_all add: run_end_def finish_def sample_args_def run7_fields do_apply_def Let_def less_le_not_le [of _ "from_raw 5"])

section \<open>Properties\<close>

text \<open>
  C4: in every state that the program can reach, under every interleaving of the workers, either
  nothing better than the baseline was found, or the best source ranks strictly better than the
  baseline, with a rank that the scoring server gave to exactly this source, its trace replays from
  the base source to it, and a score of 0 has stopped the search.
\<close>

theorem search_best_sound:
  assumes "reachable env answers (new_shared key src limit k types split mode) jobs (sh, ws)"
  shows "best_score sh = raw (best_key sh) \<and>
    (case best_source sh of
       None \<Rightarrow> best_key sh = key
     | Some s \<Rightarrow>
         best_key sh < key \<and> answers s (best_key sh) \<and> (raw (best_key sh) = 0 \<longrightarrow> stop sh) \<and>
         (\<exists>t. best_trace sh = Some t \<and> apply_replay_trace (env_sha256 env) src t = Inr s))"
  using search_inv_reachable [OF assms refl]
  by (auto simp: search_inv_def ranked_def replay.shared_logged_def new_shared_def split: option.split)

theorem search_best_sound_witness:
  "reachable sample_env any_answer sample_start 1 (fst run7, [snd run7]) \<and>
   best_source (fst run7) = Some ''f(){b;}'' \<and> best_key (fst run7) < from_raw 5 \<and> stop (fst run7) \<and>
   (\<exists>t. best_trace (fst run7) = Some t \<and> apply_replay_trace (env_sha256 sample_env) sample_source t = Inr ''f(){b;}'')"
  using search_best_sound [OF run_reachable(2) [unfolded sample_start_def]] run_reachable(2) run7_fields
  by (simp add: sample_start_def)

text \<open>
  The best rank never gets worse.  Every step of every worker, the moves of the anchor
  included, leaves a rank that is at most the one before, and a request to stop is never withdrawn.
\<close>

theorem search_best_monotone:
  assumes "sys_step env answers (sh, ws) (sh', ws')"
  shows "best_key sh' \<le> best_key sh \<and> (stop sh \<longrightarrow> stop sh') \<and> iters sh \<le> iters sh'"
  using assms
proof cases
  case (Worker i w')
  then show ?thesis
    using w_step_effect [OF Worker(3)]
    by (auto simp: same_best_def record_score_best record_score_stop less_imp_le)
qed simp

theorem search_best_monotone_witness:
  "sys_step sample_env any_answer (fst run4, [run6]) (fst run7, [snd run7]) \<and>
   best_key (fst run7) \<le> best_key (fst run4) \<and> iters (fst run4) \<le> iters (fst run7)"
proof -
  have "sys_step sample_env any_answer (fst run4, [run6]) (fst run7, [snd run7])"
    using sys_step.Worker [of 0 "[run6]" sample_env any_answer "fst run4" "fst run7" "snd run7"] run_last_step by simp
  then show ?thesis using search_best_monotone by blast
qed

text \<open>
  C40: with a limit of \<open>n\<close> scored candidates the workers together score fewer than \<open>n\<close> plus their
  number, since every worker checks the request to stop before it has a candidate scored.
\<close>

theorem search_iteration_bound:
  assumes "reachable env answers (new_shared key src (Some n) k types split mode) jobs (sh, ws)" "0 < n"
  shows "iters sh < n + jobs"
  using count_inv_reachable [OF assms(1)] assms(2)
  by (auto simp: new_shared_def count_inv_def)

theorem search_iteration_bound_witness:
  "reachable sample_env any_answer sample_start 1 (fst run7, [snd run7]) \<and> iters (fst run7) < 3 + 1"
  using search_iteration_bound [OF run_reachable(2) [unfolded sample_start_def]] run_reachable(2)
  by (simp add: sample_start_def)

text \<open>
  C38: after the request to stop every worker makes at most as many steps as \<open>steps_left\<close> says, a
  number below 12 plus eight times the batch size: each step of a worker makes it smaller, and it is
  0 only when the worker is done.
\<close>

theorem workers_stop:
  assumes "w_step env answers sh w sh' w'" "stop sh"
  shows "stop sh' \<and> steps_left sh' w' < steps_left sh w \<and> steps_left sh w < 12 + 8 * batch sh"
proof -
  have "stop sh'" using w_step_effect [OF assms(1)] assms(2) by (auto simp: same_best_def record_score_stop)
  moreover have "stop_rank b p a \<le> 11 + 8 * b" for b p a by (cases p) simp_all
  then have "steps_left sh w < 12 + 8 * batch sh" by (simp add: steps_left_def less_Suc_eq_le numeral_eq_Suc)
  ultimately show ?thesis using steps_left_decreases [OF assms] by blast
qed

theorem workers_stop_witness:
  "stop (fst run7) \<and> steps_left (fst run7) (w_next (fst run7) [] (snd run7)) < steps_left (fst run7) (snd run7)"
proof -
  have "phase (snd run7) = PScore []" by (simp add: run7_def w_answer_def Let_def)
  from workers_stop [OF w_step.Next [OF this, of sample_env any_answer "fst run7"]] show ?thesis using run7_fields(3) by blast
qed

section \<open>From the search to the recipe\<close>

lemma pick_narrowed_cases:
  "pick_narrowed (src, key, tr) st = (src, key, tr) \<or> pick_narrowed (src, key, tr) st = (current st, current_key st, current_trace st)"
  by (simp add: pick_narrowed_def)

text \<open>What the end of \<open>main\<close> works with, narrowed or not.\<close>

lemma finish_facts:
  assumes "search_inv env answers sh0 sh ws"
    and "finish (env_sha256 env) get_opcodes casts score unit fn args sh = Some f"
  shows "apply_replay_trace (env_sha256 env) (base_source sh0) (final_trace f) = Inr (final_source f)"
    and "final_key f \<le> best_key sh" "best_key sh < base_key sh0"
    and "answers (final_source f) (final_key f) \<or> (\<exists>n. score n (final_source f) = Scored (final_key f))"
    and "saved_recipe f = (if save_replay args
           then Some (write_replay_recipe (env_sha256 env) unit fn (base_source sh0) (final_source f) (base_key sh0) (final_key f) (final_trace f)) else None)"
    and "written_source f = (if do_apply (apply_arg args) (raw (final_key f) = 0) then Some (final_source f) else None)"
proof -
  obtain best t where best: "best_source sh = Some best" "best_trace sh = Some t"
    "apply_replay_trace (env_sha256 env) (base_source sh0) t = Inr best"
    "best_key sh < base_key sh0" "answers best (best_key sh)" "base_source sh = base_source sh0" "base_key sh = base_key sh0"
    using assms by (auto simp: search_inv_def ranked_def replay.shared_logged_def finish_def split: option.splits)
  define st where "st = narrow_best_source (env_sha256 env) get_opcodes casts score (base_source sh0) best (best_key sh) t (narrow_passes args)"
  obtain src key tr where pick: "(if no_narrow args then (best, best_key sh, t) else pick_narrowed (best, best_key sh, t) st) = (src, key, tr)"
    using prod_cases3 by blast
  have f: "f = \<lparr>final_source = src, final_key = key, final_trace = tr,
       saved_recipe = (if save_replay args then Some (write_replay_recipe (env_sha256 env) unit fn (base_source sh0) src (base_key sh0) key tr) else None),
       written_source = (if do_apply (apply_arg args) (raw key = 0) then Some src else None)\<rparr>"
    using assms(2) best pick by (simp add: finish_def st_def [symmetric] Let_def split: if_splits)
  have cases: "(src, key, tr) = (best, best_key sh, t) \<or> (src, key, tr) = (current st, current_key st, current_trace st)"
    using pick pick_narrowed_cases [of best "best_key sh" t st] by (auto split: if_splits)
  have inv: "narrow_inv (env_sha256 env) score (base_source sh0) best (best_key sh) st"
    unfolding st_def by (rule narrow_inv_result [OF best(3)])
  show "apply_replay_trace (env_sha256 env) (base_source sh0) (final_trace f) = Inr (final_source f)"
    and "final_key f \<le> best_key sh"
    and "answers (final_source f) (final_key f) \<or> (\<exists>n. score n (final_source f) = Scored (final_key f))"
    using cases inv best(3,5) by (auto simp: f narrow_inv_def)
  show "best_key sh < base_key sh0" by (rule best(4))
  show "saved_recipe f = (if save_replay args
          then Some (write_replay_recipe (env_sha256 env) unit fn (base_source sh0) (final_source f) (base_key sh0) (final_key f) (final_trace f)) else None)"
    and "written_source f = (if do_apply (apply_arg args) (raw (final_key f) = 0) then Some (final_source f) else None)"
    by (simp_all add: f)
qed

text \<open>
  C39: a run that ends with an improvement ends with a source whose rank is at most the best rank of
  the search, hence strictly better than the baseline, and was given to this source by the scoring
  server.  It writes to the C file only this source, and with \<open>--apply=match\<close> only when its score
  is 0.
\<close>

theorem finish_sound:
  assumes "reachable env answers (new_shared key src limit k types split mode) jobs (sh, ws)"
    and "finish (env_sha256 env) get_opcodes casts score unit fn args sh = Some f"
  shows "final_key f \<le> best_key sh \<and> final_key f < key \<and>
    (answers (final_source f) (final_key f) \<or> (\<exists>n. score n (final_source f) = Scored (final_key f))) \<and>
    (\<forall>s. written_source f = Some s \<longrightarrow>
       s = final_source f \<and> apply_arg args \<noteq> ApplyNever \<and> (apply_arg args = ApplyMatch \<longrightarrow> raw (final_key f) = 0))"
  using finish_facts [OF search_inv_reachable [OF assms(1) refl, simplified] assms(2)]
  by (auto simp: new_shared_def do_apply_def intro: le_less_trans split: if_splits)

theorem finish_sound_witness:
  "final_source run_end = ''f(){b;}'' \<and> final_key run_end < from_raw 5 \<and> written_source run_end = Some (final_source run_end)"
  using finish_sound [OF run_reachable(2) [unfolded sample_start_def] run_end_facts(1)] run_end_facts by simp

text \<open>
  C15: the recipe that a run saves can be replayed.  On the same base source \<open>replay_candidate\<close>
  passes every check of a hash, arrives at the source that the run ended with, and exits with 0
  whenever this source still compiles and can be scored.
\<close>

theorem saved_recipe_replays:
  assumes "reachable env answers (new_shared key src limit k types split mode) jobs (sh, ws)"
    and "finish (env_sha256 env) get_opcodes casts score unit fn args sh = Some f"
    and "saved_recipe f = Some r" "source unit = Some src" "rescore unit fn (final_source f) = Scored again"
  shows "replay_candidate (env_sha256 env) repr source rescore None replay_mode r
         = Inr (0, if do_apply replay_mode (raw again = 0) then Some (final_source f) else None)"
proof -
  note facts = finish_facts [OF search_inv_reachable [OF assms(1) refl, simplified] assms(2)]
  have r: "r = write_replay_recipe (env_sha256 env) unit fn src (final_source f) key (final_key f) (final_trace f)"
    using facts(5) assms(3) by (simp add: new_shared_def split: if_splits)
  show ?thesis
    unfolding r using facts(1) assms(4,5) by (intro replay_written_recipe) (simp_all add: new_shared_def)
qed

theorem saved_recipe_replays_witness:
  "replay_candidate (env_sha256 sample_env) (\<lambda>d. []) (\<lambda>u. Some sample_source) (\<lambda>u f s. Scored (ScoreKey 0 0 0 0 True))
     None ApplyAlways (the (saved_recipe run_end)) = Inr (0, Some ''f(){b;}'')"
  using saved_recipe_replays [OF run_reachable(2) [unfolded sample_start_def] run_end_facts(1,4),
      of "\<lambda>u. Some sample_source" "\<lambda>u f s. Scored (ScoreKey 0 0 0 0 True)" "ScoreKey 0 0 0 0 True" "\<lambda>d. []" ApplyAlways]
  by (simp add: run_end_facts(2) do_apply_def)

text \<open>
  C16: narrowing keeps what the search found.  The rank it returns is at most the rank it started
  from and is the answer of the server for exactly the returned source, the trace it returns
  replays from the base to that source, and the counters account for the attempts, for every
  behaviour of the compiler and the server, a server that disappears included.
\<close>

theorem narrowing_sound:
  assumes "apply_replay_trace sha256 base trace = Inr best"
    and "st = narrow_best_source sha256 get_opcodes casts score base best bk trace max_passes"
  shows "apply_replay_trace sha256 base (current_trace st) = Inr (current st) \<and>
    current_key st \<le> bk \<and>
    (current st = best \<and> current_key st = bk \<or> (\<exists>n\<le>ns_attempts st. score n (current st) = Scored (current_key st))) \<and>
    ns_accepted st + ns_compile_failed st + ns_score_errors st \<le> ns_attempts st"
  using narrow_inv_result [OF assms(1)] unfolding assms(2) narrow_inv_def by blast

theorem narrowing_sound_witness:
  "apply_replay_trace (env_sha256 sample_env) sample_source (snd run_cand) = Inr ''f(){b;}'' \<and>
   current_key (narrow_best_source (env_sha256 sample_env) sample_matcher (\<lambda>_ _. []) (\<lambda>n s. Scored (from_raw 0))
     sample_source ''f(){b;}'' (from_raw 0) (snd run_cand) 2) \<le> from_raw 0"
proof -
  have "apply_replay_trace (env_sha256 sample_env) sample_source (snd run_cand) = Inr ''f(){b;}''"
    using search_inv_reachable [OF run_reachable(2) sample_start_def] run7_fields
    by (simp add: search_inv_def replay.shared_logged_def sample_start_def new_shared_def)
  then show ?thesis using narrowing_sound [OF _ refl] by blast
qed

text \<open>
  C37: the changes that narrowing tries to revert, by chunks or by lines, lead back to the base: all
  of them applied at once turn the candidate into the base source, and reverting any selection of
  them one by one from the back, as narrowing does, gives the candidate with exactly the selected
  spans replaced.
\<close>

theorem reverts_restore_base:
  assumes "matcher_ok get_opcodes base cand"
    and "es = changed_line_edits get_opcodes base cand g" "subseq es' es"
  shows "apply_edits cand (map (revert_splice base) es) = Inr base \<and>
    apply_edits cand (map (revert_splice base) es') = Inr (fold (\<lambda>e cur. revert_edit base cur e) (rev es') cand)"
  using reverts_all(2) [OF assms(1,2)] reverts_some [OF assms] by blast

theorem reverts_restore_base_witness:
  "matcher_ok sample_matcher ''a'' ''b'' \<and>
   fold (\<lambda>e cur. revert_edit ''a'' cur e) (rev (changed_line_edits sample_matcher ''a'' ''b'' Line)) ''b'' = ''a''"
proof -
  have ok: "matcher_ok sample_matcher ''a'' ''b''"
    by (simp add: matcher_ok_def sample_matcher_def splitlines_def)
  then show ?thesis using reverts_restore_base [OF ok refl, of _ Line] subseq_order.refl by fastforce
qed

end
