(* ===== verification/Spec2Isabelle.thy ===== *)
theory Spec2Isabelle
  imports Ppc_Props Flow_Build_Props Demangle_Props Permute_Props
begin

text \<open>
  A verification of the Python code of a decompilation harness.  The harness helps to write C
  sources that a given PowerPC compiler translates to a given object file.  It has two halves.

  The decompiler \<open>m2c\<close> (\<open>src/m2c/m2c\<close>) reads an assembly listing (\<open>asm_file.py\<close>), parses every
  instruction (\<open>asm_instruction.py\<close>, \<open>instruction.py\<close>) with the help of a target (\<open>arch_ppc.py\<close>),
  rewrites idioms of the compiler (\<open>asm_pattern.py\<close>), cuts a function into blocks and builds its
  flow graph with dominators, loops and the definitions that reach every use (\<open>flow_graph.py\<close>).
  The flow graph is then evaluated symbolically to C expressions (\<open>translate.py\<close>, \<open>evaluate.py\<close>) and
  printed as statements.  Symbols of C++ units are made readable by \<open>demangle_codewarrior.py\<close>.

  The permuter (\<open>src/tools/permute.py\<close>) takes a C source that nearly matches and searches for one that
  does: worker threads mutate it (\<open>src/tools/src_mutate.py\<close>), have the candidates compiled, and
  ask a scoring server how far the object is from the target.

  \<^bold>\<open>Shared theories.\<close>  \<open>Prelude\<close> has the error values that stand for exceptions, the error monad and
  the collections \<open>res_simps\<close> and \<open>no_fuel_intros\<close>; \<open>Py_Text\<close> has the operations of \<open>str\<close> and \<open>int\<close>
  that the sources use.

  \<^bold>\<open>Assembly arguments\<close> (\<open>asm_instruction.py\<close>, \<open>instruction.py\<close>).  \<open>Asm_Instruction\<close> has the
  argument types, their text, \<open>RegFormatter\<close>, \<open>constant_fold\<close> and the recursive-descent parser;
  \<open>Asm_Parser\<close> shows that it ends, through the contract \<open>sub_parser\<close> of a nested parser that consumes
  its input; \<open>Asm_Roundtrip\<close> and \<open>Asm_Props\<close> show that it reads back what is printed, that the
  formatter keeps one name per register (the contract \<open>reg_formatter\<close>), and that folding computes the
  value of an argument, which is defined apart from the code by the rules of assembler arithmetic.
  \<open>Instruction\<close> has stack locations, metadata and \<open>parse_instruction\<close>.

  \<^bold>\<open>Listings\<close> (\<open>asm_file.py\<close>).  \<open>Asm_File\<close> has the data of a file, \<open>Asm_Directives\<close> the helpers for
  directives and preprocessor conditions, \<open>Asm_Listing\<close> the scan of \<open>parse_file\<close>.  \<open>Listing_Props\<close>
  proves invariants of the scan line by line (the contract \<open>step_invariant\<close>, used three times): the
  file stays well formed, so that the size range of a data entry is right about its bytes; at most one
  branch of a conditional is active; and an inactive line changes the file only when its first word
  is \<open>.fn\<close>.

  \<^bold>\<open>Patterns and the PowerPC target\<close> (\<open>asm_pattern.py\<close>, \<open>arch_ppc.py\<close>).  \<open>Asm_Pattern\<close> has the matcher,
  the substitution and the pass \<open>simplify_patterns\<close>; \<open>Ppc_Arch\<close> the registers, the normalisation and
  the reads and writes of \<open>PpcArch.parse\<close>; \<open>Ppc_Patterns\<close> the eight patterns.  \<open>Pattern_Match\<close> shows
  that a match is an instance of its pattern.  \<open>Pattern_Pass\<close> shows, for every list of patterns that
  meets the contract \<open>pattern_list\<close> and hence for those of the target, that the pass ends and loses no
  write.  \<open>Ppc_Props\<close> shows that the rotate pseudo-instructions are expanded to what they mean, and the
  type of a parsed instruction.

  \<^bold>\<open>Bit-level evaluation\<close> (\<open>evaluate.py\<close>).  \<open>Expr_Fold\<close> has the expressions over integers, their values as
  32-bit words, and the folding of multiplication chains, bit masks and leading-zero counts;
  \<open>Expr_Divmod\<close> has \<open>fold_divmod\<close> with the rounding of Python's floating-point division, and shows that
  it recovers the divisor from the constant of a multiplication; \<open>Expr_Rotate\<close> has the expressions
  built for \<open>rlwinm\<close>, \<open>rlwimi\<close> and \<open>rlwnm\<close>, simplified or not, and shows that they have the values the
  processor computes.

  \<^bold>\<open>Flow graph\<close> (\<open>flow_graph.py\<close>).  \<open>Flow_Blocks\<close> has the block builder, the MIPS delay slots,
  \<open>minimize_labels\<close> and \<open>build_blocks\<close>; \<open>Flow_Nodes\<close> the nodes and the duplication of early returns;
  \<open>Flow_Graph\<close> dominators, natural loops, reducibility and fictive exits; \<open>Flow_Refs\<close> the
  definitions and uses.  \<open>Flow_Labels\<close>, \<open>Flow_Split\<close> and \<open>Flow_Layout\<close> show what the blocks hold;
  \<open>Flow_Build\<close>, \<open>Flow_Returns\<close> and \<open>Flow_Copies\<close> that the nodes form a graph with a reachable body
  and that duplicating returns unfolds it; \<open>Flow_Dominators\<close>, \<open>Flow_Loops\<close>, \<open>Flow_Exit\<close> and
  \<open>Flow_Reducible\<close> that the algorithms compute what is defined by paths; \<open>Flow_Sources\<close>, \<open>Flow_Phi\<close>,
  \<open>Flow_Exact\<close>, \<open>Flow_Uses\<close> and \<open>Flow_Reaching\<close> that the recorded inputs are the reaching
  definitions.  \<open>Flow_Props\<close> and \<open>Flow_Build_Props\<close> state the results over the operations.

  \<^bold>\<open>Demangler\<close> (\<open>demangle_codewarrior.py\<close>).  \<open>Demangle\<close> has the parser and the printer;
  \<open>Demangle_Ends\<close> shows that it ends and with which errors, \<open>Demangle_Roundtrip\<close> and
  \<open>Demangle_Props\<close> that it inverts an encoder.

  \<^bold>\<open>Mutation engine\<close> (\<open>src_mutate.py\<close>).  \<open>Src_Edits\<close> has the byte-span edits and \<open>apply_edits\<close> with its
  specification by layouts; \<open>Src_Mutate\<close> the syntax tree, twelve passes and \<open>Mutator.step_result\<close>;
  \<open>Mutate_Props\<close> shows that the passes never ask for overlapping edits, and two defects: a line search
  that may not end and rewritings that drop parentheses.

  \<^bold>\<open>Permuter\<close> (\<open>permute.py\<close>).  \<open>Permute_Replay\<close> has \<open>ScoreKey\<close>, replay steps, recipes in JSON and
  \<open>replay_candidate\<close>; \<open>Permute_Narrow\<close> the line edits and \<open>narrow_best_source\<close>; \<open>Permute_Search\<close> the
  \<open>Shared\<close> object and the workers as a step relation, one access under the lock per step, in
  every interleaving; an answer of the server that cannot be read ends its worker.
  \<open>Search_Props\<close> proves the invariants of the search for any log of mutations (the contract \<open>mutation_log\<close>) and interprets it by the replay of traces.  \<open>Permute_Props\<close> has the
  end of \<open>main\<close> and the guarantees: the best candidate is a strict improvement that its trace
  reproduces, the workers stop, the number of candidates is bounded, narrowing never makes the rank
  worse, only improvements are written, and a saved recipe replays.

  \<^bold>\<open>Fuel.\<close>  Loops whose end is not structural take fuel, running out is the error
  \<open>OutOfFuel\<close>, and each component proves that its entry points never return it.  The argument
  parser takes the length of its text, for every iteration consumes a character; the floods of the
  graph take the number of nodes, for every round adds one, and its depth-first search the number of
  edges and one more, for every node is expanded once; the construction of nodes takes the number of
  blocks and one more, for every call marks a block; the loop over a MIPS body its length; the
  demangler eight times the length of its text plus eight, for at most eight calls are made before a
  character is read; the draws of \<open>step_result\<close> the number of passes, for
  every draw drops one.  The search for a previous line takes the position plus one, which is enough on
  the sources for which it ends.  The rounds of the dominators end by a measure, the elements of the
  sets, and need no fuel.  Where the source pops an element of a set or draws a random number,
  the choice is an argument, and the results hold for every choice.

  \<^bold>\<open>Arguments of the model.\<close>  Code outside the repository enters as an argument: tree-sitter's trees,
  \<open>difflib\<close>'s opcodes, SHA-256, the compiler, the answers of the scoring server, clang's types, files
  included in a listing, and the packing of floating-point numbers.  So do the finer edits that
  \<open>_simplify_cast_edits\<close> proposes to narrowing: what is shown holds whatever they are.

  \<^bold>\<open>Not modelled.\<close>  The symbolic evaluation to C (\<open>translate.py\<close> apart from the expressions above,
  \<open>types.py\<close>, \<open>c_types.py\<close>, \<open>if_statements.py\<close>, \<open>ir_pattern.py\<close>), which rests on the unification of
  mutable types and on a vendored C parser; the targets \<open>arch_mips.py\<close> and \<open>arch_arm.py\<close>, which the
  harness does not use; command lines, printed reports, warnings and graph drawings; edits of an
  instruction in place through \<open>InstrRef\<close>; the mutation passes that walk to the parents of nodes or
  need types; precompiled headers; Python's limits on recursion and on the digits of \<open>int\<close>; the other
  scripts under \<open>src/tools\<close>, which drive processes and edit files; and the parts in Rust, C++ and C
  (\<open>objdiff\<close>, \<open>wibo\<close>, \<open>mwcc_debug\<close>).
\<close>

end
